(* ===== verification/Prelude.thy ===== *)
theory Prelude
  imports Main "HOL-Library.Sublist" "HOL-Library.Word"
begin

text \<open>
  What the components share: the parts of Go's \<^verbatim>\<open>strings\<close>, \<^verbatim>\<open>bytes\<close>, \<^verbatim>\<open>slices\<close> and
  \<^verbatim>\<open>time\<close> packages that the server uses, as executable functions on byte strings
  (\<open>string\<close> is a list of 8-bit characters, as a Go string is a sequence of bytes), and the
  list and sum lemmas the component proofs rest on.  Case mapping and white space follow Go
  on the ASCII range; bytes above 127 are never changed by case mapping.
\<close>

named_theorems go_simps \<open>unfolding rules of the Go library functions\<close>

section \<open>Characters\<close>

definition code :: "char \<Rightarrow> nat" where
  "code c = of_char c"

definition lower_char :: "char \<Rightarrow> char" where
  "lower_char c = (if 65 \<le> code c \<and> code c \<le> 90 then char_of (code c + 32) else c)"

definition is_space :: "char \<Rightarrow> bool" where
  "is_space c \<longleftrightarrow> code c \<in> {9, 10, 11, 12, 13, 32}"

definition is_digit :: "char \<Rightarrow> bool" where
  "is_digit c \<longleftrightarrow> 48 \<le> code c \<and> code c \<le> 57"

abbreviation CR :: char where "CR \<equiv> CHR 0x0D"
abbreviation LF :: char where "LF \<equiv> CHR 0x0A"
abbreviation TAB :: char where "TAB \<equiv> CHR 0x09"
abbreviation SP :: char where "SP \<equiv> CHR 0x20"

lemma code_lt [simp]: "code c < 256"
  by (simp add: code_def)

lemma code_inject: "code c = code d \<longleftrightarrow> c = d"
  by (simp add: code_def)

lemma code_char_of [simp]: "n < 256 \<Longrightarrow> code (char_of n) = n"
  by (simp add: code_def)

lemma lower_char_idem [simp]: "lower_char (lower_char c) = lower_char c"
  by (simp add: lower_char_def)

section \<open>The strings package\<close>

definition to_lower :: "string \<Rightarrow> string" where
  "to_lower s = map lower_char s"

definition equal_fold :: "string \<Rightarrow> string \<Rightarrow> bool" where
  "equal_fold a b \<longleftrightarrow> to_lower a = to_lower b"

definition trim_left :: "(char \<Rightarrow> bool) \<Rightarrow> string \<Rightarrow> string" where
  "trim_left p s = dropWhile p s"

definition trim_right :: "(char \<Rightarrow> bool) \<Rightarrow> string \<Rightarrow> string" where
  "trim_right p s = rev (dropWhile p (rev s))"

definition trim_space :: "string \<Rightarrow> string" where
  "trim_space s = trim_right is_space (trim_left is_space s)"

definition has_prefix :: "string \<Rightarrow> string \<Rightarrow> bool" where
  "has_prefix s p \<longleftrightarrow> take (length p) s = p"

definition has_suffix :: "string \<Rightarrow> string \<Rightarrow> bool" where
  "has_suffix s p \<longleftrightarrow> length p \<le> length s \<and> drop (length s - length p) s = p"

definition trim_prefix :: "string \<Rightarrow> string \<Rightarrow> string" where
  "trim_prefix s p = (if has_prefix s p then drop (length p) s else s)"

definition trim_suffix :: "string \<Rightarrow> string \<Rightarrow> string" where
  "trim_suffix s p = (if has_suffix s p then take (length s - length p) s else s)"

definition cut_prefix :: "string \<Rightarrow> string \<Rightarrow> string \<times> bool" where
  "cut_prefix s p = (if has_prefix s p then (drop (length p) s, True) else (s, False))"

text \<open>\<open>index_of sep s\<close> is \<^verbatim>\<open>strings.Index\<close>: the first position of \<open>sep\<close>, \<open>None\<close> for -1.\<close>

fun index_of :: "string \<Rightarrow> string \<Rightarrow> nat option" where
  "index_of sep [] = (if sep = [] then Some 0 else None)"
| "index_of sep (c # cs) =
     (if has_prefix (c # cs) sep then Some 0 else map_option Suc (index_of sep cs))"

text \<open>\<^verbatim>\<open>strings.Cut\<close>: text before, text after, whether the separator was found.\<close>

definition cut :: "string \<Rightarrow> string \<Rightarrow> string \<times> string \<times> bool" where
  "cut s sep = (case index_of sep s of
     None \<Rightarrow> (s, [], False)
   | Some i \<Rightarrow> (take i s, drop (i + length sep) s, True))"

definition contains :: "string \<Rightarrow> string \<Rightarrow> bool" where
  "contains s sub \<longleftrightarrow> index_of sub s \<noteq> None"

text \<open>\<^verbatim>\<open>strings.Split\<close> on one separator byte, and \<^verbatim>\<open>strings.Join\<close>.\<close>

fun split_on :: "char \<Rightarrow> string \<Rightarrow> string list" where
  "split_on d [] = [[]]"
| "split_on d (c # cs) =
     (if c = d then [] # split_on d cs
      else (case split_on d cs of [] \<Rightarrow> [[c]] | w # ws \<Rightarrow> (c # w) # ws))"

fun join :: "string \<Rightarrow> string list \<Rightarrow> string" where
  "join sep [] = []"
| "join sep [w] = w"
| "join sep (w # v # ws) = w @ sep @ join sep (v # ws)"

text \<open>\<^verbatim>\<open>strings.Fields\<close>: the maximal runs of non-space characters.\<close>

fun fields_acc :: "string \<Rightarrow> string \<Rightarrow> string list" where
  "fields_acc w [] = (if w = [] then [] else [rev w])"
| "fields_acc w (c # cs) =
     (if is_space c then (if w = [] then fields_acc [] cs else rev w # fields_acc [] cs)
      else fields_acc (c # w) cs)"

definition fields :: "string \<Rightarrow> string list" where
  "fields s = fields_acc [] s"

subsection \<open>Facts\<close>

lemma to_lower_Nil [simp]: "to_lower [] = []"
  by (simp add: to_lower_def)

lemma to_lower_idem [simp]: "to_lower (to_lower s) = to_lower s"
  by (simp add: to_lower_def)

lemma to_lower_append [simp]: "to_lower (a @ b) = to_lower a @ to_lower b"
  by (simp add: to_lower_def)

lemma length_to_lower [simp]: "length (to_lower s) = length s"
  by (simp add: to_lower_def)

lemma to_lower_eq_Nil [simp]: "to_lower s = [] \<longleftrightarrow> s = []"
  by (simp add: to_lower_def)

lemma equal_fold_refl [simp]: "equal_fold s s"
  by (simp add: equal_fold_def)

lemma equal_fold_sym: "equal_fold a b \<longleftrightarrow> equal_fold b a"
  by (auto simp: equal_fold_def)

lemma equal_fold_trans: "equal_fold a b \<Longrightarrow> equal_fold b c \<Longrightarrow> equal_fold a c"
  by (simp add: equal_fold_def)

lemma equal_fold_lower [simp]:
  "equal_fold (to_lower a) b = equal_fold a b" "equal_fold a (to_lower b) = equal_fold a b"
  by (simp_all add: equal_fold_def)

lemma has_prefix_iff: "has_prefix s p \<longleftrightarrow> (\<exists>t. s = p @ t)"
  by (auto simp: has_prefix_def) (metis append_take_drop_id)

lemma has_prefix_append [simp]: "has_prefix (p @ t) p"
  by (simp add: has_prefix_def)

lemma has_suffix_append [simp]: "has_suffix (t @ p) p"
  by (simp add: has_suffix_def)

lemma has_suffix_iff: "has_suffix s p \<longleftrightarrow> (\<exists>t. s = t @ p)"
  by (auto simp: has_suffix_def) (metis append_take_drop_id)

lemma index_of_Some:
  "index_of sep s = Some i \<Longrightarrow> \<exists>a b. s = a @ sep @ b \<and> length a = i"
proof (induction s arbitrary: i)
  case Nil
  then show ?case by (auto split: if_splits)
next
  case (Cons c cs)
  show ?case
  proof (cases "has_prefix (c # cs) sep")
    case True
    with Cons.prems show ?thesis by (auto simp: has_prefix_iff)
  next
    case False
    with Cons.prems obtain j where "index_of sep cs = Some j" "i = Suc j" by auto
    with Cons.IH obtain a b where "cs = a @ sep @ b" "length a = j" by blast
    with \<open>i = Suc j\<close> have "c # cs = (c # a) @ sep @ b \<and> length (c # a) = i" by simp
    then show ?thesis by blast
  qed
qed

lemma index_of_None: "index_of sep s = None \<Longrightarrow> s \<noteq> a @ sep @ b"
proof (induction s arbitrary: a)
  case Nil
  then show ?case by (auto split: if_splits)
next
  case (Cons c cs)
  then have np: "\<not> has_prefix (c # cs) sep" and n: "index_of sep cs = None"
    by (auto split: if_splits)
  show ?case
  proof
    assume eq: "c # cs = a @ sep @ b"
    show False
    proof (cases a)
      case Nil
      with eq np show ?thesis by simp
    next
      case (Cons d ds)
      with eq have "cs = ds @ sep @ b" by simp
      with Cons.IH [OF n] show ?thesis by blast
    qed
  qed
qed

lemma contains_iff: "contains s sub \<longleftrightarrow> (\<exists>a b. s = a @ sub @ b)"
  unfolding contains_def by (meson index_of_None index_of_Some not_None_eq)

lemma index_of_char_None: "c \<notin> set s \<Longrightarrow> index_of [c] s = None"
  by (induction s) (auto simp: has_prefix_def)

lemma index_of_char: "c \<notin> set a \<Longrightarrow> index_of [c] (a @ c # b) = Some (length a)"
  by (induction a) (auto simp: has_prefix_def)

lemma cut_char_None [simp]: "c \<notin> set s \<Longrightarrow> cut s [c] = (s, [], False)"
  by (simp add: cut_def index_of_char_None)

lemma cut_char: "c \<notin> set a \<Longrightarrow> cut (a @ c # b) [c] = (a, b, True)"
  by (simp add: cut_def index_of_char)

lemma cut_found: "cut s sep = (a, b, True) \<Longrightarrow> s = a @ sep @ b"
  by (auto simp: cut_def split: option.splits dest!: index_of_Some)

lemma cut_not_found: "cut s sep = (a, b, False) \<Longrightarrow> a = s \<and> b = []"
  by (auto simp: cut_def split: option.splits)

lemma split_on_not_Nil [simp]: "split_on d s \<noteq> []"
  by (cases s) (auto split: list.splits)

lemma join_split_on [simp]: "join [d] (split_on d s) = s"
proof (induction s)
  case Nil
  then show ?case by simp
next
  case (Cons c cs)
  obtain w ws where w: "split_on d cs = w # ws" by (cases "split_on d cs") auto
  with Cons show ?case by (cases ws) auto
qed

lemma split_on_no_sep: "w \<in> set (split_on d s) \<Longrightarrow> d \<notin> set w"
  by (induction s arbitrary: w) (auto split: list.splits if_splits)

lemma split_on_join:
  assumes "ws \<noteq> []" and "\<forall>w \<in> set ws. d \<notin> set w"
  shows "split_on d (join [d] ws) = ws"
  using assms
proof (induction ws rule: induct_list012)
  case (2 w)
  then show ?case
    by (induction w) auto
next
  case (3 w v ws)
  have hd: "split_on d (x @ d # s) = x # split_on d s" if "d \<notin> set x" for x s
    using that by (induction x) auto
  from 3 show ?case by (simp add: hd)
qed simp

lemma trim_space_Nil [simp]: "trim_space [] = []"
  by (simp add: trim_space_def trim_left_def trim_right_def)

lemma trim_right_append_snoc: "\<not> p c \<Longrightarrow> trim_right p (s @ [c]) = s @ [c]"
  by (simp add: trim_right_def)

lemma trim_right_id: "s = [] \<or> \<not> p (last s) \<Longrightarrow> trim_right p s = s"
  by (cases s rule: rev_cases) (auto simp: trim_right_def)

lemma trim_left_id: "s = [] \<or> \<not> p (hd s) \<Longrightarrow> trim_left p s = s"
  by (cases s) (auto simp: trim_left_def)

section \<open>Slices\<close>

text \<open>The batch loops \<^verbatim>\<open>for start := 0; start < len(xs); start += n\<close> walk the chunks of \<open>xs\<close>.\<close>

fun chunks :: "nat \<Rightarrow> 'a list \<Rightarrow> 'a list list" where
  "chunks n xs = (if n = 0 \<or> xs = [] then [] else take n xs # chunks n (drop n xs))"

declare chunks.simps [simp del]

lemma chunks_Nil [simp]: "chunks n [] = []"
  by (simp add: chunks.simps)

lemma chunks_rec: "0 < n \<Longrightarrow> xs \<noteq> [] \<Longrightarrow> chunks n xs = take n xs # chunks n (drop n xs)"
  by (subst chunks.simps) simp

lemma concat_chunks [simp]: "0 < n \<Longrightarrow> concat (chunks n xs) = xs"
  by (induction n xs rule: chunks.induct) (subst chunks.simps, auto)

lemma length_chunk: "c \<in> set (chunks n xs) \<Longrightarrow> length c \<le> n"
proof (induction n xs rule: chunks.induct)
  case (1 n xs)
  then show ?case
    by (subst (asm) chunks.simps) (auto split: if_splits)
qed

text \<open>Keep the first element with each key, as the \<^verbatim>\<open>seen\<close> maps of the source do.\<close>

fun dedup_on :: "('a \<Rightarrow> 'k) \<Rightarrow> 'k list \<Rightarrow> 'a list \<Rightarrow> 'a list" where
  "dedup_on f seen [] = []"
| "dedup_on f seen (x # xs) =
     (if f x \<in> set seen then dedup_on f seen xs else x # dedup_on f (f x # seen) xs)"

lemma dedup_on_set: "f ` set (dedup_on f seen xs) = f ` set xs - set seen"
  by (induction xs arbitrary: seen) auto

lemma dedup_on_subset: "set (dedup_on f seen xs) \<subseteq> set xs"
  by (induction xs arbitrary: seen) (auto split: if_splits)

lemma dedup_on_distinct: "distinct (map f (dedup_on f seen xs))"
proof (induction xs arbitrary: seen)
  case Nil
  then show ?case by simp
next
  case (Cons x xs)
  have "f x \<notin> f ` set (dedup_on f (f x # seen) xs)"
    by (simp add: dedup_on_set)
  with Cons show ?case by simp
qed

lemma dedup_on_snoc:
  "dedup_on f seen (xs @ [x]) = dedup_on f seen xs @ (if f x \<in> set seen \<or> f x \<in> f ` set xs then [] else [x])"
  by (induction xs arbitrary: seen) auto

lemma subseq_dedup_on: "subseq (dedup_on f seen xs) xs"
  by (induction xs arbitrary: seen) (auto intro: subseq_Cons')

section \<open>Integers and time\<close>

text \<open>
  A \<^verbatim>\<open>time.Time\<close> is the number of nanoseconds since January 1 of year 1, so the zero value of the
  type is 0 and \<^verbatim>\<open>IsZero\<close> tests for it; a \<^verbatim>\<open>time.Duration\<close> is a number of nanoseconds.
  \<open>wrap64\<close> is the value an \<^verbatim>\<open>int64\<close> holds after an operation with the exact result \<open>x\<close>.
\<close>

type_synonym time = int
type_synonym duration = int

definition wrap64 :: "int \<Rightarrow> int" where
  "wrap64 x = (x + 2 ^ 63) mod 2 ^ 64 - 2 ^ 63"

definition int64_range :: "int \<Rightarrow> bool" where
  "int64_range x \<longleftrightarrow> - (2 ^ 63) \<le> x \<and> x < 2 ^ 63"

abbreviation second :: duration where "second \<equiv> 1000000000"
abbreviation millisecond :: duration where "millisecond \<equiv> 1000000"
abbreviation minute :: duration where "minute \<equiv> 60000000000"
abbreviation hour :: duration where "hour \<equiv> 3600000000000"
abbreviation day :: duration where "day \<equiv> 86400000000000"

lemma wrap64_id [simp]: "int64_range x \<Longrightarrow> wrap64 x = x"
  by (simp add: wrap64_def int64_range_def)

lemma wrap64_range [simp]: "int64_range (wrap64 x)"
  by (simp add: wrap64_def int64_range_def)

section \<open>Updating rows of a table\<close>

text \<open>A table is a list of rows; an UPDATE rewrites the rows its WHERE clause selects.\<close>

definition update_where :: "('r \<Rightarrow> bool) \<Rightarrow> ('r \<Rightarrow> 'r) \<Rightarrow> 'r list \<Rightarrow> 'r list" where
  "update_where p f t = map (\<lambda>r. if p r then f r else r) t"

definition delete_where :: "('r \<Rightarrow> bool) \<Rightarrow> 'r list \<Rightarrow> 'r list" where
  "delete_where p t = filter (\<lambda>r. \<not> p r) t"

lemma update_where_Nil [simp]: "update_where p f [] = []"
  by (simp add: update_where_def)

lemma update_where_Cons [simp]:
  "update_where p f (r # t) = (if p r then f r else r) # update_where p f t"
  by (simp add: update_where_def)

lemma update_where_append [simp]:
  "update_where p f (s @ t) = update_where p f s @ update_where p f t"
  by (simp add: update_where_def)

lemma length_update_where [simp]: "length (update_where p f t) = length t"
  by (simp add: update_where_def)

lemma map_update_where: "(\<And>r. p r \<Longrightarrow> k (f r) = k r) \<Longrightarrow> map k (update_where p f t) = map k t"
  by (simp add: update_where_def)

lemma update_where_none: "(\<And>r. r \<in> set t \<Longrightarrow> \<not> p r) \<Longrightarrow> update_where p f t = t"
  by (induction t) auto

lemma filter_update_where:
  "(\<And>r. q (f r) = q r) \<Longrightarrow> filter q (update_where p f t) = update_where p f (filter q t)"
  by (induction t) auto

lemma update_where_cong:
  "(\<And>r. r \<in> set t \<Longrightarrow> p r = q r) \<Longrightarrow> update_where p f t = update_where q f t"
  by (simp add: update_where_def)

lemma in_set_update_where:
  "x \<in> set (update_where p f t) \<longleftrightarrow> (\<exists>r \<in> set t. x = (if p r then f r else r))"
  by (auto simp: update_where_def)

text \<open>Sums over a table, as the quota accounting takes them.\<close>

lemma sum_list_update_where:
  fixes g :: "'r \<Rightarrow> int"
  shows "(\<Sum>r\<leftarrow>update_where p f t. g r)
    = (\<Sum>r\<leftarrow>t. g r) + (\<Sum>r\<leftarrow>filter p t. g (f r) - g r)"
  by (induction t) auto

lemma filter_key_unique:
  assumes "distinct (map k t)" and "r \<in> set t"
  shows "filter (\<lambda>x. k x = k r) t = [r]"
  using assms
proof (induction t)
  case (Cons a t)
  show ?case
  proof (cases "k a = k r")
    case True
    with Cons.prems have "a = r" by (auto simp: image_iff)
    moreover have "filter (\<lambda>x. k x = k r) t = []"
      using Cons.prems True by (auto simp: filter_empty_conv image_iff)
    ultimately show ?thesis by simp
  next
    case False
    with Cons show ?thesis by auto
  qed
qed simp

lemma filter_key_none: "k0 \<notin> k ` set t \<Longrightarrow> filter (\<lambda>x. k x = k0) t = []"
  by (auto simp: filter_empty_conv)

end
