(* ===== verification/Notify.thy ===== *)
theory Notify
  imports Prelude
begin

text \<open>
  The change notifier of \<^verbatim>\<open>internal/mailstore/notify.go\<close>: IMAP sessions subscribe to a container
  (a folder or a label), every mail store operation publishes a change, and a published change
  goes to the local subscribers of its container and, when a remote bus is configured, to the
  other nodes.  A subscriber's channel is a queue of at most 256 changes; a change that does not
  fit is dropped for that subscriber (\<^verbatim>\<open>select\<close> with a \<^verbatim>\<open>default\<close> branch).
\<close>

datatype change_kind = ChangeExists | ChangeExpunge | ChangeFlags

record change =
  ch_node :: string
  ch_mailbox_id :: string
  ch_container :: string
  ch_kind :: change_kind
  ch_uid :: "32 word"
  ch_flags :: "string list"

text \<open>
  A channel is identified by a number; \<open>nf_chans\<close> lists the subscriptions with their queues
  (oldest change first).  \<open>nf_sent\<close> are the payloads handed to the remote bus.
\<close>

record chan =
  cn_id :: nat
  cn_container :: string
  cn_queue :: "change list"

record notifier =
  nf_node :: string
  nf_remote :: bool
  nf_next :: nat
  nf_chans :: "chan list"
  nf_sent :: "change list"

definition chan_capacity :: nat where "chan_capacity = 256"

definition NewNotifier :: "string \<Rightarrow> bool \<Rightarrow> notifier" where
  "NewNotifier node remote =
     \<lparr>nf_node = node, nf_remote = remote, nf_next = 0, nf_chans = [], nf_sent = []\<rparr>"

definition FolderContainer :: "string \<Rightarrow> string" where
  "FolderContainer folderID = ''folder:'' @ folderID"

definition LabelContainer :: "string \<Rightarrow> string" where
  "LabelContainer labelID = ''label:'' @ labelID"

definition offer :: "change \<Rightarrow> chan \<Rightarrow> chan" where
  "offer c ch = (if length (cn_queue ch) < chan_capacity
     then ch\<lparr>cn_queue := cn_queue ch @ [c]\<rparr> else ch)"

definition dispatch :: "change \<Rightarrow> notifier \<Rightarrow> notifier" where
  "dispatch c n = n\<lparr>nf_chans := update_where (\<lambda>ch. cn_container ch = ch_container c) (offer c) (nf_chans n)\<rparr>"

definition Publish :: "change \<Rightarrow> notifier \<Rightarrow> notifier" where
  "Publish c n =
     (let c' = c\<lparr>ch_node := nf_node n\<rparr>; n' = dispatch c' n
      in if nf_remote n then n'\<lparr>nf_sent := nf_sent n' @ [c']\<rparr> else n')"

definition Subscribe :: "string \<Rightarrow> notifier \<Rightarrow> nat \<times> notifier" where
  "Subscribe container n =
     (nf_next n, n\<lparr>nf_next := Suc (nf_next n),
        nf_chans := nf_chans n @ [\<lparr>cn_id = nf_next n, cn_container = container, cn_queue = []\<rparr>]\<rparr>)"

definition Unsubscribe :: "nat \<Rightarrow> notifier \<Rightarrow> notifier" where
  "Unsubscribe i n = n\<lparr>nf_chans := delete_where (\<lambda>ch. cn_id ch = i) (nf_chans n)\<rparr>"

text \<open>The handler \<^verbatim>\<open>Start\<close> installs on the bus: a change of this node is not dispatched again.\<close>

definition remote_receive :: "change \<Rightarrow> notifier \<Rightarrow> notifier" where
  "remote_receive c n = (if ch_node c = nf_node n then n else dispatch c n)"

definition queue_of :: "nat \<Rightarrow> notifier \<Rightarrow> change list" where
  "queue_of i n = concat (map cn_queue (filter (\<lambda>ch. cn_id ch = i) (nf_chans n)))"

text \<open>The receiving end of a channel: take the oldest change, if there is one.\<close>

definition receive :: "nat \<Rightarrow> notifier \<Rightarrow> change option \<times> notifier" where
  "receive i n = (case queue_of i n of
     [] \<Rightarrow> (None, n)
   | c # _ \<Rightarrow> (Some c, n\<lparr>nf_chans := update_where (\<lambda>ch. cn_id ch = i) (\<lambda>ch. ch\<lparr>cn_queue := tl (cn_queue ch)\<rparr>) (nf_chans n)\<rparr>))"

subsection \<open>Invariant\<close>

definition notifier_ok :: "notifier \<Rightarrow> bool" where
  "notifier_ok n \<longleftrightarrow> distinct (map cn_id (nf_chans n))
     \<and> (\<forall>ch \<in> set (nf_chans n). cn_id ch < nf_next n \<and> length (cn_queue ch) \<le> chan_capacity)"

lemma cn_id_offer [simp]: "cn_id (offer c ch) = cn_id ch"
  by (simp add: offer_def)

lemma cn_container_offer [simp]: "cn_container (offer c ch) = cn_container ch"
  by (simp add: offer_def)

lemma map_cn_id_dispatch [simp]: "map cn_id (nf_chans (dispatch c n)) = map cn_id (nf_chans n)"
  by (simp add: dispatch_def map_update_where)

lemma dispatch_frame [simp]:
  "nf_node (dispatch c n) = nf_node n" "nf_remote (dispatch c n) = nf_remote n"
  "nf_next (dispatch c n) = nf_next n" "nf_sent (dispatch c n) = nf_sent n"
  by (simp_all add: dispatch_def)

lemma NewNotifier_ok: "notifier_ok (NewNotifier node remote)"
  by (simp add: notifier_ok_def NewNotifier_def)

lemma dispatch_ok: "notifier_ok n \<Longrightarrow> notifier_ok (dispatch c n)"
  by (auto simp: notifier_ok_def dispatch_def map_update_where in_set_update_where offer_def)

lemma Publish_ok: "notifier_ok n \<Longrightarrow> notifier_ok (Publish c n)"
  using dispatch_ok [of n] by (simp add: Publish_def Let_def notifier_ok_def)

lemma Subscribe_ok: "notifier_ok n \<Longrightarrow> notifier_ok (snd (Subscribe k n))"
  by (fastforce simp: notifier_ok_def Subscribe_def)

lemma Unsubscribe_ok: "notifier_ok n \<Longrightarrow> notifier_ok (Unsubscribe i n)"
  by (auto simp: notifier_ok_def Unsubscribe_def delete_where_def distinct_map_filter)

lemma Publish_frame [simp]: "nf_node (Publish c n) = nf_node n" "nf_remote (Publish c n) = nf_remote n"
  by (simp_all add: Publish_def Let_def)

lemma queue_of_member:
  assumes "notifier_ok n" and "ch \<in> set (nf_chans n)"
  shows "queue_of (cn_id ch) n = cn_queue ch"
  using assms filter_key_unique [of cn_id "nf_chans n" ch]
  by (simp add: queue_of_def notifier_ok_def)

lemma queue_of_Publish:
  assumes ok: "notifier_ok n" and ch: "ch \<in> set (nf_chans n)"
  shows "queue_of (cn_id ch) (Publish c n) =
    (if cn_container ch = ch_container c \<and> length (cn_queue ch) < chan_capacity
     then cn_queue ch @ [c\<lparr>ch_node := nf_node n\<rparr>] else cn_queue ch)"
proof -
  let ?c = "c\<lparr>ch_node := nf_node n\<rparr>"
  let ?ch = "if cn_container ch = ch_container ?c then offer ?c ch else ch"
  have "?ch \<in> set (nf_chans (Publish c n))"
    using ch by (auto simp: Publish_def Let_def dispatch_def in_set_update_where)
  from queue_of_member [OF Publish_ok [OF ok] this]
  have "queue_of (cn_id ?ch) (Publish c n) = cn_queue ?ch" .
  moreover have "cn_id ?ch = cn_id ch" by simp
  ultimately have "queue_of (cn_id ch) (Publish c n) = cn_queue ?ch" by simp
  then show ?thesis by (simp add: offer_def)
qed

lemma container_inject [simp]:
  "FolderContainer a = FolderContainer b \<longleftrightarrow> a = b" "LabelContainer a = LabelContainer b \<longleftrightarrow> a = b"
  "FolderContainer a \<noteq> LabelContainer b" "LabelContainer b \<noteq> FolderContainer a"
  by (simp_all add: FolderContainer_def LabelContainer_def)

end
