(* ===== verification/World.thy ===== *)
theory World
  imports Notify Complex_Main
begin

text \<open>
  The state the server acts on and the way its handlers act on it.  One record per table of
  \<^verbatim>\<open>internal/database/ent/schema\<close>, the database as a record of tables, and the world: database,
  object store, clock, identifier supply, notifier, and a list that decides which of the next
  calls to an external system fail.  Handlers are functions \<open>world \<Rightarrow> (err + 'a) \<times> world\<close>:
  \<open>Inl\<close> is a returned Go error.  Every query and every statement first consults the fault list, so
  each theorem about a handler covers a failure of any of its database calls.  A transaction runs
  its body on the tables and puts the tables back on any error, also on a failed commit.
\<close>

named_theorems io_simps \<open>unfolding rules of the world monad and of the SQL statements\<close>
named_theorems table_defs \<open>the tables as pairs of selector and update\<close>

section \<open>Values\<close>

text \<open>
  \<^verbatim>\<open>float64\<close>: finite values are exact rationals (no rounding is modelled), with the special
  values the code tests for.
\<close>

datatype float64 = Fin rat | NaN | PInf | NInf

fun f64_le :: "float64 \<Rightarrow> float64 \<Rightarrow> bool" where
  "f64_le (Fin a) (Fin b) = (a \<le> b)"
| "f64_le NaN _ = False"
| "f64_le _ NaN = False"
| "f64_le NInf _ = True"
| "f64_le _ PInf = True"
| "f64_le PInf _ = False"
| "f64_le _ NInf = False"

fun f64_lt :: "float64 \<Rightarrow> float64 \<Rightarrow> bool" where
  "f64_lt (Fin a) (Fin b) = (a < b)"
| "f64_lt NaN _ = False"
| "f64_lt _ NaN = False"
| "f64_lt NInf NInf = False"
| "f64_lt NInf _ = True"
| "f64_lt PInf _ = False"
| "f64_lt (Fin _) PInf = True"
| "f64_lt (Fin _) NInf = False"

fun finite_f64 :: "float64 \<Rightarrow> bool" where
  "finite_f64 (Fin _) = True"
| "finite_f64 _ = False"

lemma f64_le_refl [simp]: "f64_le (Fin a) (Fin a)"
  by simp

text \<open>JSON values (\<^verbatim>\<open>any\<close> in the source).\<close>

datatype json = JNull | JBool bool | JNum rat | JStr string | JArr "json list" | JObj "(string \<times> json) list"

section \<open>Errors\<close>

text \<open>
  The errors the code tells apart: the four kinds of \<^verbatim>\<open>ent\<close> errors, a failure of the object
  store, the sentinel errors of the packages, and any other error by its text.
\<close>

datatype err =
    NotFound | NotSingular | ConstraintError | DbError | BlobError
  | ErrOverQuota | ErrDKIMKeyNotFound | ErrSenderNotAllowed | ErrRateLimited
  | ErrTooManyRecipients | ErrInvalidHeader | ErrText string

section \<open>Tables\<close>

record mailbox =
  mb_id :: string
  mb_primary_address :: string
  mb_status :: string
  mb_quota_bytes :: int
  mb_used_bytes :: int
  mb_outbound_limits :: "(string \<times> int) list"
  mb_spam_thresholds :: "(string \<times> float64) list"
  mb_deleted_at :: "time option"

text \<open>
  \<^verbatim>\<open>uid_next\<close> is a bigint column that \<^verbatim>\<open>ent\<close> reads into a \<^verbatim>\<open>uint32\<close>; the column keeps counting
  where the 32-bit value wraps, so it is an \<open>int\<close> here and its reading is \<open>word_of_int\<close>.
\<close>

record folder =
  fo_id :: string
  fo_mailbox_id :: string
  fo_name :: string
  fo_system :: bool
  fo_uid_validity :: "32 word"
  fo_uid_next :: int

record label =
  la_id :: string
  la_mailbox_id :: string
  la_name :: string
  la_uid_validity :: "32 word"
  la_uid_next :: int

record mailbox_message =
  mm_id :: string
  mm_mailbox_id :: string
  mm_message_id :: string
  mm_folder_id :: string
  mm_uid :: "32 word"
  mm_original_rcpt :: string
  mm_base_rcpt :: string
  mm_plus_tag :: string
  mm_resolved_route_id :: string
  mm_read :: bool
  mm_flagged :: bool
  mm_answered :: bool
  mm_draft :: bool
  mm_imap_deleted :: bool
  mm_keywords :: "string list"
  mm_created_at :: time
  mm_updated_at :: time
  mm_deleted_at :: "time option"

record label_link =
  ln_id :: string
  ln_mm_id :: string
  ln_label_id :: string
  ln_uid :: "32 word"
  ln_created_at :: time

record message =
  me_id :: string
  me_trace_id :: string
  me_rfc_message_id :: string
  me_blob_key :: string
  me_sha256 :: string
  me_size_bytes :: int
  me_headers :: "(string \<times> string list) list"
  me_from :: "string list"
  me_to :: "string list"
  me_cc :: "string list"
  me_bcc :: "string list"
  me_subject :: string
  me_date :: "time option"
  me_text_extract :: string
  me_html_extract :: string
  me_attachments :: "json list"
  me_spam_score :: float64
  me_auth_results :: "(string \<times> json) list"
  me_created_at :: time

record route =
  ro_id :: string
  ro_source_address :: string
  ro_type :: string
  ro_destinations :: "string list"
  ro_status :: string
  ro_deleted_at :: "time option"

record routing_rule =
  rr_id :: string
  rr_scope :: string
  rr_scope_ref :: string
  rr_priority :: int
  rr_name :: string
  rr_enabled :: bool
  rr_conditions :: "(string \<times> json) list"
  rr_actions :: "(string \<times> json) list list"
  rr_created_at :: time

record outbound_job =
  oj_id :: string
  oj_mailbox_id :: string
  oj_sender_domain :: string
  oj_message_id :: string
  oj_return_path :: string
  oj_recipients :: "string list"
  oj_status :: string
  oj_attempts :: int
  oj_locked_by :: "string option"
  oj_locked_until :: "time option"
  oj_next_attempt_at :: "time option"
  oj_last_error :: "(string \<times> json) list"
  oj_created_at :: time
  oj_updated_at :: time

record outbound_attempt =
  oa_id :: string
  oa_outbound_job_id :: string
  oa_message_id :: string
  oa_smtp_code :: "int option"
  oa_enhanced_status_code :: string
  oa_classification :: string
  oa_response :: string
  oa_created_at :: time

record dkim_key =
  dk_id :: string
  dk_domain :: string
  dk_selector :: string
  dk_private_key_pem :: string
  dk_created_at :: time

record bounce_event =
  be_id :: string
  be_message_id :: string
  be_recipient :: string
  be_blob_key :: string
  be_sha256 :: string
  be_size_bytes :: int
  be_details :: "(string \<times> json) list"
  be_created_at :: time

record sender_rule =
  sr_id :: string
  sr_scope :: string
  sr_scope_ref :: string
  sr_kind :: string
  sr_match_type :: string
  sr_value :: string
  sr_action :: string

record event_log =
  ev_id :: string
  ev_event_type :: string
  ev_trace_id :: string
  ev_message_id :: string
  ev_mailbox_id :: string
  ev_payload :: "(string \<times> json) list"
  ev_status :: string
  ev_attempts :: int
  ev_locked_by :: "string option"
  ev_locked_until :: "time option"
  ev_next_attempt_at :: "time option"
  ev_last_error :: "(string \<times> json) list"
  ev_created_at :: time

record auth_lockout =
  al_id :: string
  al_failures :: int
  al_window_start :: time
  al_locked_until :: "time option"

record app_password =
  ap_id :: string
  ap_mailbox_id :: string
  ap_hash :: string
  ap_scopes :: "string list"
  ap_last_used_at :: "time option"
  ap_revoked_at :: "time option"
  ap_deleted_at :: "time option"

record smtp_credential =
  sc_id :: string
  sc_username :: string
  sc_hash :: string
  sc_domains :: "string list"
  sc_last_used_at :: "time option"
  sc_revoked_at :: "time option"

record export_job =
  ej_id :: string
  ej_mailbox_id :: string
  ej_status :: string
  ej_object_key :: "string option"
  ej_size_bytes :: int
  ej_locked_by :: "string option"
  ej_locked_until :: "time option"
  ej_last_error :: "(string \<times> json) list"
  ej_expires_at :: "time option"
  ej_created_at :: time

record import_job =
  ij_id :: string
  ij_mailbox_id :: string
  ij_source_type :: string
  ij_source :: "(string \<times> json) list"
  ij_status :: string
  ij_imported_count :: int
  ij_locked_by :: "string option"
  ij_locked_until :: "time option"
  ij_last_error :: "(string \<times> json) list"
  ij_created_at :: time

record audit_event =
  au_id :: string
  au_event_type :: string
  au_actor_type :: string
  au_actor_id :: string
  au_entity_type :: string
  au_entity_id :: string
  au_mailbox_id :: string
  au_trace_id :: string
  au_details :: "(string \<times> json) list"
  au_created_at :: time

record db =
  db_mailboxes :: "mailbox list"
  db_folders :: "folder list"
  db_labels :: "label list"
  db_mms :: "mailbox_message list"
  db_links :: "label_link list"
  db_messages :: "message list"
  db_routes :: "route list"
  db_rules :: "routing_rule list"
  db_jobs :: "outbound_job list"
  db_attempts :: "outbound_attempt list"
  db_dkim_keys :: "dkim_key list"
  db_bounces :: "bounce_event list"
  db_sender_rules :: "sender_rule list"
  db_events :: "event_log list"
  db_lockouts :: "auth_lockout list"
  db_app_passwords :: "app_password list"
  db_smtp_credentials :: "smtp_credential list"
  db_exports :: "export_job list"
  db_imports :: "import_job list"
  db_audit :: "audit_event list"

section \<open>The world and its monad\<close>

record world =
  w_db :: db
  w_blobs :: "(string \<times> string) list"
  w_clock :: time
  w_ids :: "nat \<Rightarrow> string"
  w_idc :: nat
  w_faults :: "bool list"
  w_notifier :: notifier

type_synonym 'a io = "world \<Rightarrow> (err + 'a) \<times> world"

definition ret :: "'a \<Rightarrow> 'a io" where
  "ret x = (\<lambda>w. (Inr x, w))"

definition fail :: "err \<Rightarrow> 'a io" where
  "fail e = (\<lambda>w. (Inl e, w))"

definition bindE :: "'a io \<Rightarrow> ('a \<Rightarrow> 'b io) \<Rightarrow> 'b io" where
  "bindE m f = (\<lambda>w. case m w of (Inl e, w') \<Rightarrow> (Inl e, w') | (Inr x, w') \<Rightarrow> f x w')"

text \<open>\<open>tryE\<close> hands an error to the code as a value, for the places that inspect it.\<close>

definition tryE :: "'a io \<Rightarrow> (err + 'a) io" where
  "tryE m = (\<lambda>w. case m w of (r, w') \<Rightarrow> (Inr r, w'))"

definition now :: "time io" where
  "now = (\<lambda>w. (Inr (w_clock w), w))"

definition newID :: "string io" where
  "newID = (\<lambda>w. (Inr (w_ids w (w_idc w)), w\<lparr>w_idc := Suc (w_idc w)\<rparr>))"

definition publish :: "change \<Rightarrow> unit io" where
  "publish c = (\<lambda>w. (Inr (), w\<lparr>w_notifier := Publish c (w_notifier w)\<rparr>))"

fun forE :: "'a list \<Rightarrow> ('a \<Rightarrow> unit io) \<Rightarrow> unit io" where
  "forE [] f = ret ()"
| "forE (x # xs) f = bindE (f x) (\<lambda>_. forE xs f)"

fun mapE :: "'a list \<Rightarrow> ('a \<Rightarrow> 'b io) \<Rightarrow> 'b list io" where
  "mapE [] f = ret []"
| "mapE (x # xs) f = bindE (f x) (\<lambda>y. bindE (mapE xs f) (\<lambda>ys. ret (y # ys)))"

fun foldE :: "('s \<Rightarrow> 'a \<Rightarrow> 's io) \<Rightarrow> 's \<Rightarrow> 'a list \<Rightarrow> 's io" where
  "foldE f s [] = ret s"
| "foldE f s (x # xs) = bindE (f s x) (\<lambda>s'. foldE f s' xs)"

text \<open>One call to the database: it fails, with no effect, when the fault list says so.\<close>

definition dbcall :: "(db \<Rightarrow> (err + 'a) \<times> db) \<Rightarrow> 'a io" where
  "dbcall f = (\<lambda>w. case w_faults w of
       True # fs \<Rightarrow> (Inl DbError, w\<lparr>w_faults := fs\<rparr>)
     | _ \<Rightarrow> (case f (w_db w) of (r, d) \<Rightarrow> (r, w\<lparr>w_db := d, w_faults := tl (w_faults w)\<rparr>)))"

text \<open>
  \<^verbatim>\<open>tx, err := client.Tx(ctx)\<close>, the body on the transaction, \<^verbatim>\<open>tx.Rollback()\<close> before every error
  return, \<^verbatim>\<open>tx.Commit()\<close> at the end.  Opening and committing are calls that may fail.
\<close>

definition in_tx :: "'a io \<Rightarrow> 'a io" where
  "in_tx body = (\<lambda>w. case dbcall (\<lambda>d. (Inr (), d)) w of
       (Inl e, w1) \<Rightarrow> (Inl e, w1)
     | (Inr _, w1) \<Rightarrow> (case body w1 of
         (Inl e, w2) \<Rightarrow> (Inl e, w2\<lparr>w_db := w_db w1\<rparr>)
       | (Inr x, w2) \<Rightarrow> (case dbcall (\<lambda>d. (Inr (), d)) w2 of
           (Inl e, w3) \<Rightarrow> (Inl e, w3\<lparr>w_db := w_db w1\<rparr>)
         | (Inr _, w3) \<Rightarrow> (Inr x, w3))))"

section \<open>SQL statements\<close>

type_synonym 'r table = "(db \<Rightarrow> 'r list) \<times> (('r list \<Rightarrow> 'r list) \<Rightarrow> db \<Rightarrow> db)"

definition T_mailboxes :: "mailbox table" where [table_defs]: "T_mailboxes = (db_mailboxes, \<lambda>g d. d\<lparr>db_mailboxes := g (db_mailboxes d)\<rparr>)"
definition T_folders :: "folder table" where [table_defs]: "T_folders = (db_folders, \<lambda>g d. d\<lparr>db_folders := g (db_folders d)\<rparr>)"
definition T_labels :: "label table" where [table_defs]: "T_labels = (db_labels, \<lambda>g d. d\<lparr>db_labels := g (db_labels d)\<rparr>)"
definition T_mms :: "mailbox_message table" where [table_defs]: "T_mms = (db_mms, \<lambda>g d. d\<lparr>db_mms := g (db_mms d)\<rparr>)"
definition T_links :: "label_link table" where [table_defs]: "T_links = (db_links, \<lambda>g d. d\<lparr>db_links := g (db_links d)\<rparr>)"
definition T_messages :: "message table" where [table_defs]: "T_messages = (db_messages, \<lambda>g d. d\<lparr>db_messages := g (db_messages d)\<rparr>)"
definition T_routes :: "route table" where [table_defs]: "T_routes = (db_routes, \<lambda>g d. d\<lparr>db_routes := g (db_routes d)\<rparr>)"
definition T_rules :: "routing_rule table" where [table_defs]: "T_rules = (db_rules, \<lambda>g d. d\<lparr>db_rules := g (db_rules d)\<rparr>)"
definition T_jobs :: "outbound_job table" where [table_defs]: "T_jobs = (db_jobs, \<lambda>g d. d\<lparr>db_jobs := g (db_jobs d)\<rparr>)"
definition T_attempts :: "outbound_attempt table" where [table_defs]: "T_attempts = (db_attempts, \<lambda>g d. d\<lparr>db_attempts := g (db_attempts d)\<rparr>)"
definition T_dkim_keys :: "dkim_key table" where [table_defs]: "T_dkim_keys = (db_dkim_keys, \<lambda>g d. d\<lparr>db_dkim_keys := g (db_dkim_keys d)\<rparr>)"
definition T_bounces :: "bounce_event table" where [table_defs]: "T_bounces = (db_bounces, \<lambda>g d. d\<lparr>db_bounces := g (db_bounces d)\<rparr>)"
definition T_sender_rules :: "sender_rule table" where [table_defs]: "T_sender_rules = (db_sender_rules, \<lambda>g d. d\<lparr>db_sender_rules := g (db_sender_rules d)\<rparr>)"
definition T_events :: "event_log table" where [table_defs]: "T_events = (db_events, \<lambda>g d. d\<lparr>db_events := g (db_events d)\<rparr>)"
definition T_lockouts :: "auth_lockout table" where [table_defs]: "T_lockouts = (db_lockouts, \<lambda>g d. d\<lparr>db_lockouts := g (db_lockouts d)\<rparr>)"
definition T_app_passwords :: "app_password table" where [table_defs]: "T_app_passwords = (db_app_passwords, \<lambda>g d. d\<lparr>db_app_passwords := g (db_app_passwords d)\<rparr>)"
definition T_smtp_credentials :: "smtp_credential table" where [table_defs]: "T_smtp_credentials = (db_smtp_credentials, \<lambda>g d. d\<lparr>db_smtp_credentials := g (db_smtp_credentials d)\<rparr>)"
definition T_exports :: "export_job table" where [table_defs]: "T_exports = (db_exports, \<lambda>g d. d\<lparr>db_exports := g (db_exports d)\<rparr>)"
definition T_imports :: "import_job table" where [table_defs]: "T_imports = (db_imports, \<lambda>g d. d\<lparr>db_imports := g (db_imports d)\<rparr>)"
definition T_audit :: "audit_event table" where [table_defs]: "T_audit = (db_audit, \<lambda>g d. d\<lparr>db_audit := g (db_audit d)\<rparr>)"

text \<open>\<^verbatim>\<open>Only\<close> wants exactly one row, \<^verbatim>\<open>First\<close> takes the first, both report a missing row.\<close>

fun only :: "'r list \<Rightarrow> err + 'r" where
  "only [] = Inl NotFound"
| "only [r] = Inr r"
| "only _ = Inl NotSingular"

fun first :: "'r list \<Rightarrow> err + 'r" where
  "first [] = Inl NotFound"
| "first (r # _) = Inr r"

definition selectAll :: "'r table \<Rightarrow> ('r \<Rightarrow> bool) \<Rightarrow> 'r list io" where
  "selectAll t p = dbcall (\<lambda>d. (Inr (filter p (fst t d)), d))"

definition selectOnly :: "'r table \<Rightarrow> ('r \<Rightarrow> bool) \<Rightarrow> 'r io" where
  "selectOnly t p = dbcall (\<lambda>d. (only (filter p (fst t d)), d))"

definition selectFirst :: "'r table \<Rightarrow> ('r \<Rightarrow> bool) \<Rightarrow> 'r io" where
  "selectFirst t p = dbcall (\<lambda>d. (first (filter p (fst t d)), d))"

text \<open>\<^verbatim>\<open>Update().Where(p).Set(f).Save\<close>: the number of rows changed.\<close>

definition updateWhere :: "'r table \<Rightarrow> ('r \<Rightarrow> bool) \<Rightarrow> ('r \<Rightarrow> 'r) \<Rightarrow> nat io" where
  "updateWhere t p f = dbcall (\<lambda>d. (Inr (length (filter p (fst t d))), snd t (update_where p f) d))"

text \<open>
  \<^verbatim>\<open>UpdateOneID(i).Set(f).Save\<close>: the new row; no such row is \<open>NotFound\<close>, a clash of the new row
  with another one in a unique index (\<open>clash\<close>) is \<open>ConstraintError\<close>.
\<close>

definition updateOneU :: "'r table \<Rightarrow> ('r \<Rightarrow> 'r \<Rightarrow> bool) \<Rightarrow> ('r \<Rightarrow> bool) \<Rightarrow> ('r \<Rightarrow> 'r) \<Rightarrow> 'r io" where
  "updateOneU t clash p f = dbcall (\<lambda>d. case filter p (fst t d) of
       [] \<Rightarrow> (Inl NotFound, d)
     | r # _ \<Rightarrow> if list_ex (\<lambda>x. \<not> p x \<and> clash (f r) x) (fst t d) then (Inl ConstraintError, d)
                else (Inr (f r), snd t (update_where p f) d))"

definition updateOne :: "'r table \<Rightarrow> ('r \<Rightarrow> bool) \<Rightarrow> ('r \<Rightarrow> 'r) \<Rightarrow> 'r io" where
  "updateOne t p f = dbcall (\<lambda>d. case filter p (fst t d) of
       [] \<Rightarrow> (Inl NotFound, d)
     | r # _ \<Rightarrow> (Inr (f r), snd t (update_where p f) d))"

definition insertRow :: "'r table \<Rightarrow> ('r \<Rightarrow> 'r \<Rightarrow> bool) \<Rightarrow> 'r \<Rightarrow> 'r io" where
  "insertRow t clash r = dbcall (\<lambda>d. if list_ex (clash r) (fst t d) then (Inl ConstraintError, d)
     else (Inr r, snd t (\<lambda>rows. rows @ [r]) d))"

definition deleteWhere :: "'r table \<Rightarrow> ('r \<Rightarrow> bool) \<Rightarrow> nat io" where
  "deleteWhere t p = dbcall (\<lambda>d. (Inr (length (filter p (fst t d))), snd t (delete_where p) d))"

definition deleteOne :: "'r table \<Rightarrow> ('r \<Rightarrow> bool) \<Rightarrow> unit io" where
  "deleteOne t p = dbcall (\<lambda>d. if list_ex p (fst t d) then (Inr (), snd t (delete_where p) d)
     else (Inl NotFound, d))"

section \<open>Object store\<close>

text \<open>Calls to the object store fail by the same fault list; an object is its bytes under a key.\<close>

definition putBlob :: "string \<Rightarrow> string \<Rightarrow> unit io" where
  "putBlob key bytes = (\<lambda>w. case w_faults w of
       True # fs \<Rightarrow> (Inl BlobError, w\<lparr>w_faults := fs\<rparr>)
     | _ \<Rightarrow> (Inr (), w\<lparr>w_blobs := (key, bytes) # filter (\<lambda>kv. fst kv \<noteq> key) (w_blobs w),
               w_faults := tl (w_faults w)\<rparr>))"

definition getBlob :: "string \<Rightarrow> string io" where
  "getBlob key = (\<lambda>w. case w_faults w of
       True # fs \<Rightarrow> (Inl BlobError, w\<lparr>w_faults := fs\<rparr>)
     | _ \<Rightarrow> ((case map_of (w_blobs w) key of None \<Rightarrow> Inl BlobError | Some b \<Rightarrow> Inr b),
             w\<lparr>w_faults := tl (w_faults w)\<rparr>))"

definition deleteBlob :: "string \<Rightarrow> unit io" where
  "deleteBlob key = (\<lambda>w. case w_faults w of
       True # fs \<Rightarrow> (Inl BlobError, w\<lparr>w_faults := fs\<rparr>)
     | _ \<Rightarrow> (Inr (), w\<lparr>w_blobs := filter (\<lambda>kv. fst kv \<noteq> key) (w_blobs w), w_faults := tl (w_faults w)\<rparr>))"

end
