(* ===== verification/Io_Logic.thy ===== *)
theory Io_Logic
  imports World
begin

text \<open>
  Reasoning about handlers: \<open>wp m Q w\<close> says that running \<open>m\<close> in the world \<open>w\<close> ends with a result
  and a world that satisfy \<open>Q\<close>.  The rules compute \<open>wp\<close> along the structure of a handler; a
  database call splits into the failed call and the statement's effect.  The \<open>preserves\<close> rules
  are for invariants that every statement keeps, and \<open>in_tx\<close> has the rule transactions are
  for: an error leaves the tables as they were.
\<close>

named_theorems wp_simps \<open>weakest preconditions of the world monad\<close>

definition wp :: "'a io \<Rightarrow> ((err + 'a) \<Rightarrow> world \<Rightarrow> bool) \<Rightarrow> world \<Rightarrow> bool" where
  "wp m Q w \<longleftrightarrow> (case m w of (r, w') \<Rightarrow> Q r w')"

definition faulty :: "world \<Rightarrow> bool" where
  "faulty w \<longleftrightarrow> (case w_faults w of True # _ \<Rightarrow> True | _ \<Rightarrow> False)"

definition pop :: "world \<Rightarrow> world" where
  "pop w = w\<lparr>w_faults := tl (w_faults w)\<rparr>"

lemma pop_frame [simp]:
  "w_db (pop w) = w_db w" "w_blobs (pop w) = w_blobs w" "w_clock (pop w) = w_clock w"
  "w_ids (pop w) = w_ids w" "w_idc (pop w) = w_idc w" "w_notifier (pop w) = w_notifier w"
  by (simp_all add: pop_def)

lemma pop_update [simp]:
  "pop (w\<lparr>w_db := d\<rparr>) = (pop w)\<lparr>w_db := d\<rparr>"
  "pop (w\<lparr>w_idc := i\<rparr>) = (pop w)\<lparr>w_idc := i\<rparr>"
  "pop (w\<lparr>w_notifier := n\<rparr>) = (pop w)\<lparr>w_notifier := n\<rparr>"
  by (simp_all add: pop_def)

lemma pop_same_db [simp]: "(pop w)\<lparr>w_db := w_db w\<rparr> = pop w"
  by (simp add: pop_def)

lemma faulty_update [simp]:
  "faulty (w\<lparr>w_db := d\<rparr>) = faulty w"
  "faulty (w\<lparr>w_idc := i\<rparr>) = faulty w"
  "faulty (w\<lparr>w_notifier := n\<rparr>) = faulty w"
  by (simp_all add: faulty_def)

lemma dbcall_eq:
  "dbcall f w = (if faulty w then (Inl DbError, pop w)
     else (fst (f (w_db w)), (pop w)\<lparr>w_db := snd (f (w_db w))\<rparr>))"
  by (cases "w_faults w") (auto simp: dbcall_def faulty_def pop_def split: prod.split bool.split)

lemma putBlob_eq:
  "putBlob k b w = (if faulty w then (Inl BlobError, pop w)
     else (Inr (), (pop w)\<lparr>w_blobs := (k, b) # filter (\<lambda>kv. fst kv \<noteq> k) (w_blobs w)\<rparr>))"
  by (cases "w_faults w") (auto simp: putBlob_def faulty_def pop_def split: bool.split)

lemma getBlob_eq:
  "getBlob k w = (if faulty w then (Inl BlobError, pop w)
     else ((case map_of (w_blobs w) k of None \<Rightarrow> Inl BlobError | Some b \<Rightarrow> Inr b), pop w))"
  by (cases "w_faults w") (auto simp: getBlob_def faulty_def pop_def split: bool.split)

lemma deleteBlob_eq:
  "deleteBlob k w = (if faulty w then (Inl BlobError, pop w)
     else (Inr (), (pop w)\<lparr>w_blobs := filter (\<lambda>kv. fst kv \<noteq> k) (w_blobs w)\<rparr>))"
  by (cases "w_faults w") (auto simp: deleteBlob_def faulty_def pop_def split: bool.split)

section \<open>Weakest preconditions\<close>

lemma wp_ret [wp_simps]: "wp (ret x) Q w = Q (Inr x) w"
  by (simp add: wp_def ret_def)

lemma wp_fail [wp_simps]: "wp (fail e) Q w = Q (Inl e) w"
  by (simp add: wp_def fail_def)

lemma wp_bindE [wp_simps]:
  "wp (bindE m f) Q w = wp m (\<lambda>r w'. case r of Inl e \<Rightarrow> Q (Inl e) w' | Inr x \<Rightarrow> wp (f x) Q w') w"
  by (auto simp: wp_def bindE_def split: prod.split sum.split)

lemma wp_tryE [wp_simps]: "wp (tryE m) Q w = wp m (\<lambda>r w'. Q (Inr r) w') w"
  by (auto simp: wp_def tryE_def split: prod.split)

lemma wp_now [wp_simps]: "wp now Q w = Q (Inr (w_clock w)) w"
  by (simp add: wp_def now_def)

lemma wp_newID [wp_simps]: "wp newID Q w = Q (Inr (w_ids w (w_idc w))) (w\<lparr>w_idc := Suc (w_idc w)\<rparr>)"
  by (simp add: wp_def newID_def)

lemma wp_publish [wp_simps]:
  "wp (publish c) Q w = Q (Inr ()) (w\<lparr>w_notifier := Publish c (w_notifier w)\<rparr>)"
  by (simp add: wp_def publish_def)

lemma wp_dbcall:
  "wp (dbcall f) Q w = (if faulty w then Q (Inl DbError) (pop w)
     else Q (fst (f (w_db w))) ((pop w)\<lparr>w_db := snd (f (w_db w))\<rparr>))"
  by (simp add: wp_def dbcall_eq)

lemma wp_if [wp_simps]: "wp (if b then m else n) Q w = (if b then wp m Q w else wp n Q w)"
  by simp

lemma wp_let [wp_simps]: "wp (let x = a in f x) Q w = (let x = a in wp (f x) Q w)"
  by simp

lemma wp_in_tx [wp_simps]:
  "wp (in_tx body) Q w = (if faulty w then Q (Inl DbError) (pop w) else
     wp body (\<lambda>r w2. case r of Inl e \<Rightarrow> Q (Inl e) (w2\<lparr>w_db := w_db w\<rparr>)
       | Inr x \<Rightarrow> if faulty w2 then Q (Inl DbError) ((pop w2)\<lparr>w_db := w_db w\<rparr>) else Q (Inr x) (pop w2)) (pop w))"
  by (auto simp: wp_def in_tx_def dbcall_eq split: prod.split sum.split)

lemma wp_selectAll [wp_simps]:
  "wp (selectAll t p) Q w = (if faulty w then Q (Inl DbError) (pop w)
     else Q (Inr (filter p (fst t (w_db w)))) (pop w))"
  by (simp add: selectAll_def wp_dbcall)

lemma wp_selectOnly [wp_simps]:
  "wp (selectOnly t p) Q w = (if faulty w then Q (Inl DbError) (pop w)
     else Q (only (filter p (fst t (w_db w)))) (pop w))"
  by (simp add: selectOnly_def wp_dbcall)

lemma wp_selectFirst [wp_simps]:
  "wp (selectFirst t p) Q w = (if faulty w then Q (Inl DbError) (pop w)
     else Q (first (filter p (fst t (w_db w)))) (pop w))"
  by (simp add: selectFirst_def wp_dbcall)

lemma wp_updateWhere [wp_simps]:
  "wp (updateWhere t p f) Q w = (if faulty w then Q (Inl DbError) (pop w)
     else Q (Inr (length (filter p (fst t (w_db w))))) ((pop w)\<lparr>w_db := snd t (update_where p f) (w_db w)\<rparr>))"
  by (simp add: updateWhere_def wp_dbcall)

lemma wp_updateOne [wp_simps]:
  "wp (updateOne t p f) Q w = (if faulty w then Q (Inl DbError) (pop w) else
     (case filter p (fst t (w_db w)) of
        [] \<Rightarrow> Q (Inl NotFound) (pop w)
      | r # _ \<Rightarrow> Q (Inr (f r)) ((pop w)\<lparr>w_db := snd t (update_where p f) (w_db w)\<rparr>)))"
  by (simp add: updateOne_def wp_dbcall split: list.split)

lemma wp_updateOneU [wp_simps]:
  "wp (updateOneU t clash p f) Q w = (if faulty w then Q (Inl DbError) (pop w) else
     (case filter p (fst t (w_db w)) of
        [] \<Rightarrow> Q (Inl NotFound) (pop w)
      | r # _ \<Rightarrow> if list_ex (\<lambda>x. \<not> p x \<and> clash (f r) x) (fst t (w_db w)) then Q (Inl ConstraintError) (pop w)
          else Q (Inr (f r)) ((pop w)\<lparr>w_db := snd t (update_where p f) (w_db w)\<rparr>)))"
  by (simp add: updateOneU_def wp_dbcall split: list.split)

lemma wp_insertRow [wp_simps]:
  "wp (insertRow t clash r) Q w = (if faulty w then Q (Inl DbError) (pop w) else
     if list_ex (clash r) (fst t (w_db w)) then Q (Inl ConstraintError) (pop w)
     else Q (Inr r) ((pop w)\<lparr>w_db := snd t (\<lambda>rows. rows @ [r]) (w_db w)\<rparr>))"
  by (simp add: insertRow_def wp_dbcall)

lemma wp_deleteWhere [wp_simps]:
  "wp (deleteWhere t p) Q w = (if faulty w then Q (Inl DbError) (pop w)
     else Q (Inr (length (filter p (fst t (w_db w))))) ((pop w)\<lparr>w_db := snd t (delete_where p) (w_db w)\<rparr>))"
  by (simp add: deleteWhere_def wp_dbcall)

lemma wp_deleteOne [wp_simps]:
  "wp (deleteOne t p) Q w = (if faulty w then Q (Inl DbError) (pop w) else
     if list_ex p (fst t (w_db w)) then Q (Inr ()) ((pop w)\<lparr>w_db := snd t (delete_where p) (w_db w)\<rparr>)
     else Q (Inl NotFound) (pop w))"
  by (simp add: deleteOne_def wp_dbcall)

lemma wp_mono: "wp m Q w \<Longrightarrow> (\<And>r w'. Q r w' \<Longrightarrow> R r w') \<Longrightarrow> wp m R w"
  by (auto simp: wp_def split: prod.splits)

lemma wp_conj: "wp m (\<lambda>r w'. P r w' \<and> Q r w') w \<longleftrightarrow> wp m P w \<and> wp m Q w"
  by (auto simp: wp_def split: prod.splits)

lemma wpD: "wp m Q w \<Longrightarrow> m w = (r, w') \<Longrightarrow> Q r w'"
  by (simp add: wp_def)

lemma wpI: "(\<And>r w'. m w = (r, w') \<Longrightarrow> Q r w') \<Longrightarrow> wp m Q w"
  by (auto simp: wp_def split: prod.split)

lemma wp_bindI:
  assumes "wp m (\<lambda>r w'. case r of Inl e \<Rightarrow> Q (Inl e) w' | Inr x \<Rightarrow> R x w') w"
    and "\<And>x w'. R x w' \<Longrightarrow> wp (f x) Q w'"
  shows "wp (bindE m f) Q w"
  unfolding wp_bindE
  by (rule wp_mono [OF assms(1)]) (use assms(2) in \<open>auto split: sum.splits\<close>)

text \<open>Loops: \<open>I ys s w\<close> holds with accumulator \<open>s\<close> when the elements \<open>ys\<close> have been handled.\<close>

lemma wp_foldE_from:
  assumes "I ys s w"
    and "\<And>ys x s w. I ys s w \<Longrightarrow> x \<in> set xs \<Longrightarrow>
      wp (f s x) (\<lambda>r w'. case r of Inl e \<Rightarrow> E e w' | Inr s' \<Rightarrow> I (ys @ [x]) s' w') w"
  shows "wp (foldE f s xs) (\<lambda>r w'. case r of Inl e \<Rightarrow> E e w' | Inr s' \<Rightarrow> I (ys @ xs) s' w') w"
  using assms
proof (induction xs arbitrary: s w ys)
  case Nil
  then show ?case by (simp add: wp_ret)
next
  case (Cons x xs)
  from Cons.prems have "wp (f s x) (\<lambda>r w'. case r of Inl e \<Rightarrow> E e w' | Inr s' \<Rightarrow> I (ys @ [x]) s' w') w"
    by simp
  then show ?case
    unfolding foldE.simps wp_bindE
  proof (rule wp_mono)
    fix r w'
    assume r: "case r of Inl e \<Rightarrow> E e w' | Inr s' \<Rightarrow> I (ys @ [x]) s' w'"
    show "case r of Inl e \<Rightarrow> (case Inl e of Inl e \<Rightarrow> E e w' | Inr s' \<Rightarrow> I (ys @ x # xs) s' w')
      | Inr s' \<Rightarrow> wp (foldE f s' xs) (\<lambda>r w'. case r of Inl e \<Rightarrow> E e w' | Inr s' \<Rightarrow> I (ys @ x # xs) s' w') w'"
    proof (cases r)
      case (Inl e)
      with r show ?thesis by simp
    next
      case (Inr s')
      have "wp (foldE f s' xs) (\<lambda>r w'. case r of Inl e \<Rightarrow> E e w' | Inr s' \<Rightarrow> I ((ys @ [x]) @ xs) s' w') w'"
        using r Inr Cons.prems(2) by (intro Cons.IH) auto
      then show ?thesis unfolding Inr append_assoc append.simps sum.case .
    qed
  qed
qed

lemma wp_foldE:
  assumes "I [] s w"
    and "\<And>ys x s w. I ys s w \<Longrightarrow> x \<in> set xs \<Longrightarrow>
      wp (f s x) (\<lambda>r w'. case r of Inl e \<Rightarrow> E e w' | Inr s' \<Rightarrow> I (ys @ [x]) s' w') w"
  shows "wp (foldE f s xs) (\<lambda>r w'. case r of Inl e \<Rightarrow> E e w' | Inr s' \<Rightarrow> I xs s' w') w"
  using wp_foldE_from [where I = I and ys = "[]" and xs = xs and f = f and E = E, OF assms] unfolding append_Nil .

lemma forE_foldE: "forE xs f = foldE (\<lambda>_. f) () xs"
  by (induction xs) simp_all

lemma wp_forE:
  assumes "I [] w"
    and "\<And>ys x w. I ys w \<Longrightarrow> x \<in> set xs \<Longrightarrow>
      wp (f x) (\<lambda>r w'. case r of Inl e \<Rightarrow> E e w' | Inr _ \<Rightarrow> I (ys @ [x]) w') w"
  shows "wp (forE xs f) (\<lambda>r w'. case r of Inl e \<Rightarrow> E e w' | Inr _ \<Rightarrow> I xs w') w"
  unfolding forE_foldE by (rule wp_foldE [of "\<lambda>ys _. I ys"]) (use assms in auto)

text \<open>A loop in a loop is the loop over the pairs.\<close>

lemma bindE_assoc: "bindE (bindE m f) g = bindE m (\<lambda>x. bindE (f x) g)"
  by (auto simp: fun_eq_iff bindE_def split: prod.split sum.split)

lemma bindE_ret [simp]: "bindE (ret x) f = f x" "bindE m ret = m"
  by (auto simp: fun_eq_iff bindE_def ret_def split: prod.split sum.split)

lemma foldE_append: "foldE f s (xs @ ys) = bindE (foldE f s xs) (\<lambda>s'. foldE f s' ys)"
  by (induction xs arbitrary: s) (simp_all add: bindE_assoc)

lemma foldE_nested:
  "foldE (\<lambda>s r. foldE (f r) s (g r)) s rs = foldE (\<lambda>s (r, x). f r s x) s (concat (map (\<lambda>r. map (Pair r) (g r)) rs))"
proof (induction rs arbitrary: s)
  case (Cons r rs)
  have "foldE (\<lambda>s (r, x). f r s x) s (map (Pair r) xs) = foldE (f r) s xs" for xs s
    by (induction xs arbitrary: s) simp_all
  with Cons show ?case by (simp add: foldE_append)
qed simp

section \<open>Invariants kept by every call\<close>

definition preserves :: "(world \<Rightarrow> bool) \<Rightarrow> 'a io \<Rightarrow> bool" where
  "preserves I m \<longleftrightarrow> (\<forall>w. I w \<longrightarrow> wp m (\<lambda>_. I) w)"

lemma preservesD: "preserves I m \<Longrightarrow> I w \<Longrightarrow> m w = (r, w') \<Longrightarrow> I w'"
  unfolding preserves_def by (meson wpD)

lemma preserves_ret: "preserves I (ret x)"
  by (simp add: preserves_def wp_simps)

lemma preserves_fail: "preserves I (fail e)"
  by (simp add: preserves_def wp_simps)

lemma preserves_bindE: "preserves I m \<Longrightarrow> (\<And>x. preserves I (f x)) \<Longrightarrow> preserves I (bindE m f)"
  by (auto simp: preserves_def wp_simps elim!: wp_mono split: sum.split)

lemma preserves_tryE: "preserves I m \<Longrightarrow> preserves I (tryE m)"
  by (simp add: preserves_def wp_simps)

lemma preserves_if: "preserves I m \<Longrightarrow> preserves I n \<Longrightarrow> preserves I (if b then m else n)"
  by simp

lemma preserves_forE: "(\<And>x. preserves I (f x)) \<Longrightarrow> preserves I (forE xs f)"
  by (induction xs) (auto intro: preserves_ret preserves_bindE)

lemma preserves_mapE: "(\<And>x. preserves I (f x)) \<Longrightarrow> preserves I (mapE xs f)"
  by (induction xs) (auto intro!: preserves_ret preserves_bindE)

lemma preserves_foldE: "(\<And>s x. preserves I (f s x)) \<Longrightarrow> preserves I (foldE f s xs)"
  by (induction xs arbitrary: s) (auto intro!: preserves_ret preserves_bindE)

lemmas preserves_intros =
  preserves_ret preserves_fail preserves_bindE preserves_tryE preserves_if
  preserves_forE preserves_mapE preserves_foldE

lemma preserves_read:
  "preserves (\<lambda>w. P (w_db w)) (selectAll t p)" "preserves (\<lambda>w. P (w_db w)) (selectOnly t p)"
  "preserves (\<lambda>w. P (w_db w)) (selectFirst t p)" "preserves (\<lambda>w. P (w_db w)) (publish c)"
  "preserves (\<lambda>w. P (w_db w)) now" "preserves (\<lambda>w. P (w_db w)) newID"
  by (simp_all add: preserves_def wp_simps)

lemma preserves_updateWhere:
  "(\<And>d. P d \<Longrightarrow> P (snd t (update_where p f) d)) \<Longrightarrow> preserves (\<lambda>w. P (w_db w)) (updateWhere t p f)"
  by (simp add: preserves_def wp_simps)

lemma preserves_updateOne:
  "(\<And>d. P d \<Longrightarrow> P (snd t (update_where p f) d)) \<Longrightarrow> preserves (\<lambda>w. P (w_db w)) (updateOne t p f)"
  by (auto simp: preserves_def wp_simps split: list.split)

lemma preserves_deleteWhere:
  "(\<And>d. P d \<Longrightarrow> P (snd t (delete_where p) d)) \<Longrightarrow> preserves (\<lambda>w. P (w_db w)) (deleteWhere t p)"
  by (simp add: preserves_def wp_simps)

lemma preserves_deleteOne:
  "(\<And>d. P d \<Longrightarrow> P (snd t (delete_where p) d)) \<Longrightarrow> preserves (\<lambda>w. P (w_db w)) (deleteOne t p)"
  by (simp add: preserves_def wp_simps)

lemma preserves_insertRow:
  "(\<And>d. P d \<Longrightarrow> \<not> list_ex (clash r) (fst t d) \<Longrightarrow> P (snd t (\<lambda>rows. rows @ [r]) d))
    \<Longrightarrow> preserves (\<lambda>w. P (w_db w)) (insertRow t clash r)"
  by (simp add: preserves_def wp_simps)

lemma preserves_in_tx:
  assumes "preserves (\<lambda>w. P (w_db w)) m"
  shows "preserves (\<lambda>w. P (w_db w)) (in_tx m)"
proof -
  have m: "wp m (\<lambda>_ w'. P (w_db w')) (pop w)" if "P (w_db w)" for w
    using assms that by (simp add: preserves_def)
  show ?thesis
    by (auto simp: preserves_def wp_in_tx intro!: wp_mono [OF m] split: sum.splits)
qed

lemmas preserves_db =
  preserves_read preserves_updateWhere preserves_updateOne preserves_deleteWhere preserves_deleteOne
  preserves_insertRow preserves_in_tx

text \<open>The effect of a transaction on the tables: all of the body's or none of it.\<close>

lemma in_tx_error: "in_tx body w = (Inl e, w') \<Longrightarrow> w_db w' = w_db w"
  by (auto simp: in_tx_def dbcall_eq split: prod.splits sum.splits if_splits)

lemma in_tx_ok:
  assumes "in_tx body w = (Inr x, w')"
  obtains w2 where "\<not> faulty w" "body (pop w) = (Inr x, w2)" "\<not> faulty w2" "w' = pop w2"
  using assms by (auto simp: in_tx_def dbcall_eq split: prod.splits sum.splits if_splits)

lemma bindE_ok:
  assumes "bindE m f w = (Inr y, w')"
  obtains x w1 where "m w = (Inr x, w1)" "f x w1 = (Inr y, w')"
  using assms by (auto simp: bindE_def split: prod.splits sum.splits)

lemma preserves_notifier_stmt:
  "preserves (\<lambda>w. w_notifier w = n) (dbcall f)"
  by (simp add: preserves_def wp_dbcall)

text \<open>A handler runs at one time: its calls do not move the clock.\<close>

lemma preserves_clock_in_tx:
  assumes "preserves (\<lambda>w. w_clock w = c) m"
  shows "preserves (\<lambda>w. w_clock w = c) (in_tx m)"
proof -
  have m: "wp m (\<lambda>_ w'. w_clock w' = c) (pop w)" if "w_clock w = c" for w
    using assms that by (simp add: preserves_def)
  show ?thesis
    by (auto simp: preserves_def wp_in_tx intro!: wp_mono [OF m] split: sum.splits)
qed

lemma preserves_clock:
  "preserves (\<lambda>w. w_clock w = c) (dbcall f)" "preserves (\<lambda>w. w_clock w = c) (selectOnly t p)"
  "preserves (\<lambda>w. w_clock w = c) (updateWhere t p g)" "preserves (\<lambda>w. w_clock w = c) (updateOne t p g)"
  "preserves (\<lambda>w. w_clock w = c) now" "preserves (\<lambda>w. w_clock w = c) (publish ch)"
  by (simp_all add: preserves_def wp_dbcall wp_simps split: list.split)

text \<open>Calls to the database leave the objects alone.\<close>

lemma preserves_blobs_in_tx:
  assumes "preserves (\<lambda>w. w_blobs w = b) m"
  shows "preserves (\<lambda>w. w_blobs w = b) (in_tx m)"
proof -
  have m: "wp m (\<lambda>_ w'. w_blobs w' = b) (pop w)" if "w_blobs w = b" for w
    using assms that by (simp add: preserves_def)
  show ?thesis
    by (auto simp: preserves_def wp_in_tx intro!: wp_mono [OF m] split: sum.splits)
qed

lemma preserves_blobs:
  "preserves (\<lambda>w. w_blobs w = b) (dbcall f)" "preserves (\<lambda>w. w_blobs w = b) (selectAll t p)"
  "preserves (\<lambda>w. w_blobs w = b) (selectOnly t p)" "preserves (\<lambda>w. w_blobs w = b) (insertRow t cl x)"
  "preserves (\<lambda>w. w_blobs w = b) (updateWhere t p g)" "preserves (\<lambda>w. w_blobs w = b) (updateOne t p g)"
  "preserves (\<lambda>w. w_blobs w = b) now" "preserves (\<lambda>w. w_blobs w = b) newID" "preserves (\<lambda>w. w_blobs w = b) (publish ch)"
  by (simp_all add: preserves_def wp_dbcall wp_simps split: list.split)

text \<open>Runs in which no call fails.\<close>

lemma no_faults [simp]: "w_faults w = [] \<Longrightarrow> \<not> faulty w" "w_faults w = [] \<Longrightarrow> pop w = w"
  by (simp_all add: faulty_def pop_def)

lemma run_select [simp]:
  assumes "w_faults w = []"
  shows "selectAll t p w = (Inr (filter p (fst t (w_db w))), w)"
    and "selectOnly t p w = (only (filter p (fst t (w_db w))), w)"
    and "selectFirst t p w = (first (filter p (fst t (w_db w))), w)"
  using assms by (simp_all add: selectAll_def selectOnly_def selectFirst_def dbcall_eq)

text \<open>The outcome of a run, for evaluating examples.\<close>

definition returns :: "(err + 'a) \<times> world \<Rightarrow> bool" where
  "returns rw = (case fst rw of Inl _ \<Rightarrow> False | Inr _ \<Rightarrow> True)"

lemma returns_run: "returns rw \<Longrightarrow> \<exists>x. rw = (Inr x, snd rw)"
  by (cases rw) (auto simp: returns_def split: sum.splits)

end
