(* ===== verification/Flags.thy ===== *)
theory Flags
  imports Io_Logic
begin

text \<open>
  Message flags, \<^verbatim>\<open>internal/mailstore/flags.go\<close>: the five system flags as booleans and the
  keywords as a list without two names that differ only in case.
\<close>

definition FlagSeen :: string where "FlagSeen = [CHR 0x5C] @ ''Seen''"
definition FlagAnswered :: string where "FlagAnswered = [CHR 0x5C] @ ''Answered''"
definition FlagFlagged :: string where "FlagFlagged = [CHR 0x5C] @ ''Flagged''"
definition FlagDeleted :: string where "FlagDeleted = [CHR 0x5C] @ ''Deleted''"
definition FlagDraft :: string where "FlagDraft = [CHR 0x5C] @ ''Draft''"

record flags =
  fl_seen :: bool
  fl_answered :: bool
  fl_flagged :: bool
  fl_deleted :: bool
  fl_draft :: bool
  fl_keywords :: "string list"

definition no_flags :: flags where
  "no_flags = \<lparr>fl_seen = False, fl_answered = False, fl_flagged = False, fl_deleted = False,
     fl_draft = False, fl_keywords = []\<rparr>"

definition FlagsOf :: "mailbox_message \<Rightarrow> flags" where
  "FlagsOf item = \<lparr>fl_seen = mm_read item, fl_answered = mm_answered item, fl_flagged = mm_flagged item,
     fl_deleted = mm_imap_deleted item, fl_draft = mm_draft item, fl_keywords = mm_keywords item\<rparr>"

definition flag_list :: "flags \<Rightarrow> string list" where
  "flag_list f =
     (if fl_seen f then [FlagSeen] else []) @
     (if fl_answered f then [FlagAnswered] else []) @
     (if fl_flagged f then [FlagFlagged] else []) @
     (if fl_deleted f then [FlagDeleted] else []) @
     (if fl_draft f then [FlagDraft] else []) @ fl_keywords f"

text \<open>The cases of the \<^verbatim>\<open>switch\<close>, on the lower-cased flag.\<close>

definition set_flag :: "flags \<Rightarrow> string \<Rightarrow> bool \<Rightarrow> flags" where
  "set_flag f flag value = (let l = to_lower flag in
     if l = [CHR 0x5C] @ ''seen'' then f\<lparr>fl_seen := value\<rparr>
     else if l = [CHR 0x5C] @ ''answered'' then f\<lparr>fl_answered := value\<rparr>
     else if l = [CHR 0x5C] @ ''flagged'' then f\<lparr>fl_flagged := value\<rparr>
     else if l = [CHR 0x5C] @ ''deleted'' then f\<lparr>fl_deleted := value\<rparr>
     else if l = [CHR 0x5C] @ ''draft'' then f\<lparr>fl_draft := value\<rparr>
     else if l = [CHR 0x5C] @ ''recent'' \<or> l = [CHR 0x5C] @ ''*'' then f
     else if value then
       (if list_ex (\<lambda>k. equal_fold k flag) (fl_keywords f) then f
        else f\<lparr>fl_keywords := fl_keywords f @ [flag]\<rparr>)
     else f\<lparr>fl_keywords := filter (\<lambda>k. \<not> equal_fold k flag) (fl_keywords f)\<rparr>)"

definition ParseFlags :: "string list \<Rightarrow> flags" where
  "ParseFlags values = foldl (\<lambda>f v. set_flag f v True) no_flags values"

definition has_flag :: "flags \<Rightarrow> string \<Rightarrow> bool" where
  "has_flag f flag = (let l = to_lower flag in
     if l = [CHR 0x5C] @ ''seen'' then fl_seen f
     else if l = [CHR 0x5C] @ ''answered'' then fl_answered f
     else if l = [CHR 0x5C] @ ''flagged'' then fl_flagged f
     else if l = [CHR 0x5C] @ ''deleted'' then fl_deleted f
     else if l = [CHR 0x5C] @ ''draft'' then fl_draft f
     else list_ex (\<lambda>k. equal_fold k flag) (fl_keywords f))"

definition apply_flags :: "flags \<Rightarrow> mailbox_message \<Rightarrow> mailbox_message" where
  "apply_flags f item = item\<lparr>mm_read := fl_seen f, mm_answered := fl_answered f, mm_flagged := fl_flagged f,
     mm_imap_deleted := fl_deleted f, mm_draft := fl_draft f, mm_keywords := fl_keywords f\<rparr>"

subsection \<open>Well-formed flags\<close>

definition reserved_flags :: "string list" where
  "reserved_flags = map (\<lambda>s. [CHR 0x5C] @ s)
     [''seen'', ''answered'', ''flagged'', ''deleted'', ''draft'', ''recent'', ''*'']"

definition flags_ok :: "flags \<Rightarrow> bool" where
  "flags_ok f \<longleftrightarrow> distinct (map to_lower (fl_keywords f))
     \<and> (\<forall>k \<in> set (fl_keywords f). to_lower k \<notin> set reserved_flags)"

lemma to_lower_system [simp]:
  "to_lower FlagSeen = [CHR 0x5C] @ ''seen''"
  "to_lower FlagAnswered = [CHR 0x5C] @ ''answered''"
  "to_lower FlagFlagged = [CHR 0x5C] @ ''flagged''"
  "to_lower FlagDeleted = [CHR 0x5C] @ ''deleted''"
  "to_lower FlagDraft = [CHR 0x5C] @ ''draft''"
  by code_simp+

lemma set_flag_system:
  "set_flag f FlagSeen v = f\<lparr>fl_seen := v\<rparr>"
  "set_flag f FlagAnswered v = f\<lparr>fl_answered := v\<rparr>"
  "set_flag f FlagFlagged v = f\<lparr>fl_flagged := v\<rparr>"
  "set_flag f FlagDeleted v = f\<lparr>fl_deleted := v\<rparr>"
  "set_flag f FlagDraft v = f\<lparr>fl_draft := v\<rparr>"
  by (simp_all add: set_flag_def)

lemma set_flag_keyword:
  "to_lower k \<notin> set reserved_flags \<Longrightarrow> set_flag f k True =
     (if to_lower k \<in> set (map to_lower (fl_keywords f)) then f else f\<lparr>fl_keywords := fl_keywords f @ [k]\<rparr>)"
  by (auto simp: set_flag_def reserved_flags_def Let_def list_ex_iff equal_fold_def image_iff)

lemma flags_ok_no_flags [simp]: "flags_ok no_flags"
  by (simp add: flags_ok_def no_flags_def)

lemma flags_ok_set_flag: "flags_ok f \<Longrightarrow> flags_ok (set_flag f k v)"
  by (auto simp: flags_ok_def set_flag_def Let_def reserved_flags_def list_ex_iff equal_fold_def
      distinct_map_filter)

lemma flags_ok_foldl: "flags_ok f \<Longrightarrow> flags_ok (foldl (\<lambda>f v. set_flag f v True) f vs)"
  by (induction vs arbitrary: f) (auto intro: flags_ok_set_flag)

lemma flags_ok_ParseFlags: "flags_ok (ParseFlags vs)"
  by (simp add: ParseFlags_def flags_ok_foldl)

lemma foldl_keywords:
  assumes "distinct (map to_lower (fl_keywords f @ ks))"
    and "\<forall>k \<in> set ks. to_lower k \<notin> set reserved_flags"
  shows "foldl (\<lambda>f v. set_flag f v True) f ks = f\<lparr>fl_keywords := fl_keywords f @ ks\<rparr>"
  using assms
proof (induction ks arbitrary: f)
  case Nil
  then show ?case by simp
next
  case (Cons k ks)
  then have "set_flag f k True = f\<lparr>fl_keywords := fl_keywords f @ [k]\<rparr>"
    by (subst set_flag_keyword) auto
  with Cons show ?case by simp
qed

lemma ParseFlags_flag_list:
  assumes "flags_ok f" shows "ParseFlags (flag_list f) = f"
proof -
  obtain a b c d e ks where f: "f = \<lparr>fl_seen = a, fl_answered = b, fl_flagged = c, fl_deleted = d,
      fl_draft = e, fl_keywords = ks\<rparr>"
    by (cases f)
  have "foldl (\<lambda>f v. set_flag f v True) \<lparr>fl_seen = a', fl_answered = b', fl_flagged = c',
      fl_deleted = d', fl_draft = e', fl_keywords = []\<rparr> ks = \<lparr>fl_seen = a', fl_answered = b',
      fl_flagged = c', fl_deleted = d', fl_draft = e', fl_keywords = ks\<rparr>" for a' b' c' d' e'
    using assms by (subst foldl_keywords) (auto simp: flags_ok_def f)
  then show ?thesis
    by (simp add: ParseFlags_def flag_list_def f set_flag_system no_flags_def)
qed

lemma has_flag_set_flag:
  assumes "to_lower k \<noteq> [CHR 0x5C] @ ''recent''" "to_lower k \<noteq> [CHR 0x5C] @ ''*''"
  shows "has_flag (set_flag f k v) k = v"
  using assms by (auto simp: has_flag_def set_flag_def Let_def list_ex_iff)

lemma has_flag_set_flag_other:
  assumes "\<not> equal_fold k l"
  shows "has_flag (set_flag f k v) l = has_flag f l"
  using assms
  by (auto simp: has_flag_def set_flag_def Let_def list_ex_iff equal_fold_def)

lemma FlagsOf_apply_flags [simp]: "FlagsOf (apply_flags f item) = f"
  by (simp add: FlagsOf_def apply_flags_def)

lemma apply_flags_frame [simp]:
  "mm_id (apply_flags f r) = mm_id r" "mm_uid (apply_flags f r) = mm_uid r"
  "mm_folder_id (apply_flags f r) = mm_folder_id r" "mm_mailbox_id (apply_flags f r) = mm_mailbox_id r"
  "mm_message_id (apply_flags f r) = mm_message_id r" "mm_deleted_at (apply_flags f r) = mm_deleted_at r"
  by (simp_all add: apply_flags_def)

end
