(* ===== verification/Mailstore.thy ===== *)
theory Mailstore
  imports Flags "HOL-Library.Char_ord" "HOL-Library.List_Lexorder" "HOL-Library.Product_Lexorder"
begin

text \<open>
  The mail store, \<^verbatim>\<open>internal/mailstore/store.go\<close>: folders, labels, the rows that place a message
  in a mailbox, UID allocation and the quota accounting.  Each definition is the Go function of
  the same name; a function that opens a transaction is \<open>in_tx\<close> of its body followed by the
  notifications it publishes after the commit.
\<close>

section \<open>Operations\<close>

definition SystemFolders :: "string list" where
  "SystemFolders = [''INBOX'', ''Sent'', ''Drafts'', ''Trash'', ''Junk'', ''Archive'']"

record attach =
  at_mailbox_id :: string
  at_message_id :: string
  at_folder_id :: string
  at_size_bytes :: int
  at_original_rcpt :: string
  at_base_rcpt :: string
  at_plus_tag :: string
  at_resolved_route_id :: string
  at_flags :: flags
  at_created_at :: time
  at_enforce_quota :: bool

text \<open>Seconds since 1970 as a \<^verbatim>\<open>uint32\<close>; 62135596800 seconds lie between year 1 and 1970.\<close>

definition NewUIDValidity :: "32 word io" where
  "NewUIDValidity = bindE now (\<lambda>t. ret (word_of_int (t div second - 62135596800)))"

definition folder_clash :: "folder \<Rightarrow> folder \<Rightarrow> bool" where
  "folder_clash r x \<longleftrightarrow> fo_id r = fo_id x \<or> (fo_mailbox_id r = fo_mailbox_id x \<and> fo_name r = fo_name x)"

definition label_clash :: "label \<Rightarrow> label \<Rightarrow> bool" where
  "label_clash r x \<longleftrightarrow> la_id r = la_id x \<or> (la_mailbox_id r = la_mailbox_id x \<and> la_name r = la_name x)"

definition mm_clash :: "mailbox_message \<Rightarrow> mailbox_message \<Rightarrow> bool" where
  "mm_clash r x \<longleftrightarrow> mm_id r = mm_id x
     \<or> (mm_mailbox_id r = mm_mailbox_id x \<and> mm_message_id r = mm_message_id x)"

definition link_clash :: "label_link \<Rightarrow> label_link \<Rightarrow> bool" where
  "link_clash r x \<longleftrightarrow> ln_id r = ln_id x \<or> (ln_mm_id r = ln_mm_id x \<and> ln_label_id r = ln_label_id x)"

definition CreateFolder :: "string \<Rightarrow> string \<Rightarrow> bool \<Rightarrow> folder io" where
  "CreateFolder mailboxID name system =
     bindE NewUIDValidity (\<lambda>uv.
     bindE newID (\<lambda>i.
     insertRow T_folders folder_clash \<lparr>fo_id = i, fo_mailbox_id = mailboxID, fo_name = name,
       fo_system = system, fo_uid_validity = uv, fo_uid_next = 1\<rparr>))"

definition CreateDefaultFolders :: "string \<Rightarrow> unit io" where
  "CreateDefaultFolders mailboxID = forE SystemFolders (\<lambda>name.
     bindE (tryE (CreateFolder mailboxID name True)) (\<lambda>r.
     case r of Inl e \<Rightarrow> if e \<noteq> ConstraintError then fail e else ret () | Inr _ \<Rightarrow> ret ()))"

definition CreateLabel :: "string \<Rightarrow> string \<Rightarrow> label io" where
  "CreateLabel mailboxID name =
     bindE NewUIDValidity (\<lambda>uv.
     bindE newID (\<lambda>i.
     insertRow T_labels label_clash \<lparr>la_id = i, la_mailbox_id = mailboxID, la_name = name,
       la_uid_validity = uv, la_uid_next = 1\<rparr>))"

definition FolderByName :: "string \<Rightarrow> string \<Rightarrow> folder io" where
  "FolderByName mailboxID name = selectOnly T_folders (\<lambda>f. fo_mailbox_id f = mailboxID \<and> fo_name f = name)"

definition LabelByName :: "string \<Rightarrow> string \<Rightarrow> label io" where
  "LabelByName mailboxID name = selectOnly T_labels (\<lambda>l. la_mailbox_id l = mailboxID \<and> la_name l = name)"

text \<open>
  \<^verbatim>\<open>AddUIDNext(1)\<close> and the \<^verbatim>\<open>uint32\<close> subtraction on the value read back.
\<close>

definition allocateFolderUID :: "string \<Rightarrow> 32 word io" where
  "allocateFolderUID folderID =
     bindE (updateOne T_folders (\<lambda>f. fo_id f = folderID) (\<lambda>f. f\<lparr>fo_uid_next := fo_uid_next f + 1\<rparr>))
       (\<lambda>updated. ret (word_of_int (fo_uid_next updated) - 1))"

definition allocateLabelUID :: "string \<Rightarrow> 32 word io" where
  "allocateLabelUID labelID =
     bindE (updateOne T_labels (\<lambda>l. la_id l = labelID) (\<lambda>l. l\<lparr>la_uid_next := la_uid_next l + 1\<rparr>))
       (\<lambda>updated. ret (word_of_int (la_uid_next updated) - 1))"

definition add_used :: "int \<Rightarrow> mailbox \<Rightarrow> mailbox" where
  "add_used n m = m\<lparr>mb_used_bytes := mb_used_bytes m + n\<rparr>"

definition addUsedBytes :: "string \<Rightarrow> int \<Rightarrow> bool \<Rightarrow> unit io" where
  "addUsedBytes mailboxID sz enforceQuota =
     (if \<not> enforceQuota then
        bindE (updateOne T_mailboxes (\<lambda>m. mb_id m = mailboxID) (add_used sz)) (\<lambda>_. ret ())
      else
        bindE (updateWhere T_mailboxes
          (\<lambda>m. mb_id m = mailboxID \<and> (mb_quota_bytes m \<le> 0 \<or> mb_used_bytes m + sz \<le> mb_quota_bytes m))
          (add_used sz)) (\<lambda>n.
        if n = 0 then bindE (selectOnly T_mailboxes (\<lambda>m. mb_id m = mailboxID)) (\<lambda>_. fail ErrOverQuota)
        else ret ()))"

definition new_mm :: "attach \<Rightarrow> 32 word \<Rightarrow> string \<Rightarrow> time \<Rightarrow> mailbox_message" where
  "new_mm p uid i t = \<lparr>mm_id = i, mm_mailbox_id = at_mailbox_id p, mm_message_id = at_message_id p,
     mm_folder_id = at_folder_id p, mm_uid = uid, mm_original_rcpt = at_original_rcpt p,
     mm_base_rcpt = at_base_rcpt p, mm_plus_tag = at_plus_tag p, mm_resolved_route_id = at_resolved_route_id p,
     mm_read = fl_seen (at_flags p), mm_flagged = fl_flagged (at_flags p),
     mm_answered = fl_answered (at_flags p), mm_draft = fl_draft (at_flags p),
     mm_imap_deleted = fl_deleted (at_flags p), mm_keywords = fl_keywords (at_flags p),
     mm_created_at = (if at_created_at p = 0 then t else at_created_at p), mm_updated_at = t,
     mm_deleted_at = None\<rparr>"

definition attachInTx :: "attach \<Rightarrow> mailbox_message io" where
  "attachInTx p =
     bindE (allocateFolderUID (at_folder_id p)) (\<lambda>uid.
     bindE newID (\<lambda>i.
     bindE now (\<lambda>t.
     bindE (insertRow T_mms mm_clash (new_mm p uid i t)) (\<lambda>item.
     bindE (addUsedBytes (at_mailbox_id p) (at_size_bytes p) (at_enforce_quota p)) (\<lambda>_.
     ret item)))))"

definition mk_change :: "string \<Rightarrow> string \<Rightarrow> change_kind \<Rightarrow> 32 word \<Rightarrow> string list \<Rightarrow> change" where
  "mk_change mailboxID container kind uid fs = \<lparr>ch_node = [], ch_mailbox_id = mailboxID,
     ch_container = container, ch_kind = kind, ch_uid = uid, ch_flags = fs\<rparr>"

definition NotifyAttached :: "attach \<Rightarrow> mailbox_message \<Rightarrow> unit io" where
  "NotifyAttached p item =
     publish (mk_change (at_mailbox_id p) (FolderContainer (at_folder_id p)) ChangeExists (mm_uid item) [])"

definition Attach :: "attach \<Rightarrow> mailbox_message io" where
  "Attach p =
     bindE (in_tx (attachInTx p)) (\<lambda>item.
     bindE (NotifyAttached p item) (\<lambda>_.
     ret item))"

definition LockMailbox :: "string \<Rightarrow> unit io" where
  "LockMailbox mailboxID =
     bindE (updateWhere T_mailboxes (\<lambda>m. mb_id m = mailboxID) (add_used 0)) (\<lambda>n.
     if n = 0 then bindE (selectOnly T_mailboxes (\<lambda>m. mb_id m = mailboxID)) (\<lambda>_. ret ()) else ret ())"

definition messageSize :: "string \<Rightarrow> int io" where
  "messageSize messageID =
     bindE (tryE (selectOnly T_messages (\<lambda>m. me_id m = messageID))) (\<lambda>r.
     case r of Inl e \<Rightarrow> if e = NotFound then ret 0 else fail e | Inr m \<Rightarrow> ret (me_size_bytes m))"

definition batchSize :: nat where "batchSize = 500"

text \<open>The map \<^verbatim>\<open>sizes\<close>; a missing key reads as 0.\<close>

definition messageSizes :: "string list \<Rightarrow> (string \<Rightarrow> int) io" where
  "messageSizes messageIDs = foldE (\<lambda>sizes chunk.
     bindE (selectAll T_messages (\<lambda>m. me_id m \<in> set chunk)) (\<lambda>rows.
     ret (foldl (\<lambda>s row. s(me_id row := me_size_bytes row)) sizes rows))) (\<lambda>_. 0)
     (chunks batchSize messageIDs)"

definition move_row :: "string \<Rightarrow> 32 word \<Rightarrow> time \<Rightarrow> mailbox_message \<Rightarrow> mailbox_message" where
  "move_row folderID uid t r = r\<lparr>mm_folder_id := folderID, mm_uid := uid, mm_imap_deleted := False,
     mm_updated_at := t, mm_deleted_at := None\<rparr>"

definition moveInTx :: "mailbox_message \<Rightarrow> string \<Rightarrow> (32 word \<times> mailbox_message) io" where
  "moveInTx item folderID =
     bindE (allocateFolderUID folderID) (\<lambda>uid.
     bindE now (\<lambda>t.
     bindE (updateOne T_mms (\<lambda>r. mm_id r = mm_id item) (move_row folderID uid t)) (\<lambda>moved.
     if mm_deleted_at item \<noteq> None then
       bindE (messageSize (mm_message_id item)) (\<lambda>size.
       bindE (updateOne T_mailboxes (\<lambda>m. mb_id m = mm_mailbox_id item) (add_used size)) (\<lambda>_.
       ret (uid, moved)))
     else ret (uid, moved))))"

definition Move :: "mailbox_message \<Rightarrow> string \<Rightarrow> mailbox_message io" where
  "Move item folderID =
     (if mm_folder_id item = folderID \<and> mm_deleted_at item = None then ret item else
      bindE (in_tx (moveInTx item folderID)) (\<lambda>um.
      bindE (if mm_deleted_at item = None
             then publish (mk_change (mm_mailbox_id item) (FolderContainer (mm_folder_id item)) ChangeExpunge (mm_uid item) [])
             else ret ()) (\<lambda>_.
      bindE (publish (mk_change (mm_mailbox_id item) (FolderContainer folderID) ChangeExists (fst um) [])) (\<lambda>_.
      ret (snd um)))))"

definition MoveToFolderName :: "mailbox_message \<Rightarrow> string \<Rightarrow> mailbox_message io" where
  "MoveToFolderName item name =
     bindE (FolderByName (mm_mailbox_id item) name) (\<lambda>target. Move item (fo_id target))"

definition softDeleteInTx :: "mailbox_message \<Rightarrow> unit io" where
  "softDeleteInTx item =
     bindE now (\<lambda>t.
     bindE (updateWhere T_mms (\<lambda>r. mm_id r = mm_id item \<and> mm_deleted_at r = None)
       (\<lambda>r. r\<lparr>mm_deleted_at := Some t, mm_updated_at := t\<rparr>)) (\<lambda>n.
     if n = 0 then ret () else
     bindE (messageSize (mm_message_id item)) (\<lambda>size.
     bindE (updateOne T_mailboxes (\<lambda>m. mb_id m = mm_mailbox_id item) (add_used (- size))) (\<lambda>_.
     ret ()))))"

definition expunge_change :: "mailbox_message \<Rightarrow> change" where
  "expunge_change item = mk_change (mm_mailbox_id item) (FolderContainer (mm_folder_id item)) ChangeExpunge (mm_uid item) []"

definition SoftDelete :: "mailbox_message \<Rightarrow> unit io" where
  "SoftDelete item =
     (if mm_deleted_at item \<noteq> None then ret () else
      bindE (in_tx (softDeleteInTx item)) (\<lambda>_. publish (expunge_change item)))"

text \<open>One batch: mark the live rows of the chunk, add up their message sizes.\<close>

definition softDeleteChunk :: "time \<Rightarrow> int \<Rightarrow> string list \<Rightarrow> int io" where
  "softDeleteChunk t freed chunk =
     bindE (selectAll T_mms (\<lambda>r. mm_id r \<in> set chunk \<and> mm_deleted_at r = None)) (\<lambda>live.
     if live = [] then ret freed else
     bindE (updateWhere T_mms (\<lambda>r. mm_id r \<in> set (map mm_id live) \<and> mm_deleted_at r = None)
       (\<lambda>r. r\<lparr>mm_deleted_at := Some t, mm_updated_at := t\<rparr>)) (\<lambda>_.
     bindE (messageSizes (map mm_message_id live)) (\<lambda>sizes.
     ret (freed + (\<Sum>i\<leftarrow>map mm_message_id live. sizes i)))))"

definition softDeleteBatchInTx :: "string \<Rightarrow> string list \<Rightarrow> unit io" where
  "softDeleteBatchInTx mailboxID ids =
     bindE now (\<lambda>t.
     bindE (foldE (softDeleteChunk t) 0 (chunks batchSize ids)) (\<lambda>freed.
     if freed = 0 then ret () else
     bindE (updateOne T_mailboxes (\<lambda>m. mb_id m = mailboxID) (add_used (- freed))) (\<lambda>_. ret ())))"

definition softDeleteBatch :: "string \<Rightarrow> mailbox_message list \<Rightarrow> unit io" where
  "softDeleteBatch mailboxID items =
     bindE (in_tx (softDeleteBatchInTx mailboxID (map mm_id items))) (\<lambda>_.
     forE items (\<lambda>item. publish (expunge_change item)))"

definition SoftDeleteMany :: "mailbox_message list \<Rightarrow> unit io" where
  "SoftDeleteMany items =
     (let live = filter (\<lambda>i. mm_deleted_at i = None) items;
          order = map mm_mailbox_id (dedup_on mm_mailbox_id [] live)
      in forE order (\<lambda>mailboxID. softDeleteBatch mailboxID (filter (\<lambda>i. mm_mailbox_id i = mailboxID) live)))"

definition DeleteLabelLinks :: "string list \<Rightarrow> unit io" where
  "DeleteLabelLinks ids = forE (chunks batchSize ids) (\<lambda>chunk.
     bindE (deleteWhere T_links (\<lambda>l. ln_mm_id l \<in> set chunk)) (\<lambda>_. ret ()))"

definition label_flag_changes :: "mailbox_message \<Rightarrow> flags \<Rightarrow> label_link list \<Rightarrow> unit io" where
  "label_flag_changes item fs links = forE links (\<lambda>link.
     publish (mk_change (mm_mailbox_id item) (LabelContainer (ln_label_id link)) ChangeFlags (ln_uid link) (flag_list fs)))"

definition publishLabelFlagChanges :: "mailbox_message \<Rightarrow> flags \<Rightarrow> unit io" where
  "publishLabelFlagChanges item fs =
     bindE (tryE (selectAll T_links (\<lambda>l. ln_mm_id l = mm_id item))) (\<lambda>r.
     case r of Inl _ \<Rightarrow> ret () | Inr links \<Rightarrow> label_flag_changes item fs links)"

definition SetFlags :: "mailbox_message \<Rightarrow> flags \<Rightarrow> mailbox_message io" where
  "SetFlags item fs =
     bindE now (\<lambda>t.
     bindE (updateOne T_mms (\<lambda>r. mm_id r = mm_id item) (\<lambda>r. (apply_flags fs r)\<lparr>mm_updated_at := t\<rparr>)) (\<lambda>updated.
     bindE (publish (mk_change (mm_mailbox_id item) (FolderContainer (mm_folder_id item)) ChangeFlags (mm_uid updated) (flag_list fs))) (\<lambda>_.
     bindE (publishLabelFlagChanges updated fs) (\<lambda>_.
     ret updated))))"

text \<open>
  One UPDATE per batch, then the folder changes, then the label changes of each batch; an error
  of the label query ends the function without an error.
\<close>

definition SetFlagsMany :: "mailbox_message list \<Rightarrow> flags \<Rightarrow> unit io" where
  "SetFlagsMany items fs =
     (if items = [] then ret () else
      bindE (forE (chunks batchSize (map mm_id items)) (\<lambda>chunk.
        bindE now (\<lambda>t.
        bindE (updateWhere T_mms (\<lambda>r. mm_id r \<in> set chunk) (\<lambda>r. (apply_flags fs r)\<lparr>mm_updated_at := t\<rparr>)) (\<lambda>_. ret ())))) (\<lambda>_.
      bindE (forE items (\<lambda>item. publish (mk_change (mm_mailbox_id item) (FolderContainer (mm_folder_id item)) ChangeFlags (mm_uid item) (flag_list fs)))) (\<lambda>_.
      bindE (foldE (\<lambda>go chunk. if \<not> go then ret False else
        bindE (tryE (selectAll T_links (\<lambda>l. ln_mm_id l \<in> set chunk))) (\<lambda>r.
        case r of Inl _ \<Rightarrow> ret False
        | Inr links \<Rightarrow> bindE (forE links (\<lambda>link.
            case map_of (rev (map (\<lambda>i. (mm_id i, i)) items)) (ln_mm_id link) of
              None \<Rightarrow> ret ()
            | Some item \<Rightarrow> publish (mk_change (mm_mailbox_id item) (LabelContainer (ln_label_id link)) ChangeFlags (ln_uid link) (flag_list fs))))
            (\<lambda>_. ret True))) True (chunks batchSize (map mm_id items))) (\<lambda>_.
      ret ()))))"

definition addLabelInTx :: "mailbox_message \<Rightarrow> string \<Rightarrow> label_link io" where
  "addLabelInTx item labelID =
     bindE (allocateLabelUID labelID) (\<lambda>uid.
     bindE newID (\<lambda>i.
     bindE now (\<lambda>t.
     insertRow T_links link_clash \<lparr>ln_id = i, ln_mm_id = mm_id item, ln_label_id = labelID, ln_uid = uid, ln_created_at = t\<rparr>)))"

definition AddLabel :: "mailbox_message \<Rightarrow> string \<Rightarrow> label_link io" where
  "AddLabel item labelID =
     bindE (tryE (selectFirst T_links (\<lambda>l. ln_mm_id l = mm_id item \<and> ln_label_id l = labelID))) (\<lambda>r.
     case r of
       Inr existing \<Rightarrow> ret existing
     | Inl e \<Rightarrow> if e \<noteq> NotFound then fail e else
         bindE (tryE (in_tx (addLabelInTx item labelID))) (\<lambda>r2.
         case r2 of
           Inl e2 \<Rightarrow> if e2 = ConstraintError
             then selectOnly T_links (\<lambda>l. ln_mm_id l = mm_id item \<and> ln_label_id l = labelID)
             else fail e2
         | Inr link \<Rightarrow>
             bindE (publish (mk_change (mm_mailbox_id item) (LabelContainer labelID) ChangeExists (ln_uid link) [])) (\<lambda>_.
             ret link)))"

definition RemoveLabel :: "mailbox_message \<Rightarrow> string \<Rightarrow> unit io" where
  "RemoveLabel item labelID =
     bindE (tryE (selectOnly T_links (\<lambda>l. ln_mm_id l = mm_id item \<and> ln_label_id l = labelID))) (\<lambda>r.
     case r of
       Inl e \<Rightarrow> if e = NotFound then ret () else fail e
     | Inr link \<Rightarrow>
         bindE (tryE (deleteOne T_links (\<lambda>l. ln_id l = ln_id link))) (\<lambda>r2.
         case r2 of
           Inl e2 \<Rightarrow> if e2 \<noteq> NotFound then fail e2
             else publish (mk_change (mm_mailbox_id item) (LabelContainer labelID) ChangeExpunge (ln_uid link) [])
         | Inr _ \<Rightarrow> publish (mk_change (mm_mailbox_id item) (LabelContainer labelID) ChangeExpunge (ln_uid link) [])))"

definition RecomputeUsedBytes :: "string \<Rightarrow> int io" where
  "RecomputeUsedBytes mailboxID =
     bindE (selectAll T_mms (\<lambda>r. mm_mailbox_id r = mailboxID \<and> mm_deleted_at r = None)) (\<lambda>items.
     bindE (messageSizes (map mm_message_id items)) (\<lambda>sizes.
     let total = (\<Sum>i\<leftarrow>map mm_message_id items. sizes i) in
     bindE (updateOne T_mailboxes (\<lambda>m. mb_id m = mailboxID) (\<lambda>m. m\<lparr>mb_used_bytes := total\<rparr>)) (\<lambda>_.
     ret total)))"

definition RecomputeAllUsedBytes :: "unit io" where
  "RecomputeAllUsedBytes =
     bindE (selectAll T_mailboxes (\<lambda>_. True)) (\<lambda>mailboxes.
     forE mailboxes (\<lambda>m. bindE (RecomputeUsedBytes (mb_id m)) (\<lambda>_. ret ())))"

definition OverQuota :: "mailbox option \<Rightarrow> bool" where
  "OverQuota mbox = (case mbox of None \<Rightarrow> False | Some m \<Rightarrow>
     if mb_quota_bytes m \<le> 0 then False else mb_quota_bytes m \<le> mb_used_bytes m)"

definition OverQuotaWith :: "mailbox option \<Rightarrow> int \<Rightarrow> bool" where
  "OverQuotaWith mbox additional = (case mbox of None \<Rightarrow> False | Some m \<Rightarrow>
     if mb_quota_bytes m \<le> 0 then False else mb_quota_bytes m < mb_used_bytes m + additional)"

definition MailboxOverQuota :: "string \<Rightarrow> int \<Rightarrow> bool io" where
  "MailboxOverQuota mailboxID additional =
     bindE (selectOnly T_mailboxes (\<lambda>m. mb_id m = mailboxID)) (\<lambda>mbox. ret (OverQuotaWith (Some mbox) additional))"

definition PurgeMailbox :: "string \<Rightarrow> unit io" where
  "PurgeMailbox mailboxID =
     bindE (selectAll T_mms (\<lambda>r. mm_mailbox_id r = mailboxID)) (\<lambda>items.
     bindE (DeleteLabelLinks (map mm_id items)) (\<lambda>_.
     bindE (deleteWhere T_mms (\<lambda>r. mm_mailbox_id r = mailboxID)) (\<lambda>_.
     bindE (deleteWhere T_labels (\<lambda>l. la_mailbox_id l = mailboxID)) (\<lambda>_.
     bindE (deleteWhere T_folders (\<lambda>f. fo_mailbox_id f = mailboxID)) (\<lambda>_.
     bindE (tryE (deleteOne T_mailboxes (\<lambda>m. mb_id m = mailboxID))) (\<lambda>r.
     case r of Inl e \<Rightarrow> if e = NotFound then ret () else fail e | Inr _ \<Rightarrow> ret ()))))))"

definition ActiveMessagesInFolder :: "string \<Rightarrow> mailbox_message list io" where
  "ActiveMessagesInFolder folderID =
     bindE (selectAll T_mms (\<lambda>r. mm_folder_id r = folderID \<and> mm_deleted_at r = None)) (\<lambda>rows.
     ret (sort_key (\<lambda>r. uint (mm_uid r)) rows))"

text \<open>\<^verbatim>\<open>next\<close> is a \<^verbatim>\<open>uint32\<close>: it starts at the column read into 32 bits, and 0 becomes 1.\<close>

definition backfill_start :: "int \<Rightarrow> 32 word" where
  "backfill_start uid_next = (let n = word_of_int uid_next in if n = 0 then 1 else n)"

definition backfillFolder :: "folder \<Rightarrow> unit io" where
  "backfillFolder item =
     bindE (selectAll T_mms (\<lambda>r. mm_folder_id r = fo_id item \<and> mm_uid r = 0)) (\<lambda>rows.
     bindE now (\<lambda>t.
     bindE (foldE (\<lambda>next msg.
         bindE (updateOne T_mms (\<lambda>r. mm_id r = mm_id msg) (\<lambda>r. r\<lparr>mm_uid := next, mm_updated_at := t\<rparr>)) (\<lambda>_.
         ret (next + 1))) (backfill_start (fo_uid_next item))
       (sort_key (\<lambda>r. (mm_created_at r, mm_id r)) rows)) (\<lambda>next.
     bindE (if fo_uid_validity item = 0 then NewUIDValidity else ret (fo_uid_validity item)) (\<lambda>uv.
     bindE (updateOne T_folders (\<lambda>f. fo_id f = fo_id item)
       (\<lambda>f. f\<lparr>fo_uid_next := uint next,
              fo_uid_validity := (if fo_uid_validity item = 0 then uv else fo_uid_validity f)\<rparr>)) (\<lambda>_.
     ret ())))))"

definition backfillLabel :: "label \<Rightarrow> unit io" where
  "backfillLabel item =
     bindE (selectAll T_links (\<lambda>r. ln_label_id r = la_id item \<and> ln_uid r = 0)) (\<lambda>rows.
     bindE (foldE (\<lambda>next link.
         bindE (updateOne T_links (\<lambda>r. ln_id r = ln_id link) (\<lambda>r. r\<lparr>ln_uid := next\<rparr>)) (\<lambda>_.
         ret (next + 1))) (backfill_start (la_uid_next item))
       (sort_key (\<lambda>r. (ln_created_at r, ln_id r)) rows)) (\<lambda>next.
     bindE (if la_uid_validity item = 0 then NewUIDValidity else ret (la_uid_validity item)) (\<lambda>uv.
     bindE (updateOne T_labels (\<lambda>l. la_id l = la_id item)
       (\<lambda>l. l\<lparr>la_uid_next := uint next,
              la_uid_validity := (if la_uid_validity item = 0 then uv else la_uid_validity l)\<rparr>)) (\<lambda>_.
     ret ()))))"

definition BackfillUIDs :: "unit io" where
  "BackfillUIDs =
     bindE (selectAll T_folders (\<lambda>_. True)) (\<lambda>fs.
     bindE (forE fs backfillFolder) (\<lambda>_.
     bindE (selectAll T_labels (\<lambda>_. True)) (\<lambda>ls.
     forE ls backfillLabel)))"

end
