(* ===== verification/Samples.thy ===== *)
theory Samples
  imports World
begin

text \<open>
  Small concrete states on which the theorems of the development are evaluated: one mailbox
  with two folders, a label, two stored messages and one delivered row.
\<close>

definition empty_db :: db where
  "empty_db = \<lparr>db_mailboxes = [], db_folders = [], db_labels = [], db_mms = [], db_links = [],
     db_messages = [], db_routes = [], db_rules = [], db_jobs = [], db_attempts = [], db_dkim_keys = [],
     db_bounces = [], db_sender_rules = [], db_events = [], db_lockouts = [], db_app_passwords = [],
     db_smtp_credentials = [], db_exports = [], db_imports = [], db_audit = []\<rparr>"

definition sample_mailbox :: mailbox where
  "sample_mailbox = \<lparr>mb_id = ''box'', mb_primary_address = ''ann@example.org'', mb_status = ''active'',
     mb_quota_bytes = 100, mb_used_bytes = 10, mb_outbound_limits = [], mb_spam_thresholds = [], mb_deleted_at = None\<rparr>"

definition sample_folder :: "string \<Rightarrow> string \<Rightarrow> int \<Rightarrow> folder" where
  "sample_folder i name n = \<lparr>fo_id = i, fo_mailbox_id = ''box'', fo_name = name, fo_system = True,
     fo_uid_validity = 7, fo_uid_next = n\<rparr>"

definition sample_label :: label where
  "sample_label = \<lparr>la_id = ''lab'', la_mailbox_id = ''box'', la_name = ''work'', la_uid_validity = 7, la_uid_next = 1\<rparr>"

definition sample_message :: "string \<Rightarrow> int \<Rightarrow> message" where
  "sample_message i n = \<lparr>me_id = i, me_trace_id = [], me_rfc_message_id = [], me_blob_key = [], me_sha256 = [],
     me_size_bytes = n, me_headers = [], me_from = [], me_to = [], me_cc = [], me_bcc = [], me_subject = [],
     me_date = None, me_text_extract = [], me_html_extract = [], me_attachments = [], me_spam_score = Fin 0,
     me_auth_results = [], me_created_at = 0\<rparr>"

definition sample_row :: mailbox_message where
  "sample_row = \<lparr>mm_id = ''row'', mm_mailbox_id = ''box'', mm_message_id = ''m1'', mm_folder_id = ''inbox'',
     mm_uid = 4, mm_original_rcpt = ''ann@example.org'', mm_base_rcpt = ''ann@example.org'', mm_plus_tag = [],
     mm_resolved_route_id = [], mm_read = False, mm_flagged = False, mm_answered = False, mm_draft = False,
     mm_imap_deleted = False, mm_keywords = [], mm_created_at = 1, mm_updated_at = 1, mm_deleted_at = None\<rparr>"

definition sample_db :: db where
  "sample_db = empty_db\<lparr>db_mailboxes := [sample_mailbox],
     db_folders := [sample_folder ''inbox'' ''INBOX'' 5, sample_folder ''trash'' ''Trash'' 1],
     db_labels := [sample_label], db_mms := [sample_row],
     db_messages := [sample_message ''m1'' 10, sample_message ''m2'' 30]\<rparr>"

definition world_of :: "db \<Rightarrow> world" where
  "world_of d = \<lparr>w_db = d, w_blobs = [], w_clock = 1000, w_ids = (\<lambda>n. replicate (Suc n) (CHR ''i'')), w_idc = 0,
     w_faults = [], w_notifier = NewNotifier ''n1'' False\<rparr>"

definition sample_world :: world where
  "sample_world = world_of sample_db"

end
