(* ===== verification/Routing.thy ===== *)
theory Routing
  imports Io_Logic Samples
begin

text \<open>
  Recipient resolution, \<^verbatim>\<open>internal/routing/routing.go\<close> and \<^verbatim>\<open>internal/mailaddr/reserved.go\<close>: from an
  address to the mailboxes that get the message, through exact mailboxes, exact routes, the
  address without its plus tag, pattern routes and catch-all routes, in this order.  The parser
  \<^verbatim>\<open>net/mail.ParseAddress\<close> is a parameter (the address it finds, or none); \<^verbatim>\<open>path.Match\<close> is
  written out, on bytes, without its errors: the resolver skips a malformed pattern as one that does
  not match.
\<close>

section \<open>Reserved addresses\<close>

definition ReservedBouncesLocal :: string where
  "ReservedBouncesLocal = ''bounces''"

definition ReservedLocalPart :: "string \<Rightarrow> bool" where
  "ReservedLocalPart local = equal_fold (trim_space local) ReservedBouncesLocal"

type_synonym address_parser = "string \<Rightarrow> string option"

definition LocalPart :: "address_parser \<Rightarrow> string \<Rightarrow> err + string" where
  "LocalPart parse address = (case parse (trim_space address) of
       None \<Rightarrow> (case cut (to_lower (trim_space address)) ''@'' of (local, _, ok) \<Rightarrow>
         if \<not> ok \<or> local = [] then Inl (ErrText ''invalid address'') else Inr local)
     | Some parsed \<Rightarrow> (case cut (to_lower parsed) ''@'' of (local, _, ok) \<Rightarrow>
         if \<not> ok then Inl (ErrText ''invalid address'') else Inr local))"

definition ErrReservedLocalPart :: err where
  "ErrReservedLocalPart = ErrText ''local part bounces is reserved for system VERP''"

definition ValidateAddressNotReserved :: "address_parser \<Rightarrow> string \<Rightarrow> err + unit" where
  "ValidateAddressNotReserved parse address = (case LocalPart parse address of
       Inl e \<Rightarrow> Inl e
     | Inr local \<Rightarrow> if ReservedLocalPart local then Inl ErrReservedLocalPart else Inr ())"

section \<open>Patterns\<close>

text \<open>
  \<open>scan_chunk\<close> drops leading stars and cuts the pattern before the next star outside brackets;
  \<open>match_chunk\<close> matches a chunk without stars at the start of a name and returns the rest.
\<close>

fun chunk_end :: "bool \<Rightarrow> string \<Rightarrow> string \<times> string" where
  "chunk_end inrange [] = ([], [])"
| "chunk_end inrange (c # cs) =
     (if c = CHR 0x5C then (case cs of [] \<Rightarrow> ([c], [])
        | d # ds \<Rightarrow> (case chunk_end inrange ds of (a, b) \<Rightarrow> (c # d # a, b)))
      else if c = CHR ''*'' \<and> \<not> inrange then ([], c # cs)
      else (case chunk_end (if c = CHR ''['' then True else if c = CHR '']'' then False else inrange) cs of
        (a, b) \<Rightarrow> (c # a, b)))"

definition scan_chunk :: "string \<Rightarrow> bool \<times> string \<times> string" where
  "scan_chunk p = (p \<noteq> [] \<and> hd p = CHR ''*'', chunk_end False (dropWhile (\<lambda>c. c = CHR ''*'') p))"

text \<open>One, possibly escaped, character of a bracket class.\<close>

fun get_esc :: "string \<Rightarrow> (char \<times> string) option" where
  "get_esc [] = None"
| "get_esc (c # cs) =
     (if c = CHR ''-'' \<or> c = CHR '']'' then None
      else if c = CHR 0x5C then (case cs of [] \<Rightarrow> None | d # ds \<Rightarrow> if ds = [] then None else Some (d, ds))
      else if cs = [] then None else Some (c, cs))"

lemma get_esc_length: "get_esc p = Some (c, q) \<Longrightarrow> length q < length p"
  by (cases p) (auto split: if_splits list.splits)

declare get_esc.simps [simp del]

text \<open>The ranges of a class up to its bracket: whether \<open>r\<close> is in one, and the rest of the chunk.\<close>

function class_ranges :: "char \<Rightarrow> bool \<Rightarrow> bool \<Rightarrow> string \<Rightarrow> (bool \<times> string) option" where
  "class_ranges r seen m p = (case p of
       c # cs \<Rightarrow> if c = CHR '']'' \<and> seen then Some (m, cs) else
         (case get_esc p of None \<Rightarrow> None
          | Some (lo, q) \<Rightarrow> (case q of
              d # ds \<Rightarrow> if d = CHR ''-'' then
                 (case get_esc ds of None \<Rightarrow> None
                  | Some (hi, q') \<Rightarrow> class_ranges r True (m \<or> code lo \<le> code r \<and> code r \<le> code hi) q')
                else class_ranges r True (m \<or> r = lo) q
            | [] \<Rightarrow> class_ranges r True (m \<or> r = lo) q))
     | [] \<Rightarrow> None)"
  by pat_completeness auto
termination
  by (relation "measure (\<lambda>(r, seen, m, p). length p)") (auto dest!: get_esc_length)

declare class_ranges.simps [simp del]

lemma class_ranges_length: "class_ranges r seen m p = Some (b, q) \<Longrightarrow> length q < length p"
proof (induction "length p" arbitrary: seen m p rule: less_induct)
  case less
  show ?case
    using less.prems
    by (subst (asm) class_ranges.simps)
       (auto split: list.splits if_splits option.splits prod.splits dest!: get_esc_length less.hyps [rotated])
qed

function match_chunk :: "string \<Rightarrow> string \<Rightarrow> string option" where
  "match_chunk chunk s = (case chunk of
       [] \<Rightarrow> Some s
     | c # cs \<Rightarrow> (case s of
         [] \<Rightarrow> None
       | x # xs \<Rightarrow>
           if c = CHR ''['' then
             (let negated = (cs \<noteq> [] \<and> hd cs = CHR ''^'') in
              case class_ranges x False False (if negated then tl cs else cs) of
                None \<Rightarrow> None
              | Some (m, rest) \<Rightarrow> if m = negated then None else match_chunk rest xs)
           else if c = CHR ''?'' then (if x = CHR ''/'' then None else match_chunk cs xs)
           else if c = CHR 0x5C then
             (case cs of [] \<Rightarrow> None | d # ds \<Rightarrow> if d = x then match_chunk ds xs else None)
           else if c = x then match_chunk cs xs else None))"
  by pat_completeness auto
termination
  by (relation "measure (\<lambda>(chunk, s). length s)") auto

declare match_chunk.simps [simp del]

text \<open>The positions a star may stop at: before every byte up to the first slash, leftmost first.\<close>

fun star_match :: "string \<Rightarrow> bool \<Rightarrow> string \<Rightarrow> string option" where
  "star_match chunk last_chunk name = (case name of
       [] \<Rightarrow> None
     | c # cs \<Rightarrow> if c = CHR ''/'' then None else
         (case match_chunk chunk cs of
            Some t \<Rightarrow> if last_chunk \<and> t \<noteq> [] then star_match chunk last_chunk cs else Some t
          | None \<Rightarrow> star_match chunk last_chunk cs))"

lemma chunk_end_length: "chunk_end b p = (c, q) \<Longrightarrow> length c + length q = length p"
proof (induction "length p" arbitrary: b p c q rule: less_induct)
  case less
  show ?case
  proof (cases p)
    case (Cons x xs)
    with less.prems show ?thesis
      by (auto split: if_splits list.splits prod.splits dest!: less.hyps [rotated])
  qed (use less.prems in auto)
qed

lemma scan_chunk_shorter:
  assumes "p \<noteq> []" and "scan_chunk p = (star, chunk, rest)" shows "length rest < length p"
proof -
  let ?d = "dropWhile (\<lambda>c. c = CHR ''*'') p"
  from assms(2) have e: "chunk_end False ?d = (chunk, rest)" and star: "star = (p \<noteq> [] \<and> hd p = CHR ''*'')"
    by (auto simp: scan_chunk_def)
  note len = chunk_end_length [OF e]
  show ?thesis
  proof (cases "hd p = CHR ''*''")
    case True
    then have "length ?d < length p" using assms(1) by (cases p) (auto simp: le_imp_less_Suc length_dropWhile_le)
    with len show ?thesis by simp
  next
    case False
    with assms(1) obtain c cs where p: "p = c # cs" "c \<noteq> CHR ''*''" by (cases p) auto
    with e have "chunk \<noteq> []" by (auto split: if_splits list.splits prod.splits)
    with len p show ?thesis by (cases chunk) auto
  qed
qed

function path_match :: "string \<Rightarrow> string \<Rightarrow> bool" where
  "path_match pattern name = (if pattern = [] then name = [] else
     (case scan_chunk pattern of (star, chunk, rest) \<Rightarrow>
       if star \<and> chunk = [] then CHR ''/'' \<notin> set name
       else (case match_chunk chunk name of
           Some t \<Rightarrow> if t = [] \<or> rest \<noteq> [] then path_match rest t
             else if star then (case star_match chunk (rest = []) name of Some t' \<Rightarrow> path_match rest t' | None \<Rightarrow> False)
             else False
         | None \<Rightarrow>
             if star then (case star_match chunk (rest = []) name of Some t' \<Rightarrow> path_match rest t' | None \<Rightarrow> False)
             else False)))"
  by pat_completeness auto
termination
  by (relation "measure (\<lambda>(pattern, name). length pattern)") (auto dest: scan_chunk_shorter [OF _ sym] scan_chunk_shorter)

declare path_match.simps [simp del]


section \<open>The resolver\<close>

record result =
  re_original_recipient :: string
  re_base_recipient :: string
  re_plus_tag :: string
  re_route_id :: string
  re_mailboxes :: "mailbox list"

record candidate =
  ca_lookup_address :: string
  ca_original_recipient :: string
  ca_base_recipient :: string
  ca_plus_tag :: string

definition normalizeAddress :: "string \<Rightarrow> string" where
  "normalizeAddress address = to_lower (trim_space address)"

definition splitPlusTag :: "string \<Rightarrow> string \<times> string" where
  "splitPlusTag address = (case cut address ''@'' of (local, domain, ok) \<Rightarrow>
     if \<not> ok then (address, []) else
     (case cut local ''+'' of (base, tag, ok2) \<Rightarrow>
       if \<not> ok2 then (address, []) else (base @ ''@'' @ domain, tag)))"

definition addressDomain :: "string \<Rightarrow> string" where
  "addressDomain address = (case cut address ''@'' of (_, domain, _) \<Rightarrow> domain)"

definition active_mailbox :: "mailbox \<Rightarrow> bool" where
  "active_mailbox m \<longleftrightarrow> mb_status m = ''active'' \<and> mb_deleted_at m = None"

definition active_route :: "route \<Rightarrow> bool" where
  "active_route r \<longleftrightarrow> ro_status r = ''active'' \<and> ro_deleted_at r = None"

text \<open>A query for one row whose absence is not an error.\<close>

definition found :: "'a io \<Rightarrow> 'a option io" where
  "found m = bindE (tryE m) (\<lambda>r. case r of
     Inl e \<Rightarrow> if e = NotFound then ret None else fail e | Inr x \<Rightarrow> ret (Some x))"

text \<open>\<^verbatim>\<open>if result, ok, err := m; err != nil || ok { return result, ok, err }\<close>, then \<open>n\<close>.\<close>

definition or_else :: "'a option io \<Rightarrow> 'a option io \<Rightarrow> 'a option io" where
  "or_else m n = bindE m (\<lambda>r. case r of Some x \<Rightarrow> ret (Some x) | None \<Rightarrow> n)"

definition mk_result :: "candidate \<Rightarrow> string \<Rightarrow> mailbox list \<Rightarrow> result" where
  "mk_result target routeID mailboxes = \<lparr>re_original_recipient = ca_original_recipient target,
     re_base_recipient = ca_base_recipient target, re_plus_tag = ca_plus_tag target,
     re_route_id = routeID, re_mailboxes = mailboxes\<rparr>"

definition exactMailbox :: "candidate \<Rightarrow> result option io" where
  "exactMailbox target =
     bindE (found (selectOnly T_mailboxes (\<lambda>m. mb_primary_address m = ca_lookup_address target \<and> active_mailbox m))) (\<lambda>r.
     case r of None \<Rightarrow> ret None | Some mbox \<Rightarrow> ret (Some (mk_result target [] [mbox])))"

definition routeResult :: "route \<Rightarrow> candidate \<Rightarrow> result option io" where
  "routeResult route target =
     bindE (selectAll T_mailboxes (\<lambda>m. mb_id m \<in> set (ro_destinations route) \<and> active_mailbox m)) (\<lambda>mailboxes.
     if mailboxes = [] then ret None else ret (Some (mk_result target (ro_id route) mailboxes)))"

definition exactRoute :: "candidate \<Rightarrow> result option io" where
  "exactRoute target =
     bindE (found (selectOnly T_routes (\<lambda>r. ro_source_address r = ca_lookup_address target \<and> active_route r))) (\<lambda>r.
     case r of None \<Rightarrow> ret None | Some route \<Rightarrow> routeResult route target)"

fun first_pattern :: "string \<Rightarrow> route list \<Rightarrow> route option" where
  "first_pattern address [] = None"
| "first_pattern address (item # items) =
     (if path_match (ro_source_address item) address then Some item else first_pattern address items)"

definition patternRoute :: "candidate \<Rightarrow> result option io" where
  "patternRoute target =
     bindE (selectAll T_routes (\<lambda>r. ro_type r = ''pattern'' \<and> active_route r)) (\<lambda>routes.
     case first_pattern (ca_original_recipient target) routes of
       None \<Rightarrow> ret None | Some item \<Rightarrow> routeResult item target)"

definition catchAllRoute :: "candidate \<Rightarrow> result option io" where
  "catchAllRoute target =
     bindE (found (selectFirst T_routes (\<lambda>r. ro_source_address r = ''*@'' @ addressDomain (ca_original_recipient target)
       \<and> ro_type r = ''catch_all'' \<and> active_route r))) (\<lambda>r.
     case r of None \<Rightarrow> ret None | Some item \<Rightarrow> routeResult item target)"

definition Resolve :: "string \<Rightarrow> result option io" where
  "Resolve recipient =
     (let address = normalizeAddress recipient in
      case cut address ''@'' of (local, _, ok) \<Rightarrow>
      if ok \<and> ReservedLocalPart local then ret None else
      (case splitPlusTag address of (base, tag) \<Rightarrow>
       let literal = \<lparr>ca_lookup_address = address, ca_original_recipient = address, ca_base_recipient = address, ca_plus_tag = []\<rparr>;
           target = \<lparr>ca_lookup_address = base, ca_original_recipient = address, ca_base_recipient = base, ca_plus_tag = tag\<rparr>
       in or_else (if tag = [] then exactMailbox literal else ret None)
         (or_else (exactRoute literal)
         (or_else (if tag \<noteq> [] then exactMailbox target else ret None)
         (or_else (if tag \<noteq> [] then exactRoute target else ret None)
         (or_else (patternRoute target)
           (catchAllRoute target)))))))"

section \<open>What resolution promises\<close>

text \<open>
  The contract of one step of the search: it only reads, an answer obeys \<open>good\<close>, and no answer
  without an error means that \<open>applies\<close> is false of the tables.
\<close>

locale lookup =
  fixes step :: "result option io" and good :: "db \<Rightarrow> result \<Rightarrow> bool"
  assumes step_spec: "wp step (\<lambda>r w'. w_db w' = w_db w \<and> (case r of Inr (Some x) \<Rightarrow> good (w_db w) x | _ \<Rightarrow> True)) w"
begin

lemma or_else_spec:
  assumes "\<And>w. wp next (\<lambda>r w'. w_db w' = w_db w \<and> (case r of Inr (Some x) \<Rightarrow> good (w_db w) x | _ \<Rightarrow> True)) w"
  shows "wp (or_else step next) (\<lambda>r w'. w_db w' = w_db w \<and> (case r of Inr (Some x) \<Rightarrow> good (w_db w) x | _ \<Rightarrow> True)) w"
  unfolding or_else_def
proof (rule wp_bindI [where R = "\<lambda>r w'. w_db w' = w_db w \<and> (case r of Some x \<Rightarrow> good (w_db w) x | _ \<Rightarrow> True)"])
  show "wp step (\<lambda>r w'. case r of
      Inl e \<Rightarrow> w_db w' = w_db w \<and> (case Inl e of Inr (Some x) \<Rightarrow> good (w_db w) x | _ \<Rightarrow> True)
    | Inr r \<Rightarrow> w_db w' = w_db w \<and> (case r of Some x \<Rightarrow> good (w_db w) x | _ \<Rightarrow> True)) w"
    by (rule wp_mono [OF step_spec]) (auto split: sum.splits option.splits)
  fix x and w' :: world
  assume "w_db w' = w_db w \<and> (case x of Some x \<Rightarrow> good (w_db w) x | _ \<Rightarrow> True)"
  then show "wp (case x of None \<Rightarrow> next | Some x \<Rightarrow> ret (Some x))
      (\<lambda>r w'. w_db w' = w_db w \<and> (case r of Inr (Some x) \<Rightarrow> good (w_db w) x | _ \<Rightarrow> True)) w'"
    using assms [of w'] by (cases x) (auto simp: wp_simps cong: sum.case_cong option.case_cong)
qed

end

text \<open>
  The address a candidate stands for: the address \<open>a\<close> itself, or \<open>a\<close> without its plus tag, where \<open>a\<close> is
  \<open>local+tag@domain\<close> and is looked up as \<open>local@domain\<close>.
\<close>

definition stripped :: "string \<Rightarrow> string \<Rightarrow> string \<Rightarrow> bool" where
  "stripped a base tag \<longleftrightarrow> (\<exists>local domain. a = local @ ''+'' @ tag @ ''@'' @ domain \<and> base = local @ ''@'' @ domain
     \<and> CHR ''+'' \<notin> set local \<and> CHR ''@'' \<notin> set local \<and> CHR ''@'' \<notin> set tag)"

definition stands_for :: "string \<Rightarrow> string \<Rightarrow> string \<Rightarrow> bool" where
  "stands_for a base tag \<longleftrightarrow> base = a \<and> tag = [] \<or> stripped a base tag"

text \<open>The ways in which a route applies to the address \<open>a\<close> looked up as \<open>base\<close>.\<close>

definition route_names :: "string \<Rightarrow> string \<Rightarrow> route \<Rightarrow> bool" where
  "route_names a base r \<longleftrightarrow> ro_source_address r = base
     \<or> ro_type r = ''pattern'' \<and> path_match (ro_source_address r) a
     \<or> ro_type r = ''catch_all'' \<and> (\<exists>local domain. cut a ''@'' = (local, domain, True) \<and> ro_source_address r = ''*@'' @ domain)
     \<or> ro_type r = ''catch_all'' \<and> CHR ''@'' \<notin> set a \<and> ro_source_address r = ''*@''"

text \<open>
  A good answer stands for the address, and names, in full, either the one mailbox with the address looked up or the active
  destinations of an active route that applies to the address.
\<close>

definition good_result :: "string \<Rightarrow> db \<Rightarrow> result \<Rightarrow> bool" where
  "good_result address d x \<longleftrightarrow> re_original_recipient x = address \<and> stands_for address (re_base_recipient x) (re_plus_tag x)
     \<and> re_mailboxes x \<noteq> [] \<and> set (re_mailboxes x) \<subseteq> set (db_mailboxes d) \<and> list_all active_mailbox (re_mailboxes x)
     \<and> (re_route_id x = [] \<and> (\<exists>m. re_mailboxes x = [m] \<and> mb_primary_address m = re_base_recipient x)
        \<or> (\<exists>r \<in> set (db_routes d). active_route r \<and> re_route_id x = ro_id r \<and> route_names address (re_base_recipient x) r
             \<and> re_mailboxes x = filter (\<lambda>m. mb_id m \<in> set (ro_destinations r) \<and> active_mailbox m) (db_mailboxes d)))"

text \<open>The candidates of an address.\<close>

definition candidate_of :: "string \<Rightarrow> candidate \<Rightarrow> bool" where
  "candidate_of a c \<longleftrightarrow> ca_original_recipient c = a \<and> ca_lookup_address c = ca_base_recipient c \<and> stands_for a (ca_base_recipient c) (ca_plus_tag c)"

lemma cut_char_before:
  assumes "cut s [c] = (a, b, ok)"
  shows "c \<notin> set a" and "ok \<longleftrightarrow> c \<in> set s"
proof -
  have "c \<notin> set a \<and> (ok \<longleftrightarrow> c \<in> set s)"
  proof (cases "c \<in> set s")
    case True
    then obtain x y where "s = x @ c # y" "c \<notin> set x" by (meson split_list_first)
    with assms True show ?thesis by (simp add: cut_char)
  qed (use assms in auto)
  then show "c \<notin> set a" and "ok \<longleftrightarrow> c \<in> set s" by simp_all
qed

lemma split_plus_tag: "splitPlusTag a = (base, tag) \<Longrightarrow> stands_for a base tag"
proof -
  assume s: "splitPlusTag a = (base, tag)"
  obtain l d ok where c: "cut a ''@'' = (l, d, ok)" by (cases "cut a ''@''") auto
  obtain b t ok2 where p: "cut l ''+'' = (b, t, ok2)" by (cases "cut l ''+''") auto
  show ?thesis
  proof (cases "ok \<and> ok2")
    case True
    with c p have "a = l @ ''@'' @ d" "CHR ''@'' \<notin> set l" "l = b @ ''+'' @ t" "CHR ''+'' \<notin> set b"
      by (auto dest: cut_found cut_char_before)
    moreover have "base = b @ ''@'' @ d" "tag = t" using s c p True by (simp_all add: splitPlusTag_def)
    ultimately show ?thesis by (auto simp: stands_for_def stripped_def)
  next
    case False
    with s c p have "(base, tag) = (a, [])" by (cases ok; cases ok2) (simp_all add: splitPlusTag_def)
    then show ?thesis by (simp add: stands_for_def)
  qed
qed

lemma wp_found [wp_simps]:
  "wp (found m) Q w = wp m (\<lambda>r w'. case r of Inl e \<Rightarrow> if e = NotFound then Q (Inr None) w' else Q (Inl e) w'
     | Inr x \<Rightarrow> Q (Inr (Some x)) w') w"
  unfolding found_def by (auto simp: wp_def bindE_def tryE_def ret_def fail_def split: sum.splits prod.splits)

lemma only_filter: "only (filter p xs) = Inr x \<Longrightarrow> x \<in> set xs \<and> p x"
  by (cases "filter p xs" rule: only.cases) (auto simp: filter_eq_Cons_iff)

lemma first_filter: "first (filter p xs) = Inr x \<Longrightarrow> x \<in> set xs \<and> p x"
  by (cases "filter p xs") (auto simp: filter_eq_Cons_iff)

lemma first_pattern_in: "first_pattern a rs = Some r \<Longrightarrow> r \<in> set rs \<and> path_match (ro_source_address r) a"
  by (induction rs) (auto split: if_splits)

abbreviation looks_up :: "string \<Rightarrow> world \<Rightarrow> (err + result option) \<Rightarrow> world \<Rightarrow> bool" where
  "looks_up a w \<equiv> \<lambda>r w'. w_db w' = w_db w \<and> (case r of Inr (Some x) \<Rightarrow> good_result a (w_db w) x | _ \<Rightarrow> True)"

lemma routeResult_spec:
  assumes "r \<in> set (db_routes (w_db w))" and "active_route r" and "candidate_of a target" and "route_names a (ca_base_recipient target) r"
  shows "wp (routeResult r target) (looks_up a w) w"
  using assms
  by (auto simp: routeResult_def wp_simps T_mailboxes_def good_result_def mk_result_def list_all_iff candidate_of_def)

lemma exactMailbox_spec:
  assumes "candidate_of a target"
  shows "wp (exactMailbox target) (looks_up a w) w"
  using assms unfolding exactMailbox_def
  by (auto simp: wp_simps T_mailboxes_def good_result_def mk_result_def candidate_of_def split: sum.split dest!: only_filter)

text \<open>A query for a route, then its destinations.\<close>

lemma route_spec:
  assumes "candidate_of a target" and "\<And>r. x = Some r \<Longrightarrow> r \<in> set (db_routes (w_db w)) \<and> active_route r \<and> route_names a (ca_base_recipient target) r"
  shows "wp (case x of None \<Rightarrow> ret None | Some r \<Rightarrow> routeResult r target) (looks_up a w) (pop w)"
proof (cases x)
  case (Some r)
  with routeResult_spec [of r "pop w" a target] assms show ?thesis by (simp cong: sum.case_cong option.case_cong)
qed (simp add: wp_simps)

lemma exactRoute_spec:
  assumes "candidate_of a target"
  shows "wp (exactRoute target) (looks_up a w) w"
proof -
  have "wp (routeResult r target) (looks_up a w) (pop w)"
    if "only (filter (\<lambda>r. ro_source_address r = ca_lookup_address target \<and> active_route r) (db_routes (w_db w))) = Inr r" for r
    using route_spec [OF assms, of "Some r" w] only_filter [OF that] assms by (simp add: route_names_def candidate_of_def)
  then show ?thesis
    unfolding exactRoute_def by (auto simp: wp_simps T_routes_def split: sum.split)
qed

lemma patternRoute_spec:
  assumes "candidate_of a target"
  shows "wp (patternRoute target) (looks_up a w) w"
proof -
  have "wp (routeResult r target) (looks_up a w) (pop w)"
    if "first_pattern a (filter (\<lambda>r. ro_type r = ''pattern'' \<and> active_route r) (db_routes (w_db w))) = Some r" for r
    using route_spec [OF assms, of "Some r" w] first_pattern_in [OF that] by (simp add: route_names_def)
  then show ?thesis
    using assms unfolding patternRoute_def by (auto simp: wp_simps T_routes_def candidate_of_def split: option.split)
qed

lemma catch_all_names: "ro_source_address r = ''*@'' @ addressDomain a \<Longrightarrow> ro_type r = ''catch_all'' \<Longrightarrow> route_names a base r"
proof -
  obtain l d ok where c: "cut a ''@'' = (l, d, ok)" by (cases "cut a ''@''") auto
  have "\<not> ok \<Longrightarrow> CHR ''@'' \<notin> set a \<and> d = []" using c cut_char_before(2) [OF c] by (auto dest: cut_not_found)
  then show "ro_source_address r = ''*@'' @ addressDomain a \<Longrightarrow> ro_type r = ''catch_all'' \<Longrightarrow> ?thesis"
    using c by (cases ok) (auto simp: route_names_def addressDomain_def)
qed

lemma catchAllRoute_spec:
  assumes "candidate_of a target"
  shows "wp (catchAllRoute target) (looks_up a w) w"
proof -
  have "wp (routeResult r target) (looks_up a w) (pop w)"
    if "first (filter (\<lambda>r. ro_source_address r = ''*@'' @ addressDomain a \<and> ro_type r = ''catch_all'' \<and> active_route r) (db_routes (w_db w))) = Inr r" for r
    using route_spec [OF assms, of "Some r" w] first_filter [OF that] catch_all_names by simp
  then show ?thesis
    using assms unfolding catchAllRoute_def by (auto simp: wp_simps T_routes_def candidate_of_def split: sum.split)
qed

definition literal_candidate :: "string \<Rightarrow> candidate" where
  "literal_candidate a = \<lparr>ca_lookup_address = a, ca_original_recipient = a, ca_base_recipient = a, ca_plus_tag = []\<rparr>"

definition tagged_candidate :: "string \<Rightarrow> candidate" where
  "tagged_candidate a = (case splitPlusTag a of (base, tag) \<Rightarrow>
     \<lparr>ca_lookup_address = base, ca_original_recipient = a, ca_base_recipient = base, ca_plus_tag = tag\<rparr>)"

lemma candidates: "candidate_of a (literal_candidate a)" "candidate_of a (tagged_candidate a)"
proof -
  show "candidate_of a (literal_candidate a)" by (simp add: candidate_of_def literal_candidate_def stands_for_def)
  show "candidate_of a (tagged_candidate a)"
    by (cases "splitPlusTag a") (simp add: candidate_of_def tagged_candidate_def split_plus_tag)
qed

interpretation exm: lookup "if c then exactMailbox (literal_candidate a) else ret None" "good_result a" for a c
  using exactMailbox_spec [OF candidates(1)] by unfold_locales (auto simp: wp_simps)

interpretation exr: lookup "exactRoute (literal_candidate a)" "good_result a" for a
  by unfold_locales (rule exactRoute_spec [OF candidates(1)])

interpretation exm2: lookup "if c then exactMailbox (tagged_candidate a) else ret None" "good_result a" for a c
  using exactMailbox_spec [OF candidates(2)] by unfold_locales (auto simp: wp_simps)

interpretation exr2: lookup "if c then exactRoute (tagged_candidate a) else ret None" "good_result a" for a c
  using exactRoute_spec [OF candidates(2)] by unfold_locales (auto simp: wp_simps)

interpretation pat: lookup "patternRoute (tagged_candidate a)" "good_result a" for a
  by unfold_locales (rule patternRoute_spec [OF candidates(2)])

lemma resolve_spec:
  "wp (Resolve recipient) (looks_up (normalizeAddress recipient) w) w"
proof -
  let ?a = "normalizeAddress recipient"
  obtain local dom ok where c: "cut ?a ''@'' = (local, dom, ok)" by (cases "cut ?a ''@''") auto
  obtain base tag where s: "splitPlusTag ?a = (base, tag)" by (cases "splitPlusTag ?a") auto
  have "wp (or_else (if tag = [] then exactMailbox (literal_candidate ?a) else ret None)
      (or_else (exactRoute (literal_candidate ?a)) (or_else (if tag \<noteq> [] then exactMailbox (tagged_candidate ?a) else ret None)
      (or_else (if tag \<noteq> [] then exactRoute (tagged_candidate ?a) else ret None)
      (or_else (patternRoute (tagged_candidate ?a)) (catchAllRoute (tagged_candidate ?a)))))))
      (looks_up ?a w) w"
    by (intro exm.or_else_spec exr.or_else_spec exm2.or_else_spec exr2.or_else_spec pat.or_else_spec catchAllRoute_spec candidates)
  note search = this [unfolded literal_candidate_def tagged_candidate_def s prod.case]
  show ?thesis
  proof (cases "ok \<and> ReservedLocalPart local")
    case True
    then show ?thesis unfolding Resolve_def Let_def c prod.case by (simp add: wp_simps)
  next
    case False
    show ?thesis unfolding Resolve_def Let_def c s prod.case if_not_P [OF False] by (rule search)
  qed
qed


section \<open>Resolution as a function of the tables\<close>

definition mailbox_answer :: "db \<Rightarrow> candidate \<Rightarrow> result option" where
  "mailbox_answer d target = map_option (\<lambda>m. mk_result target [] [m])
     (find (\<lambda>m. mb_primary_address m = ca_lookup_address target \<and> active_mailbox m) (db_mailboxes d))"

definition route_answer :: "db \<Rightarrow> candidate \<Rightarrow> route option \<Rightarrow> result option" where
  "route_answer d target r = (case r of None \<Rightarrow> None | Some route \<Rightarrow>
     (case filter (\<lambda>m. mb_id m \<in> set (ro_destinations route) \<and> active_mailbox m) (db_mailboxes d) of
        [] \<Rightarrow> None | ms \<Rightarrow> Some (mk_result target (ro_id route) ms)))"

definition exact_answer :: "db \<Rightarrow> candidate \<Rightarrow> result option" where
  "exact_answer d target = route_answer d target
     (find (\<lambda>r. ro_source_address r = ca_lookup_address target \<and> active_route r) (db_routes d))"

definition pattern_answer :: "db \<Rightarrow> candidate \<Rightarrow> result option" where
  "pattern_answer d target = route_answer d target
     (find (\<lambda>r. (ro_type r = ''pattern'' \<and> active_route r) \<and> path_match (ro_source_address r) (ca_original_recipient target)) (db_routes d))"

definition catch_all_answer :: "db \<Rightarrow> candidate \<Rightarrow> result option" where
  "catch_all_answer d target = route_answer d target
     (find (\<lambda>r. ro_source_address r = ''*@'' @ addressDomain (ca_original_recipient target)
        \<and> ro_type r = ''catch_all'' \<and> active_route r) (db_routes d))"

fun first_answer :: "'a option list \<Rightarrow> 'a option" where
  "first_answer [] = None"
| "first_answer (Some x # _) = Some x"
| "first_answer (None # xs) = first_answer xs"

definition reserved_address :: "string \<Rightarrow> bool" where
  "reserved_address a \<longleftrightarrow> (case cut a ''@'' of (local, _, ok) \<Rightarrow> ok \<and> ReservedLocalPart local)"

definition resolve_db :: "db \<Rightarrow> string \<Rightarrow> result option" where
  "resolve_db d recipient =
     (let a = normalizeAddress recipient; lit = literal_candidate a; tgt = tagged_candidate a;
          tagged = (snd (splitPlusTag a) \<noteq> [])
      in if reserved_address a then None else first_answer
        ((if tagged then [] else [mailbox_answer d lit]) @ [exact_answer d lit]
         @ (if tagged then [mailbox_answer d tgt, exact_answer d tgt] else [])
         @ [pattern_answer d tgt, catch_all_answer d tgt]))"

definition addresses_unique :: "db \<Rightarrow> bool" where
  "addresses_unique d \<longleftrightarrow> distinct (map mb_primary_address (db_mailboxes d)) \<and> distinct (map ro_source_address (db_routes d))"

lemma only_unique:
  assumes "distinct (map k xs)"
  shows "only (filter (\<lambda>x. k x = i \<and> q x) xs) = (case find (\<lambda>x. k x = i \<and> q x) xs of None \<Rightarrow> Inl NotFound | Some x \<Rightarrow> Inr x)"
  using assms
proof (induction xs)
  case (Cons x xs)
  show ?case
  proof (cases "k x = i \<and> q x")
    case True
    then have "filter (\<lambda>x. k x = i \<and> q x) xs = []" using Cons.prems by (auto simp: filter_empty_conv image_iff)
    with True show ?thesis by simp
  next
    case False
    with Cons show ?thesis by auto
  qed
qed simp

lemma first_find: "first (filter p xs) = (case find p xs of None \<Rightarrow> Inl NotFound | Some x \<Rightarrow> Inr x)"
  by (induction xs) auto

lemma first_pattern_find:
  "first_pattern a (filter q xs) = find (\<lambda>r. q r \<and> path_match (ro_source_address r) a) xs"
  by (induction xs) auto

lemma run_found:
  "m w = (case x of None \<Rightarrow> Inl NotFound | Some y \<Rightarrow> Inr y, w) \<Longrightarrow> found m w = (Inr x, w)"
  by (cases x) (simp_all add: found_def bindE_def tryE_def ret_def)

lemma run_or_else: "m w = (Inr x, w) \<Longrightarrow> n w = (Inr y, w) \<Longrightarrow>
    or_else m n w = (Inr (case x of Some z \<Rightarrow> Some z | None \<Rightarrow> y), w)"
  by (cases x) (simp_all add: or_else_def bindE_def ret_def)

lemma run_routeResult: "w_faults w = [] \<Longrightarrow> routeResult r target w = (Inr (route_answer (w_db w) target (Some r)), w)"
  by (simp add: routeResult_def route_answer_def bindE_def ret_def T_mailboxes_def split: list.split)

lemma run_answers:
  assumes f: "w_faults w = []" and u: "addresses_unique (w_db w)"
  shows "exactMailbox target w = (Inr (mailbox_answer (w_db w) target), w)"
    and "exactRoute target w = (Inr (exact_answer (w_db w) target), w)"
    and "patternRoute target w = (Inr (pattern_answer (w_db w) target), w)"
    and "catchAllRoute target w = (Inr (catch_all_answer (w_db w) target), w)"
proof -
  have m: "found (selectOnly T_mailboxes (\<lambda>m. mb_primary_address m = ca_lookup_address target \<and> active_mailbox m)) w
      = (Inr (find (\<lambda>m. mb_primary_address m = ca_lookup_address target \<and> active_mailbox m) (db_mailboxes (w_db w))), w)"
    by (rule run_found) (use f u in \<open>simp add: only_unique [of mb_primary_address] T_mailboxes_def addresses_unique_def\<close>)
  then show "exactMailbox target w = (Inr (mailbox_answer (w_db w) target), w)"
    by (simp add: exactMailbox_def bindE_def ret_def mailbox_answer_def split: option.split)
  have r: "found (selectOnly T_routes (\<lambda>r. ro_source_address r = ca_lookup_address target \<and> active_route r)) w
      = (Inr (find (\<lambda>r. ro_source_address r = ca_lookup_address target \<and> active_route r) (db_routes (w_db w))), w)"
    by (rule run_found) (use f u in \<open>simp add: only_unique [of ro_source_address] T_routes_def addresses_unique_def\<close>)
  then show "exactRoute target w = (Inr (exact_answer (w_db w) target), w)"
    using f by (simp add: exactRoute_def bindE_def ret_def exact_answer_def run_routeResult route_answer_def split: option.split)
  show "patternRoute target w = (Inr (pattern_answer (w_db w) target), w)"
    using f by (simp add: patternRoute_def bindE_def ret_def pattern_answer_def run_routeResult route_answer_def
        first_pattern_find T_routes_def split: option.split)
  let ?p = "\<lambda>r. ro_source_address r = ''*@'' @ addressDomain (ca_original_recipient target) \<and> ro_type r = ''catch_all'' \<and> active_route r"
  have c: "found (selectFirst T_routes ?p) w = (Inr (find ?p (db_routes (w_db w))), w)"
    by (rule run_found) (use f in \<open>simp add: first_find T_routes_def\<close>)
  then show "catchAllRoute target w = (Inr (catch_all_answer (w_db w) target), w)"
    using f by (simp add: catchAllRoute_def bindE_def ret_def catch_all_answer_def run_routeResult route_answer_def
        split: option.split)
qed

lemma first_answer_Cons: "first_answer (x # xs) = (case x of Some z \<Rightarrow> Some z | None \<Rightarrow> first_answer xs)"
  by (cases x) simp_all

lemma resolve_run:
  assumes f: "w_faults w = []" and u: "addresses_unique (w_db w)"
  shows "Resolve recipient w = (Inr (resolve_db (w_db w) recipient), w)"
proof -
  let ?a = "normalizeAddress recipient"
  obtain local dom ok where c: "cut ?a ''@'' = (local, dom, ok)" by (cases "cut ?a ''@''") auto
  obtain base tag where s: "splitPlusTag ?a = (base, tag)" by (cases "splitPlusTag ?a") auto
  have skip: "or_else (ret None) n = n" for n :: "result option io"
    by (rule ext) (simp add: or_else_def bindE_def ret_def)
  show ?thesis
    unfolding Resolve_def resolve_db_def Let_def
    by (simp add: c s skip reserved_address_def literal_candidate_def tagged_candidate_def first_answer_Cons
        run_or_else run_answers [OF f u] ret_def split: option.split)
qed

section \<open>Properties\<close>

text \<open>
  C17.  Resolution is sound, with any of its queries failing: it changes no table, and an answer stands for the recipient
  address, normalised, with or without its plus tag, and names at least one mailbox: the one whose primary address is the
  address looked up, or all active destinations of an active route that is not deleted and whose source is the address looked
  up, a pattern that matches the recipient, or the catch-all of its domain.  Every mailbox exists, is active and not deleted.
\<close>

theorem resolve_sound:
  "case Resolve recipient w of (r, w') \<Rightarrow> w_db w' = w_db w
     \<and> (case r of Inr (Some x) \<Rightarrow> good_result (normalizeAddress recipient) (w_db w) x | _ \<Rightarrow> True)"
  using resolve_spec [of recipient w] by (simp add: wp_def)

text \<open>
  C18.  When the database answers, resolution is the first answer, in this order, of: the mailbox with the
  address (only if it has no plus tag), the route with the address, the mailbox and the route of the address
  without its tag, the first matching pattern route, the catch-all route of the domain.  A route whose
  destinations are all inactive is passed over, not answered with nobody.
\<close>

theorem resolve_refines:
  assumes "w_faults w = []" and "addresses_unique (w_db w)"
  shows "Resolve recipient w = (Inr (resolve_db (w_db w) recipient), w)"
  using resolve_run [OF assms] .

definition sample_route :: "string \<Rightarrow> string \<Rightarrow> string \<Rightarrow> route" where
  "sample_route i source typ = \<lparr>ro_id = i, ro_source_address = source, ro_type = typ, ro_destinations = [''box''],
     ro_status = ''active'', ro_deleted_at = None\<rparr>"

definition routing_world :: world where
  "routing_world = world_of (sample_db\<lparr>db_routes := [sample_route ''r1'' ''*@example.org'' ''catch_all'',
     sample_route ''r2'' ''s*@example.org'' ''pattern'', sample_route ''r3'' ''ann@example.org'' ''alias'']\<rparr>)"

theorem resolve_refines_witness:
  "map_sum id (map_option (\<lambda>x. (re_route_id x, re_plus_tag x))) (fst (Resolve '' Ann+news@example.org'' routing_world)) = Inr (Some ([], ''news''))
   \<and> map_sum id (map_option re_route_id) (fst (Resolve ''sales@example.org'' routing_world)) = Inr (Some ''r2'')"
proof -
  have h: "w_faults routing_world = []" "addresses_unique (w_db routing_world)" by code_simp+
  have "map_option (\<lambda>x. (re_route_id x, re_plus_tag x)) (resolve_db (w_db routing_world) '' Ann+news@example.org'') = Some ([], ''news'')"
    "map_option re_route_id (resolve_db (w_db routing_world) ''sales@example.org'') = Some ''r2''" by code_simp+
  then show ?thesis by (simp add: resolve_refines [OF h])
qed

text \<open>
  The reserved return-path addresses never resolve: whatever mailboxes and routes exist (catch-all
  routes included), an address whose local part is \<^verbatim>\<open>bounces\<close> in any case is answered with nobody, without a query.
\<close>

theorem reserved_never_resolves:
  assumes "cut (normalizeAddress recipient) ''@'' = (local, domain, True)" and "equal_fold (trim_space local) ''bounces''"
  shows "Resolve recipient w = (Inr None, w)"
  using assms by (simp add: Resolve_def ReservedLocalPart_def ReservedBouncesLocal_def ret_def Let_def)

theorem reserved_never_resolves_witness:
  "Resolve ''BOUNCES@example.org'' routing_world = (Inr None, routing_world)"
  by (rule reserved_never_resolves [of _ "''bounces''" "''example.org''"]) code_simp+

end
