(* ===== verification/Rules.thy ===== *)
theory Rules
  imports Routing Mailstore
begin

text \<open>
  The event log, \<^verbatim>\<open>internal/events/events.go\<close>, and the routing rules that run after a delivery,
  \<^verbatim>\<open>internal/rules/rules.go\<close>.  Conditions and actions are JSON objects, as association lists without repeated keys;
  the wake-up callback of the event service is not modelled.
\<close>

section \<open>Events\<close>

type_synonym payload = "(string \<times> json) list"

fun stringValue :: "json option \<Rightarrow> string" where
  "stringValue (Some (JStr s)) = s"
| "stringValue _ = []"

definition new_event :: "string \<Rightarrow> string \<Rightarrow> string \<Rightarrow> string \<Rightarrow> string \<Rightarrow> payload \<Rightarrow> time \<Rightarrow> event_log" where
  "new_event i typ traceID messageID mailboxID payload t = \<lparr>ev_id = i, ev_event_type = typ, ev_trace_id = traceID,
     ev_message_id = messageID, ev_mailbox_id = mailboxID, ev_payload = payload, ev_status = ''queued'',
     ev_attempts = 0, ev_locked_by = None, ev_locked_until = None, ev_next_attempt_at = None, ev_last_error = [], ev_created_at = t\<rparr>"

definition insert_event :: "string \<Rightarrow> string \<Rightarrow> string \<Rightarrow> string \<Rightarrow> payload \<Rightarrow> unit io" where
  "insert_event typ traceID messageID mailboxID payload =
     bindE newID (\<lambda>i.
     bindE now (\<lambda>t.
     bindE (insertRow T_events (\<lambda>r x. ev_id r = ev_id x) (new_event i typ traceID messageID mailboxID payload t)) (\<lambda>_.
     ret ())))"

definition deliveredMailboxIDs :: "mailbox list \<Rightarrow> string list" where
  "deliveredMailboxIDs mailboxes = map mb_id mailboxes"

definition EmitMessageReceived :: "message \<Rightarrow> result list \<Rightarrow> unit io" where
  "EmitMessageReceived msg recipients = forE recipients (\<lambda>recipient.
     let mailboxIDs = deliveredMailboxIDs (re_mailboxes recipient);
         payload = [(''event'', JStr ''message.received''), (''routing_rule_id'', JStr []), (''trace_id'', JStr (me_trace_id msg)),
           (''message_id'', JStr (me_id msg)), (''original_rcpt'', JStr (re_original_recipient recipient)),
           (''base_rcpt'', JStr (re_base_recipient recipient)), (''plus_tag'', JStr (re_plus_tag recipient)),
           (''default_destinations'', JArr (map JStr mailboxIDs))]
     in insert_event ''message.received'' (me_trace_id msg) (me_id msg)
          (if length mailboxIDs = 1 then hd mailboxIDs else []) payload)"

definition Emit :: "string \<Rightarrow> string \<Rightarrow> payload \<Rightarrow> unit io" where
  "Emit eventType mailboxID payload =
     insert_event eventType (stringValue (map_of payload ''trace_id'')) (stringValue (map_of payload ''message_id'')) mailboxID payload"

section \<open>Conditions\<close>

definition actionString :: "(string \<times> json) list \<Rightarrow> string \<Rightarrow> string" where
  "actionString action key = trim_space (stringValue (map_of action key))"

definition containsString :: "string list \<Rightarrow> string \<Rightarrow> bool" where
  "containsString values expected = list_ex (\<lambda>v. equal_fold v expected) values"

definition firstDomain :: "string list \<Rightarrow> string" where
  "firstDomain addresses = (case addresses of [] \<Rightarrow> []
     | a # _ \<Rightarrow> (case cut (to_lower a) ''@'' of (_, domain, _) \<Rightarrow> domain))"

definition condition_holds :: "message \<Rightarrow> result \<Rightarrow> string \<times> json \<Rightarrow> bool" where
  "condition_holds msg route kv = (case kv of (key, value) \<Rightarrow>
     let expected = to_lower (stringValue (Some value)) in
     if key = ''plus_tag'' then to_lower (re_plus_tag route) = expected
     else if key = ''original_rcpt'' then to_lower (re_original_recipient route) = expected
     else if key = ''base_rcpt'' then to_lower (re_base_recipient route) = expected
     else if key = ''from'' then containsString (me_from msg) expected
     else if key = ''subject_contains'' then contains (to_lower (me_subject msg)) expected
     else True)"

definition conditionsMatch :: "(string \<times> json) list \<Rightarrow> message \<Rightarrow> result \<Rightarrow> bool" where
  "conditionsMatch conditions msg route = (conditions = [] \<or> list_all (condition_holds msg route) conditions)"

section \<open>Actions\<close>

record delivery =
  de_message :: mailbox_message
  de_route :: result

definition webhookPayload :: "message \<Rightarrow> routing_rule \<Rightarrow> delivery \<Rightarrow> string \<Rightarrow> payload" where
  "webhookPayload msg rule d eventType =
     [(''event'', JStr eventType), (''trace_id'', JStr (me_trace_id msg)), (''message_id'', JStr (me_id msg)),
      (''mailbox_id'', JStr (mm_mailbox_id (de_message d))), (''mailbox_message_id'', JStr (mm_id (de_message d))),
      (''routing_rule_id'', JStr (rr_id rule)), (''routing_rule_name'', JStr (rr_name rule)),
      (''original_rcpt'', JStr (re_original_recipient (de_route d))), (''base_rcpt'', JStr (re_base_recipient (de_route d))),
      (''plus_tag'', JStr (re_plus_tag (de_route d))), (''route_id'', JStr (re_route_id (de_route d)))]"

text \<open>The custom payload overrides: its entries come first in the association list.\<close>

definition emitWebhook :: "bool \<Rightarrow> message \<Rightarrow> routing_rule \<Rightarrow> delivery \<Rightarrow> (string \<times> json) list \<Rightarrow> unit io" where
  "emitWebhook events msg rule d action =
     (if \<not> events then ret () else
      let e1 = actionString action ''event_type'';
          e2 = (if e1 = [] then actionString action ''event'' else e1);
          eventType = (if e2 = [] then ''message.routed'' else e2);
          payload = webhookPayload msg rule d eventType;
          custom = (case map_of action ''payload'' of Some (JObj kvs) \<Rightarrow> kvs | _ \<Rightarrow> [])
      in Emit eventType (mm_mailbox_id (de_message d)) (custom @ filter (\<lambda>kv. fst kv \<notin> fst ` set custom) payload))"

definition moveToFolder :: "mailbox_message \<Rightarrow> string \<Rightarrow> unit io" where
  "moveToFolder item folderName = bindE (MoveToFolderName item folderName) (\<lambda>_. ret ())"

definition rule_move :: "mailbox_message \<Rightarrow> (string \<times> json) list \<Rightarrow> unit io" where
  "rule_move item action =
     (let folderID = actionString action ''folder_id'' in
      if folderID \<noteq> [] then bindE (Move item folderID) (\<lambda>_. ret ()) else
      let n1 = actionString action ''folder'';
          folderName = (if n1 = [] then actionString action ''folder_name'' else n1)
      in if folderName = [] then ret () else moveToFolder item folderName)"

definition rule_addLabel :: "mailbox_message \<Rightarrow> (string \<times> json) list \<Rightarrow> unit io" where
  "rule_addLabel item action =
     (let labelID = actionString action ''label_id'' in
      if labelID \<noteq> [] then bindE (AddLabel item labelID) (\<lambda>_. ret ()) else
      let n1 = actionString action ''label'';
          labelName = (if n1 = [] then actionString action ''label_name'' else n1)
      in if labelName = [] then ret () else
         bindE (selectOnly T_labels (\<lambda>l. la_mailbox_id l = mm_mailbox_id item \<and> la_name l = labelName)) (\<lambda>l.
         bindE (AddLabel item (la_id l)) (\<lambda>_. ret ())))"

definition copyToMailbox :: "mailbox_message \<Rightarrow> string \<Rightarrow> unit io" where
  "copyToMailbox item mailboxID =
     (if mailboxID = [] \<or> mailboxID = mm_mailbox_id item then ret () else
      bindE (FolderByName mailboxID ''INBOX'') (\<lambda>inbox.
      bindE (selectOnly T_messages (\<lambda>m. me_id m = mm_message_id item)) (\<lambda>source.
      bindE (tryE (Attach \<lparr>at_mailbox_id = mailboxID, at_message_id = mm_message_id item, at_folder_id = fo_id inbox,
          at_size_bytes = me_size_bytes source, at_original_rcpt = mm_original_rcpt item, at_base_rcpt = mm_base_rcpt item,
          at_plus_tag = [], at_resolved_route_id = [], at_flags = no_flags, at_created_at = 0, at_enforce_quota = True\<rparr>)) (\<lambda>r.
      case r of Inl e \<Rightarrow> if e = ConstraintError \<or> e = ErrOverQuota then ret () else fail e | Inr _ \<Rightarrow> ret ()))))"

definition set_column :: "mailbox_message \<Rightarrow> (mailbox_message \<Rightarrow> mailbox_message) \<Rightarrow> unit io" where
  "set_column item f = bindE now (\<lambda>t.
     bindE (updateOne T_mms (\<lambda>r. mm_id r = mm_id item) (\<lambda>r. (f r)\<lparr>mm_updated_at := t\<rparr>)) (\<lambda>_. ret ()))"

definition applyAction :: "bool \<Rightarrow> message \<Rightarrow> routing_rule \<Rightarrow> delivery \<Rightarrow> (string \<times> json) list \<Rightarrow> unit io" where
  "applyAction events msg rule d action =
     (let item = de_message d;
          t1 = actionString action ''type'';
          typeName = (if t1 = [] then actionString action ''action'' else t1)
      in if typeName \<in> {''move'', ''move_to_folder''} then rule_move item action
      else if typeName \<in> {''add_label'', ''label''} then rule_addLabel item action
      else if typeName = ''mark_read'' then set_column item (\<lambda>r. r\<lparr>mm_read := True\<rparr>)
      else if typeName = ''mark_unread'' then set_column item (\<lambda>r. r\<lparr>mm_read := False\<rparr>)
      else if typeName = ''mark_flagged'' then set_column item (\<lambda>r. r\<lparr>mm_flagged := True\<rparr>)
      else if typeName \<in> {''junk'', ''quarantine''} then moveToFolder item ''Junk''
      else if typeName \<in> {''delete'', ''drop''} then SoftDelete item
      else if typeName = ''copy_to_mailbox'' then copyToMailbox item (actionString action ''mailbox_id'')
      else if typeName \<in> {''webhook'', ''emit_webhook''} then emitWebhook events msg rule d action
      else ret ())"

section \<open>Applying the rules\<close>

definition load_rules :: "string \<Rightarrow> string list \<Rightarrow> routing_rule list io" where
  "load_rules scope refs =
     bindE (selectAll T_rules (\<lambda>r. rr_scope r = scope \<and> rr_enabled r \<and> (refs = [] \<or> rr_scope_ref r \<in> set refs))) (\<lambda>items.
     ret (sort_key (\<lambda>r. (rr_priority r, rr_created_at r)) items))"

definition rules :: "message \<Rightarrow> delivery \<Rightarrow> routing_rule list io" where
  "rules msg d =
     (let route = de_route d; domain = firstDomain (me_from msg) in
      bindE (if re_route_id route \<noteq> [] then load_rules ''route'' [re_route_id route] else ret []) (\<lambda>r1.
      bindE (load_rules ''address'' [re_original_recipient route, re_base_recipient route]) (\<lambda>r2.
      bindE (load_rules ''mailbox'' [mm_mailbox_id (de_message d)]) (\<lambda>r3.
      bindE (if domain \<noteq> [] then load_rules ''domain'' [domain] else ret []) (\<lambda>r4.
      bindE (load_rules ''global'' []) (\<lambda>r5.
      ret (r1 @ r2 @ r3 @ r4 @ r5)))))))"

definition applyDelivery :: "bool \<Rightarrow> message \<Rightarrow> delivery \<Rightarrow> unit io" where
  "applyDelivery events msg d =
     bindE (rules msg d) (\<lambda>rs.
     forE rs (\<lambda>rule.
       if \<not> conditionsMatch (rr_conditions rule) msg (de_route d) then ret ()
       else forE (rr_actions rule) (\<lambda>action.
         bindE (tryE (applyAction events msg rule d action)) (\<lambda>r.
         case r of Inl e \<Rightarrow> if e \<noteq> NotFound then fail e else ret () | Inr _ \<Rightarrow> ret ()))))"

definition Apply :: "bool \<Rightarrow> message \<Rightarrow> delivery list \<Rightarrow> unit io" where
  "Apply events msg deliveries = forE deliveries (applyDelivery events msg)"

end
