(* ===== verification/Cleanup.thy ===== *)
theory Cleanup
  imports Mailstore Rules
begin

text \<open>
  The cleanup worker, \<^verbatim>\<open>internal/cleanup/worker.go\<close>: expired trash, deleted mailboxes, expired exports, messages no row and
  no job refers to, stale leases, lockouts and history.  The queue depth is a value returned, since metrics are left out.
\<close>

abbreviation days30 :: duration where "days30 \<equiv> 30 * day"

definition historyRetention :: duration where "historyRetention = 90 * day"

definition ignoreNotFound :: "unit io \<Rightarrow> unit io" where
  "ignoreNotFound m = bindE (tryE m) (\<lambda>r. case r of Inl e \<Rightarrow> if e = NotFound then ret () else fail e | Inr _ \<Rightarrow> ret ())"

definition cleanupTrash :: "unit io" where
  "cleanupTrash =
     bindE now (\<lambda>t. let cutoff = t - days30 in
     bindE (selectAll T_folders (\<lambda>f. fo_name f = ''Trash'')) (\<lambda>folders.
     forE folders (\<lambda>item.
       bindE (selectAll T_mms (\<lambda>r. mm_folder_id r = fo_id item \<and> mm_deleted_at r = None \<and> mm_updated_at r < cutoff)) (\<lambda>gone.
       SoftDeleteMany gone))))"

definition cleanupDeletedMailboxes :: "unit io" where
  "cleanupDeletedMailboxes =
     bindE now (\<lambda>t. let cutoff = t - days30 in
     bindE (selectAll T_mailboxes (\<lambda>m. mb_status m = ''deleted'' \<and> (case mb_deleted_at m of None \<Rightarrow> False | Some u \<Rightarrow> u \<le> cutoff))) (\<lambda>mailboxes.
     forE mailboxes (\<lambda>mbox. PurgeMailbox (mb_id mbox))))"

definition cleanupExpiredExports :: "unit io" where
  "cleanupExpiredExports =
     bindE now (\<lambda>t.
     bindE (selectAll T_exports (\<lambda>j. (case ej_expires_at j of None \<Rightarrow> False | Some u \<Rightarrow> u \<le> t) \<and> ej_object_key j \<noteq> None)) (\<lambda>jobs.
     forE jobs (\<lambda>job.
       bindE (deleteBlob (the (ej_object_key job))) (\<lambda>_.
       ignoreNotFound (deleteOne T_exports (\<lambda>j. ej_id j = ej_id job))))))"

text \<open>
  No row of a mailbox that is live, or was deleted after \<open>retention\<close>, and no job that may still send it, refers to the message.
\<close>

definition unreferencedMessage :: "time \<Rightarrow> db \<Rightarrow> message \<Rightarrow> bool" where
  "unreferencedMessage retention d m \<longleftrightarrow>
     \<not> list_ex (\<lambda>r. mm_message_id r = me_id m \<and> (case mm_deleted_at r of None \<Rightarrow> True | Some u \<Rightarrow> retention \<le> u)) (db_mms d)
   \<and> \<not> list_ex (\<lambda>j. oj_message_id j = me_id m \<and> oj_status j \<in> {''queued'', ''retry'', ''processing''}) (db_jobs d)"

definition deleted_before :: "time \<Rightarrow> mailbox_message \<Rightarrow> bool" where
  "deleted_before retention r \<longleftrightarrow> (case mm_deleted_at r of None \<Rightarrow> False | Some u \<Rightarrow> u < retention)"

definition deleteMessageInTx :: "string \<Rightarrow> time \<Rightarrow> nat io" where
  "deleteMessageInTx messageID retention =
     bindE (selectAll T_mms (\<lambda>r. mm_message_id r = messageID \<and> deleted_before retention r)) (\<lambda>rows.
     let ids = map mm_id rows in
     bindE (if ids = [] then ret () else
       bindE (DeleteLabelLinks ids) (\<lambda>_.
       bindE (deleteWhere T_mms (\<lambda>r. mm_id r \<in> set ids \<and> deleted_before retention r)) (\<lambda>_. ret ()))) (\<lambda>_.
     dbcall (\<lambda>d. let p = (\<lambda>m. me_id m = messageID \<and> unreferencedMessage retention d m) in
       (Inr (length (filter p (db_messages d))), d\<lparr>db_messages := delete_where p (db_messages d)\<rparr>))))"

text \<open>A deletion that hits no row is rolled back: the body ends with the error \<open>nothing_deleted\<close>, which is no error of the caller.\<close>

definition nothing_deleted :: err where "nothing_deleted = ErrText ''nothing deleted''"

definition deleteMessageRows :: "message \<Rightarrow> time \<Rightarrow> unit io" where
  "deleteMessageRows msg retention =
     bindE (tryE (in_tx (bindE (deleteMessageInTx (me_id msg) retention) (\<lambda>n. if n = 0 then fail nothing_deleted else ret ())))) (\<lambda>r.
     case r of
       Inl e \<Rightarrow> if e = nothing_deleted then ret () else fail e
     | Inr _ \<Rightarrow> if me_blob_key msg = [] then ret () else deleteBlob (me_blob_key msg))"

definition page_size :: nat where "page_size = 200"

text \<open>A page of the messages to delete, in the order of their ids, after \<open>lastID\<close>.\<close>

definition orphans_after :: "time \<Rightarrow> time \<Rightarrow> string \<Rightarrow> db \<Rightarrow> message list" where
  "orphans_after cutoff retention lastID d = sort_key me_id
     (filter (\<lambda>m. me_created_at m < cutoff \<and> unreferencedMessage retention d m \<and> (lastID = [] \<or> lastID < me_id m)) (db_messages d))"

definition orphan_page :: "time \<Rightarrow> time \<Rightarrow> string \<Rightarrow> message list io" where
  "orphan_page cutoff retention lastID = dbcall (\<lambda>d. (Inr (take page_size (orphans_after cutoff retention lastID d)), d))"

text \<open>The loop over the pages; \<open>n\<close> bounds the pages, and one page of 200 for every 200 messages is enough.\<close>

fun orphan_loop :: "nat \<Rightarrow> time \<Rightarrow> time \<Rightarrow> string \<Rightarrow> unit io" where
  "orphan_loop 0 cutoff retention lastID = ret ()"
| "orphan_loop (Suc n) cutoff retention lastID =
     bindE (orphan_page cutoff retention lastID) (\<lambda>messages.
     bindE (forE messages (\<lambda>msg. deleteMessageRows msg retention)) (\<lambda>_.
     if length messages < page_size then ret () else orphan_loop n cutoff retention (me_id (last messages))))"

definition orphan_fuel :: "db \<Rightarrow> nat" where
  "orphan_fuel d = Suc (length (db_messages d))"

definition cleanupOrphanedMessages :: "unit io" where
  "cleanupOrphanedMessages =
     (\<lambda>w. orphan_loop (orphan_fuel (w_db w)) (w_clock w - day) (w_clock w - days30) [] w)"

definition unlock_job :: "outbound_job \<Rightarrow> outbound_job" where
  "unlock_job j = j\<lparr>oj_status := ''retry'', oj_attempts := oj_attempts j + 1, oj_locked_by := None, oj_locked_until := None\<rparr>"

definition unlock_event :: "event_log \<Rightarrow> event_log" where
  "unlock_event e = e\<lparr>ev_status := ''retry'', ev_locked_by := None, ev_locked_until := None\<rparr>"

definition past :: "time option \<Rightarrow> time \<Rightarrow> bool" where
  "past x t = (case x of None \<Rightarrow> False | Some u \<Rightarrow> u \<le> t)"

definition recoverStaleLeases :: "unit io" where
  "recoverStaleLeases =
     bindE now (\<lambda>t.
     bindE (updateWhere T_jobs (\<lambda>j. oj_status j = ''processing'' \<and> past (oj_locked_until j) t)
       (\<lambda>j. (unlock_job j)\<lparr>oj_updated_at := t\<rparr>)) (\<lambda>_.
     bindE (updateWhere T_events (\<lambda>e. ev_status e = ''processing'' \<and> past (ev_locked_until e) t) unlock_event) (\<lambda>_.
     bindE (updateWhere T_exports (\<lambda>j. ej_status j = ''processing'' \<and> past (ej_locked_until j) t)
       (\<lambda>j. j\<lparr>ej_status := ''queued'', ej_locked_by := None, ej_locked_until := None\<rparr>)) (\<lambda>_.
     bindE (updateWhere T_imports (\<lambda>j. ij_status j = ''processing'' \<and> past (ij_locked_until j) t)
       (\<lambda>j. j\<lparr>ij_status := ''queued'', ij_locked_by := None, ij_locked_until := None\<rparr>)) (\<lambda>_.
     ret ())))))"

definition cleanupAuthLockouts :: "unit io" where
  "cleanupAuthLockouts =
     bindE now (\<lambda>t. bindE (deleteWhere T_lockouts (\<lambda>l. al_window_start l < t - day)) (\<lambda>_. ret ()))"

text \<open>\<^verbatim>\<open>errors.Join\<close>: every part runs, whatever the others return.\<close>

definition join_all :: "unit io list \<Rightarrow> err list io" where
  "join_all ms = foldE (\<lambda>errs m. bindE (tryE m) (\<lambda>r. ret (errs @ (case r of Inl e \<Rightarrow> [e] | Inr _ \<Rightarrow> [])))) [] ms"

definition no_count :: "nat io \<Rightarrow> unit io" where
  "no_count m = bindE m (\<lambda>_. ret ())"

definition pruneHistory :: "err list io" where
  "pruneHistory =
     bindE now (\<lambda>t. let cutoff = t - historyRetention in
     join_all [no_count (deleteWhere T_events (\<lambda>e. ev_status e \<notin> {''queued'', ''retry'', ''processing''} \<and> ev_created_at e < cutoff)),
       no_count (deleteWhere T_audit (\<lambda>a. au_created_at a < cutoff)),
       no_count (deleteWhere T_bounces (\<lambda>b. be_created_at b < cutoff)),
       no_count (deleteWhere T_attempts (\<lambda>a. oa_created_at a < cutoff)),
       no_count (deleteWhere T_jobs (\<lambda>j. oj_status j \<in> {''sent'', ''failed''} \<and> oj_updated_at j < cutoff))])"

definition updateQueueDepth :: "nat io" where
  "updateQueueDepth =
     bindE (selectAll T_jobs (\<lambda>j. oj_status j \<in> {''queued'', ''retry''})) (\<lambda>outbound.
     bindE (selectAll T_events (\<lambda>e. ev_status e \<in> {''queued'', ''retry''})) (\<lambda>events.
     bindE (selectAll T_exports (\<lambda>j. ej_status j = ''queued'')) (\<lambda>exports.
     bindE (selectAll T_imports (\<lambda>j. ij_status j = ''queued'')) (\<lambda>imports.
     ret (length outbound + length events + length exports + length imports)))))"

definition Cleanup :: "err list io" where
  "Cleanup =
     bindE (join_all [cleanupTrash, cleanupDeletedMailboxes, cleanupExpiredExports, cleanupOrphanedMessages, recoverStaleLeases,
       cleanupAuthLockouts]) (\<lambda>e1.
     bindE pruneHistory (\<lambda>e2.
     bindE (join_all [no_count updateQueueDepth]) (\<lambda>e3.
     ret (e1 @ e2 @ e3))))"

end
