(* ===== verification/Mailstore_Spec.thy ===== *)
theory Mailstore_Spec
  imports Mailstore
begin

text \<open>
  What the mail store operations do to the tables.  For each operation that opens a transaction
  there is a function on databases that is its whole effect (\<open>attach_db\<close>, \<open>move_db\<close>,
  \<open>soft_delete_db\<close>) and a specification lemma: on an error the tables and the notifier are
  as before, on success the database is the effect's and the notifications are exactly the listed
  ones.  The locale \<open>uid_allocator\<close> is the contract between UID allocation and its clients.
\<close>

section \<open>UID allocation\<close>

locale uid_allocator =
  fixes alloc :: "'p \<Rightarrow> string \<Rightarrow> 32 word io"
    and next_uid :: "db \<Rightarrow> string \<Rightarrow> int option"
  assumes alloc_error: "alloc p c w = (Inl e, w') \<Longrightarrow> w_db w' = w_db w"
    and alloc_ok: "alloc p c w = (Inr u, w') \<Longrightarrow>
      \<exists>n. next_uid (w_db w) c = Some n \<and> u = word_of_int n \<and> next_uid (w_db w') c = Some (n + 1)"
    and alloc_other: "alloc p c w = (r, w') \<Longrightarrow> c' \<noteq> c \<Longrightarrow> next_uid (w_db w') c' = next_uid (w_db w) c'"
begin

text \<open>The UIDs handed out by a row of allocations in one container are its next numbers.\<close>

lemma alloc_run:
  "mapE ps (\<lambda>p. alloc p c) w = (Inr us, w') \<Longrightarrow> next_uid (w_db w) c = Some n \<Longrightarrow>
     us = map (\<lambda>i. word_of_int (n + int i)) [0..<length ps] \<and> next_uid (w_db w') c = Some (n + int (length ps))"
proof (induction ps arbitrary: w us n)
  case Nil
  then show ?case by (auto simp: ret_def)
next
  case (Cons p ps)
  from Cons.prems(1) obtain u w1 vs where s: "alloc p c w = (Inr u, w1)"
      "mapE ps (\<lambda>p. alloc p c) w1 = (Inr vs, w')" "us = u # vs"
    by (auto simp: ret_def elim!: bindE_ok)
  from alloc_ok [OF s(1)] Cons.prems(2) have u: "u = word_of_int n" "next_uid (w_db w1) c = Some (n + 1)"
    by auto
  have "[0..<length (p # ps)] = 0 # map Suc [0..<length ps]"
    by (simp add: upt_conv_Cons map_Suc_upt del: upt_Suc)
  with Cons.IH [OF s(2) u(2)] s(3) u(1) show ?case
    by (auto simp: add.assoc)
qed

text \<open>As long as the counter stays within 32 bits they are pairwise different and increasing.\<close>

lemma alloc_run_increasing:
  assumes "mapE ps (\<lambda>p. alloc p c) w = (Inr us, w')" and "next_uid (w_db w) c = Some n"
    and "0 \<le> n" and "n + int (length ps) \<le> 2 ^ 32"
  shows "sorted_wrt (<) us"
proof -
  have us: "us = map (\<lambda>i. word_of_int (n + int i)) [0..<length ps]"
    using alloc_run [OF assms(1,2)] by simp
  have lt: "(word_of_int (n + int i) :: 32 word) < word_of_int (n + int j)" if "i < j" "j < length ps" for i j
  proof -
    have "0 \<le> n + int i" "n + int i < n + int j" "n + int j < 2 ^ 32"
      using that assms(3,4) by simp_all
    then show ?thesis
      by (simp add: word_less_def uint_word_of_int take_bit_eq_mod del: of_int_add)
  qed
  show ?thesis
    unfolding us by (auto simp: sorted_wrt_iff_nth_less simp del: of_int_add intro: lt)
qed

end

definition bump_folder :: "string \<Rightarrow> db \<Rightarrow> db" where
  "bump_folder i d = d\<lparr>db_folders := update_where (\<lambda>f. fo_id f = i) (\<lambda>f. f\<lparr>fo_uid_next := fo_uid_next f + 1\<rparr>) (db_folders d)\<rparr>"

definition bump_label :: "string \<Rightarrow> db \<Rightarrow> db" where
  "bump_label i d = d\<lparr>db_labels := update_where (\<lambda>l. la_id l = i) (\<lambda>l. l\<lparr>la_uid_next := la_uid_next l + 1\<rparr>) (db_labels d)\<rparr>"

definition folder_next :: "db \<Rightarrow> string \<Rightarrow> int option" where
  "folder_next d i = map_option fo_uid_next (find (\<lambda>f. fo_id f = i) (db_folders d))"

definition label_next :: "db \<Rightarrow> string \<Rightarrow> int option" where
  "label_next d i = map_option la_uid_next (find (\<lambda>l. la_id l = i) (db_labels d))"

lemma wp_allocateFolderUID [wp_simps]:
  "wp (allocateFolderUID i) Q w = (if faulty w then Q (Inl DbError) (pop w) else
     (case filter (\<lambda>f. fo_id f = i) (db_folders (w_db w)) of
        [] \<Rightarrow> Q (Inl NotFound) (pop w)
      | f # _ \<Rightarrow> Q (Inr (word_of_int (fo_uid_next f))) ((pop w)\<lparr>w_db := bump_folder i (w_db w)\<rparr>)))"
  by (auto simp: allocateFolderUID_def wp_simps T_folders_def bump_folder_def split: list.split)

lemma wp_allocateLabelUID [wp_simps]:
  "wp (allocateLabelUID i) Q w = (if faulty w then Q (Inl DbError) (pop w) else
     (case filter (\<lambda>l. la_id l = i) (db_labels (w_db w)) of
        [] \<Rightarrow> Q (Inl NotFound) (pop w)
      | l # _ \<Rightarrow> Q (Inr (word_of_int (la_uid_next l))) ((pop w)\<lparr>w_db := bump_label i (w_db w)\<rparr>)))"
  by (auto simp: allocateLabelUID_def wp_simps T_labels_def bump_label_def split: list.split)

lemma find_filter: "filter p xs = y # ys \<Longrightarrow> find p xs = Some y"
  by (induction xs) (auto split: if_splits)

lemma find_update_where_same:
  "(\<And>x. p x \<Longrightarrow> q (f x) = q x) \<Longrightarrow> find q (update_where p f xs) = map_option (\<lambda>x. if p x then f x else x) (find q xs)"
  by (induction xs) auto

lemma folder_next_bump:
  "folder_next (bump_folder i d) j = map_option (\<lambda>n. if i = j then n + 1 else n) (folder_next d j)"
  by (auto simp: folder_next_def bump_folder_def find_update_where_same option.map_comp o_def
      intro!: option.map_cong dest: find_Some_iff [THEN iffD1])

lemma label_next_bump:
  "label_next (bump_label i d) j = map_option (\<lambda>n. if i = j then n + 1 else n) (label_next d j)"
  by (auto simp: label_next_def bump_label_def find_update_where_same option.map_comp o_def
      intro!: option.map_cong dest: find_Some_iff [THEN iffD1])

lemma allocateFolderUID_eq:
  "allocateFolderUID i w = (if faulty w then (Inl DbError, pop w) else
     (case filter (\<lambda>f. fo_id f = i) (db_folders (w_db w)) of
        [] \<Rightarrow> (Inl NotFound, pop w)
      | f # _ \<Rightarrow> (Inr (word_of_int (fo_uid_next f)), (pop w)\<lparr>w_db := bump_folder i (w_db w)\<rparr>)))"
  using wp_allocateFolderUID [of i "\<lambda>r w'. allocateFolderUID i w = (r, w')" w]
  by (auto simp: wp_def split: prod.splits if_splits list.splits)

lemma allocateLabelUID_eq:
  "allocateLabelUID i w = (if faulty w then (Inl DbError, pop w) else
     (case filter (\<lambda>l. la_id l = i) (db_labels (w_db w)) of
        [] \<Rightarrow> (Inl NotFound, pop w)
      | l # _ \<Rightarrow> (Inr (word_of_int (la_uid_next l)), (pop w)\<lparr>w_db := bump_label i (w_db w)\<rparr>)))"
  using wp_allocateLabelUID [of i "\<lambda>r w'. allocateLabelUID i w = (r, w')" w]
  by (auto simp: wp_def split: prod.splits if_splits list.splits)

interpretation fuid: uid_allocator "\<lambda>_ :: unit. allocateFolderUID" folder_next
proof (unfold_locales, goal_cases)
  case (1 p c w e w')
  then show ?case by (auto simp: allocateFolderUID_eq split: if_splits list.splits)
next
  case (2 p c w u w')
  then show ?case
    by (auto simp: allocateFolderUID_eq folder_next_bump split: if_splits list.splits)
       (auto simp: folder_next_def dest!: find_filter)
next
  case (3 p c w r w' c')
  then show ?case
    by (auto simp: allocateFolderUID_eq folder_next_bump option.map_ident split: if_splits list.splits)
qed

interpretation luid: uid_allocator "\<lambda>_ :: unit. allocateLabelUID" label_next
proof (unfold_locales, goal_cases)
  case (1 p c w e w')
  then show ?case by (auto simp: allocateLabelUID_eq split: if_splits list.splits)
next
  case (2 p c w u w')
  then show ?case
    by (auto simp: allocateLabelUID_eq label_next_bump split: if_splits list.splits)
       (auto simp: label_next_def dest!: find_filter)
next
  case (3 p c w r w' c')
  then show ?case
    by (auto simp: allocateLabelUID_eq label_next_bump option.map_ident split: if_splits list.splits)
qed

section \<open>Attach\<close>

definition admits :: "attach \<Rightarrow> mailbox \<Rightarrow> bool" where
  "admits p m \<longleftrightarrow> mb_id m = at_mailbox_id p
     \<and> (at_enforce_quota p \<longrightarrow> mb_quota_bytes m \<le> 0 \<or> mb_used_bytes m + at_size_bytes p \<le> mb_quota_bytes m)"

definition attach_db :: "attach \<Rightarrow> mailbox_message \<Rightarrow> db \<Rightarrow> db" where
  "attach_db p item d = (bump_folder (at_folder_id p) d)
    \<lparr>db_mms := db_mms d @ [item], db_mailboxes := update_where (admits p) (add_used (at_size_bytes p)) (db_mailboxes d)\<rparr>"

lemma filter_nonempty_bex: "filter p xs = y # ys \<Longrightarrow> \<exists>x. x \<in> set xs \<and> p x"
  by (metis filter_eq_Cons_iff in_set_conv_decomp)

lemma admits_eq:
  "admits p = (\<lambda>m. mb_id m = at_mailbox_id p
     \<and> (at_enforce_quota p \<longrightarrow> mb_quota_bytes m \<le> 0 \<or> mb_used_bytes m + at_size_bytes p \<le> mb_quota_bytes m))"
  by (simp add: fun_eq_iff admits_def)

definition attached :: "attach \<Rightarrow> world \<Rightarrow> mailbox_message \<Rightarrow> bool" where
  "attached p w item \<longleftrightarrow> (\<exists>f fs m. filter (\<lambda>f. fo_id f = at_folder_id p) (db_folders (w_db w)) = f # fs
       \<and> item = new_mm p (word_of_int (fo_uid_next f)) (w_ids w (w_idc w)) (w_clock w)
       \<and> \<not> list_ex (mm_clash item) (db_mms (w_db w))
       \<and> m \<in> set (db_mailboxes (w_db w)) \<and> admits p m)"

lemma attachInTx_spec:
  "wp (attachInTx p) (\<lambda>r w'. case r of
       Inl _ \<Rightarrow> w_notifier w' = w_notifier w
     | Inr item \<Rightarrow> attached p w item \<and> w_db w' = attach_db p item (w_db w) \<and> w_notifier w' = w_notifier w) w"
  by (simp add: attachInTx_def wp_simps)
     (auto simp: table_defs addUsedBytes_def wp_simps filter_empty_conv bump_folder_def attach_db_def
        admits_eq attached_def Let_def dest: filter_nonempty_bex split: list.split sum.split if_splits)

section \<open>Moving and deleting\<close>

definition msg_size :: "db \<Rightarrow> string \<Rightarrow> int" where
  "msg_size d i = (case filter (\<lambda>m. me_id m = i) (db_messages d) of [] \<Rightarrow> 0 | m # _ \<Rightarrow> me_size_bytes m)"

lemma wp_messageSize [wp_simps]:
  "wp (messageSize i) Q w = (if faulty w then Q (Inl DbError) (pop w)
     else if 1 < length (filter (\<lambda>m. me_id m = i) (db_messages (w_db w))) then Q (Inl NotSingular) (pop w)
     else Q (Inr (msg_size (w_db w) i)) (pop w))"
proof (cases "filter (\<lambda>m. me_id m = i) (db_messages (w_db w))")
  case Nil
  then show ?thesis by (simp add: messageSize_def wp_simps T_messages_def msg_size_def)
next
  case (Cons m ms)
  then show ?thesis
    by (cases ms) (simp_all add: messageSize_def wp_simps T_messages_def msg_size_def)
qed

definition move_db :: "mailbox_message \<Rightarrow> string \<Rightarrow> 32 word \<Rightarrow> time \<Rightarrow> db \<Rightarrow> db" where
  "move_db item folderID uid t d = (bump_folder folderID d)
    \<lparr>db_mms := update_where (\<lambda>r. mm_id r = mm_id item) (move_row folderID uid t) (db_mms d),
     db_mailboxes := (if mm_deleted_at item = None then db_mailboxes d
       else update_where (\<lambda>m. mb_id m = mm_mailbox_id item) (add_used (msg_size d (mm_message_id item))) (db_mailboxes d))\<rparr>"

definition movable :: "mailbox_message \<Rightarrow> string \<Rightarrow> db \<Rightarrow> 32 word \<Rightarrow> bool" where
  "movable item folderID d uid \<longleftrightarrow> (\<exists>f fs. filter (\<lambda>f. fo_id f = folderID) (db_folders d) = f # fs
     \<and> uid = word_of_int (fo_uid_next f)) \<and> mm_id item \<in> mm_id ` set (db_mms d)"

lemma bump_folder_frame [simp]:
  "db_mms (bump_folder i d) = db_mms d" "db_mailboxes (bump_folder i d) = db_mailboxes d"
  "db_messages (bump_folder i d) = db_messages d" "db_labels (bump_folder i d) = db_labels d"
  "db_links (bump_folder i d) = db_links d"
  by (simp_all add: bump_folder_def)

lemma msg_size_frame:
  "db_messages d' = db_messages d \<Longrightarrow> msg_size d' = msg_size d"
  by (simp add: fun_eq_iff msg_size_def)

lemma filter_hd_in_update:
  "filter p xs = y # ys \<Longrightarrow> f y \<in> set (update_where p f xs)"
  by (auto simp: in_set_update_where filter_eq_Cons_iff)

lemma filter_key_image: "filter (\<lambda>x. k x = i) xs = y # ys \<Longrightarrow> i \<in> k ` set xs \<and> k y = i"
  by (auto simp: filter_eq_Cons_iff)

lemma moveInTx_spec:
  "wp (moveInTx item folderID) (\<lambda>r w'. w_notifier w' = w_notifier w \<and> (case r of
       Inl _ \<Rightarrow> True
     | Inr (uid, moved) \<Rightarrow> movable item folderID (w_db w) uid \<and> w_db w' = move_db item folderID uid (w_clock w) (w_db w)
         \<and> moved \<in> set (db_mms (w_db w')) \<and> mm_folder_id moved = folderID \<and> mm_uid moved = uid
         \<and> mm_id moved = mm_id item)) w"
proof (cases "filter (\<lambda>f. fo_id f = folderID) (db_folders (w_db w))")
  case Nil
  then show ?thesis by (simp add: moveInTx_def wp_simps)
next
  case (Cons f fs)
  show ?thesis
  proof (cases "filter (\<lambda>r. mm_id r = mm_id item) (db_mms (w_db w))")
    case Nil
    with Cons show ?thesis by (simp add: moveInTx_def wp_simps T_mms_def)
  next
    case (Cons r rs)
    have m: "movable item folderID (w_db w) (word_of_int (fo_uid_next f))"
      using filter_key_image [OF Cons] \<open>filter _ _ = f # fs\<close> by (simp add: movable_def)
    note in_upd = filter_hd_in_update [OF Cons] 
    show ?thesis
      using \<open>filter _ _ = f # fs\<close> Cons m in_upd [of "move_row folderID (word_of_int (fo_uid_next f)) (w_clock w)"]
        filter_key_image [OF Cons]
      by (auto simp: moveInTx_def wp_simps T_mms_def T_mailboxes_def move_db_def move_row_def msg_size_def split: list.split)
  qed
qed

definition soft_delete_row :: "time \<Rightarrow> mailbox_message \<Rightarrow> mailbox_message" where
  "soft_delete_row t r = r\<lparr>mm_deleted_at := Some t, mm_updated_at := t\<rparr>"
 
definition live_row :: "string \<Rightarrow> mailbox_message \<Rightarrow> bool" where
  "live_row i r \<longleftrightarrow> mm_id r = i \<and> mm_deleted_at r = None"

definition soft_delete_db :: "mailbox_message \<Rightarrow> time \<Rightarrow> db \<Rightarrow> db" where
  "soft_delete_db item t d = (if list_ex (live_row (mm_id item)) (db_mms d) then
     d\<lparr>db_mms := update_where (live_row (mm_id item)) (soft_delete_row t) (db_mms d),
       db_mailboxes := update_where (\<lambda>m. mb_id m = mm_mailbox_id item) (add_used (- msg_size d (mm_message_id item))) (db_mailboxes d)\<rparr>
   else d)"

lemma live_row_eq: "live_row i = (\<lambda>r. mm_id r = i \<and> mm_deleted_at r = None)"
  by (simp add: fun_eq_iff live_row_def)

lemma softDeleteInTx_spec:
  "wp (softDeleteInTx item) (\<lambda>r w'. w_notifier w' = w_notifier w \<and> (case r of
       Inl _ \<Rightarrow> True
     | Inr _ \<Rightarrow> w_db w' = soft_delete_db item (w_clock w) (w_db w))) w"
  by (simp add: softDeleteInTx_def wp_simps)
    (auto simp: table_defs wp_simps soft_delete_db_def live_row_eq soft_delete_row_def [abs_def] msg_size_def Let_def 
     list_ex_iff filter_empty_conv update_where_none  split: list.split sum.split if_splits)


section \<open>The operations as transactions\<close>

lemma in_tx_spec:
  assumes "wp body (\<lambda>r w'. w_notifier w' = w_notifier w \<and> (case r of Inl _ \<Rightarrow> True | Inr x \<Rightarrow> P x (w_db w'))) (pop w)"
  shows "wp (in_tx body) (\<lambda>r w'. w_notifier w' = w_notifier w
    \<and> (case r of Inl _ \<Rightarrow> w_db w' = w_db w | Inr x \<Rightarrow> P x (w_db w'))) w"
  using assms by (auto simp: wp_in_tx elim!: wp_mono split: sum.splits)

lemma attach_spec:
  "wp (Attach p) (\<lambda>r w'. case r of
       Inl _ \<Rightarrow> w_db w' = w_db w \<and> w_notifier w' = w_notifier w
     | Inr item \<Rightarrow> attached p w item \<and> w_db w' = attach_db p item (w_db w)
         \<and> w_notifier w' = Publish (mk_change (at_mailbox_id p) (FolderContainer (at_folder_id p)) ChangeExists (mm_uid item) []) (w_notifier w)) w"
proof -
  have "attached p (pop w) item = attached p w item" for item by (simp add: attached_def)
  then have "wp (in_tx (attachInTx p)) (\<lambda>r w'. w_notifier w' = w_notifier w
    \<and> (case r of Inl _ \<Rightarrow> w_db w' = w_db w | Inr item \<Rightarrow> attached p w item \<and> w_db w' = attach_db p item (w_db w))) w"
    by (intro in_tx_spec wp_mono [OF attachInTx_spec]) (auto split: sum.splits)
  then show ?thesis
    by (auto simp: Attach_def NotifyAttached_def wp_simps elim!: wp_mono split: sum.splits)
qed

definition move_changes :: "mailbox_message \<Rightarrow> string \<Rightarrow> 32 word \<Rightarrow> notifier \<Rightarrow> notifier" where
  "move_changes item folderID uid n =
     Publish (mk_change (mm_mailbox_id item) (FolderContainer folderID) ChangeExists uid [])
       (if mm_deleted_at item = None then Publish (expunge_change item) n else n)"

lemma move_spec:
  assumes "\<not> (mm_folder_id item = folderID \<and> mm_deleted_at item = None)"
  shows "wp (Move item folderID) (\<lambda>r w'. case r of
       Inl _ \<Rightarrow> w_db w' = w_db w \<and> w_notifier w' = w_notifier w
     | Inr moved \<Rightarrow> movable item folderID (w_db w) (mm_uid moved)
         \<and> w_db w' = move_db item folderID (mm_uid moved) (w_clock w) (w_db w)
         \<and> moved \<in> set (db_mms (w_db w')) \<and> mm_folder_id moved = folderID \<and> mm_id moved = mm_id item
         \<and> w_notifier w' = move_changes item folderID (mm_uid moved) (w_notifier w)) w"
proof -
  have M: "Move item folderID = bindE (in_tx (moveInTx item folderID)) (\<lambda>um.
      bindE (if mm_deleted_at item = None then publish (expunge_change item) else ret ()) (\<lambda>_.
      bindE (publish (mk_change (mm_mailbox_id item) (FolderContainer folderID) ChangeExists (fst um) [])) (\<lambda>_.
      ret (snd um))))"
    unfolding Move_def expunge_change_def using assms by (simp only: if_False)
  have "wp (in_tx (moveInTx item folderID)) (\<lambda>r w'. w_notifier w' = w_notifier w
    \<and> (case r of Inl _ \<Rightarrow> w_db w' = w_db w | Inr um \<Rightarrow> (case um of (uid, moved) \<Rightarrow>
         movable item folderID (w_db w) uid \<and> w_db w' = move_db item folderID uid (w_clock w) (w_db w)
         \<and> moved \<in> set (db_mms (w_db w')) \<and> mm_folder_id moved = folderID \<and> mm_uid moved = uid
         \<and> mm_id moved = mm_id item))) w"
    by (intro in_tx_spec wp_mono [OF moveInTx_spec]) (auto split: sum.splits)
  then show ?thesis
    unfolding M wp_bindE by (rule wp_mono) (auto simp: move_changes_def wp_simps split: sum.splits prod.splits)
qed

lemma soft_delete_spec:
  assumes "mm_deleted_at item = None"
  shows "wp (SoftDelete item) (\<lambda>r w'. case r of
       Inl _ \<Rightarrow> w_db w' = w_db w \<and> w_notifier w' = w_notifier w
     | Inr _ \<Rightarrow> w_db w' = soft_delete_db item (w_clock w) (w_db w)
         \<and> w_notifier w' = Publish (expunge_change item) (w_notifier w)) w"
proof -
  have "wp (in_tx (softDeleteInTx item)) (\<lambda>r w'. w_notifier w' = w_notifier w
    \<and> (case r of Inl _ \<Rightarrow> w_db w' = w_db w | Inr _ \<Rightarrow> w_db w' = soft_delete_db item (w_clock w) (w_db w))) w"
    by (intro in_tx_spec wp_mono [OF softDeleteInTx_spec]) (auto split: sum.splits)
  with assms show ?thesis
    by (auto simp: SoftDelete_def wp_simps elim!: wp_mono split: sum.splits)
qed

section \<open>Batches\<close>

lemma foldl_sizes:
  "foldl (\<lambda>s row. s(me_id row := me_size_bytes row)) s rows i
     = (case filter (\<lambda>m. me_id m = i) rows of [] \<Rightarrow> s i | _ \<Rightarrow> me_size_bytes (last (filter (\<lambda>m. me_id m = i) rows)))"
  by (induction rows rule: rev_induct) (auto split: list.splits)

lemma filter_le_one:
  assumes "distinct (map k xs)"
  shows "filter (\<lambda>x. k x = i) xs = [] \<or> (\<exists>x. filter (\<lambda>x. k x = i) xs = [x])"
  using assms by (induction xs) (auto simp: filter_empty_conv image_iff)

lemma foldl_sizes_msg_size:
  assumes "distinct (map me_id (db_messages d))"
  shows "foldl (\<lambda>s row. s(me_id row := me_size_bytes row)) s (filter (\<lambda>m. me_id m \<in> set chunk) (db_messages d)) i
     = (if i \<in> set chunk then (if i \<in> me_id ` set (db_messages d) then msg_size d i else s i) else s i)"
proof -
  have f: "filter (\<lambda>m. me_id m = i) (filter (\<lambda>m. me_id m \<in> set chunk) (db_messages d))
      = (if i \<in> set chunk then filter (\<lambda>m. me_id m = i) (db_messages d) else [])"
    by (auto simp: filter_empty_conv intro!: filter_cong)
  from filter_le_one [OF assms, of i] show ?thesis
    unfolding foldl_sizes f by (auto simp: msg_size_def filter_empty_conv filter_eq_Cons_iff)
qed

lemma msg_size_missing: "i \<notin> me_id ` set (db_messages d) \<Longrightarrow> msg_size d i = 0"
  by (simp add: msg_size_def filter_key_none)

lemma messageSizes_spec:
  assumes "distinct (map me_id (db_messages (w_db w)))"
  shows "wp (messageSizes ids) (\<lambda>r w'. w_db w' = w_db w \<and> w_notifier w' = w_notifier w \<and> w_clock w' = w_clock w
    \<and> (case r of Inl _ \<Rightarrow> True | Inr sizes \<Rightarrow> \<forall>i \<in> set ids. sizes i = msg_size (w_db w) i)) w"
proof -
  let ?same = "\<lambda>w'. w_db w' = w_db w \<and> w_notifier w' = w_notifier w \<and> w_clock w' = w_clock w"
  have "wp (messageSizes ids) (\<lambda>r w'. case r of Inl _ \<Rightarrow> ?same w'
      | Inr s \<Rightarrow> ?same w' \<and> (\<forall>i. s i = (if i \<in> set (concat (chunks batchSize ids)) then msg_size (w_db w) i else 0))) w"
    unfolding messageSizes_def
  proof (rule wp_foldE [where I = "\<lambda>cs s w'. ?same w' \<and> (\<forall>i. s i = (if i \<in> set (concat cs) then msg_size (w_db w) i else 0))"])
    fix ys x s and w1 :: world
    assume I: "?same w1 \<and> (\<forall>i. s i = (if i \<in> set (concat ys) then msg_size (w_db w) i else 0))"
    then show "wp (bindE (selectAll T_messages (\<lambda>m. me_id m \<in> set x))
             (\<lambda>rows. ret (foldl (\<lambda>s row. s(me_id row := me_size_bytes row)) s rows)))
         (\<lambda>r w'. case r of Inl e \<Rightarrow> ?same w'
           | Inr s' \<Rightarrow> ?same w' \<and> (\<forall>i. s' i = (if i \<in> set (concat (ys @ [x])) then msg_size (w_db w) i else 0))) w1"
      by (simp add: wp_simps T_messages_def foldl_sizes_msg_size assms msg_size_missing)
  qed simp
  then show ?thesis by (rule wp_mono) (auto simp: batchSize_def split: sum.splits)
qed

definition picked :: "string set \<Rightarrow> mailbox_message \<Rightarrow> bool" where
  "picked ids r \<longleftrightarrow> mm_id r \<in> ids \<and> mm_deleted_at r = None"

definition freed_bytes :: "string set \<Rightarrow> db \<Rightarrow> int" where
  "freed_bytes ids d = (\<Sum>r\<leftarrow>filter (picked ids) (db_mms d). msg_size d (mm_message_id r))"

definition soft_delete_rows :: "string set \<Rightarrow> time \<Rightarrow> db \<Rightarrow> db" where
  "soft_delete_rows ids t d = d\<lparr>db_mms := update_where (picked ids) (soft_delete_row t) (db_mms d)\<rparr>"

definition soft_delete_many_db :: "string \<Rightarrow> string set \<Rightarrow> time \<Rightarrow> db \<Rightarrow> db" where
  "soft_delete_many_db mailboxID ids t d = (soft_delete_rows ids t d)
     \<lparr>db_mailboxes := update_where (\<lambda>m. mb_id m = mailboxID) (add_used (- freed_bytes ids d)) (db_mailboxes d)\<rparr>"

lemma soft_delete_rows_empty [simp]: "soft_delete_rows {} t d = d" "freed_bytes {} d = 0"
  by (simp_all add: soft_delete_rows_def freed_bytes_def picked_def update_where_def)

lemma freed_rows_Un:
  "(\<Sum>r\<leftarrow>filter (picked (A \<union> B)) rs. g (mm_message_id r))
    = (\<Sum>r\<leftarrow>filter (picked A) rs. g (mm_message_id r))
    + (\<Sum>r\<leftarrow>filter (picked B) (update_where (picked A) (soft_delete_row t) rs). (g (mm_message_id r) :: int))"
  by (induction rs) (auto simp: picked_def soft_delete_row_def)

lemma soft_delete_rows_Un:
  "soft_delete_rows (A \<union> B) t d = soft_delete_rows B t (soft_delete_rows A t d)"
proof -
  have "update_where (picked (A \<union> B)) (soft_delete_row t) rs
      = update_where (picked B) (soft_delete_row t) (update_where (picked A) (soft_delete_row t) rs)" for rs
    by (induction rs) (auto simp: picked_def soft_delete_row_def)
  then show ?thesis by (simp add: soft_delete_rows_def)
qed

lemma freed_bytes_Un:
  "freed_bytes (A \<union> B) d = freed_bytes A d + freed_bytes B (soft_delete_rows A t d)"
proof -
  have "msg_size (soft_delete_rows A t d) = msg_size d"
    by (rule msg_size_frame) (simp add: soft_delete_rows_def)
  moreover have "db_mms (soft_delete_rows A t d) = update_where (picked A) (soft_delete_row t) (db_mms d)"
    by (simp add: soft_delete_rows_def)
  ultimately show ?thesis
    unfolding freed_bytes_def by (simp only: freed_rows_Un [where A = A and B = B and t = t])
qed

lemma softDeleteChunk_spec:
  assumes "distinct (map me_id (db_messages (w_db w)))"
  shows "wp (softDeleteChunk t freed chunk) (\<lambda>r w'. w_notifier w' = w_notifier w \<and> (case r of Inl _ \<Rightarrow> True
    | Inr freed' \<Rightarrow> w_db w' = soft_delete_rows (set chunk) t (w_db w) \<and> freed' = freed + freed_bytes (set chunk) (w_db w))) w"
proof -
  let ?d = "w_db w" and ?p = "\<lambda>r. mm_id r \<in> set chunk \<and> mm_deleted_at r = None"
  let ?live = "filter ?p (db_mms ?d)"
  have pick: "?p = picked (set chunk)" by (intro ext) (simp add: picked_def)
  show ?thesis
  proof (cases "?live = []")
    case True
    then have "soft_delete_rows (set chunk) t ?d = ?d"
      by (simp add: soft_delete_rows_def filter_empty_conv pick update_where_none)
    with True show ?thesis
      by (simp add: softDeleteChunk_def wp_simps T_mms_def freed_bytes_def flip: pick)
  next
    case False
    let ?q = "\<lambda>r. mm_id r \<in> set (map mm_id ?live) \<and> mm_deleted_at r = None"
    have upd: "update_where ?q (\<lambda>r. r\<lparr>mm_deleted_at := Some t, mm_updated_at := t\<rparr>) (db_mms ?d)
        = update_where (picked (set chunk)) (soft_delete_row t) (db_mms ?d)"
      unfolding soft_delete_row_def [abs_def] by (rule update_where_cong) (auto simp: picked_def)
    let ?d' = "soft_delete_rows (set chunk) t ?d"
    have d': "snd T_mms (update_where ?q (\<lambda>r. r\<lparr>mm_deleted_at := Some t, mm_updated_at := t\<rparr>)) ?d = ?d'"
      unfolding T_mms_def snd_conv upd soft_delete_rows_def ..
    have ms: "db_messages ?d' = db_messages ?d" by (simp add: soft_delete_rows_def)
    have sz: "wp (messageSizes (map mm_message_id ?live)) (\<lambda>r w'. w_db w' = ?d' \<and> w_notifier w' = w_notifier w
       \<and> (case r of Inl _ \<Rightarrow> True | Inr sizes \<Rightarrow> \<forall>i \<in> set (map mm_message_id ?live). sizes i = msg_size ?d i))
       ((pop (pop w))\<lparr>w_db := ?d'\<rparr>)"
      using messageSizes_spec [of "(pop (pop w))\<lparr>w_db := ?d'\<rparr>" "map mm_message_id ?live"] assms ms
      by (auto simp: msg_size_frame [OF ms] elim!: wp_mono split: sum.splits)
    have sum: "(\<Sum>i\<leftarrow>map mm_message_id ?live. sizes i) = freed_bytes (set chunk) ?d"
      if "\<forall>i \<in> set (map mm_message_id ?live). sizes i = msg_size ?d i" for sizes
      using that unfolding freed_bytes_def pick map_map by (intro arg_cong [where f = sum_list] map_cong) auto
    have "fst T_mms ?d = db_mms ?d" by (simp add: T_mms_def)
    with False show ?thesis
      unfolding softDeleteChunk_def
      by (simp add: wp_simps d' del: set_map map_map)
        (auto intro!: wp_mono [OF sz] simp: sum wp_simps simp del: map_map set_map split: sum.splits)
  qed
qed

lemma add_used_0 [simp]: "add_used 0 m = m"
  by (simp add: add_used_def)

lemma update_add_used_0 [simp]: "update_where p (add_used 0) ms = ms"
  by (induction ms) simp_all

lemma soft_delete_many_zero:
  "freed_bytes ids d = 0 \<Longrightarrow> soft_delete_many_db i ids t d = soft_delete_rows ids t d"
  by (simp add: soft_delete_many_db_def soft_delete_rows_def)

lemma softDeleteBatchInTx_spec:
  assumes "distinct (map me_id (db_messages (w_db w)))"
  shows "wp (softDeleteBatchInTx mailboxID ids) (\<lambda>r w'. w_notifier w' = w_notifier w \<and> (case r of Inl _ \<Rightarrow> True
    | Inr _ \<Rightarrow> w_db w' = soft_delete_many_db mailboxID (set ids) (w_clock w) (w_db w))) w"
proof -
  let ?t = "w_clock w"
  let ?I = "\<lambda>cs freed w'. w_notifier w' = w_notifier w \<and> w_db w' = soft_delete_rows (set (concat cs)) ?t (w_db w)
    \<and> freed = freed_bytes (set (concat cs)) (w_db w)"
  have fold: "wp (foldE (softDeleteChunk ?t) 0 (chunks batchSize ids))
      (\<lambda>r w'. case r of Inl _ \<Rightarrow> w_notifier w' = w_notifier w | Inr freed \<Rightarrow> ?I (chunks batchSize ids) freed w') w"
  proof (rule wp_foldE [where I = ?I])
    fix ys x freed and w1 :: world
    assume I: "?I ys freed w1"
    then have "distinct (map me_id (db_messages (w_db w1)))"
      using assms by (simp add: soft_delete_rows_def)
    from softDeleteChunk_spec [OF this, of ?t freed x]
    show "wp (softDeleteChunk ?t freed x) (\<lambda>r w'. case r of Inl _ \<Rightarrow> w_notifier w' = w_notifier w
        | Inr freed' \<Rightarrow> ?I (ys @ [x]) freed' w') w1"
      using I by (elim wp_mono) (auto simp: soft_delete_rows_Un freed_bytes_Un [of _ _ _ ?t] split: sum.splits)
  qed simp
  define Q where "Q = (\<lambda>(r :: err + unit) (w' :: world). w_notifier w' = w_notifier w \<and> (case r of Inl _ \<Rightarrow> True
    | Inr _ \<Rightarrow> w_db w' = soft_delete_many_db mailboxID (set ids) (w_clock w) (w_db w)))"
  have rest: "wp (if freed = 0 then ret ()
        else bindE (updateOne T_mailboxes (\<lambda>m. mb_id m = mailboxID) (add_used (- freed))) (\<lambda>_. ret ())) Q w1"
    if "?I (chunks batchSize ids) freed w1" for freed w1
    using that unfolding Q_def
    by (auto simp: wp_simps T_mailboxes_def batchSize_def soft_delete_many_zero soft_delete_many_db_def soft_delete_rows_def
        split: list.split)
  have err: "Q (Inl e) w1" if "w_notifier w1 = w_notifier w" for e w1
    using that by (simp add: Q_def)
  have "wp (softDeleteBatchInTx mailboxID ids) Q w"
    unfolding softDeleteBatchInTx_def wp_bindE [of now] wp_now sum.case wp_bindE [of "foldE _ _ _"]
    apply (rule wp_mono [OF fold])
    subgoal for r w1
      by (cases r; hypsubst; unfold sum.case) (erule err, rule rest)
    done
  then show ?thesis unfolding Q_def by (rule wp_mono) (auto split: sum.splits)
qed

definition expunge_all :: "mailbox_message list \<Rightarrow> notifier \<Rightarrow> notifier" where
  "expunge_all items n = foldl (\<lambda>n item. Publish (expunge_change item) n) n items"

lemma wp_publish_all:
  "wp (forE items (\<lambda>item. publish (expunge_change item))) Q w
    = Q (Inr ()) (w\<lparr>w_notifier := expunge_all items (w_notifier w)\<rparr>)"
  by (induction items arbitrary: w) (simp_all add: wp_simps expunge_all_def)

lemma soft_delete_batch_spec:
  assumes "distinct (map me_id (db_messages (w_db w)))"
  shows "wp (softDeleteBatch mailboxID items) (\<lambda>r w'. case r of
      Inl _ \<Rightarrow> w_db w' = w_db w \<and> w_notifier w' = w_notifier w
    | Inr _ \<Rightarrow> w_db w' = soft_delete_many_db mailboxID (mm_id ` set items) (w_clock w) (w_db w)
        \<and> w_notifier w' = expunge_all items (w_notifier w)) w"
proof -
  have "wp (in_tx (softDeleteBatchInTx mailboxID (map mm_id items))) (\<lambda>r w'. w_notifier w' = w_notifier w
    \<and> (case r of Inl _ \<Rightarrow> w_db w' = w_db w
       | Inr _ \<Rightarrow> w_db w' = soft_delete_many_db mailboxID (mm_id ` set items) (w_clock w) (w_db w))) w"
    using softDeleteBatchInTx_spec [of "pop w" mailboxID "map mm_id items"] assms
    by (intro in_tx_spec) (simp cong: sum.case_cong)
  then show ?thesis
    unfolding softDeleteBatch_def wp_bindE
    by (rule wp_mono) (auto simp: wp_publish_all split: sum.splits)
qed

text \<open>One batch has the effect of deleting its items one after the other.\<close>

lemma add_used_add: "add_used a (add_used b m) = add_used (b + a) m"
  by (simp add: add_used_def)

lemma soft_delete_one_many:
  assumes "distinct (map mm_id (db_mms d))" and "\<And>r. r \<in> set (db_mms d) \<Longrightarrow> mm_id r = mm_id item \<Longrightarrow> mm_message_id r = mm_message_id item"
  shows "soft_delete_db item t d = soft_delete_many_db (mm_mailbox_id item) {mm_id item} t d"
proof (cases "list_ex (live_row (mm_id item)) (db_mms d)")
  case True
  then obtain r where r: "r \<in> set (db_mms d)" "mm_id r = mm_id item" "mm_deleted_at r = None"
    by (auto simp: list_ex_iff live_row_def)
  have live: "live_row (mm_id item) = picked {mm_id item}"
    by (intro ext) (simp add: live_row_def picked_def)
  have "filter (picked {mm_id item}) (db_mms d) = filter (\<lambda>x. mm_deleted_at x = None) (filter (\<lambda>x. mm_id x = mm_id r) (db_mms d))"
    by (simp add: picked_def [abs_def] r(2) conj_commute)
  also have "\<dots> = [r]"
    unfolding filter_key_unique [OF assms(1) r(1)] by (simp add: r(3))
  finally have "freed_bytes {mm_id item} d = msg_size d (mm_message_id item)"
    using assms(2) [OF r(1,2)] by (simp add: freed_bytes_def)
  with True show ?thesis
    by (simp add: soft_delete_db_def soft_delete_many_db_def soft_delete_rows_def live)
next
  case False
  then have none: "\<not> picked {mm_id item} r" if "r \<in> set (db_mms d)" for r
    using that by (auto simp: list_ex_iff live_row_def picked_def)
  then have "filter (picked {mm_id item}) (db_mms d) = []"
    by (simp add: filter_empty_conv)
  then have "freed_bytes {mm_id item} d = 0" by (simp add: freed_bytes_def)
  moreover have "soft_delete_rows {mm_id item} t d = d"
    using none by (simp add: soft_delete_rows_def update_where_none)
  ultimately show ?thesis
    using False by (simp add: soft_delete_db_def soft_delete_many_zero)
qed

lemma soft_delete_many_Un:
  "soft_delete_many_db i (A \<union> B) t d = soft_delete_many_db i B t (soft_delete_many_db i A t d)"
proof -
  have f: "freed_bytes B (soft_delete_many_db i A t d) = freed_bytes B (soft_delete_rows A t d)"
    by (simp add: freed_bytes_def soft_delete_many_db_def soft_delete_rows_def msg_size_def)
  have "update_where (\<lambda>m. mb_id m = i) (add_used (- freed_bytes (A \<union> B) d)) ms
      = update_where (\<lambda>m. mb_id m = i) (add_used (- freed_bytes B (soft_delete_rows A t d)))
          (update_where (\<lambda>m. mb_id m = i) (add_used (- freed_bytes A d)) ms)" for ms
    unfolding freed_bytes_Un [of A B d t] by (induction ms) (auto simp: add_used_def)
  moreover have "soft_delete_rows (A \<union> B) t d = soft_delete_rows B t (soft_delete_rows A t d)"
    by (rule soft_delete_rows_Un)
  ultimately show ?thesis
    unfolding soft_delete_many_db_def f [unfolded soft_delete_many_db_def]
    by (simp add: soft_delete_rows_def)
qed

end
