(* ===== verification/Mailstore_Inv.thy ===== *)
theory Mailstore_Inv
  imports Mailstore_Spec
begin

text \<open>
  The invariants of the mail store.  \<open>uids_ok\<close>: in every folder and label the UIDs are non-zero,
  pairwise different and below the container's next UID.  \<open>accounts_ok\<close>: the used bytes of every
  mailbox are the sizes of its live messages.  Both are proved for the effect of every operation;
  A move that works on a stale copy of its row is booked in a ledger.
\<close>

section \<open>UIDs of a container\<close>

definition uids_ok :: "('c \<Rightarrow> string) \<Rightarrow> ('c \<Rightarrow> int) \<Rightarrow> ('r \<Rightarrow> string) \<Rightarrow> ('r \<Rightarrow> 32 word) \<Rightarrow> 'c list \<Rightarrow> 'r list \<Rightarrow> bool" where
  "uids_ok cid cnext rc ruid cs rs \<longleftrightarrow> distinct (map cid cs) \<and> distinct (map (\<lambda>r. (rc r, ruid r)) rs)
     \<and> (\<forall>c \<in> set cs. 1 \<le> cnext c) \<and> (\<forall>r \<in> set rs. ruid r \<noteq> 0)
     \<and> (\<forall>c \<in> set cs. \<forall>r \<in> set rs. rc r = cid c \<longrightarrow> uint (ruid r) < cnext c)"

lemma uint_small [simp]: "0 \<le> n \<Longrightarrow> n < 2 ^ 32 \<Longrightarrow> uint (word_of_int n :: 32 word) = n"
  by (simp add: uint_word_of_int take_bit_eq_mod)

lemma word_of_int_nonzero: "1 \<le> n \<Longrightarrow> n < 2 ^ 32 \<Longrightarrow> (word_of_int n :: 32 word) \<noteq> 0"
  using uint_small [of n] by (metis linorder_not_less order_less_le_trans uint_0_eq zero_less_one order.trans zero_le_one)

text \<open>The two kinds of containers, folders with messages and labels with links, share the proofs.\<close>

locale uid_container =
  fixes cid :: "'c \<Rightarrow> string" and cnext :: "'c \<Rightarrow> int" and bump :: "'c \<Rightarrow> 'c"
    and rc :: "'r \<Rightarrow> string" and ruid :: "'r \<Rightarrow> 32 word"
  assumes cid_bump: "cid (bump c) = cid c"
    and cnext_bump: "cnext (bump c) = cnext c + 1"
begin

abbreviation ok where "ok \<equiv> uids_ok cid cnext rc ruid"

lemma bump_ok:
  assumes "ok cs rs"
  shows "ok (update_where p bump cs) rs"
  using assms unfolding uids_ok_def
  by (auto simp: in_set_update_where map_update_where cid_bump cnext_bump intro: add_increasing2 less_trans)
     force+

lemma same_cid: "ok cs rs \<Longrightarrow> c \<in> set cs \<Longrightarrow> x \<in> set cs \<Longrightarrow> cid x = cid c \<Longrightarrow> x = c"
  by (auto simp: uids_ok_def distinct_map inj_on_def)

lemma ok_distinct: "ok cs rs \<Longrightarrow> distinct (map (\<lambda>r. (rc r, ruid r)) rs)"
  by (simp add: uids_ok_def)

lemma ok_next: "ok cs rs \<Longrightarrow> c \<in> set cs \<Longrightarrow> 1 \<le> cnext c"
  by (simp add: uids_ok_def)

lemma ok_below: "ok cs rs \<Longrightarrow> c \<in> set cs \<Longrightarrow> r \<in> set rs \<Longrightarrow> rc r = cid c \<Longrightarrow> uint (ruid r) < cnext c"
  by (simp add: uids_ok_def)

lemma ok_nonzero: "ok cs rs \<Longrightarrow> r \<in> set rs \<Longrightarrow> ruid r \<noteq> 0"
  by (simp add: uids_ok_def)

lemma okI:
  assumes "distinct (map cid cs)" and "distinct (map (\<lambda>r. (rc r, ruid r)) rs)"
    and "\<And>c. c \<in> set cs \<Longrightarrow> 1 \<le> cnext c" and "\<And>r. r \<in> set rs \<Longrightarrow> ruid r \<noteq> 0"
    and "\<And>c r. c \<in> set cs \<Longrightarrow> r \<in> set rs \<Longrightarrow> rc r = cid c \<Longrightarrow> uint (ruid r) < cnext c"
  shows "ok cs rs"
  using assms by (simp add: uids_ok_def)

lemma next_uint:
  assumes "ok cs rs" and "c \<in> set cs" and "cnext c < 2 ^ 32"
  shows "uint (word_of_int (cnext c) :: 32 word) = cnext c"
  using ok_next [OF assms(1,2)] assms(3) by (intro uint_small) linarith+

lemma fresh_pair:
  assumes "ok cs rs" and "c \<in> set cs" and "cnext c < 2 ^ 32" and "r \<in> set rs"
  shows "(rc r, ruid r) \<noteq> (cid c, word_of_int (cnext c))"
proof
  assume eq: "(rc r, ruid r) = (cid c, word_of_int (cnext c))"
  then have "uint (ruid r) < cnext c" using ok_below [OF assms(1,2,4)] by simp
  with eq next_uint [OF assms(1-3)] show False by simp
qed

lemma insert_ok:
  assumes ok: "ok cs rs" and c: "c \<in> set cs" and lt: "cnext c < 2 ^ 32"
    and r: "rc r = cid c" "ruid r = word_of_int (cnext c)"
  shows "ok (update_where (\<lambda>x. cid x = cid c) bump cs) (rs @ [r])"
proof (rule okI)
  let ?cs = "update_where (\<lambda>x. cid x = cid c) bump cs"
  have b: "ok ?cs rs" by (rule bump_ok [OF ok])
  then show "distinct (map cid ?cs)" by (simp only: uids_ok_def)
  show "1 \<le> cnext x" if "x \<in> set ?cs" for x by (rule ok_next [OF b that])
  have "(rc r, ruid r) \<notin> (\<lambda>r. (rc r, ruid r)) ` set rs"
    unfolding r by (auto dest!: fresh_pair [OF ok c lt])
  with ok_distinct [OF ok] show "distinct (map (\<lambda>r. (rc r, ruid r)) (rs @ [r]))" by simp
  show "ruid x \<noteq> 0" if "x \<in> set (rs @ [r])" for x
  proof (cases "x \<in> set rs")
    case True
    then show ?thesis by (rule ok_nonzero [OF ok])
  next
    case False
    with that r(2) have "ruid x = word_of_int (cnext c)" by simp
    with word_of_int_nonzero [OF ok_next [OF ok c] lt] show ?thesis by (simp only: not_False_eq_True)
  qed
  show "uint (ruid y) < cnext x" if x: "x \<in> set ?cs" "y \<in> set (rs @ [r])" "rc y = cid x" for x y
  proof (cases "y \<in> set rs")
    case True
    then show ?thesis using ok_below [OF b x(1) _ x(3)] by blast
  next
    case False
    with x(2) have "y = r" by simp
    from x(1) obtain z where z: "z \<in> set cs" "x = (if cid z = cid c then bump z else z)"
      unfolding in_set_update_where by blast
    have "cid x = cid z" unfolding z(2) by (simp add: cid_bump)
    with x(3) \<open>y = r\<close> r(1) have "cid z = cid c" by simp
    with same_cid [OF ok c z(1)] z(2) have "cnext x = cnext c + 1" by (simp add: cnext_bump)
    with next_uint [OF ok c lt] r(2) \<open>y = r\<close> show ?thesis by simp
  qed
qed

lemma rows_ok:
  assumes "ok cs rs" and "distinct (map (\<lambda>r. (rc r, ruid r)) rs')"
    and "\<And>r'. r' \<in> set rs' \<Longrightarrow> \<exists>r \<in> set rs. rc r' = rc r \<and> ruid r' = ruid r"
  shows "ok cs rs'"
proof -
  have "ruid r' \<noteq> 0" if "r' \<in> set rs'" for r'
    using assms(1) assms(3) [OF that] by (auto simp: uids_ok_def)
  moreover have "uint (ruid r') < cnext c" if "r' \<in> set rs'" "c \<in> set cs" "rc r' = cid c" for r' c
    using assms(1) assms(3) [OF that(1)] that(2,3) by (auto simp: uids_ok_def)
  ultimately show ?thesis
    using assms(1,2) by (simp add: uids_ok_def)
qed

lemma update_ok:
  assumes "ok cs rs" and "\<And>r. rc (f r) = rc r \<and> ruid (f r) = ruid r"
  shows "ok cs (update_where p f rs)"
  using assms
  by (intro rows_ok [OF assms(1)]) (auto simp: uids_ok_def map_update_where in_set_update_where)

lemma delete_ok:
  assumes "ok cs rs" shows "ok cs (delete_where p rs)"
  using assms
  by (intro rows_ok [OF assms(1)]) (auto simp: uids_ok_def delete_where_def distinct_map_filter)

text \<open>A row that is moved to the container \<open>c\<close> under its next UID.\<close>

lemma move_ok:
  assumes ok: "ok cs rs" and c: "c \<in> set cs" "cnext c < 2 ^ 32"
    and f: "\<And>r. rc (f r) = cid c \<and> ruid (f r) = word_of_int (cnext c)"
    and k: "distinct (map k rs)"
  shows "ok (update_where (\<lambda>x. cid x = cid c) bump cs) (update_where (\<lambda>r. k r = i) f rs)"
proof (cases "\<exists>r \<in> set rs. k r = i")
  case False
  then have "update_where (\<lambda>r. k r = i) f rs = rs" by (intro update_where_none) blast
  then show ?thesis using bump_ok [OF ok] by simp
next
  case True
  then obtain r as bs where rs: "rs = as @ r # bs" "k r = i" by (metis split_list)
  with k have no: "\<And>x. x \<in> set as \<Longrightarrow> k x \<noteq> i" "\<And>x. x \<in> set bs \<Longrightarrow> k x \<noteq> i"
    by (auto simp: image_iff)
  then have upd: "update_where (\<lambda>r. k r = i) f rs = as @ f r # bs"
    using rs by (simp add: update_where_none)
  have rest: "ok cs (as @ bs)"
    by (rule rows_ok [OF ok]) (use ok_distinct [OF ok] rs(1) in auto)
  have ins: "ok (update_where (\<lambda>x. cid x = cid c) bump cs) ((as @ bs) @ [f r])"
    by (rule insert_ok [OF rest c]) (simp_all add: f)
  show ?thesis
    unfolding upd by (rule rows_ok [OF ins]) (use ok_distinct [OF ins] in auto)
qed

lemma new_container_ok:
  assumes "ok cs rs" and "cid c \<notin> cid ` set cs" and "cnext c = 1" and "\<And>r. r \<in> set rs \<Longrightarrow> rc r \<noteq> cid c"
  shows "ok (cs @ [c]) rs"
  using assms by (auto simp: uids_ok_def)

end

definition bump_fo :: "folder \<Rightarrow> folder" where
  "bump_fo f = f\<lparr>fo_uid_next := fo_uid_next f + 1\<rparr>"

definition bump_la :: "label \<Rightarrow> label" where
  "bump_la l = l\<lparr>la_uid_next := la_uid_next l + 1\<rparr>"

interpretation fcon: uid_container fo_id fo_uid_next bump_fo mm_folder_id mm_uid
  by unfold_locales (simp_all add: bump_fo_def)

interpretation lcon: uid_container la_id la_uid_next bump_la ln_label_id ln_uid
  by unfold_locales (simp_all add: bump_la_def)


section \<open>Quota accounting\<close>

definition contrib :: "db \<Rightarrow> string \<Rightarrow> mailbox_message \<Rightarrow> int" where
  "contrib d i r = (if mm_mailbox_id r = i \<and> mm_deleted_at r = None then msg_size d (mm_message_id r) else 0)"

definition live_bytes :: "db \<Rightarrow> string \<Rightarrow> int" where
  "live_bytes d i = (\<Sum>r\<leftarrow>db_mms d. contrib d i r)"

text \<open>
  A ledger books, for each mailbox, by how much its used bytes are off.  It is 0 everywhere when the accounts are right; which
  operations can make it differ is said with the operations.
\<close>

type_synonym ledger = "string \<Rightarrow> int"

definition accounts_ok :: "ledger \<Rightarrow> db \<Rightarrow> bool" where
  "accounts_ok e d \<longleftrightarrow> (\<forall>m \<in> set (db_mailboxes d). mb_used_bytes m = live_bytes d (mb_id m) + e (mb_id m))"

definition keys_ok :: "db \<Rightarrow> bool" where
  "keys_ok d \<longleftrightarrow> distinct (map mb_id (db_mailboxes d)) \<and> distinct (map mm_id (db_mms d))
     \<and> distinct (map ln_id (db_links d)) \<and> distinct (map me_id (db_messages d))"

definition uid_spaces_ok :: "db \<Rightarrow> bool" where
  "uid_spaces_ok d \<longleftrightarrow> uids_ok fo_id fo_uid_next mm_folder_id mm_uid (db_folders d) (db_mms d)
     \<and> uids_ok la_id la_uid_next ln_label_id ln_uid (db_labels d) (db_links d)"

definition ledger_ok :: "ledger \<Rightarrow> db \<Rightarrow> bool" where
  "ledger_ok e d \<longleftrightarrow> keys_ok d \<and> uid_spaces_ok d \<and> accounts_ok e d"

text \<open>A store whose accounts are right.\<close>

definition store_ok :: "db \<Rightarrow> bool" where
  "store_ok d \<longleftrightarrow> ledger_ok (\<lambda>_. 0) d"

text \<open>The columns the accounting reads.\<close>

definition acct_cols :: "mailbox_message \<Rightarrow> string \<times> string \<times> string \<times> bool" where
  "acct_cols r = (mm_id r, mm_mailbox_id r, mm_message_id r, mm_deleted_at r = None)"

lemma contrib_frame:
  assumes "db_messages d' = db_messages d"
  shows "contrib d' = contrib d"
  by (intro ext) (simp add: contrib_def msg_size_frame [OF assms])

lemma live_bytes_cols:
  assumes "map acct_cols (db_mms d) = map acct_cols (db_mms d')" and "db_messages d = db_messages d'"
  shows "live_bytes d i = live_bytes d' i"
proof -
  let ?g = "\<lambda>(_, b, m, l). if b = i \<and> l then msg_size d m else 0"
  have "contrib d i = ?g \<circ> acct_cols"
    by (rule ext) (simp add: contrib_def acct_cols_def)
  moreover have "contrib d' = contrib d" by (rule contrib_frame) (simp add: assms(2))
  ultimately have c: "contrib d i = ?g \<circ> acct_cols" "contrib d' i = ?g \<circ> acct_cols" by simp_all
  show ?thesis
    unfolding live_bytes_def c map_map [symmetric] assms(1) ..
qed

lemma in_update_used:
  assumes "x \<in> set (update_where (\<lambda>m. mb_id m = i) (add_used n) ms)"
  shows "\<exists>m \<in> set ms. mb_id x = mb_id m \<and> mb_used_bytes x = mb_used_bytes m + (if mb_id m = i then n else 0)"
  using assms by (auto simp: in_set_update_where add_used_def)

text \<open>Adding the change of the live bytes of one mailbox to its used bytes keeps the accounts right.\<close>

lemma accounts_update:
  assumes "accounts_ok e d" and "db_mailboxes d' = update_where (\<lambda>m. mb_id m = i) (add_used n) (db_mailboxes d)"
    and "\<And>j. live_bytes d' j = live_bytes d j + (if j = i then n else 0)"
  shows "accounts_ok e d'"
  unfolding accounts_ok_def
proof
  fix x assume "x \<in> set (db_mailboxes d')"
  with in_update_used [of x i n] assms(2) obtain m where "m \<in> set (db_mailboxes d)" "mb_id x = mb_id m"
      "mb_used_bytes x = mb_used_bytes m + (if mb_id m = i then n else 0)"
    by auto
  with assms(1,3) show "mb_used_bytes x = live_bytes d' (mb_id x) + e (mb_id x)"
    by (simp add: accounts_ok_def)
qed

lemma accounts_same:
  assumes "accounts_ok e d" and "db_mailboxes d' = db_mailboxes d" and "\<And>j. live_bytes d' j = live_bytes d j"
  shows "accounts_ok e d'"
  using assms by (simp add: accounts_ok_def)

text \<open>Rewriting the rows a condition selects changes the live bytes by the sum of their changes.\<close>

lemma live_bytes_update:
  assumes "db_mms d' = update_where p f (db_mms d)" and "db_messages d' = db_messages d"
  shows "live_bytes d' i = live_bytes d i + (\<Sum>r\<leftarrow>filter p (db_mms d). contrib d i (f r) - contrib d i r)"
  using assms by (simp add: live_bytes_def sum_list_update_where contrib_frame [OF assms(2)])

lemma filter_row:
  assumes "distinct (map mm_id (db_mms d))" and "r \<in> set (db_mms d)"
  shows "filter (\<lambda>x. mm_id x = mm_id r) (db_mms d) = [r]"
  by (rule filter_key_unique [OF assms])

subsection \<open>Attach\<close>

lemma attach_keeps_accounts:
  assumes "accounts_ok e d" and "distinct (map mb_id (db_mailboxes d))"
    and m: "m \<in> set (db_mailboxes d)" "admits p m"
    and item: "mm_mailbox_id item = at_mailbox_id p" "mm_deleted_at item = None"
      "mm_message_id item = at_message_id p" "at_size_bytes p = msg_size d (at_message_id p)"
  shows "accounts_ok e (attach_db p item d)"
proof (rule accounts_update [OF assms(1)])
  have "x = m" if "x \<in> set (db_mailboxes d)" "mb_id x = at_mailbox_id p" for x
    using that m assms(2) inj_onD [of mb_id "set (db_mailboxes d)" x m] by (simp add: admits_def distinct_map)
  with m(2) have "admits p x = (mb_id x = at_mailbox_id p)" if "x \<in> set (db_mailboxes d)" for x
    using that admits_def [of p x] by blast
  then show "db_mailboxes (attach_db p item d)
      = update_where (\<lambda>m. mb_id m = at_mailbox_id p) (add_used (at_size_bytes p)) (db_mailboxes d)"
    unfolding attach_db_def by (simp add: update_where_cong [of "db_mailboxes d" "admits p"])
  show "live_bytes (attach_db p item d) j = live_bytes d j + (if j = at_mailbox_id p then at_size_bytes p else 0)" for j
  proof -
    have "contrib (attach_db p item d) = contrib d" by (rule contrib_frame) (simp add: attach_db_def)
    moreover have "db_mms (attach_db p item d) = db_mms d @ [item]" by (simp add: attach_db_def)
    ultimately show ?thesis using item by (simp add: live_bytes_def contrib_def)
  qed
qed

lemma find_folder:
  "filter (\<lambda>f. fo_id f = i) fs = f # gs \<Longrightarrow> f \<in> set fs \<and> fo_id f = i"
  by (auto simp: filter_eq_Cons_iff)

lemma bump_folder_eq: "db_folders (bump_folder i d) = update_where (\<lambda>f. fo_id f = i) bump_fo (db_folders d)"
  by (simp add: bump_folder_def bump_fo_def [abs_def])

lemma attach_keeps_ok:
  assumes ok: "ledger_ok e d" and w: "w_db w = d" "attached p w item"
    and size: "at_size_bytes p = msg_size d (at_message_id p)"
    and room: "\<And>n. folder_next d (at_folder_id p) = Some n \<Longrightarrow> n < 2 ^ 32"
  shows "ledger_ok e (attach_db p item d)"
proof -
  from w obtain f fs m where f: "filter (\<lambda>f. fo_id f = at_folder_id p) (db_folders d) = f # fs"
      and item: "item = new_mm p (word_of_int (fo_uid_next f)) (w_ids w (w_idc w)) (w_clock w)"
      and fresh: "\<not> list_ex (mm_clash item) (db_mms d)" and m: "m \<in> set (db_mailboxes d)" "admits p m"
    unfolding attached_def by blast
  from ok have ks: "keys_ok d" and us: "uid_spaces_ok d" and as: "accounts_ok e d" by (auto simp: ledger_ok_def)
  have "fo_uid_next f < 2 ^ 32"
    using room find_filter [OF f] by (simp add: folder_next_def)
  with us find_folder [OF f] have "uids_ok fo_id fo_uid_next mm_folder_id mm_uid
      (update_where (\<lambda>x. fo_id x = fo_id f) bump_fo (db_folders d)) (db_mms d @ [item])"
    by (intro fcon.insert_ok) (auto simp: uid_spaces_ok_def item new_mm_def)
  with us find_folder [OF f] have u: "uid_spaces_ok (attach_db p item d)"
    by (simp add: uid_spaces_ok_def attach_db_def bump_folder_eq)
  have k: "keys_ok (attach_db p item d)"
    using ks fresh by (auto simp: keys_ok_def attach_db_def map_update_where add_used_def mm_clash_def list_ex_iff)
  have "accounts_ok e (attach_db p item d)"
    using ks as m size by (intro attach_keeps_accounts) (auto simp: keys_ok_def item new_mm_def)
  with k u show ?thesis by (simp add: ledger_ok_def)
qed

subsection \<open>Move\<close>

text \<open>
  The snapshot of a row the caller holds: the owner and the message of a row never change, its
  deletion state may.
\<close>

definition snapshot :: "db \<Rightarrow> mailbox_message \<Rightarrow> bool" where
  "snapshot d item \<longleftrightarrow> (\<forall>r \<in> set (db_mms d). mm_id r = mm_id item \<longrightarrow>
     mm_mailbox_id r = mm_mailbox_id item \<and> mm_message_id r = mm_message_id item)"

text \<open>
  The row is restored by a move, and charged when the copy the caller holds says that it was deleted.  A copy can be stale, since
  nothing makes the move read the row again: a live row whose copy says deleted is charged twice, and a deleted row whose copy
  says live is restored without a charge.  \<open>move_error\<close> books it.
\<close>

definition move_error :: "mailbox_message \<Rightarrow> db \<Rightarrow> ledger \<Rightarrow> ledger" where
  "move_error item d e = (case find (\<lambda>r. mm_id r = mm_id item) (db_mms d) of
       None \<Rightarrow> e
     | Some r \<Rightarrow> e(mm_mailbox_id item := e (mm_mailbox_id item)
         + (if mm_deleted_at item \<noteq> None then msg_size d (mm_message_id item) else 0)
         - (if mm_deleted_at r \<noteq> None then msg_size d (mm_message_id item) else 0)))"

definition current :: "db \<Rightarrow> mailbox_message \<Rightarrow> bool" where
  "current d item \<longleftrightarrow> (\<forall>r \<in> set (db_mms d). mm_id r = mm_id item \<longrightarrow> (mm_deleted_at r = None) = (mm_deleted_at item = None))"

text \<open>A move of a current copy books nothing.\<close>

lemma find_member: "find p xs = Some x \<Longrightarrow> x \<in> set xs \<and> p x"
  by (induction xs) (auto split: if_splits)

lemma move_error_current: "current d item \<Longrightarrow> move_error item d e = e"
  by (auto simp: move_error_def current_def split: option.split dest!: find_member)

lemma move_keeps_accounts:
  assumes as: "accounts_ok e d" and ks: "keys_ok d" and snap: "snapshot d item"
    and row: "mm_id item \<in> mm_id ` set (db_mms d)"
  shows "accounts_ok (move_error item d e) (move_db item folderID uid t d)"
proof -
  let ?d' = "move_db item folderID uid t d" and ?s = "msg_size d (mm_message_id item)" and ?i = "mm_mailbox_id item"
  from row have "find (\<lambda>r. mm_id r = mm_id item) (db_mms d) \<noteq> None" by (auto simp: find_None_iff)
  then obtain r where fr: "find (\<lambda>r. mm_id r = mm_id item) (db_mms d) = Some r" by auto
  then have r: "r \<in> set (db_mms d)" "mm_id r = mm_id item" by (auto dest: find_member)
  with snap have c: "mm_mailbox_id r = ?i" "mm_message_id r = mm_message_id item" by (auto simp: snapshot_def)
  have f: "filter (\<lambda>x. mm_id x = mm_id item) (db_mms d) = [r]"
    using filter_row [of d r] ks r by (simp add: keys_ok_def)
  have "live_bytes ?d' j = live_bytes d j + (\<Sum>x\<leftarrow>filter (\<lambda>x. mm_id x = mm_id item) (db_mms d).
      contrib d j (move_row folderID uid t x) - contrib d j x)" for j
    by (rule live_bytes_update) (simp_all add: move_db_def)
  then have lb: "live_bytes ?d' j = live_bytes d j + (if j = ?i \<and> mm_deleted_at r \<noteq> None then ?s else 0)" for j
    unfolding f using c by (auto simp: contrib_def move_row_def)
  define n where "n = (if mm_deleted_at item \<noteq> None then ?s else 0)"
  have mb: "\<exists>m \<in> set (db_mailboxes d). mb_id x = mb_id m \<and> mb_used_bytes x = mb_used_bytes m + (if mb_id m = ?i then n else 0)"
    if "x \<in> set (db_mailboxes ?d')" for x
  proof (cases "mm_deleted_at item = None")
    case True
    with that show ?thesis by (auto simp: move_db_def n_def)
  next
    case False
    then have n: "n = ?s" by (simp add: n_def)
    from False that have "x \<in> set (update_where (\<lambda>m. mb_id m = ?i) (add_used ?s) (db_mailboxes d))"
      by (auto simp: move_db_def)
    then show ?thesis unfolding n by (rule in_update_used)
  qed
  have e: "move_error item d e = e(?i := e ?i + n - (if mm_deleted_at r \<noteq> None then ?s else 0))"
    by (simp add: move_error_def fr n_def)
  show ?thesis
    unfolding accounts_ok_def
  proof
    fix x assume "x \<in> set (db_mailboxes ?d')"
    from mb [OF this] obtain m where "m \<in> set (db_mailboxes d)" "mb_id x = mb_id m"
      "mb_used_bytes x = mb_used_bytes m + (if mb_id m = ?i then n else 0)" by blast
    with as show "mb_used_bytes x = live_bytes ?d' (mb_id x) + move_error item d e (mb_id x)"
      by (auto simp: accounts_ok_def lb e)
  qed
qed

lemma move_keeps_ok:
  assumes ok: "ledger_ok e d" and mv: "movable item folderID d uid" and snap: "snapshot d item"
    and room: "\<And>n. folder_next d folderID = Some n \<Longrightarrow> n < 2 ^ 32"
  shows "ledger_ok (move_error item d e) (move_db item folderID uid t d)"
proof -
  from mv obtain f fs where f: "filter (\<lambda>f. fo_id f = folderID) (db_folders d) = f # fs"
      and uid: "uid = word_of_int (fo_uid_next f)" and row: "mm_id item \<in> mm_id ` set (db_mms d)"
    unfolding movable_def by blast
  from ok have ks: "keys_ok d" and us: "uid_spaces_ok d" and as: "accounts_ok e d" by (auto simp: ledger_ok_def)
  have "fo_uid_next f < 2 ^ 32"
    using room find_filter [OF f] by (simp add: folder_next_def)
  with us ks find_folder [OF f] have "uids_ok fo_id fo_uid_next mm_folder_id mm_uid
      (update_where (\<lambda>x. fo_id x = fo_id f) bump_fo (db_folders d))
      (update_where (\<lambda>r. mm_id r = mm_id item) (move_row folderID uid t) (db_mms d))"
    by (intro fcon.move_ok) (auto simp: uid_spaces_ok_def keys_ok_def move_row_def uid)
  with us find_folder [OF f] have u: "uid_spaces_ok (move_db item folderID uid t d)"
    by (simp add: uid_spaces_ok_def move_db_def bump_folder_eq)
  have "keys_ok (move_db item folderID uid t d)"
    using ks by (simp add: keys_ok_def move_db_def map_update_where add_used_def move_row_def)
  with u move_keeps_accounts [OF as ks snap row] show ?thesis by (simp add: ledger_ok_def)
qed

subsection \<open>Soft deletion\<close>

lemma soft_delete_many_keeps_ok:
  assumes ok: "ledger_ok e d" and own: "\<And>r. r \<in> set (db_mms d) \<Longrightarrow> mm_id r \<in> ids \<Longrightarrow> mm_mailbox_id r = i"
  shows "ledger_ok e (soft_delete_many_db i ids t d)"
proof -
  let ?d' = "soft_delete_many_db i ids t d"
  from ok have ks: "keys_ok d" and us: "uid_spaces_ok d" and as: "accounts_ok e d" by (auto simp: ledger_ok_def)
  have mms: "db_mms ?d' = update_where (picked ids) (soft_delete_row t) (db_mms d)"
    by (simp add: soft_delete_many_db_def soft_delete_rows_def)
  have "keys_ok ?d'"
    using ks by (simp add: keys_ok_def soft_delete_many_db_def soft_delete_rows_def soft_delete_row_def
        map_update_where add_used_def)
  moreover have "uid_spaces_ok ?d'"
    using us fcon.update_ok [of "db_folders d" "db_mms d" "soft_delete_row t" "picked ids"]
    by (simp add: uid_spaces_ok_def soft_delete_many_db_def soft_delete_rows_def soft_delete_row_def)
  moreover have "accounts_ok e ?d'"
  proof (rule accounts_update [OF as])
    show "db_mailboxes ?d' = update_where (\<lambda>m. mb_id m = i) (add_used (- freed_bytes ids d)) (db_mailboxes d)"
      by (simp add: soft_delete_many_db_def)
    have c: "contrib d j (soft_delete_row t r) - contrib d j r = (if j = i then - msg_size d (mm_message_id r) else 0)"
      if "r \<in> set (filter (picked ids) (db_mms d))" for r j
      using that own [of r] by (auto simp: contrib_def soft_delete_row_def picked_def)
    fix j
    have "live_bytes ?d' j = live_bytes d j
        + (\<Sum>r\<leftarrow>filter (picked ids) (db_mms d). contrib d j (soft_delete_row t r) - contrib d j r)"
      by (rule live_bytes_update [OF mms]) (simp add: soft_delete_many_db_def soft_delete_rows_def)
    also have "\<dots> = live_bytes d j + (\<Sum>r\<leftarrow>filter (picked ids) (db_mms d). if j = i then - msg_size d (mm_message_id r) else 0)"
      by (simp only: c cong: map_cong)
    also have "\<dots> = live_bytes d j + (if j = i then - freed_bytes ids d else 0)"
      by (simp add: freed_bytes_def uminus_sum_list_map o_def)
    finally show "live_bytes ?d' j = live_bytes d j + (if j = i then - freed_bytes ids d else 0)" .
  qed
  ultimately show ?thesis by (simp add: ledger_ok_def)
qed

lemma soft_delete_keeps_ok:
  assumes ok: "ledger_ok e d" and snap: "snapshot d item"
  shows "ledger_ok e (soft_delete_db item t d)"
proof -
  have "soft_delete_db item t d = soft_delete_many_db (mm_mailbox_id item) {mm_id item} t d"
    using assms by (intro soft_delete_one_many) (auto simp: ledger_ok_def keys_ok_def snapshot_def)
  then show ?thesis
    using soft_delete_many_keeps_ok [OF ok, of "{mm_id item}" "mm_mailbox_id item" t] snap
    by (auto simp: snapshot_def)
qed

subsection \<open>Flags and labels\<close>

definition same_place :: "(mailbox_message \<Rightarrow> mailbox_message) \<Rightarrow> bool" where
  "same_place f \<longleftrightarrow> (\<forall>r. acct_cols (f r) = acct_cols r \<and> mm_folder_id (f r) = mm_folder_id r \<and> mm_uid (f r) = mm_uid r)"

lemma same_place_flags: "same_place (\<lambda>r. (apply_flags fs r)\<lparr>mm_updated_at := t\<rparr>)"
  by (simp add: same_place_def acct_cols_def apply_flags_def)

lemma touch_keeps_ok:
  assumes ok: "ledger_ok e d" and f: "same_place f"
  shows "ledger_ok e (d\<lparr>db_mms := update_where p f (db_mms d)\<rparr>)"
proof -
  let ?d' = "d\<lparr>db_mms := update_where p f (db_mms d)\<rparr>"
  have cols: "acct_cols (f r) = acct_cols r" and ids: "mm_folder_id (f r) = mm_folder_id r" "mm_uid (f r) = mm_uid r"
    and i: "mm_id (f r) = mm_id r" for r
    using f by (auto simp: same_place_def acct_cols_def)
  from ok have ks: "keys_ok d" and us: "uid_spaces_ok d" and as: "accounts_ok e d" by (auto simp: ledger_ok_def)
  have "keys_ok ?d'" using ks by (simp add: keys_ok_def map_update_where i)
  moreover have "uid_spaces_ok ?d'"
    using us fcon.update_ok [of "db_folders d" "db_mms d" f p] ids by (simp add: uid_spaces_ok_def)
  moreover have "live_bytes ?d' j = live_bytes d j" for j
    by (rule live_bytes_cols) (simp_all add: map_update_where cols)
  then have "accounts_ok e ?d'" by (intro accounts_same [OF as]) simp_all
  ultimately show ?thesis by (simp add: ledger_ok_def)
qed

lemma table_mms [simp]: "snd T_mms g d = d\<lparr>db_mms := g (db_mms d)\<rparr>" "fst T_mms d = db_mms d"
  by (simp_all add: T_mms_def)

lemma set_flags_keeps_ok: "preserves (\<lambda>w. ledger_ok e (w_db w)) (SetFlags item fs)"
  unfolding SetFlags_def publishLabelFlagChanges_def label_flag_changes_def
  by (intro preserves_intros preserves_db)
     (auto intro!: preserves_intros preserves_db touch_keeps_ok same_place_flags split: sum.split)

lemma set_flags_many_keeps_ok: "preserves (\<lambda>w. ledger_ok e (w_db w)) (SetFlagsMany items fs)"
  unfolding SetFlagsMany_def
  by (intro preserves_intros preserves_db)
     (auto intro!: preserves_intros preserves_db touch_keeps_ok same_place_flags split: sum.split option.split)

lemma links_keep_ok:
  assumes ok: "ledger_ok e d" and "distinct (map ln_id ls)" and "uids_ok la_id la_uid_next ln_label_id ln_uid las ls"
  shows "ledger_ok e (d\<lparr>db_labels := las, db_links := ls\<rparr>)"
proof -
  have "live_bytes (d\<lparr>db_labels := las, db_links := ls\<rparr>) j = live_bytes d j" for j
    by (rule live_bytes_cols) simp_all
  with assms show ?thesis
    by (simp add: ledger_ok_def keys_ok_def uid_spaces_ok_def accounts_ok_def)
qed

lemma remove_label_keeps_ok: "preserves (\<lambda>w. ledger_ok e (w_db w)) (RemoveLabel item labelID)"
proof -
  have del: "ledger_ok e (snd T_links (delete_where p) d)" if "ledger_ok e d" for d p
    using that links_keep_ok [OF that, of "delete_where p (db_links d)" "db_labels d"]
      lcon.delete_ok [of "db_labels d" "db_links d" p]
    by (simp add: T_links_def ledger_ok_def keys_ok_def uid_spaces_ok_def delete_where_def distinct_map_filter)
  show ?thesis
    unfolding RemoveLabel_def
    by (intro preserves_intros preserves_db)
       (auto intro!: preserves_intros preserves_db del split: sum.split)
qed

definition label_room :: "db \<Rightarrow> string \<Rightarrow> bool" where
  "label_room d i \<longleftrightarrow> (\<forall>n. label_next d i = Some n \<longrightarrow> n < 2 ^ 32)"

definition folder_room :: "db \<Rightarrow> string \<Rightarrow> bool" where
  "folder_room d i \<longleftrightarrow> (\<forall>n. folder_next d i = Some n \<longrightarrow> n < 2 ^ 32)"

lemma add_label_tx_keeps_ok:
  assumes ok: "ledger_ok e (w_db w)" and room: "label_room (w_db w) labelID"
  shows "wp (addLabelInTx item labelID) (\<lambda>r w'. case r of Inl _ \<Rightarrow> True | Inr link \<Rightarrow> ledger_ok e (w_db w')) w"
proof (cases "filter (\<lambda>l. la_id l = labelID) (db_labels (w_db w))")
  case Nil
  then show ?thesis by (simp add: addLabelInTx_def wp_simps)
next
  case (Cons l ls)
  let ?d = "w_db w"
  have l: "l \<in> set (db_labels ?d)" "la_id l = labelID" "la_uid_next l < 2 ^ 32"
    using Cons room find_filter [OF Cons] by (auto simp: label_room_def label_next_def filter_eq_Cons_iff)
  have "ledger_ok e ((bump_label labelID ?d)\<lparr>db_links := db_links ?d @ [k]\<rparr>)"
    if k: "ln_label_id k = labelID" "ln_uid k = word_of_int (la_uid_next l)" "\<not> list_ex (link_clash k) (db_links ?d)" for k
  proof -
    have "uids_ok la_id la_uid_next ln_label_id ln_uid
        (update_where (\<lambda>x. la_id x = la_id l) bump_la (db_labels ?d)) (db_links ?d @ [k])"
      using ok l k by (intro lcon.insert_ok) (auto simp: ledger_ok_def uid_spaces_ok_def)
    moreover have "bump_label labelID ?d = ?d\<lparr>db_labels := update_where (\<lambda>x. la_id x = la_id l) bump_la (db_labels ?d)\<rparr>"
      by (simp add: bump_label_def bump_la_def [abs_def] l(2))
    moreover have "distinct (map ln_id (db_links ?d @ [k]))"
      using ok k(3) by (auto simp: ledger_ok_def keys_ok_def list_ex_iff link_clash_def)
    ultimately show ?thesis
      using links_keep_ok [OF ok] by simp
  qed
  with Cons show ?thesis
    by (simp add: addLabelInTx_def wp_simps T_links_def bump_label_def)
qed

lemma add_label_keeps_ok:
  assumes ok: "ledger_ok e (w_db w)" and room: "label_room (w_db w) labelID"
  shows "wp (AddLabel item labelID) (\<lambda>_ w'. ledger_ok e (w_db w')) w"
proof -
  have tx: "wp (in_tx (addLabelInTx item labelID)) (\<lambda>_ w'. ledger_ok e (w_db w')) w1"
    if "w_db w1 = w_db w" for w1
    unfolding wp_in_tx
    using add_label_tx_keeps_ok [of e "pop w1" labelID item] ok room that
    by (auto elim!: wp_mono split: sum.splits)
  show ?thesis
    unfolding AddLabel_def using ok
    by (auto simp: wp_simps simp del: wp_in_tx intro!: wp_mono [OF tx] split: sum.split)
qed

subsection \<open>New folders and labels\<close>

lemma create_folder_keeps_ok:
  assumes ok: "ledger_ok e (w_db w)" and fresh: "w_ids w (w_idc w) \<notin> mm_folder_id ` set (db_mms (w_db w))"
  shows "wp (CreateFolder mailboxID name system) (\<lambda>_ w'. ledger_ok e (w_db w')) w"
proof -
  let ?d = "w_db w"
  have "ledger_ok e (?d\<lparr>db_folders := db_folders ?d @ [f]\<rparr>)"
    if f: "\<not> list_ex (folder_clash f) (db_folders ?d)" "fo_uid_next f = 1" "fo_id f = w_ids w (w_idc w)" for f
  proof -
    have "uids_ok fo_id fo_uid_next mm_folder_id mm_uid (db_folders ?d @ [f]) (db_mms ?d)"
      using ok f fresh by (intro fcon.new_container_ok)
        (auto simp: ledger_ok_def uid_spaces_ok_def list_ex_iff folder_clash_def image_iff)
    moreover have "live_bytes (?d\<lparr>db_folders := db_folders ?d @ [f]\<rparr>) j = live_bytes ?d j" for j
      by (rule live_bytes_cols) simp_all
    ultimately show ?thesis
      using ok by (simp add: ledger_ok_def keys_ok_def uid_spaces_ok_def accounts_ok_def)
  qed
  then show ?thesis
    using ok by (simp add: CreateFolder_def NewUIDValidity_def wp_simps T_folders_def)
qed

lemma create_label_keeps_ok:
  assumes ok: "ledger_ok e (w_db w)" and fresh: "w_ids w (w_idc w) \<notin> ln_label_id ` set (db_links (w_db w))"
  shows "wp (CreateLabel mailboxID name) (\<lambda>_ w'. ledger_ok e (w_db w')) w"
proof -
  let ?d = "w_db w"
  have "ledger_ok e (?d\<lparr>db_labels := db_labels ?d @ [l]\<rparr>)"
    if l: "\<not> list_ex (label_clash l) (db_labels ?d)" "la_uid_next l = 1" "la_id l = w_ids w (w_idc w)" for l
  proof -
    have "uids_ok la_id la_uid_next ln_label_id ln_uid (db_labels ?d @ [l]) (db_links ?d)"
      using ok l fresh by (intro lcon.new_container_ok)
        (auto simp: ledger_ok_def uid_spaces_ok_def list_ex_iff label_clash_def image_iff)
    moreover have "live_bytes (?d\<lparr>db_labels := db_labels ?d @ [l]\<rparr>) j = live_bytes ?d j" for j
      by (rule live_bytes_cols) simp_all
    ultimately show ?thesis
      using ok by (simp add: ledger_ok_def keys_ok_def uid_spaces_ok_def accounts_ok_def)
  qed
  then show ?thesis
    using ok by (simp add: CreateLabel_def NewUIDValidity_def wp_simps T_labels_def)
qed

subsection \<open>Recomputing the accounts\<close>

definition recompute_db :: "string \<Rightarrow> db \<Rightarrow> db" where
  "recompute_db i d = d\<lparr>db_mailboxes := update_where (\<lambda>m. mb_id m = i) (\<lambda>m. m\<lparr>mb_used_bytes := live_bytes d i\<rparr>) (db_mailboxes d)\<rparr>"

lemma live_bytes_filter:
  "live_bytes d i = (\<Sum>r\<leftarrow>filter (\<lambda>r. mm_mailbox_id r = i \<and> mm_deleted_at r = None) (db_mms d). msg_size d (mm_message_id r))"
  by (simp add: live_bytes_def contrib_def sum_list_map_filter')

lemma recompute_spec:
  assumes "distinct (map me_id (db_messages (w_db w)))"
  shows "wp (RecomputeUsedBytes i) (\<lambda>r w'. w_notifier w' = w_notifier w \<and> (case r of
      Inl _ \<Rightarrow> w_db w' = w_db w
    | Inr n \<Rightarrow> n = live_bytes (w_db w) i \<and> w_db w' = recompute_db i (w_db w))) w"
proof -
  let ?live = "filter (\<lambda>r. mm_mailbox_id r = i \<and> mm_deleted_at r = None) (db_mms (w_db w))"
  have sum: "(\<Sum>i\<leftarrow>map mm_message_id ?live. sizes i) = live_bytes (w_db w) i"
    if "\<forall>i \<in> set (map mm_message_id ?live). sizes i = msg_size (w_db w) i" for sizes
    using that unfolding live_bytes_filter map_map by (intro arg_cong [where f = sum_list] map_cong) auto
  have sz: "wp (messageSizes (map mm_message_id ?live)) (\<lambda>r w'. w_db w' = w_db w \<and> w_notifier w' = w_notifier w
      \<and> (case r of Inl _ \<Rightarrow> True | Inr sizes \<Rightarrow> \<forall>i \<in> set (map mm_message_id ?live). sizes i = msg_size (w_db w) i)) (pop w)"
    using messageSizes_spec [of "pop w" "map mm_message_id ?live"] assms
    by (auto elim!: wp_mono split: sum.splits)
  show ?thesis
    unfolding RecomputeUsedBytes_def
    by (simp add: wp_simps Let_def del: set_map map_map)
      (auto intro!: wp_mono [OF sz] simp: sum wp_simps T_mailboxes_def recompute_db_def simp del: map_map set_map split: sum.splits list.splits)
qed

lemma recompute_db_frame: "live_bytes (recompute_db i d) j = live_bytes d j"
  by (rule live_bytes_cols) (simp_all add: recompute_db_def)

lemma recompute_keeps_ok:
  assumes "ledger_ok e d"
  shows "ledger_ok (e(i := 0)) (recompute_db i d)"
proof -
  have "mb_used_bytes m = live_bytes d (mb_id m) + (e(i := 0)) (mb_id m)" if "m \<in> set (db_mailboxes (recompute_db i d))" for m
    using that assms by (auto simp: recompute_db_def in_set_update_where ledger_ok_def accounts_ok_def)
  then have "accounts_ok (e(i := 0)) (recompute_db i d)" by (simp add: accounts_ok_def recompute_db_frame)
  moreover have "keys_ok (recompute_db i d) \<and> uid_spaces_ok (recompute_db i d)"
    using assms by (simp add: ledger_ok_def keys_ok_def uid_spaces_ok_def recompute_db_def map_update_where)
  ultimately show ?thesis by (simp add: ledger_ok_def)
qed

subsection \<open>Soft deletion of many\<close>

lemma snapshot_soft_delete: "snapshot d item \<Longrightarrow> snapshot (soft_delete_many_db i ids t d) item"
  by (auto simp: snapshot_def soft_delete_many_db_def soft_delete_rows_def in_set_update_where soft_delete_row_def split: if_splits)

lemma soft_delete_batch_keeps_ok:
  assumes ok: "ledger_ok e (w_db w)" and snap: "\<And>x. x \<in> set items \<Longrightarrow> snapshot (w_db w) x"
    and own: "\<And>x. x \<in> set items \<Longrightarrow> mm_mailbox_id x = i" and J: "\<And>x. x \<in> set js \<Longrightarrow> snapshot (w_db w) x"
  shows "wp (softDeleteBatch i items) (\<lambda>_ w'. ledger_ok e (w_db w') \<and> (\<forall>x \<in> set js. snapshot (w_db w') x)) w"
proof -
  have "ledger_ok e (soft_delete_many_db i (mm_id ` set items) t (w_db w))" for t
    using own snap by (intro soft_delete_many_keeps_ok [OF ok]) (force simp: snapshot_def)
  with ok J show ?thesis
    by (intro wp_mono [OF soft_delete_batch_spec]) (auto simp: ledger_ok_def keys_ok_def intro: snapshot_soft_delete split: sum.splits)
qed

lemma soft_delete_many_ops_keep_ok:
  assumes ok: "ledger_ok e (w_db w)" and snap: "\<And>x. x \<in> set items \<Longrightarrow> snapshot (w_db w) x"
  shows "wp (SoftDeleteMany items) (\<lambda>_ w'. ledger_ok e (w_db w')) w"
proof -
  let ?I = "\<lambda>w'. ledger_ok e (w_db w') \<and> (\<forall>x \<in> set items. snapshot (w_db w') x)"
  let ?live = "filter (\<lambda>i. mm_deleted_at i = None) items"
  have "wp (forE xs (\<lambda>m. softDeleteBatch m (filter (\<lambda>i. mm_mailbox_id i = m) ?live)))
      (\<lambda>r w'. case r of Inl e \<Rightarrow> ?I w' | Inr _ \<Rightarrow> ?I w') w" for xs
  proof (rule wp_forE [where I = "\<lambda>_. ?I"])
    fix x and w1 :: world
    assume "?I w1"
    then have "wp (softDeleteBatch x (filter (\<lambda>i. mm_mailbox_id i = x) ?live)) (\<lambda>_. ?I) w1"
      by (intro soft_delete_batch_keeps_ok) auto
    then show "wp (softDeleteBatch x (filter (\<lambda>i. mm_mailbox_id i = x) ?live))
        (\<lambda>r w'. case r of Inl e \<Rightarrow> ?I w' | Inr _ \<Rightarrow> ?I w') w1"
      by (rule wp_mono) (auto split: sum.split)
  qed (use assms in auto)
  then show ?thesis
    unfolding SoftDeleteMany_def Let_def by (rule wp_mono) (auto split: sum.splits)
qed

section \<open>Deliveries in a row\<close>

definition attach_uid :: "attach \<Rightarrow> string \<Rightarrow> 32 word io" where
  "attach_uid p c = bindE (Attach (p\<lparr>at_folder_id := c\<rparr>)) (\<lambda>item. ret (mm_uid item))"

lemma folder_next_attach:
  "folder_next (attach_db p item d) c = map_option (\<lambda>n. if at_folder_id p = c then n + 1 else n) (folder_next d c)"
proof -
  have "folder_next (attach_db p item d) c = folder_next (bump_folder (at_folder_id p) d) c"
    by (simp add: folder_next_def attach_db_def)
  then show ?thesis by (simp add: folder_next_bump)
qed

lemma attach_run:
  "Attach p w = (Inr item, w') \<Longrightarrow> attached p w item \<and> w_db w' = attach_db p item (w_db w)"
  "Attach p w = (Inl e, w') \<Longrightarrow> w_db w' = w_db w \<and> w_notifier w' = w_notifier w"
  using wpD [OF attach_spec [of p w]] by force+

lemma attached_uid:
  assumes "attached p w item"
  shows "\<exists>n. folder_next (w_db w) (at_folder_id p) = Some n \<and> mm_uid item = word_of_int n"
proof -
  from assms obtain f fs where f: "filter (\<lambda>f. fo_id f = at_folder_id p) (db_folders (w_db w)) = f # fs"
      "mm_uid item = word_of_int (fo_uid_next f)"
    by (auto simp: attached_def new_mm_def)
  with find_filter [OF f(1)] show ?thesis by (simp add: folder_next_def)
qed

text \<open>A delivery obeys the contract of the allocator it uses, because it is a transaction.\<close>

interpretation auid: uid_allocator attach_uid folder_next
proof (unfold_locales, goal_cases)
  case (1 p c w e w')
  then show ?case
    by (auto simp: attach_uid_def bindE_def ret_def split: prod.splits sum.splits dest: attach_run(2))
next
  case (2 p c w u w')
  then obtain item where "Attach (p\<lparr>at_folder_id := c\<rparr>) w = (Inr item, w')" "u = mm_uid item"
    by (auto simp: attach_uid_def ret_def elim!: bindE_ok)
  with attach_run(1) [OF this(1)] attached_uid show ?case
    by (fastforce simp: folder_next_attach)
next
  case (3 p c w r w' c')
  then show ?case
    by (auto simp: attach_uid_def bindE_def ret_def folder_next_attach option.map_ident split: prod.splits sum.splits
        dest: attach_run)
qed

lemma mapE_attach_uid:
  "(\<forall>p \<in> set ps. at_folder_id p = c) \<Longrightarrow> mapE ps Attach w = (Inr items, w') \<Longrightarrow>
    mapE ps (\<lambda>p. attach_uid p c) w = (Inr (map mm_uid items), w')"
proof (induction ps arbitrary: w items)
  case (Cons p ps)
  then obtain i w1 rest where s: "Attach p w = (Inr i, w1)" "mapE ps Attach w1 = (Inr rest, w')" "items = i # rest"
    by (auto simp: ret_def elim!: bindE_ok)
  have "p\<lparr>at_folder_id := c\<rparr> = p" using Cons.prems(1) by (cases p) auto
  then have "attach_uid p c w = (Inr (mm_uid i), w1)"
    using s(1) by (simp add: attach_uid_def bindE_def ret_def)
  with Cons.IH [OF _ s(2)] Cons.prems(1) s(3) show ?case
    by (simp add: bindE_def ret_def)
qed (simp add: ret_def)

end
