(* ===== verification/Cleanup_Rows.thy ===== *)
theory Cleanup_Rows
  imports Cleanup Mailstore_Inv Samples
begin

text \<open>
  What a cleanup keeps of the tables it started from: the rows a reader may still ask for, the jobs yet to be sent, and the
  mailboxes and folders that are not of a mailbox deleted 30 days ago.  Everything is said relative to the tables at the start.
\<close>

section \<open>Rules for one time\<close>

text \<open>The clock stands still during a cleanup, so an invariant may name the time.\<close>

abbreviation at_time :: "(db \<Rightarrow> bool) \<Rightarrow> time \<Rightarrow> world \<Rightarrow> bool" where
  "at_time P c w \<equiv> P (w_db w) \<and> w_clock w = c"

lemma at_now: "preserves (at_time P c) (f c) \<Longrightarrow> preserves (at_time P c) (bindE now f)"
  by (auto simp: preserves_def wp_simps)

lemma at_select:
  assumes "\<And>d. P d \<Longrightarrow> set (filter p (fst t d)) \<subseteq> S" and "\<And>xs. set xs \<subseteq> S \<Longrightarrow> preserves (at_time P c) (f xs)"
  shows "preserves (at_time P c) (bindE (selectAll t p) f)"
  using assms unfolding preserves_def by (simp add: wp_bindE wp_selectAll)

lemma at_for: "(\<And>x. x \<in> set xs \<Longrightarrow> preserves I (f x)) \<Longrightarrow> preserves I (forE xs f)"
  by (induction xs) (auto intro: preserves_ret preserves_bindE)

lemma at_fold: "(\<And>s x. x \<in> set xs \<Longrightarrow> preserves I (f s x)) \<Longrightarrow> preserves I (foldE f s xs)"
  by (induction xs arbitrary: s) (auto intro!: preserves_ret preserves_bindE)

lemma at_in_tx:
  assumes "preserves (at_time P c) m"
  shows "preserves (at_time P c) (in_tx m)"
proof -
  have m: "wp m (\<lambda>_. at_time P c) (pop w)" if "at_time P c w" for w
    using assms that by (simp add: preserves_def)
  show ?thesis by (auto simp: preserves_def wp_in_tx intro!: wp_mono [OF m] split: sum.splits)
qed

lemma at_update: "(\<And>d. P d \<Longrightarrow> P (snd t (update_where p f) d)) \<Longrightarrow> preserves (at_time P c) (updateWhere t p f)"
  by (simp add: preserves_def wp_simps)

lemma at_update_one: "(\<And>d. P d \<Longrightarrow> P (snd t (update_where p f) d)) \<Longrightarrow> preserves (at_time P c) (updateOne t p f)"
  by (auto simp: preserves_def wp_simps split: list.split)

lemma at_delete: "(\<And>d. P d \<Longrightarrow> P (snd t (delete_where p) d)) \<Longrightarrow> preserves (at_time P c) (deleteWhere t p)"
  by (simp add: preserves_def wp_simps)

lemma at_delete_one: "(\<And>d. P d \<Longrightarrow> P (snd t (delete_where p) d)) \<Longrightarrow> preserves (at_time P c) (deleteOne t p)"
  by (simp add: preserves_def wp_simps)

lemma at_others:
  "preserves (at_time P c) (selectAll t p)" "preserves (at_time P c) (publish ch)" "preserves (at_time P c) (deleteBlob k)"
  by (simp_all add: preserves_def wp_simps) (simp add: wp_def deleteBlob_eq)

lemmas at_intros = preserves_ret preserves_fail preserves_tryE preserves_if at_others at_in_tx

section \<open>What must stay\<close>

text \<open>A row that a reader, or the restore of deleted mail, may still ask for; a job that may still send its message.\<close>

definition needed_row :: "time \<Rightarrow> mailbox_message \<Rightarrow> bool" where
  "needed_row R r \<longleftrightarrow> (case mm_deleted_at r of None \<Rightarrow> True | Some u \<Rightarrow> R \<le> u)"

definition needed_job :: "outbound_job \<Rightarrow> bool" where
  "needed_job j \<longleftrightarrow> oj_status j \<in> {''queued'', ''retry'', ''processing''}"

text \<open>The mailboxes deleted for 30 days, the live rows that have been in a Trash folder that long, the leases that ran out.\<close>

definition expired_mailboxes :: "time \<Rightarrow> db \<Rightarrow> string set" where
  "expired_mailboxes c d = mb_id ` {m \<in> set (db_mailboxes d). mb_status m = ''deleted'' \<and> past (mb_deleted_at m) (c - days30)}"

definition expired_trash :: "time \<Rightarrow> db \<Rightarrow> mailbox_message \<Rightarrow> bool" where
  "expired_trash c d r \<longleftrightarrow> mm_deleted_at r = None \<and> mm_updated_at r < c - days30
     \<and> (\<exists>f \<in> set (db_folders d). fo_name f = ''Trash'' \<and> fo_id f = mm_folder_id r)"

definition trashed :: "time \<Rightarrow> mailbox_message \<Rightarrow> mailbox_message" where
  "trashed c r = r\<lparr>mm_deleted_at := Some c, mm_updated_at := c\<rparr>"

definition stale_lease :: "time \<Rightarrow> outbound_job \<Rightarrow> bool" where
  "stale_lease c j \<longleftrightarrow> oj_status j = ''processing'' \<and> past (oj_locked_until j) c"

definition released :: "time \<Rightarrow> outbound_job \<Rightarrow> outbound_job" where
  "released c j = (unlock_job j)\<lparr>oj_updated_at := c\<rparr>"

text \<open>The same mailbox, up to its used bytes.\<close>

definition same_mailbox :: "mailbox \<Rightarrow> mailbox \<Rightarrow> bool" where
  "same_mailbox x m \<longleftrightarrow> x = m\<lparr>mb_used_bytes := mb_used_bytes x\<rparr>"

lemma same_mailbox_refl: "same_mailbox m m"
  by (simp add: same_mailbox_def)

lemma same_mailbox_id: "same_mailbox x m \<Longrightarrow> mb_id x = mb_id m"
  unfolding same_mailbox_def by (metis mailbox.select_convs(1) mailbox.surjective mailbox.update_convs)

lemma same_mailbox_charge: "same_mailbox x m \<Longrightarrow> same_mailbox (add_used n x) m"
  by (cases x; cases m) (simp add: same_mailbox_def add_used_def)

text \<open>Nothing is made up: every row, job, mailbox and folder is one of the start, but for the change a cleanup makes to it.\<close>

definition nothing_new :: "time \<Rightarrow> db \<Rightarrow> db \<Rightarrow> bool" where
  "nothing_new c d0 d \<longleftrightarrow>
     (\<forall>x \<in> set (db_mms d). \<exists>r \<in> set (db_mms d0). x = r \<or> expired_trash c d0 r \<and> x = trashed c r)
   \<and> (\<forall>x \<in> set (db_jobs d). \<exists>j \<in> set (db_jobs d0). x = j \<or> stale_lease c j \<and> x = released c j)
   \<and> (\<forall>x \<in> set (db_mailboxes d). \<exists>m \<in> set (db_mailboxes d0). same_mailbox x m)
   \<and> set (db_folders d) \<subseteq> set (db_folders d0)"

text \<open>
  Nothing needed is lost.  A needed row of a mailbox that is not expired is as it was, or, if it was in expired trash, deleted
  now; an unsent job is as it was, or, if its lease had run out, released for a retry; a mailbox that is not expired differs in
  its used bytes only and keeps its folders.
\<close>

definition nothing_lost :: "time \<Rightarrow> db \<Rightarrow> db \<Rightarrow> bool" where
  "nothing_lost c d0 d \<longleftrightarrow>
     (\<forall>r \<in> set (db_mms d0). needed_row (c - days30) r \<and> mm_mailbox_id r \<notin> expired_mailboxes c d0 \<longrightarrow>
        r \<in> set (db_mms d) \<or> expired_trash c d0 r \<and> trashed c r \<in> set (db_mms d))
   \<and> (\<forall>j \<in> set (db_jobs d0). needed_job j \<longrightarrow> j \<in> set (db_jobs d) \<or> stale_lease c j \<and> released c j \<in> set (db_jobs d))
   \<and> (\<forall>m \<in> set (db_mailboxes d0). mb_id m \<notin> expired_mailboxes c d0 \<longrightarrow> (\<exists>x \<in> set (db_mailboxes d). same_mailbox x m))
   \<and> (\<forall>f \<in> set (db_folders d0). fo_mailbox_id f \<notin> expired_mailboxes c d0 \<longrightarrow> f \<in> set (db_folders d))"

definition rows_kept :: "time \<Rightarrow> db \<Rightarrow> db \<Rightarrow> bool" where
  "rows_kept c d0 d \<longleftrightarrow> nothing_new c d0 d \<and> nothing_lost c d0 d"

lemma rows_kept_refl: "rows_kept c d d"
  by (auto simp: rows_kept_def nothing_new_def nothing_lost_def intro: same_mailbox_refl)

lemma rows_kept_frame:
  "rows_kept c d0 d \<Longrightarrow> db_mms d' = db_mms d \<Longrightarrow> db_jobs d' = db_jobs d \<Longrightarrow> db_mailboxes d' = db_mailboxes d
    \<Longrightarrow> db_folders d' = db_folders d \<Longrightarrow> rows_kept c d0 d'"
  by (simp add: rows_kept_def nothing_new_def nothing_lost_def)

section \<open>The statements\<close>

text \<open>Deleting rows: what is not needed, or belongs to an expired mailbox, may go.\<close>

lemma rows_kept_delete_mms:
  assumes "rows_kept c d0 d" and "\<And>r. p r \<Longrightarrow> \<not> needed_row (c - days30) r \<or> mm_mailbox_id r \<in> expired_mailboxes c d0"
  shows "rows_kept c d0 (d\<lparr>db_mms := delete_where p (db_mms d)\<rparr>)"
proof -
  have "nothing_new c d0 (d\<lparr>db_mms := delete_where p (db_mms d)\<rparr>)"
    using assms(1) by (auto simp: rows_kept_def nothing_new_def delete_where_def)
  moreover have "needed_row (c - days30) (trashed c r)" "mm_mailbox_id (trashed c r) = mm_mailbox_id r" for r
    by (simp_all add: trashed_def needed_row_def)
  then have "nothing_lost c d0 (d\<lparr>db_mms := delete_where p (db_mms d)\<rparr>)"
    using assms unfolding rows_kept_def nothing_lost_def by (simp add: delete_where_def) metis
  ultimately show ?thesis by (simp add: rows_kept_def)
qed

text \<open>Deleting live rows in the trash, by their ids, which are unique.\<close>

lemma rows_kept_trash:
  assumes k: "rows_kept c d0 d" and ids: "distinct (map mm_id (db_mms d0))"
    and p: "\<And>x. p x \<Longrightarrow> mm_deleted_at x = None \<and> mm_id x \<in> mm_id ` {r \<in> set (db_mms d0). expired_trash c d0 r}"
  shows "rows_kept c d0 (d\<lparr>db_mms := update_where p (\<lambda>r. r\<lparr>mm_deleted_at := Some c, mm_updated_at := c\<rparr>) (db_mms d)\<rparr>)"
proof -
  let ?d = "d\<lparr>db_mms := update_where p (\<lambda>r. r\<lparr>mm_deleted_at := Some c, mm_updated_at := c\<rparr>) (db_mms d)\<rparr>"
  have inj: "inj_on mm_id (set (db_mms d0))" using ids by (simp add: distinct_map)
  have live: "x \<in> set (db_mms d0) \<and> expired_trash c d0 x" if x: "x \<in> set (db_mms d)" "p x" for x
  proof -
    from x(1) k obtain r where r: "r \<in> set (db_mms d0)" "x = r \<or> x = trashed c r"
      unfolding rows_kept_def nothing_new_def by blast
    with p [OF x(2)] have "x = r" by (auto simp: trashed_def)
    moreover from p [OF x(2)] obtain g where "g \<in> set (db_mms d0)" "expired_trash c d0 g" "mm_id x = mm_id g" by auto
    ultimately show ?thesis using inj r(1) by (auto dest: inj_onD)
  qed
  have set: "set (db_mms ?d) = (\<lambda>x. if p x then trashed c x else x) ` set (db_mms d)"
    by (auto simp: update_where_def trashed_def)
  have "\<exists>r \<in> set (db_mms d0). y = r \<or> expired_trash c d0 r \<and> y = trashed c r" if "y \<in> set (db_mms ?d)" for y
    using that k live unfolding set rows_kept_def nothing_new_def by fastforce
  then have "nothing_new c d0 ?d" using k by (simp add: rows_kept_def nothing_new_def)
  moreover have "r \<in> set (db_mms ?d) \<or> expired_trash c d0 r \<and> trashed c r \<in> set (db_mms ?d)"
    if r: "r \<in> set (db_mms d0)" "needed_row (c - days30) r \<and> mm_mailbox_id r \<notin> expired_mailboxes c d0" for r
  proof -
    have n: "\<not> p (trashed c r)" using p [of "trashed c r"] by (auto simp: trashed_def)
    from r k consider "r \<in> set (db_mms d)" | "expired_trash c d0 r" "trashed c r \<in> set (db_mms d)"
      unfolding rows_kept_def nothing_lost_def by blast
    then show ?thesis
    proof cases
      case 1
      with live [of r] show ?thesis unfolding set by (cases "p r") force+
    next
      case 2
      with n show ?thesis unfolding set by force
    qed
  qed
  then have "nothing_lost c d0 ?d" using k by (simp add: rows_kept_def nothing_lost_def)
  ultimately show ?thesis by (simp add: rows_kept_def)
qed

lemma rows_kept_jobs:
  assumes "rows_kept c d0 d"
  shows "rows_kept c d0 (d\<lparr>db_jobs := update_where (\<lambda>j. oj_status j = ''processing'' \<and> past (oj_locked_until j) c)
      (\<lambda>j. (unlock_job j)\<lparr>oj_updated_at := c\<rparr>) (db_jobs d)\<rparr>)"
proof -
  let ?d = "d\<lparr>db_jobs := update_where (\<lambda>j. oj_status j = ''processing'' \<and> past (oj_locked_until j) c)
      (\<lambda>j. (unlock_job j)\<lparr>oj_updated_at := c\<rparr>) (db_jobs d)\<rparr>"
  have set: "set (db_jobs ?d) = (\<lambda>x. if stale_lease c x then released c x else x) ` set (db_jobs d)"
    by (auto simp: update_where_def stale_lease_def released_def)
  have r: "\<not> stale_lease c (released c j)" for j by (simp add: stale_lease_def released_def unlock_job_def)
  have "\<exists>j \<in> set (db_jobs d0). y = j \<or> stale_lease c j \<and> y = released c j" if "y \<in> set (db_jobs ?d)" for y
    using that assms r unfolding set rows_kept_def nothing_new_def by fastforce
  then have "nothing_new c d0 ?d" using assms by (simp add: rows_kept_def nothing_new_def)
  moreover have "j \<in> set (db_jobs ?d) \<or> stale_lease c j \<and> released c j \<in> set (db_jobs ?d)" if j: "j \<in> set (db_jobs d0)" "needed_job j" for j
  proof -
    from j assms consider "j \<in> set (db_jobs d)" | "stale_lease c j" "released c j \<in> set (db_jobs d)"
      unfolding rows_kept_def nothing_lost_def by blast
    then show ?thesis using r [of j] unfolding set by cases (cases "stale_lease c j"; force)+
  qed
  then have "nothing_lost c d0 ?d" using assms by (simp add: rows_kept_def nothing_lost_def)
  ultimately show ?thesis by (simp add: rows_kept_def)
qed

lemma rows_kept_delete_jobs:
  assumes "rows_kept c d0 d" and "\<And>j. p j \<Longrightarrow> \<not> needed_job j"
  shows "rows_kept c d0 (d\<lparr>db_jobs := delete_where p (db_jobs d)\<rparr>)"
proof -
  have "nothing_new c d0 (d\<lparr>db_jobs := delete_where p (db_jobs d)\<rparr>)"
    using assms(1) by (auto simp: rows_kept_def nothing_new_def delete_where_def)
  moreover have "needed_job (released c j)" for j by (simp add: released_def needed_job_def unlock_job_def)
  then have "nothing_lost c d0 (d\<lparr>db_jobs := delete_where p (db_jobs d)\<rparr>)"
    using assms unfolding rows_kept_def nothing_lost_def by (simp add: delete_where_def) metis
  ultimately show ?thesis by (simp add: rows_kept_def)
qed

lemma rows_kept_charge:
  assumes "rows_kept c d0 d"
  shows "rows_kept c d0 (d\<lparr>db_mailboxes := update_where p (add_used n) (db_mailboxes d)\<rparr>)"
proof -
  let ?d = "d\<lparr>db_mailboxes := update_where p (add_used n) (db_mailboxes d)\<rparr>"
  let ?u = "\<lambda>x. if p x then add_used n x else x"
  have set: "set (db_mailboxes ?d) = ?u ` set (db_mailboxes d)" by (auto simp: update_where_def)
  have u: "same_mailbox (?u x) m" if "same_mailbox x m" for x m
    using that by (simp add: same_mailbox_charge)
  have "\<exists>m \<in> set (db_mailboxes d0). same_mailbox y m" if "y \<in> set (db_mailboxes ?d)" for y
  proof -
    from that obtain x where x: "x \<in> set (db_mailboxes d)" "y = ?u x" unfolding set by blast
    from x(1) assms obtain m where "m \<in> set (db_mailboxes d0)" "same_mailbox x m"
      unfolding rows_kept_def nothing_new_def by blast
    with u x(2) show ?thesis by blast
  qed
  then have "nothing_new c d0 ?d" using assms by (simp add: rows_kept_def nothing_new_def)
  moreover have "\<exists>y \<in> set (db_mailboxes ?d). same_mailbox y m"
    if "m \<in> set (db_mailboxes d0)" "mb_id m \<notin> expired_mailboxes c d0" for m
  proof -
    from that assms obtain x where "x \<in> set (db_mailboxes d)" "same_mailbox x m"
      unfolding rows_kept_def nothing_lost_def by blast
    with u show ?thesis unfolding set by blast
  qed
  then have "nothing_lost c d0 ?d" using assms by (simp add: rows_kept_def nothing_lost_def)
  ultimately show ?thesis by (simp add: rows_kept_def)
qed

lemma rows_kept_delete_mailbox:
  assumes "rows_kept c d0 d" and "i \<in> expired_mailboxes c d0"
  shows "rows_kept c d0 (d\<lparr>db_mailboxes := delete_where (\<lambda>m. mb_id m = i) (db_mailboxes d)\<rparr>)"
    and "rows_kept c d0 (d\<lparr>db_folders := delete_where (\<lambda>f. fo_mailbox_id f = i) (db_folders d)\<rparr>)"
proof -
  let ?d = "d\<lparr>db_mailboxes := delete_where (\<lambda>m. mb_id m = i) (db_mailboxes d)\<rparr>"
  have "\<exists>y \<in> set (db_mailboxes ?d). same_mailbox y m"
    if m: "m \<in> set (db_mailboxes d0)" "mb_id m \<notin> expired_mailboxes c d0" for m
  proof -
    from m assms(1) obtain y where y: "y \<in> set (db_mailboxes d)" "same_mailbox y m"
      unfolding rows_kept_def nothing_lost_def by blast
    have "mb_id y = mb_id m" using y(2) by (rule same_mailbox_id)
    with m(2) assms(2) have "mb_id y \<noteq> i" by metis
    with y show ?thesis by (auto simp: delete_where_def)
  qed
  then show "rows_kept c d0 ?d" using assms(1) by (simp add: rows_kept_def nothing_new_def nothing_lost_def delete_where_def)
  show "rows_kept c d0 (d\<lparr>db_folders := delete_where (\<lambda>f. fo_mailbox_id f = i) (db_folders d)\<rparr>)"
    using assms unfolding rows_kept_def nothing_new_def nothing_lost_def by (auto simp: delete_where_def)
qed

section \<open>The parts\<close>

abbreviation kept_at :: "time \<Rightarrow> db \<Rightarrow> world \<Rightarrow> bool" where
  "kept_at c d0 \<equiv> at_time (rows_kept c d0) c"

lemma kept_at_read: "preserves (kept_at c d0) (bindE (selectAll t p) f)" if "\<And>xs. preserves (kept_at c d0) (f xs)"
  using that by (intro at_select [where S = UNIV]) simp_all

lemma kept_at_frames:
  "preserves (kept_at c d0) (deleteWhere T_links p1)" "preserves (kept_at c d0) (deleteWhere T_labels p2)"
  "preserves (kept_at c d0) (deleteWhere T_events p3)" "preserves (kept_at c d0) (deleteWhere T_audit p4)"
  "preserves (kept_at c d0) (deleteWhere T_bounces p5)" "preserves (kept_at c d0) (deleteWhere T_attempts p6)"
  "preserves (kept_at c d0) (deleteWhere T_lockouts p7)" "preserves (kept_at c d0) (deleteOne T_exports p8)"
  "preserves (kept_at c d0) (updateWhere T_events p9 f9)" "preserves (kept_at c d0) (updateWhere T_exports p10 f10)"
  "preserves (kept_at c d0) (updateWhere T_imports p11 f11)"
  by (rule at_delete at_delete_one at_update, rule rows_kept_frame, assumption, simp_all add: table_defs)+

lemma kept_at_sizes: "preserves (kept_at c d0) (messageSizes ids)"
  unfolding messageSizes_def by (intro preserves_intros at_others)

text \<open>The trash.\<close>

lemma in_chunk: "0 < n \<Longrightarrow> ch \<in> set (chunks n xs) \<Longrightarrow> x \<in> set ch \<Longrightarrow> x \<in> set xs"
  by (metis UN_I concat_chunks set_concat)

lemma soft_delete_rows:
  assumes ids: "distinct (map mm_id (db_mms d0))" and g: "set gone \<subseteq> {r \<in> set (db_mms d0). expired_trash c d0 r}"
  shows "preserves (kept_at c d0) (SoftDeleteMany gone)"
proof -
  have chunk: "preserves (kept_at c d0) (softDeleteChunk c freed ch)" if ch: "set ch \<subseteq> mm_id ` set gone" for freed ch
  proof -
    have up: "preserves (kept_at c d0) (updateWhere T_mms (\<lambda>r. mm_id r \<in> set (map mm_id live) \<and> mm_deleted_at r = None)
       (\<lambda>r. r\<lparr>mm_deleted_at := Some c, mm_updated_at := c\<rparr>))" if "set live \<subseteq> {r. mm_id r \<in> set ch}" for live
    proof (rule at_update)
      fix d
      assume k: "rows_kept c d0 d"
      have "mm_id ` set live \<subseteq> mm_id ` {r \<in> set (db_mms d0). expired_trash c d0 r}" using that ch g by fastforce
      then show "rows_kept c d0 (snd T_mms (update_where (\<lambda>r. mm_id r \<in> set (map mm_id live) \<and> mm_deleted_at r = None)
          (\<lambda>r. r\<lparr>mm_deleted_at := Some c, mm_updated_at := c\<rparr>)) d)"
        unfolding T_mms_def snd_conv by (intro rows_kept_trash [OF k ids]) auto
    qed
    show ?thesis
      unfolding softDeleteChunk_def
      by (rule at_select [where S = "{r. mm_id r \<in> set ch}"]) (auto intro!: preserves_if preserves_ret preserves_bindE up [unfolded set_map] kept_at_sizes)
  qed
  have batch: "preserves (kept_at c d0) (softDeleteBatch i items)" if "set items \<subseteq> set gone" for i items
  proof -
    have "preserves (kept_at c d0) (softDeleteBatchInTx i (map mm_id items))"
      unfolding softDeleteBatchInTx_def
    proof (rule at_now, rule preserves_bindE, rule at_fold)
      fix freed ch
      assume "ch \<in> set (chunks batchSize (map mm_id items))"
      then have "set ch \<subseteq> mm_id ` set gone" using in_chunk [of batchSize ch "map mm_id items"] that by (auto simp: batchSize_def)
      then show "preserves (kept_at c d0) (softDeleteChunk c freed ch)" by (rule chunk)
    next
      fix freed :: int
      show "preserves (kept_at c d0) (if freed = 0 then ret () else bindE (updateOne T_mailboxes (\<lambda>m. mb_id m = i) (add_used (- freed))) (\<lambda>_. ret ()))"
        by (intro preserves_if preserves_ret preserves_bindE at_update_one) (simp add: T_mailboxes_def rows_kept_charge)
    qed
    then show ?thesis
      unfolding softDeleteBatch_def by (intro preserves_bindE at_in_tx preserves_forE at_others)
  qed
  show ?thesis
    unfolding SoftDeleteMany_def Let_def by (rule preserves_forE) (rule batch, auto)
qed

lemma trash_rows:
  assumes "distinct (map mm_id (db_mms d0))"
  shows "preserves (kept_at c d0) cleanupTrash"
  unfolding cleanupTrash_def Let_def
proof (rule at_now, rule at_select [where S = "{f \<in> set (db_folders d0). fo_name f = ''Trash''}"])
  show "rows_kept c d0 d \<Longrightarrow> set (filter (\<lambda>f. fo_name f = ''Trash'') (fst T_folders d)) \<subseteq> {f \<in> set (db_folders d0). fo_name f = ''Trash''}" for d
    by (auto simp: T_folders_def rows_kept_def nothing_new_def)
next
  fix folders
  assume fs: "set folders \<subseteq> {f \<in> set (db_folders d0). fo_name f = ''Trash''}"
  show "preserves (kept_at c d0) (forE folders (\<lambda>item.
       bindE (selectAll T_mms (\<lambda>r. mm_folder_id r = fo_id item \<and> mm_deleted_at r = None \<and> mm_updated_at r < c - days30)) SoftDeleteMany))"
  proof (rule at_for, rule at_select [where S = "{r \<in> set (db_mms d0). expired_trash c d0 r}"])
    fix item d
    assume item: "item \<in> set folders" and k: "rows_kept c d0 d"
    show "set (filter (\<lambda>r. mm_folder_id r = fo_id item \<and> mm_deleted_at r = None \<and> mm_updated_at r < c - days30) (fst T_mms d))
        \<subseteq> {r \<in> set (db_mms d0). expired_trash c d0 r}"
    proof
      fix x
      assume "x \<in> set (filter (\<lambda>r. mm_folder_id r = fo_id item \<and> mm_deleted_at r = None \<and> mm_updated_at r < c - days30) (fst T_mms d))"
      then have x: "x \<in> set (db_mms d)" "mm_folder_id x = fo_id item" "mm_deleted_at x = None" "mm_updated_at x < c - days30"
        by (simp_all add: T_mms_def)
      from x(1) k obtain r where "r \<in> set (db_mms d0)" "x = r \<or> x = trashed c r" unfolding rows_kept_def nothing_new_def by blast
      with x(3) have "x \<in> set (db_mms d0)" by (auto simp: trashed_def)
      with x item fs show "x \<in> {r \<in> set (db_mms d0). expired_trash c d0 r}" by (auto simp: expired_trash_def)
    qed
  next
    fix item gone
    assume "set gone \<subseteq> {r \<in> set (db_mms d0). expired_trash c d0 r}"
    then show "preserves (kept_at c d0) (SoftDeleteMany gone)" by (rule soft_delete_rows [OF assms])
  qed
qed

text \<open>The mailboxes.\<close>

lemma delete_links_rows: "preserves (kept_at c d0) (DeleteLabelLinks ids)"
  unfolding DeleteLabelLinks_def by (intro preserves_intros kept_at_frames)

lemma purge_rows:
  assumes "i \<in> expired_mailboxes c d0"
  shows "preserves (kept_at c d0) (PurgeMailbox i)"
proof -
  have "preserves (kept_at c d0) (deleteWhere T_mms (\<lambda>r. mm_mailbox_id r = i))"
      "preserves (kept_at c d0) (deleteWhere T_folders (\<lambda>f. fo_mailbox_id f = i))"
      "preserves (kept_at c d0) (deleteOne T_mailboxes (\<lambda>m. mb_id m = i))"
    using assms by (auto intro!: at_delete at_delete_one rows_kept_delete_mms rows_kept_delete_mailbox simp: table_defs)
  then show ?thesis
    unfolding PurgeMailbox_def
    by (intro kept_at_read preserves_bindE preserves_tryE delete_links_rows kept_at_frames)
       (auto intro!: preserves_if preserves_ret preserves_fail split: sum.split)
qed

lemma mailboxes_rows: "preserves (kept_at c d0) cleanupDeletedMailboxes"
  unfolding cleanupDeletedMailboxes_def Let_def
proof (rule at_now, rule at_select [where S = "{m. mb_id m \<in> expired_mailboxes c d0}"])
  fix d
  assume k: "rows_kept c d0 d"
  have "mb_id x \<in> expired_mailboxes c d0" if x: "x \<in> set (db_mailboxes d)" "mb_status x = ''deleted''" "past (mb_deleted_at x) (c - days30)" for x
  proof -
    from x(1) k obtain m where m: "m \<in> set (db_mailboxes d0)" "same_mailbox x m" unfolding rows_kept_def nothing_new_def by blast
    from m(2) have "mb_id x = mb_id m" "mb_status x = mb_status m" "mb_deleted_at x = mb_deleted_at m"
      unfolding same_mailbox_def by (metis mailbox.surjective mailbox.update_convs mailbox.select_convs)+
    with m(1) x(2,3) show ?thesis by (auto simp: expired_mailboxes_def)
  qed
  then show "set (filter (\<lambda>m. mb_status m = ''deleted'' \<and> (case mb_deleted_at m of None \<Rightarrow> False | Some u \<Rightarrow> u \<le> c - days30)) (fst T_mailboxes d))
      \<subseteq> {m. mb_id m \<in> expired_mailboxes c d0}"
    unfolding T_mailboxes_def past_def fst_conv set_filter by blast
next
  fix mailboxes
  assume "set mailboxes \<subseteq> {m. mb_id m \<in> expired_mailboxes c d0}"
  then show "preserves (kept_at c d0) (forE mailboxes (\<lambda>mbox. PurgeMailbox (mb_id mbox)))"
    by (intro at_for purge_rows) auto
qed

text \<open>The rest.\<close>

lemma delete_message_rows:
  assumes "R = c - days30"
  shows "preserves (kept_at c d0) (deleteMessageRows msg R)"
proof -
  have d: "preserves (kept_at c d0) (deleteWhere T_mms (\<lambda>r. mm_id r \<in> S \<and> deleted_before R r))" for S
    using assms by (intro at_delete)
      (auto simp: T_mms_def deleted_before_def needed_row_def intro!: rows_kept_delete_mms split: option.splits)
  have m: "preserves (kept_at c d0) (dbcall (\<lambda>d. let p = (\<lambda>m. me_id m = i \<and> unreferencedMessage R d m) in
       (Inr (length (filter p (db_messages d))), d\<lparr>db_messages := delete_where p (db_messages d)\<rparr>)))" for i
    by (auto simp: preserves_def wp_dbcall Let_def intro: rows_kept_frame)
  have "preserves (kept_at c d0) (deleteMessageInTx i R)" for i
    unfolding deleteMessageInTx_def Let_def [of "map mm_id _"]
    by (intro kept_at_read preserves_bindE preserves_if preserves_ret delete_links_rows d m)
  then show ?thesis
    unfolding deleteMessageRows_def
    by (intro preserves_bindE at_intros) (auto intro!: preserves_if preserves_ret preserves_fail at_others split: sum.split)
qed

lemma orphan_loop_rows: "R = c - days30 \<Longrightarrow> preserves (kept_at c d0) (orphan_loop n cutoff R lastID)"
proof (induction n arbitrary: lastID)
  case 0
  then show ?case by (simp add: preserves_ret)
next
  case (Suc n)
  have "preserves (kept_at c d0) (orphan_page cutoff R lastID)"
    by (simp add: orphan_page_def preserves_def wp_dbcall)
  then show ?case
    unfolding orphan_loop.simps
    by (intro preserves_bindE preserves_if preserves_ret preserves_forE delete_message_rows Suc.prems Suc.IH)
qed

lemma orphan_rows: "preserves (kept_at c d0) cleanupOrphanedMessages"
  unfolding preserves_def
proof (intro allI impI)
  fix w :: world
  assume k: "kept_at c d0 w"
  with orphan_loop_rows [of "w_clock w - days30" c d0 "orphan_fuel (w_db w)" "w_clock w - day" "[]"]
  show "wp cleanupOrphanedMessages (\<lambda>_. kept_at c d0) w"
    by (simp add: preserves_def wp_def cleanupOrphanedMessages_def)
qed

lemma recover_rows: "preserves (kept_at c d0) recoverStaleLeases"
  unfolding recoverStaleLeases_def
proof (rule at_now, rule preserves_bindE)
  show "preserves (kept_at c d0) (updateWhere T_jobs (\<lambda>j. oj_status j = ''processing'' \<and> past (oj_locked_until j) c)
       (\<lambda>j. (unlock_job j)\<lparr>oj_updated_at := c\<rparr>))"
    by (rule at_update) (simp add: T_jobs_def rows_kept_jobs)
qed (intro preserves_bindE preserves_ret kept_at_frames)

lemma prune_rows: "preserves (kept_at c d0) pruneHistory"
proof -
  have "preserves (kept_at c d0) (deleteWhere T_jobs (\<lambda>j. oj_status j \<in> {''sent'', ''failed''} \<and> oj_updated_at j < t))" for t
    by (rule at_delete) (auto simp: T_jobs_def needed_job_def intro!: rows_kept_delete_jobs)
  then show ?thesis
    unfolding pruneHistory_def Let_def join_all_def foldE.simps no_count_def
    by (intro at_now preserves_bindE preserves_tryE preserves_ret kept_at_frames)
qed

lemma exports_rows: "preserves (kept_at c d0) cleanupExpiredExports"
  unfolding cleanupExpiredExports_def ignoreNotFound_def
  by (intro at_now kept_at_read preserves_forE preserves_bindE at_others preserves_tryE kept_at_frames)
     (auto intro!: preserves_if preserves_ret preserves_fail split: sum.split)

lemma cleanup_rows:
  assumes "distinct (map mm_id (db_mms d0))"
  shows "preserves (kept_at c d0) Cleanup"
  unfolding Cleanup_def join_all_def foldE.simps cleanupAuthLockouts_def updateQueueDepth_def no_count_def
  by (intro preserves_bindE preserves_tryE preserves_ret trash_rows [OF assms] mailboxes_rows exports_rows orphan_rows recover_rows
      prune_rows at_now kept_at_frames at_others)

text \<open>From the tables at the start, whatever calls fail.\<close>

lemma cleanup_keeps_rows:
  assumes "distinct (map mm_id (db_mms (w_db w)))" and "Cleanup w = (r, w')"
  shows "rows_kept (w_clock w) (w_db w) (w_db w') \<and> w_clock w' = w_clock w"
  by (rule preservesD [OF cleanup_rows [OF assms(1)] _ assms(2)]) (simp add: rows_kept_refl)

end
