(* ===== verification/Clock.thy ===== *)
theory Clock
  imports Prelude
begin

text \<open>
  Dates as the code prints them: \<^verbatim>\<open>time.Time\<close> in UTC is its nanoseconds since the first instant of year 1, and the
  layouts \<^verbatim>\<open>RFC1123Z\<close>, \<^verbatim>\<open>RFC3339\<close> and \<^verbatim>\<open>%04d/%02d/%02d\<close> are functions of it.
\<close>

text \<open>The decimal digits of a number that is not negative; \<open>padded\<close> is \<^verbatim>\<open>%0kd\<close>.\<close>

function decimal :: "int \<Rightarrow> string" where
  "decimal n = (if n < 10 then [char_of (48 + nat n)] else decimal (n div 10) @ [char_of (48 + nat (n mod 10))])"
  by pat_completeness auto
termination
  by (relation "measure nat") auto

declare decimal.simps [simp del]

definition padded :: "nat \<Rightarrow> int \<Rightarrow> string" where
  "padded k n = (let s = decimal n in replicate (k - length s) (CHR ''0'') @ s)"

record civil =
  ci_year :: int
  ci_month :: int
  ci_day :: int

definition month_lengths :: "bool \<Rightarrow> int list" where
  "month_lengths leap = [31, if leap then 29 else 28, 31, 30, 31, 30, 31, 31, 30, 31, 30, 31]"

text \<open>The month and the day of the month of a day of the year, counted from 0.\<close>

fun month_of :: "int \<Rightarrow> int list \<Rightarrow> int \<Rightarrow> int \<times> int" where
  "month_of m (l # ls) d = (if d < l \<or> ls = [] then (m, d + 1) else month_of (m + 1) ls (d - l))"
| "month_of m [] d = (m, d + 1)"

text \<open>The date of a day counted from 1 January of year 1, in the Gregorian calendar.\<close>

definition civil_of_day :: "int \<Rightarrow> civil" where
  "civil_of_day n =
     (let c400 = n div 146097; r400 = n mod 146097;
          c100 = min 3 (r400 div 36524); r100 = r400 - 36524 * c100;
          c4 = r100 div 1461; r4 = r100 mod 1461;
          c1 = min 3 (r4 div 365); yday = r4 - 365 * c1;
          leap = (c1 = 3 \<and> (c4 \<noteq> 24 \<or> c100 = 3));
          md = month_of 1 (month_lengths leap) yday
      in \<lparr>ci_year = 400 * c400 + 100 * c100 + 4 * c4 + c1 + 1, ci_month = fst md, ci_day = snd md\<rparr>)"

definition day_number :: "time \<Rightarrow> int" where
  "day_number t = t div day"

definition second_of_day :: "time \<Rightarrow> int" where
  "second_of_day t = t mod day div second"

definition clock_text :: "time \<Rightarrow> string" where
  "clock_text t = (let s = second_of_day t in padded 2 (s div 3600) @ '':'' @ padded 2 (s div 60 mod 60) @ '':'' @ padded 2 (s mod 60))"

definition date_path :: "time \<Rightarrow> string" where
  "date_path t = (let c = civil_of_day (day_number t) in
     padded 4 (ci_year c) @ ''/'' @ padded 2 (ci_month c) @ ''/'' @ padded 2 (ci_day c))"

definition format_rfc3339 :: "time \<Rightarrow> string" where
  "format_rfc3339 t = (let c = civil_of_day (day_number t) in
     padded 4 (ci_year c) @ ''-'' @ padded 2 (ci_month c) @ ''-'' @ padded 2 (ci_day c) @ ''T'' @ clock_text t @ ''Z'')"

text \<open>1 January of year 1 is a Monday.\<close>

definition weekday_names :: "string list" where
  "weekday_names = [''Mon'', ''Tue'', ''Wed'', ''Thu'', ''Fri'', ''Sat'', ''Sun'']"

definition month_names :: "string list" where
  "month_names = [''Jan'', ''Feb'', ''Mar'', ''Apr'', ''May'', ''Jun'', ''Jul'', ''Aug'', ''Sep'', ''Oct'', ''Nov'', ''Dec'']"

definition format_rfc1123z :: "time \<Rightarrow> string" where
  "format_rfc1123z t = (let d = day_number t; c = civil_of_day d in
     weekday_names ! nat (d mod 7) @ '', '' @ padded 2 (ci_day c) @ '' '' @ month_names ! nat (ci_month c - 1) @ '' ''
       @ padded 4 (ci_year c) @ '' '' @ clock_text t @ '' +0000'')"

section \<open>Facts\<close>

lemma decimal_not_Nil [simp]: "decimal n \<noteq> []"
  by (subst decimal.simps) simp

lemma decimal_digits: "0 \<le> n \<Longrightarrow> c \<in> set (decimal n) \<Longrightarrow> is_digit c"
proof (induction n rule: decimal.induct)
  case (1 n)
  have d: "is_digit (char_of (48 + nat k))" if "0 \<le> k" "k < 10" for k :: int
    using that by (simp add: is_digit_def nat_less_iff)
  show ?case
    using 1 d [of n] d [of "n mod 10"] by (subst (asm) (2) decimal.simps) (auto split: if_splits)
qed

lemma padded_digits: "0 \<le> n \<Longrightarrow> c \<in> set (padded k n) \<Longrightarrow> is_digit c"
  by (auto simp: padded_def Let_def is_digit_def code_def dest: decimal_digits)

end
