(* ===== verification/Spf.thy ===== *)
theory Spf
  imports World
begin

text \<open>
  The evaluation of SPF records, \<^verbatim>\<open>internal/spam/spf.go\<close>.  The network is the record \<open>dns\<close> of functions whose first argument
  counts the queries made before, so answers may change from one query to the next; \<open>dn_expired\<close> says after which query the
  context of 20 seconds has ended.  \<open>net.ParseIP\<close> is \<open>dn_parse_ip\<close>; an address is a 32-bit or a 128-bit number, an IPv4-mapped
  address counting as IPv4 as in Go's \<^verbatim>\<open>net\<close>.
\<close>

section \<open>Addresses\<close>

datatype ip = V4 "32 word" | V6 "128 word"

record dns =
  dn_txt :: "nat \<Rightarrow> string \<Rightarrow> (bool \<times> string) + string list"
  dn_host :: "nat \<Rightarrow> string \<Rightarrow> string list option"
  dn_mx :: "nat \<Rightarrow> string \<Rightarrow> string list option"
  dn_expired :: "nat \<Rightarrow> bool"
  dn_parse_ip :: "string \<Rightarrow> ip option"

text \<open>\<^verbatim>\<open>strconv.Atoi\<close>: an optional sign and at least one digit, in the range of an \<^verbatim>\<open>int\<close>.\<close>

definition digits_value :: "string \<Rightarrow> int" where
  "digits_value s = foldl (\<lambda>n c. 10 * n + int (code c) - 48) 0 s"

definition Atoi :: "string \<Rightarrow> int option" where
  "Atoi s =
     (let neg = has_prefix s ''-''; ds = (if neg \<or> has_prefix s ''+'' then tl s else s)
      in if ds = [] \<or> \<not> list_all is_digit ds then None
         else let n = (if neg then - digits_value ds else digits_value ds)
              in if int64_range n then Some n else None)"

definition same_prefix :: "int \<Rightarrow> ip \<Rightarrow> ip \<Rightarrow> bool" where
  "same_prefix ones a b = (case (a, b) of
       (V4 x, V4 y) \<Rightarrow> drop_bit (nat (32 - ones)) x = drop_bit (nat (32 - ones)) y
     | (V6 x, V6 y) \<Rightarrow> drop_bit (nat (128 - ones)) x = drop_bit (nat (128 - ones)) y
     | _ \<Rightarrow> False)"

definition ip_bits :: "ip \<Rightarrow> int" where
  "ip_bits a = (case a of V4 _ \<Rightarrow> 32 | V6 _ \<Rightarrow> 128)"

definition ipMechanismMatches :: "dns \<Rightarrow> ip \<Rightarrow> string \<Rightarrow> string \<Rightarrow> bool" where
  "ipMechanismMatches dns remoteIP value cidr =
     (case dn_parse_ip dns value of
        None \<Rightarrow> False
      | Some mechanismIP \<Rightarrow>
          if cidr = [] then remoteIP = mechanismIP
          else case Atoi cidr of
              None \<Rightarrow> False
            | Some ones \<Rightarrow> if ones < 0 \<or> ip_bits mechanismIP < ones then False else same_prefix ones mechanismIP remoteIP)"

section \<open>Records\<close>

datatype spf_result = SpfNone | SpfPass | SpfFail | SpfSoftFail | SpfNeutral | SpfTempError | SpfPermError

definition maxSPFDepth :: nat where "maxSPFDepth = 10"
definition maxSPFLookups :: nat where "maxSPFLookups = 10"
definition maxSPFMXHosts :: nat where "maxSPFMXHosts = 10"
definition maxSPFAddresses :: nat where "maxSPFAddresses = 10"

text \<open>The lookup budget, and the number of queries made.\<close>

record spf_state =
  sp_used :: nat
  sp_queries :: nat

definition take_lookup :: "spf_state \<Rightarrow> spf_state option" where
  "take_lookup l = (if maxSPFLookups \<le> sp_used l then None else Some (l\<lparr>sp_used := sp_used l + 1\<rparr>))"

definition asked :: "spf_state \<Rightarrow> spf_state" where
  "asked st = st\<lparr>sp_queries := sp_queries st + 1\<rparr>"

definition lookupSPF :: "dns \<Rightarrow> string \<Rightarrow> spf_state \<Rightarrow> ((spf_result \<times> string) + string) \<times> spf_state" where
  "lookupSPF dns domain st =
     ((case dn_txt dns (sp_queries st) domain of
         Inl (notFound, msg) \<Rightarrow> if notFound then Inl (SpfNone, ''no SPF record'') else Inl (SpfTempError, msg)
       | Inr records \<Rightarrow>
           (case filter (\<lambda>r. has_prefix (to_lower r) ''v=spf1'') records of
              [] \<Rightarrow> Inl (SpfNone, ''no SPF record'')
            | [r] \<Rightarrow> Inr r
            | _ \<Rightarrow> Inl (SpfPermError, ''multiple SPF records''))), asked st)"

definition mechanism :: "string \<Rightarrow> char \<times> string \<times> string \<times> string" where
  "mechanism token0 =
     (let signed = hd token0 \<in> set ''+-~?'';
          qualifier = (if signed then hd token0 else CHR ''+'');
          token1 = (if signed then tl token0 else token0)
      in case cut token1 ''/'' of (before, after, ok) \<Rightarrow>
         let token2 = (if ok then before else token1); cidr = (if ok then after else [])
         in case cut token2 '':'' of (name, arg, _) \<Rightarrow> (qualifier, to_lower name, arg, cidr))"

definition qualifierResult :: "char \<Rightarrow> spf_result" where
  "qualifierResult q = (if q = CHR ''-'' then SpfFail else if q = CHR ''~'' then SpfSoftFail
     else if q = CHR ''?'' then SpfNeutral else SpfPass)"

definition mechanismDomain :: "string \<Rightarrow> string \<Rightarrow> string" where
  "mechanismDomain arg current = (if arg = [] then current else arg)"

definition hostMatches :: "dns \<Rightarrow> ip \<Rightarrow> string \<Rightarrow> string \<Rightarrow> spf_state \<Rightarrow> bool \<times> spf_state" where
  "hostMatches dns remoteIP domain cidr st =
     ((case dn_host dns (sp_queries st) domain of
         None \<Rightarrow> False
       | Some addresses \<Rightarrow> list_ex (\<lambda>a. ipMechanismMatches dns remoteIP a cidr) (take maxSPFAddresses addresses)), asked st)"

fun mx_loop :: "dns \<Rightarrow> ip \<Rightarrow> string \<Rightarrow> string list \<Rightarrow> spf_state \<Rightarrow> bool \<times> spf_state" where
  "mx_loop dns remoteIP cidr [] st = (False, st)"
| "mx_loop dns remoteIP cidr (host # hosts) st =
     (case hostMatches dns remoteIP (trim_suffix host ''.'') cidr st of
        (True, st') \<Rightarrow> (True, st')
      | (False, st') \<Rightarrow> mx_loop dns remoteIP cidr hosts st')"

definition mxMatches :: "dns \<Rightarrow> ip \<Rightarrow> string \<Rightarrow> string \<Rightarrow> spf_state \<Rightarrow> bool \<times> spf_state" where
  "mxMatches dns remoteIP domain cidr st =
     (case dn_mx dns (sp_queries st) domain of
        None \<Rightarrow> (False, asked st)
      | Some hosts \<Rightarrow> mx_loop dns remoteIP cidr (take maxSPFMXHosts hosts) (asked st))"

section \<open>Evaluation\<close>

definition too_many :: "spf_result \<times> string" where
  "too_many = (SpfPermError, ''too many DNS lookups'')"

function evalSPF :: "dns \<Rightarrow> ip \<Rightarrow> string \<Rightarrow> nat \<Rightarrow> spf_state \<Rightarrow> (spf_result \<times> string) \<times> spf_state"
  and spf_tokens :: "dns \<Rightarrow> ip \<Rightarrow> string \<Rightarrow> nat \<Rightarrow> string list \<Rightarrow> string \<Rightarrow> spf_state \<Rightarrow> (spf_result \<times> string) \<times> spf_state" where
  "evalSPF dns remoteIP domain depth st =
     (if maxSPFDepth < depth then ((SpfPermError, ''too many SPF includes or redirects''), st)
      else if dn_expired dns (sp_queries st) then ((SpfTempError, ''context deadline exceeded''), st)
      else case lookupSPF dns domain st of
          (Inl r, st1) \<Rightarrow> (r, st1)
        | (Inr spf, st1) \<Rightarrow> spf_tokens dns remoteIP domain depth (Prelude.fields spf) [] st1)"
| "spf_tokens dns remoteIP domain depth [] redirect st =
     (if redirect \<noteq> [] then
        (case take_lookup st of None \<Rightarrow> (too_many, st)
         | Some st1 \<Rightarrow> evalSPF dns remoteIP redirect (depth + 1) st1)
      else ((SpfNeutral, ''no SPF mechanism matched''), st))"
| "spf_tokens dns remoteIP domain depth (token # tokens) redirect st =
     (if equal_fold token ''v=spf1'' then spf_tokens dns remoteIP domain depth tokens redirect st
      else if has_prefix token ''redirect='' then spf_tokens dns remoteIP domain depth tokens (drop 9 token) st
      else case mechanism token of (qualifier, name, arg, cidr) \<Rightarrow>
        if name = ''all'' then ((qualifierResult qualifier, ''all''), st)
        else if name = ''include'' then
          (case take_lookup st of None \<Rightarrow> (too_many, st)
           | Some st1 \<Rightarrow>
               (case evalSPF dns remoteIP arg (depth + 1) st1 of
                  ((included, includeReason), st2) \<Rightarrow>
                    if included = SpfPass then ((qualifierResult qualifier, ''include:'' @ arg), st2)
                    else if included = SpfTempError \<or> included = SpfPermError then ((included, includeReason), st2)
                    else spf_tokens dns remoteIP domain depth tokens redirect st2))
        else if name = ''ip4'' \<or> name = ''ip6'' then
          (if ipMechanismMatches dns remoteIP arg cidr then ((qualifierResult qualifier, name @ '':'' @ arg), st)
           else spf_tokens dns remoteIP domain depth tokens redirect st)
        else if name = ''a'' then
          (case take_lookup st of None \<Rightarrow> (too_many, st)
           | Some st1 \<Rightarrow>
               (case hostMatches dns remoteIP (mechanismDomain arg domain) cidr st1 of
                  (True, st2) \<Rightarrow> ((qualifierResult qualifier, ''a''), st2)
                | (False, st2) \<Rightarrow> spf_tokens dns remoteIP domain depth tokens redirect st2))
        else if name = ''mx'' then
          (case take_lookup st of None \<Rightarrow> (too_many, st)
           | Some st1 \<Rightarrow>
               (case mxMatches dns remoteIP (mechanismDomain arg domain) cidr st1 of
                  (True, st2) \<Rightarrow> ((qualifierResult qualifier, ''mx''), st2)
                | (False, st2) \<Rightarrow> spf_tokens dns remoteIP domain depth tokens redirect st2))
        else if name = ''exists'' \<or> name = ''ptr'' then
          (case take_lookup st of None \<Rightarrow> (too_many, st)
           | Some st1 \<Rightarrow> spf_tokens dns remoteIP domain depth tokens redirect st1)
        else spf_tokens dns remoteIP domain depth tokens redirect st)"
  by pat_completeness auto
termination
  by (relation "inv_image (less_than <*lex*> less_than) (\<lambda>x. case x of
        Inl (_, _, _, depth, _) \<Rightarrow> (if maxSPFDepth < depth then 0 else 2 * (maxSPFDepth + 2 - depth) + 1, 0)
      | Inr (_, _, _, depth, tokens, _, _) \<Rightarrow> (if maxSPFDepth < depth then 1 else 2 * (maxSPFDepth + 2 - depth), length tokens))")
     auto

declare evalSPF.simps [simp del] spf_tokens.simps [simp del]

record smtp_context =
  sm_mail_from :: string
  sm_remote_ip :: string
  sm_helo :: string
  sm_tls :: bool

text \<open>\<^verbatim>\<open>addressDomain\<close> of the sender is computed by the caller of this function in the model, see \<open>Spam\<close>.\<close>

definition spf_domain :: "string \<Rightarrow> smtp_context \<Rightarrow> string" where
  "spf_domain mailFromDomain smtp = (if mailFromDomain = [] then to_lower (trim_space (sm_helo smtp)) else mailFromDomain)"

definition checkSPF :: "dns \<Rightarrow> string \<Rightarrow> smtp_context \<Rightarrow> (spf_result \<times> string \<times> string) \<times> spf_state" where
  "checkSPF dns mailFromDomain smtp =
     (let domain = spf_domain mailFromDomain smtp; st = \<lparr>sp_used = 0, sp_queries = 0\<rparr>
      in case dn_parse_ip dns (sm_remote_ip smtp) of
           None \<Rightarrow> ((SpfNone, domain, []), st)
         | Some remoteIP \<Rightarrow>
             if domain = [] then ((SpfNone, domain, []), st)
             else case evalSPF dns remoteIP domain 0 st of ((result, reason), st') \<Rightarrow> ((result, domain, reason), st'))"

section \<open>The lookup budget\<close>

text \<open>Between two states: lookups were only taken, at most ten, and each paid for at most eleven queries, \<open>k\<close> more being free.\<close>

definition costs :: "nat \<Rightarrow> spf_state \<Rightarrow> spf_state \<Rightarrow> bool" where
  "costs k a b \<longleftrightarrow> (sp_used a \<le> maxSPFLookups \<longrightarrow> sp_used a \<le> sp_used b \<and> sp_used b \<le> maxSPFLookups
     \<and> sp_queries b + 11 * sp_used a \<le> sp_queries a + k + 11 * sp_used b)"

lemma costs_refl [simp]: "costs k a a"
  by (simp add: costs_def)

lemma costs_weaken: "costs k a b \<Longrightarrow> k \<le> k' \<Longrightarrow> costs k' a b"
  by (auto simp: costs_def)

lemma costs_taken:
  "take_lookup a = Some b \<Longrightarrow> costs k b c \<Longrightarrow> k \<le> 11 \<Longrightarrow> costs 0 a c"
  by (auto simp: costs_def take_lookup_def split: if_splits)

lemma costs_trans: "costs 0 a b \<Longrightarrow> costs 0 b c \<Longrightarrow> costs 0 a c"
  by (auto simp: costs_def)

lemma costs_asked: "costs 0 (asked a) b \<Longrightarrow> costs (Suc 0) a b"
  by (auto simp: costs_def asked_def)

lemma hostMatches_state: "snd (hostMatches dns i d c st) = asked st"
  by (simp add: hostMatches_def)

lemma costs_host: "costs (Suc 0) st (snd (hostMatches dns i d c st))"
  by (simp add: hostMatches_state costs_asked)

lemma mx_loop_costs: "costs (length hosts) st (snd (mx_loop dns i c hosts st))"
proof (induction hosts arbitrary: st)
  case (Cons h hs)
  show ?case
    using Cons [of "asked st"] hostMatches_state [of dns i "trim_suffix h ''.''" c st]
    by (auto simp: costs_def asked_def split: prod.split bool.split)
qed simp

lemma costs_mx: "costs 11 st (snd (mxMatches dns i d c st))"
proof (cases "dn_mx dns (sp_queries st) d")
  case None
  then show ?thesis by (auto simp: mxMatches_def costs_def asked_def)
next
  case (Some hosts)
  have "costs (length (take maxSPFMXHosts hosts)) (asked st) (snd (mx_loop dns i c (take maxSPFMXHosts hosts) (asked st)))"
    by (rule mx_loop_costs)
  with Some show ?thesis
    by (auto simp: mxMatches_def costs_def asked_def maxSPFMXHosts_def)
qed

section \<open>What a pass means\<close>

definition published :: "dns \<Rightarrow> string \<Rightarrow> string \<Rightarrow> bool" where
  "published dns domain spf \<longleftrightarrow> (\<exists>n records. dn_txt dns n domain = Inr records \<and> spf \<in> set records
     \<and> has_prefix (to_lower spf) ''v=spf1'')"

definition has_address :: "dns \<Rightarrow> ip \<Rightarrow> string \<Rightarrow> string \<Rightarrow> bool" where
  "has_address dns i cidr host \<longleftrightarrow> (\<exists>n as. dn_host dns n host = Some as \<and> (\<exists>a \<in> set as. ipMechanismMatches dns i a cidr))"

text \<open>The mechanisms that name the client without reading another record.\<close>

definition names_client :: "dns \<Rightarrow> ip \<Rightarrow> string \<Rightarrow> string \<Rightarrow> string \<Rightarrow> string \<Rightarrow> bool" where
  "names_client dns i domain name arg cidr \<longleftrightarrow>
     name = ''all'' \<or> (name \<in> {''ip4'', ''ip6''} \<and> ipMechanismMatches dns i arg cidr)
     \<or> (name = ''a'' \<and> has_address dns i cidr (mechanismDomain arg domain))
     \<or> (name = ''mx'' \<and> (\<exists>n hosts. dn_mx dns n (mechanismDomain arg domain) = Some hosts
          \<and> (\<exists>h \<in> set hosts. has_address dns i cidr (trim_suffix h ''.''))))"

inductive authorises :: "dns \<Rightarrow> ip \<Rightarrow> string \<Rightarrow> bool" for dns i where
  mechanism: "published dns domain spf \<Longrightarrow> token \<in> set (Prelude.fields spf) \<Longrightarrow> mechanism token = (q, name, arg, cidr)
    \<Longrightarrow> qualifierResult q = SpfPass \<Longrightarrow> names_client dns i domain name arg cidr \<Longrightarrow> authorises dns i domain"
| by_include: "published dns domain spf \<Longrightarrow> token \<in> set (Prelude.fields spf) \<Longrightarrow> mechanism token = (q, ''include'', arg, cidr)
    \<Longrightarrow> qualifierResult q = SpfPass \<Longrightarrow> authorises dns i arg \<Longrightarrow> authorises dns i domain"
| redirects: "published dns domain spf \<Longrightarrow> token \<in> set (Prelude.fields spf) \<Longrightarrow> has_prefix token ''redirect=''
    \<Longrightarrow> authorises dns i (drop 9 token) \<Longrightarrow> authorises dns i domain"

lemma hostMatches_address: "hostMatches dns i host c st = (True, st') \<Longrightarrow> has_address dns i c host"
  by (auto simp: hostMatches_def has_address_def list_ex_iff split: option.splits dest: in_set_takeD)

lemma mx_loop_address: "mx_loop dns i c hosts st = (True, st') \<Longrightarrow> \<exists>h \<in> set hosts. has_address dns i c (trim_suffix h ''.'')"
  by (induction hosts arbitrary: st) (auto split: prod.splits bool.splits dest: hostMatches_address)

lemma mxMatches_address:
  "mxMatches dns i d c st = (True, st') \<Longrightarrow> \<exists>n hosts. dn_mx dns n d = Some hosts \<and> (\<exists>h \<in> set hosts. has_address dns i c (trim_suffix h ''.''))"
  by (auto simp: mxMatches_def split: option.splits dest!: mx_loop_address dest: in_set_takeD)

lemma lookup_published: "lookupSPF dns d st = (Inr spf, st') \<Longrightarrow> published dns d spf"
proof -
  assume "lookupSPF dns d st = (Inr spf, st')"
  then obtain records where r: "dn_txt dns (sp_queries st) d = Inr records"
      and f: "filter (\<lambda>r. has_prefix (to_lower r) ''v=spf1'') records = [spf]"
    by (auto simp: lookupSPF_def split: sum.splits prod.splits if_splits list.splits)
  from f have "spf \<in> set records \<and> has_prefix (to_lower spf) ''v=spf1''"
    by (auto simp: filter_eq_Cons_iff)
  with r show ?thesis by (auto simp: published_def)
qed

definition stops_well :: "dns \<Rightarrow> ip \<Rightarrow> string \<Rightarrow> string \<Rightarrow> spf_result \<Rightarrow> bool" where
  "stops_well dns i d token res \<longleftrightarrow> (res = SpfPass \<longrightarrow> (\<exists>q name arg cidr. mechanism token = (q, name, arg, cidr)
     \<and> qualifierResult q = SpfPass \<and> names_client dns i d name arg cidr))"

text \<open>What the evaluation does with one term: go on, stop, or ask the record of an include.\<close>

lemma term_cases:
  obtains (skip) redirect' st1 where "spf_tokens dns i d depth (token # tokens) redirect st = spf_tokens dns i d depth tokens redirect' st1"
      "costs 0 st st1" "redirect' = redirect \<or> has_prefix token ''redirect='' \<and> redirect' = drop 9 token"
  | (stop) r st1 where "spf_tokens dns i d depth (token # tokens) redirect st = (r, st1)" "costs 0 st st1"
      "stops_well dns i d token (fst r)"
  | (incl) q arg cidr st1 r st2 where "mechanism token = (q, ''include'', arg, cidr)" "take_lookup st = Some st1"
      "evalSPF dns i arg (depth + 1) st1 = (r, st2)"
      "spf_tokens dns i d depth (token # tokens) redirect st =
        (if fst r = SpfPass then ((qualifierResult q, ''include:'' @ arg), st2)
         else if fst r = SpfTempError \<or> fst r = SpfPermError then (r, st2)
         else spf_tokens dns i d depth tokens redirect st2)"
proof -
  let ?run = "spf_tokens dns i d depth (token # tokens) redirect st"
  obtain q name arg cidr where m: "mechanism token = (q, name, arg, cidr)" by (cases "mechanism token")
  have none: thesis if "take_lookup st = None" "?run = (too_many, st)"
    using that by (intro stop [of too_many st]) (simp_all add: stops_well_def too_many_def)
  have well: "stops_well dns i d token (qualifierResult q)" if "names_client dns i d name arg cidr"
    using that m by (auto simp: stops_well_def)
  show thesis
  proof (cases "equal_fold token ''v=spf1'' \<or> has_prefix token ''redirect=''")
    case True
    then have "?run = spf_tokens dns i d depth tokens (if equal_fold token ''v=spf1'' then redirect else drop 9 token) st"
      by (cases "equal_fold token ''v=spf1''"; subst spf_tokens.simps; simp)
    with True show thesis by (intro skip) auto
  next
    case False
    then have e: "?run = (if name = ''all'' then ((qualifierResult q, ''all''), st)
        else if name = ''include'' then
          (case take_lookup st of None \<Rightarrow> (too_many, st)
           | Some st1 \<Rightarrow> (case evalSPF dns i arg (depth + 1) st1 of ((included, includeReason), st2) \<Rightarrow>
                    if included = SpfPass then ((qualifierResult q, ''include:'' @ arg), st2)
                    else if included = SpfTempError \<or> included = SpfPermError then ((included, includeReason), st2)
                    else spf_tokens dns i d depth tokens redirect st2))
        else if name = ''ip4'' \<or> name = ''ip6'' then
          (if ipMechanismMatches dns i arg cidr then ((qualifierResult q, name @ '':'' @ arg), st)
           else spf_tokens dns i d depth tokens redirect st)
        else if name = ''a'' then
          (case take_lookup st of None \<Rightarrow> (too_many, st)
           | Some st1 \<Rightarrow> (case hostMatches dns i (mechanismDomain arg d) cidr st1 of
                  (True, st2) \<Rightarrow> ((qualifierResult q, ''a''), st2)
                | (False, st2) \<Rightarrow> spf_tokens dns i d depth tokens redirect st2))
        else if name = ''mx'' then
          (case take_lookup st of None \<Rightarrow> (too_many, st)
           | Some st1 \<Rightarrow> (case mxMatches dns i (mechanismDomain arg d) cidr st1 of
                  (True, st2) \<Rightarrow> ((qualifierResult q, ''mx''), st2)
                | (False, st2) \<Rightarrow> spf_tokens dns i d depth tokens redirect st2))
        else if name = ''exists'' \<or> name = ''ptr'' then
          (case take_lookup st of None \<Rightarrow> (too_many, st)
           | Some st1 \<Rightarrow> spf_tokens dns i d depth tokens redirect st1)
        else spf_tokens dns i d depth tokens redirect st)"
      by (subst spf_tokens.simps) (simp add: m)
    consider "name = ''all''" | "name = ''include''" | "name = ''ip4'' \<or> name = ''ip6''" | "name = ''a''" | "name = ''mx''"
      | "name = ''exists'' \<or> name = ''ptr''"
      | "name \<noteq> ''all'' \<and> name \<noteq> ''include'' \<and> name \<noteq> ''ip4'' \<and> name \<noteq> ''ip6'' \<and> name \<noteq> ''a'' \<and> name \<noteq> ''mx'' \<and> name \<noteq> ''exists'' \<and> name \<noteq> ''ptr''"
      by blast
    then show thesis
    proof cases
      case 1
      with e well show thesis by (intro stop [of "(qualifierResult q, ''all'')" st]) (auto simp: names_client_def)
    next
      case 2
      show thesis
      proof (cases "take_lookup st")
        case None
        with 2 e none show thesis by simp
      next
        case (Some st1)
        obtain r st2 where r: "evalSPF dns i arg (depth + 1) st1 = (r, st2)" by (cases "evalSPF dns i arg (depth + 1) st1")
        with 2 e Some m show thesis by (intro incl [of q arg cidr st1 r st2]) (auto simp: case_prod_unfold)
      qed
    next
      case 3
      then show thesis
        using e well by (cases "ipMechanismMatches dns i arg cidr")
          (auto simp: names_client_def intro: stop [of "(qualifierResult q, name @ '':'' @ arg)" st] skip [of redirect st])
    next
      case 4
      show thesis
      proof (cases "take_lookup st")
        case None
        with 4 e none show thesis by simp
      next
        case (Some st1)
        obtain b st2 where b: "hostMatches dns i (mechanismDomain arg d) cidr st1 = (b, st2)" by (meson surj_pair)
        with costs_host [of st1 dns i "mechanismDomain arg d" cidr] costs_taken [OF Some] have c: "costs 0 st st2" by simp
        have "b \<Longrightarrow> names_client dns i d name arg cidr"
          using b 4 by (auto simp: names_client_def dest: hostMatches_address)
        with 4 e Some b c well show thesis
          by (cases b) (auto intro: stop [of "(qualifierResult q, ''a'')" st2] skip [of redirect st2])
      qed
    next
      case 5
      show thesis
      proof (cases "take_lookup st")
        case None
        with 5 e none show thesis by simp
      next
        case (Some st1)
        obtain b st2 where b: "mxMatches dns i (mechanismDomain arg d) cidr st1 = (b, st2)" by (meson surj_pair)
        with costs_mx [of st1 dns i "mechanismDomain arg d" cidr] costs_taken [OF Some] have c: "costs 0 st st2" by simp
        have "b \<Longrightarrow> names_client dns i d name arg cidr"
          using b 5 mxMatches_address [of dns i "mechanismDomain arg d" cidr st1] by (auto simp: names_client_def)
        with 5 e Some b c well show thesis
          by (cases b) (auto intro: stop [of "(qualifierResult q, ''mx'')" st2] skip [of redirect st2])
      qed
    next
      case 6
      then show thesis
        using e none costs_taken [of st _ 0] by (cases "take_lookup st") (auto intro: skip)
    next
      case 7
      with e show thesis by (intro skip [of redirect st]) auto
    qed
  qed
qed

lemma tokens_costs:
  assumes "\<And>d st. costs (Suc 0) st (snd (evalSPF dns i d (depth + 1) st))"
  shows "costs 0 st (snd (spf_tokens dns i d depth tokens redirect st))"
proof (induction tokens arbitrary: redirect st)
  case Nil
  then show ?case
    by (subst spf_tokens.simps) (auto split: option.split intro: costs_taken [OF _ assms [simplified]])
next
  case (Cons token tokens)
  show ?case
  proof (cases rule: term_cases [of dns i d depth token tokens redirect st])
    case (skip redirect' st1)
    with Cons show ?thesis by (auto intro: costs_trans)
  next
    case (stop r st1)
    then show ?thesis by simp
  next
    case (incl q arg cidr st1 r st2)
    from costs_taken [OF incl(2) assms] incl(3) have "costs 0 st st2" by (metis Suc_leI snd_conv zero_less_numeral One_nat_def)
    with incl(4) Cons show ?thesis by (auto intro: costs_trans)
  qed
qed

lemma eval_costs: "costs (Suc 0) st (snd (evalSPF dns i d depth st))"
proof (induction "Suc maxSPFDepth - depth" arbitrary: d depth st)
  case 0
  then show ?case by (subst evalSPF.simps) simp
next
  case (Suc n)
  have l: "snd (lookupSPF dns d st) = asked st" by (simp add: lookupSPF_def)
  have t: "costs 0 st (snd (spf_tokens dns i d depth tokens redirect st))" for tokens redirect st
    by (rule tokens_costs) (use Suc in \<open>auto intro: Suc(1)\<close>)
  show ?case
    using l t by (subst evalSPF.simps) (auto split: prod.split sum.split intro: costs_asked)
qed

definition redirect_ok :: "string list \<Rightarrow> string \<Rightarrow> bool" where
  "redirect_ok toks redirect \<longleftrightarrow> redirect = [] \<or> (\<exists>t \<in> set toks. has_prefix t ''redirect='' \<and> redirect = drop 9 t)"

lemma tokens_authorised:
  assumes "\<And>d st. fst (fst (evalSPF dns i d (depth + 1) st)) = SpfPass \<Longrightarrow> authorises dns i d"
    and "published dns d spf"
  shows "fst (fst (spf_tokens dns i d depth tokens redirect st)) = SpfPass \<Longrightarrow> set tokens \<subseteq> set (Prelude.fields spf)
    \<Longrightarrow> redirect_ok (Prelude.fields spf) redirect \<Longrightarrow> authorises dns i d"
proof (induction tokens arbitrary: redirect st)
  case Nil
  then obtain st1 where "redirect \<noteq> []" "fst (fst (evalSPF dns i redirect (depth + 1) st1)) = SpfPass"
    by (subst (asm) spf_tokens.simps) (auto simp: too_many_def split: if_splits option.splits)
  with assms Nil(3) show ?case by (auto simp: redirect_ok_def intro: redirects)
next
  case (Cons token tokens)
  have tok: "token \<in> set (Prelude.fields spf)" using Cons by simp
  show ?case
  proof (cases rule: term_cases [of dns i d depth token tokens redirect st])
    case (skip redirect' st1)
    with Cons tok show ?thesis by (auto simp: redirect_ok_def)
  next
    case (stop r st1)
    with Cons.prems tok assms(2) show ?thesis by (auto simp: stops_well_def intro: mechanism)
  next
    case (incl q arg cidr st1 r st2)
    show ?thesis
    proof (cases "fst r = SpfPass")
      case True
      with incl Cons.prems have "qualifierResult q = SpfPass" by simp
      with True incl assms tok show ?thesis by (metis by_include fst_conv)
    next
      case False
      with incl Cons show ?thesis by (auto split: if_splits)
    qed
  qed
qed

lemma eval_authorised: "fst (fst (evalSPF dns i d depth st)) = SpfPass \<Longrightarrow> authorises dns i d"
proof (induction "Suc maxSPFDepth - depth" arbitrary: d depth st)
  case 0
  then show ?case by (subst (asm) evalSPF.simps) simp
next
  case (Suc n)
  from Suc(3) obtain spf st1 where l: "lookupSPF dns d st = (Inr spf, st1)"
      and t: "fst (fst (spf_tokens dns i d depth (Prelude.fields spf) [] st1)) = SpfPass"
    by (subst (asm) evalSPF.simps)
       (auto simp: lookupSPF_def split: if_splits prod.splits sum.splits list.splits)
  have ih: "fst (fst (evalSPF dns i d (depth + 1) st)) = SpfPass \<Longrightarrow> authorises dns i d" for d st
    by (rule Suc(1)) (use Suc(2) in simp_all)
  show ?case
    by (rule tokens_authorised [OF ih lookup_published [OF l] t]) (simp_all add: redirect_ok_def)
qed

section \<open>Properties\<close>

text \<open>
  C29.  An SPF check always ends, and what it may ask of the network is bounded: at most 10 lookups of the budget of
  RFC 7208, and at most 111 DNS queries, whatever the records say and however the answers change.
\<close>

theorem spf_bounded:
  "sp_used (snd (checkSPF dns mailFromDomain smtp)) \<le> 10 \<and> sp_queries (snd (checkSPF dns mailFromDomain smtp)) \<le> 111"
proof -
  have "costs 1 \<lparr>sp_used = 0, sp_queries = 0\<rparr> (snd (checkSPF dns mailFromDomain smtp))"
    using eval_costs by (auto simp: checkSPF_def Let_def split: option.split prod.split) (metis snd_conv)
  then show ?thesis by (auto simp: costs_def maxSPFLookups_def)
qed

text \<open>
  C30.  A pass is earned: when the check passes, the sender's domain has published an SPF record with a passing mechanism
  that names the client's address, or that leads to such a record through a passing include or a redirect.
\<close>

theorem spf_pass_sound:
  assumes "checkSPF dns mailFromDomain smtp = ((SpfPass, domain, reason), st)"
  shows "\<exists>i. dn_parse_ip dns (sm_remote_ip smtp) = Some i \<and> domain = spf_domain mailFromDomain smtp \<and> authorises dns i domain"
  using assms eval_authorised [of dns _ "spf_domain mailFromDomain smtp" 0 "\<lparr>sp_used = 0, sp_queries = 0\<rparr>"]
  by (auto simp: checkSPF_def Let_def split: option.splits prod.splits if_splits)

definition sample_dns :: dns where
  "sample_dns = \<lparr>dn_txt = (\<lambda>_ d. if d = ''a.org'' then Inr [''v=spf1 include:b.org -all'']
       else if d = ''b.org'' then Inr [''other'', ''V=SPF1 ip4:net/24 ?all''] else Inl (True, [])),
     dn_host = (\<lambda>_ _. None), dn_mx = (\<lambda>_ _. None), dn_expired = (\<lambda>_. False),
     dn_parse_ip = (\<lambda>s. if s = ''net'' then Some (V4 256) else if s = ''cl'' then Some (V4 300) else if s = ''no'' then Some (V4 600) else None)\<rparr>"

definition sample_smtp :: "string \<Rightarrow> smtp_context" where
  "sample_smtp i = \<lparr>sm_mail_from = ''x@a.org'', sm_remote_ip = i, sm_helo = ''h'', sm_tls = False\<rparr>"

theorem spf_pass_sound_witness:
  "authorises sample_dns (V4 300) ''a.org'' \<and> fst (fst (checkSPF sample_dns ''a.org'' (sample_smtp ''no''))) = SpfFail"
proof -
  have c: "checkSPF sample_dns ''a.org'' (sample_smtp ''cl'') = ((SpfPass, ''a.org'', ''include:b.org''), \<lparr>sp_used = 1, sp_queries = 2\<rparr>)"
    by code_simp
  have i: "dn_parse_ip sample_dns (sm_remote_ip (sample_smtp ''cl'')) = Some (V4 300)" by code_simp
  have n: "fst (fst (checkSPF sample_dns ''a.org'' (sample_smtp ''no''))) = SpfFail" by code_simp
  from spf_pass_sound [OF c] i n show ?thesis by auto
qed

end
