(* ===== verification/Config.thy ===== *)
theory Config
  imports World
begin

text \<open>
  The configuration, \<^verbatim>\<open>internal/config/config.go\<close>: one record per struct, the defaults, the retry policy, the validation
  and the test of what a reload would change.  The evaluation of the Pkl module and the decoding of its JSON are the
  parameter of \<open>Load\<close>; \<open>net.SplitHostPort\<close> and \<open>mail.ParseAddress\<close> are parameters of the functions that call
  them.  A Go \<^verbatim>\<open>int\<close> and \<^verbatim>\<open>int64\<close> is an \<open>int\<close>, wrapped where the code multiplies.
\<close>

section \<open>The structs\<close>

record imports_config =
  cx_allowed_hosts :: "string list"
  cx_insecure_tls_hosts :: "string list"

record server_config =
  cs_api_addr :: string
  cs_public_hostname :: string
  cs_instance_name :: string
  cs_shutdown_timeout_seconds :: int

record smtp_config =
  cm_inbound_addr :: string
  cm_max_message_size_bytes :: int
  cm_max_inbound_recipients :: int

record imap_config =
  ci_addr :: string
  ci_tls_addr :: string
  ci_max_connections_per_ip :: int
  ci_allow_insecure_auth :: bool

record submission_config =
  cb_starttls_addr :: string
  cb_tls_addr :: string
  cb_allow_insecure_auth :: bool

record relay_config =
  cr_addr :: string
  cr_username :: string
  cr_password :: string
  cr_from_host :: string
  cr_max_attempts :: int
  cr_max_retry_minutes :: int
  cr_timeout_seconds :: int

record database_config =
  cd_driver :: string
  cd_dsn :: string
  cd_auth_token :: string
  cd_namespace :: string

record s3_config =
  c3_endpoint :: string
  c3_region :: string
  c3_bucket :: string
  c3_access_key_id :: string
  c3_secret_access_key :: string
  c3_use_ssl :: bool

record logging_config =
  cl_level :: string
  cl_axiom_enabled :: bool
  cl_axiom_dataset :: string
  cl_axiom_token :: string
  cl_axiom_url :: string

record workers_config =
  cw_enabled :: bool
  cw_concurrency :: int
  cw_maildir_import_root :: string

record tls_storage_config =
  cg_endpoint :: string
  cg_region :: string
  cg_bucket :: string
  cg_access_key_id :: string
  cg_secret_access_key :: string
  cg_use_ssl :: bool
  cg_prefix :: string
  cg_issuer :: string
  cg_hostnames :: "string list"
  cg_refresh_interval_minutes :: int

record tls_config =
  ct_mode :: string
  ct_cert_file :: string
  ct_key_file :: string
  ct_acme_email :: string
  ct_acme_ca :: string
  ct_acme_cache_path :: string
  ct_acme_listen_host :: string
  ct_acme_http_port :: int
  ct_acme_tls_alpn_port :: int
  ct_acme_disable_http_challenge :: bool
  ct_acme_disable_tls_alpn_challenge :: bool
  ct_acme_disable_distributed_solvers :: bool
  ct_acme_cloudflare_api_token :: string
  ct_storage :: tls_storage_config

record webhook_config =
  ck_default_timeout_seconds :: int
  ck_secret :: string
  ck_endpoints :: "(string \<times> string) list"
  ck_max_attempts :: int

record notification_config =
  cn_from_address :: string
  cn_render_url :: string
  cn_render_secret :: string
  cn_timeout_seconds :: int
  cn_max_response_bytes :: int

record typesafe_config =
  cy_mode :: string
  cy_api_key :: string
  cy_model :: string
  cy_timeout_ms :: int
  cy_max_text_bytes :: int
  cy_max_in_flight :: int
  cy_max_requests_per_minute :: int
  cy_spam_threshold :: float64
  cy_phishing_threshold :: float64

record spam_config =
  cf_junk_threshold :: float64
  cf_reject_threshold :: float64
  cf_dnsbl_zones :: "string list"
  cf_dnsbl_score :: float64
  cf_require_helo :: bool
  cf_typesafe :: typesafe_config

record limits_config =
  cz_max_message_size_bytes :: int
  cz_max_inbound_recipients :: int
  cz_max_submission_recipients :: int
  cz_max_connections_per_ip :: int
  cz_max_inbound_connections :: int
  cz_inbound_messages_per_minute_per_ip :: int
  cz_default_outbound_per_hour :: int
  cz_default_outbound_per_day :: int
  cz_default_outbound_recipients :: int
  cz_domain_outbound_per_hour :: int
  cz_domain_outbound_per_day :: int
  cz_domain_outbound_recipients :: int

record config =
  cfg_server :: server_config
  cfg_smtp :: smtp_config
  cfg_imap :: imap_config
  cfg_submission :: submission_config
  cfg_relay :: relay_config
  cfg_database :: database_config
  cfg_postgres_dsn :: string
  cfg_s3 :: s3_config
  cfg_logging :: logging_config
  cfg_metrics_enabled :: bool
  cfg_api_service_token :: string
  cfg_workers :: workers_config
  cfg_tls :: tls_config
  cfg_webhooks :: webhook_config
  cfg_notifications :: notification_config
  cfg_spam :: spam_config
  cfg_limits :: limits_config
  cfg_imports :: imports_config

section \<open>Import hosts\<close>

definition HostExplicitlyAllowed :: "imports_config \<Rightarrow> string \<Rightarrow> bool" where
  "HostExplicitlyAllowed c host0 =
     (let host = to_lower (trim_space host0)
      in list_ex (\<lambda>a. let allowed = to_lower (trim_space a) in allowed \<noteq> [] \<and> allowed = host) (cx_allowed_hosts c))"

definition AllowsHost :: "imports_config \<Rightarrow> string \<Rightarrow> bool" where
  "AllowsHost c host = (if cx_allowed_hosts c = [] then True else HostExplicitlyAllowed c host)"

definition AllowsInsecureTLS :: "(string \<Rightarrow> (string \<times> string) option) \<Rightarrow> imports_config \<Rightarrow> string \<Rightarrow> bool" where
  "AllowsInsecureTLS splitHostPort c addr0 =
     (let addr = to_lower (trim_space addr0);
          host = (case splitHostPort addr of Some (h, _) \<Rightarrow> h | None \<Rightarrow> addr)
      in list_ex (\<lambda>a. let allowed = to_lower (trim_space a) in allowed \<noteq> [] \<and> (allowed = addr \<or> allowed = host))
           (cx_insecure_tls_hosts c))"

section \<open>Durations and retries\<close>

definition Relay_Timeout :: "relay_config \<Rightarrow> duration" where
  "Relay_Timeout c = (if cr_timeout_seconds c \<le> 0 then 60 * second else wrap64 (cr_timeout_seconds c * second))"

record retry_policy =
  rp_max_attempts :: int
  rp_max_delay :: duration

definition Relay_RetryPolicy :: "relay_config \<Rightarrow> retry_policy" where
  "Relay_RetryPolicy c =
     (let d = wrap64 (cr_max_retry_minutes c * minute)
      in \<lparr>rp_max_attempts = (if cr_max_attempts c \<le> 0 then 30 else cr_max_attempts c),
          rp_max_delay = (if d \<le> 0 then 4 * hour else d)\<rparr>)"

definition Webhook_RetryPolicy :: "webhook_config \<Rightarrow> retry_policy" where
  "Webhook_RetryPolicy c = \<lparr>rp_max_attempts = (if ck_max_attempts c \<le> 0 then 10 else ck_max_attempts c), rp_max_delay = hour\<rparr>"

fun delay_loop :: "duration \<Rightarrow> nat \<Rightarrow> duration \<Rightarrow> duration" where
  "delay_loop maxDelay 0 delay = delay"
| "delay_loop maxDelay (Suc n) delay =
     (let d = wrap64 (delay * 2) in if maxDelay \<le> d then maxDelay else delay_loop maxDelay n d)"

definition Delay :: "retry_policy \<Rightarrow> int \<Rightarrow> duration" where
  "Delay p attempt = delay_loop (rp_max_delay p) (nat attempt) minute"

definition Exhausted :: "retry_policy \<Rightarrow> int \<Rightarrow> bool" where
  "Exhausted p attempts = (rp_max_attempts p \<le> attempts)"

definition ShutdownTimeout :: "server_config \<Rightarrow> duration" where
  "ShutdownTimeout c = (if cs_shutdown_timeout_seconds c \<le> 0 then 10 * second
     else wrap64 (cs_shutdown_timeout_seconds c * second))"

section \<open>Database and TLS\<close>

definition EffectiveDatabase :: "config \<Rightarrow> database_config" where
  "EffectiveDatabase c =
     (let d0 = cfg_database c;
          d1 = (if trim_space (cd_driver d0) = [] then d0\<lparr>cd_driver := ''postgres''\<rparr> else d0);
          d2 = (if trim_space (cd_dsn d1) = [] \<and> equal_fold (cd_driver d1) ''postgres''
                then d1\<lparr>cd_dsn := cfg_postgres_dsn c\<rparr> else d1)
      in d2\<lparr>cd_driver := to_lower (trim_space (cd_driver d2)), cd_dsn := trim_space (cd_dsn d2),
            cd_namespace := trim_space (cd_namespace d2)\<rparr>)"

definition IssuerKey :: "tls_storage_config \<Rightarrow> string" where
  "IssuerKey c = (let issuer = trim_space (cg_issuer c)
     in if issuer = [] then ''acme-v02.api.letsencrypt.org-directory'' else issuer)"

definition RefreshInterval :: "tls_storage_config \<Rightarrow> duration" where
  "RefreshInterval c = (if cg_refresh_interval_minutes c \<le> 0 then hour else wrap64 (cg_refresh_interval_minutes c * minute))"

definition TLSStorage_equal :: "tls_storage_config \<Rightarrow> tls_storage_config \<Rightarrow> bool" where
  "TLSStorage_equal c other = (cg_hostnames c = cg_hostnames other \<and> cg_endpoint c = cg_endpoint other
     \<and> cg_region c = cg_region other \<and> cg_bucket c = cg_bucket other
     \<and> cg_access_key_id c = cg_access_key_id other \<and> cg_secret_access_key c = cg_secret_access_key other
     \<and> cg_use_ssl c = cg_use_ssl other \<and> cg_prefix c = cg_prefix other \<and> cg_issuer c = cg_issuer other
     \<and> cg_refresh_interval_minutes c = cg_refresh_interval_minutes other)"

definition TLS_equal :: "tls_config \<Rightarrow> tls_config \<Rightarrow> bool" where
  "TLS_equal c other = (ct_mode c = ct_mode other \<and> ct_cert_file c = ct_cert_file other \<and> ct_key_file c = ct_key_file other
     \<and> ct_acme_email c = ct_acme_email other \<and> ct_acme_ca c = ct_acme_ca other \<and> ct_acme_cache_path c = ct_acme_cache_path other
     \<and> ct_acme_listen_host c = ct_acme_listen_host other \<and> ct_acme_http_port c = ct_acme_http_port other
     \<and> ct_acme_tls_alpn_port c = ct_acme_tls_alpn_port other
     \<and> ct_acme_disable_http_challenge c = ct_acme_disable_http_challenge other
     \<and> ct_acme_disable_tls_alpn_challenge c = ct_acme_disable_tls_alpn_challenge other
     \<and> ct_acme_disable_distributed_solvers c = ct_acme_disable_distributed_solvers other
     \<and> ct_acme_cloudflare_api_token c = ct_acme_cloudflare_api_token other
     \<and> TLSStorage_equal (ct_storage c) (ct_storage other))"

section \<open>TypeSafe\<close>

definition TypeSafe_WithDefaults :: "typesafe_config \<Rightarrow> typesafe_config" where
  "TypeSafe_WithDefaults c =
     (let mode = (if trim_space (cy_mode c) = [] then ''off'' else cy_mode c)
      in c\<lparr>cy_mode := to_lower (trim_space mode),
           cy_model := (if trim_space (cy_model c) = [] then ''jev-latest'' else cy_model c),
           cy_timeout_ms := (if cy_timeout_ms c = 0 then 2000 else cy_timeout_ms c),
           cy_max_text_bytes := (if cy_max_text_bytes c = 0 then 16384 else cy_max_text_bytes c),
           cy_max_in_flight := (if cy_max_in_flight c = 0 then 8 else cy_max_in_flight c),
           cy_max_requests_per_minute := (if cy_max_requests_per_minute c = 0 then 60 else cy_max_requests_per_minute c),
           cy_spam_threshold := (if cy_spam_threshold c = Fin 0 then Fin (98 / 100) else cy_spam_threshold c),
           cy_phishing_threshold := (if cy_phishing_threshold c = Fin 0 then Fin (98 / 100) else cy_phishing_threshold c)\<rparr>)"

definition TypeSafe_Enabled :: "typesafe_config \<Rightarrow> bool" where
  "TypeSafe_Enabled c = (let mode = to_lower (trim_space (cy_mode c)) in mode = ''shadow'' \<or> mode = ''junk'')"

definition TypeSafe_Timeout :: "typesafe_config \<Rightarrow> duration" where
  "TypeSafe_Timeout c = wrap64 (cy_timeout_ms (TypeSafe_WithDefaults c) * millisecond)"

definition validProbability :: "float64 \<Rightarrow> bool" where
  "validProbability value = (case value of Fin x \<Rightarrow> 0 < x \<and> x \<le> 1 | _ \<Rightarrow> False)"

definition validateTypeSafe :: "typesafe_config \<Rightarrow> string option" where
  "validateTypeSafe c =
     (let mode = to_lower (trim_space (cy_mode c)); effective = TypeSafe_WithDefaults c in
      if mode = [] \<or> mode = ''off'' then None
      else if \<not> (mode = ''shadow'' \<or> mode = ''junk'') then Some ''spam.typesafe.mode must be off, shadow, or junk''
      else if trim_space (cy_api_key effective) = [] then Some ''spam.typesafe.api_key is required when TypeSafe is enabled''
      else if trim_space (cy_model effective) = [] then Some ''spam.typesafe.model is required when TypeSafe is enabled''
      else if cy_timeout_ms c \<noteq> 0 \<and> (cy_timeout_ms c < 100 \<or> 10000 < cy_timeout_ms c)
        then Some ''spam.typesafe.timeout_ms must be between 100 and 10000''
      else if cy_max_text_bytes c < 0 then Some ''spam.typesafe.max_text_bytes must be >= 0''
      else if cy_max_in_flight c < 0 then Some ''spam.typesafe.max_in_flight must be >= 0''
      else if cy_max_requests_per_minute c < 0 then Some ''spam.typesafe.max_requests_per_minute must be >= 0''
      else if cy_spam_threshold c \<noteq> Fin 0 \<and> \<not> validProbability (cy_spam_threshold c)
        then Some ''spam.typesafe.spam_threshold must be greater than 0 and at most 1''
      else if cy_phishing_threshold c \<noteq> Fin 0 \<and> \<not> validProbability (cy_phishing_threshold c)
        then Some ''spam.typesafe.phishing_threshold must be greater than 0 and at most 1''
      else None)"

section \<open>Effective limits\<close>

definition InboundHostnames :: "config \<Rightarrow> string list" where
  "InboundHostnames c =
     (let names = map (\<lambda>n. to_lower (trim_space n)) (cs_public_hostname (cfg_server c) # cg_hostnames (ct_storage (cfg_tls c)))
      in dedup_on id [] (filter (\<lambda>n. n \<noteq> []) names))"

definition InboundMessageSize :: "config \<Rightarrow> int" where
  "InboundMessageSize c = (if 0 < cz_max_message_size_bytes (cfg_limits c) then cz_max_message_size_bytes (cfg_limits c)
     else if 0 < cm_max_message_size_bytes (cfg_smtp c) then cm_max_message_size_bytes (cfg_smtp c) else 50 * 1024 * 1024)"

definition InboundRecipients :: "config \<Rightarrow> int" where
  "InboundRecipients c = (if 0 < cz_max_inbound_recipients (cfg_limits c) then cz_max_inbound_recipients (cfg_limits c)
     else if 0 < cm_max_inbound_recipients (cfg_smtp c) then cm_max_inbound_recipients (cfg_smtp c) else 100)"

definition SubmissionRecipients :: "config \<Rightarrow> int" where
  "SubmissionRecipients c = (if 0 < cz_max_submission_recipients (cfg_limits c) then cz_max_submission_recipients (cfg_limits c) else 100)"

definition ConnectionsPerIP :: "config \<Rightarrow> int" where
  "ConnectionsPerIP c = (if 0 < cz_max_connections_per_ip (cfg_limits c) then cz_max_connections_per_ip (cfg_limits c) else 20)"

definition InboundConnections :: "config \<Rightarrow> int" where
  "InboundConnections c = (if 0 < cz_max_inbound_connections (cfg_limits c) then cz_max_inbound_connections (cfg_limits c) else 1000)"

definition IMAPConnectionsPerIP :: "config \<Rightarrow> int" where
  "IMAPConnectionsPerIP c = (if 0 < ci_max_connections_per_ip (cfg_imap c) then ci_max_connections_per_ip (cfg_imap c) else 30)"

definition InboundMessagesPerMinute :: "config \<Rightarrow> int" where
  "InboundMessagesPerMinute c = (if 0 < cz_inbound_messages_per_minute_per_ip (cfg_limits c)
     then cz_inbound_messages_per_minute_per_ip (cfg_limits c) else 120)"

definition withOutboundDefaults :: "limits_config \<Rightarrow> limits_config" where
  "withOutboundDefaults c =
     (let h = (if cz_default_outbound_per_hour c = 0 then 200 else cz_default_outbound_per_hour c);
          d = (if cz_default_outbound_per_day c = 0 then 2000 else cz_default_outbound_per_day c);
          r = (if cz_default_outbound_recipients c = 0 then 50 else cz_default_outbound_recipients c)
      in c\<lparr>cz_default_outbound_per_hour := h, cz_default_outbound_per_day := d, cz_default_outbound_recipients := r,
           cz_domain_outbound_per_hour := (if cz_domain_outbound_per_hour c = 0 then h else cz_domain_outbound_per_hour c),
           cz_domain_outbound_per_day := (if cz_domain_outbound_per_day c = 0 then d else cz_domain_outbound_per_day c),
           cz_domain_outbound_recipients := (if cz_domain_outbound_recipients c = 0 then r else cz_domain_outbound_recipients c)\<rparr>)"

section \<open>Validation\<close>

definition problem :: "bool \<Rightarrow> string \<Rightarrow> string list" where
  "problem b msg = (if b then [msg] else [])"

abbreviation blank :: "string \<Rightarrow> bool" where "blank s \<equiv> trim_space s = []"

definition server_problems :: "config \<Rightarrow> string list" where
  "server_problems c =
     problem (blank (cs_api_addr (cfg_server c))) ''server.api_addr is required''
     @ problem (blank (cs_public_hostname (cfg_server c))) ''server.public_hostname is required''
     @ problem (blank (cs_instance_name (cfg_server c))) ''server.instance_name is required''
     @ problem (blank (cm_inbound_addr (cfg_smtp c))) ''smtp.inbound_addr is required''
     @ problem (blank (ci_addr (cfg_imap c))) ''imap.addr is required''
     @ problem (blank (cb_starttls_addr (cfg_submission c))) ''submission.starttls_addr is required''
     @ problem (blank (cb_tls_addr (cfg_submission c))) ''submission.tls_addr is required''
     @ problem (blank (cr_addr (cfg_relay c))) ''relay.addr is required''
     @ problem (cm_max_message_size_bytes (cfg_smtp c) < 0) ''smtp.max_message_size_bytes must be >= 0''
     @ problem (cm_max_inbound_recipients (cfg_smtp c) < 0) ''smtp.max_inbound_recipients must be >= 0''"

definition storage_problems :: "config \<Rightarrow> string list" where
  "storage_problems c =
     problem (cd_driver (EffectiveDatabase c) \<notin> {''postgres'', ''sqlite'', ''libsql''}) ''database.driver must be postgres, sqlite, or libsql''
     @ problem (cd_dsn (EffectiveDatabase c) = []) ''database.dsn is required''
     @ problem (blank (c3_endpoint (cfg_s3 c))) ''s3.endpoint is required''
     @ problem (blank (c3_bucket (cfg_s3 c))) ''s3.bucket is required''
     @ problem (blank (c3_access_key_id (cfg_s3 c))) ''s3.access_key_id is required''
     @ problem (blank (c3_secret_access_key (cfg_s3 c))) ''s3.secret_access_key is required''
     @ problem (cw_concurrency (cfg_workers c) < 0) ''workers.concurrency must be >= 0''
     @ (let root = trim_space (cw_maildir_import_root (cfg_workers c))
        in problem (root \<noteq> [] \<and> \<not> has_prefix root ''/'') ''workers.maildir_import_root must be an absolute path'')
     @ (if cl_axiom_enabled (cfg_logging c)
        then problem (blank (cl_axiom_dataset (cfg_logging c))) ''logging.axiom_dataset is required when Axiom logging is enabled''
          @ problem (blank (cl_axiom_token (cfg_logging c))) ''logging.axiom_token is required when Axiom logging is enabled''
        else [])"

definition tls_problems :: "tls_config \<Rightarrow> string list" where
  "tls_problems t =
     problem (to_lower (trim_space (ct_mode t)) \<notin> {[], ''manual'', ''acme'', ''storage'', ''off'', ''disabled''})
       ''tls.mode must be manual, acme, storage, off, or disabled''
     @ problem (equal_fold (trim_space (ct_mode t)) ''acme'' \<and> blank (ct_acme_email t)) ''tls.acme_email is required when ACME TLS is enabled''
     @ problem (ct_acme_http_port t < 0) ''tls.acme_http_port must be >= 0''
     @ problem (ct_acme_tls_alpn_port t < 0) ''tls.acme_tls_alpn_port must be >= 0''
     @ (if equal_fold (trim_space (ct_mode t)) ''storage''
        then problem (blank (cg_endpoint (ct_storage t))) ''tls.storage.endpoint is required when tls.mode is storage''
          @ problem (blank (cg_bucket (ct_storage t))) ''tls.storage.bucket is required when tls.mode is storage''
          @ problem (blank (cg_access_key_id (ct_storage t)) \<or> blank (cg_secret_access_key (ct_storage t)))
              ''tls.storage.access_key_id and tls.storage.secret_access_key are required when tls.mode is storage''
          @ problem (cg_refresh_interval_minutes (ct_storage t) < 0) ''tls.storage.refresh_interval_minutes must be >= 0''
        else [])"

definition limit_problems :: "config \<Rightarrow> string list" where
  "limit_problems c = (let l = cfg_limits c in
     problem (cz_max_message_size_bytes l < 0) ''limits.max_message_size_bytes must be >= 0''
     @ problem (cz_max_inbound_recipients l < 0) ''limits.max_inbound_recipients must be >= 0''
     @ problem (cz_max_submission_recipients l < 0 \<or> cz_max_connections_per_ip l < 0 \<or> cz_max_inbound_connections l < 0
         \<or> cz_inbound_messages_per_minute_per_ip l < 0) ''limits values must be >= 0''
     @ problem (cz_default_outbound_per_hour l < 0 \<or> cz_default_outbound_per_day l < 0 \<or> cz_default_outbound_recipients l < 0)
         ''limits.default_outbound_* must be >= 0''
     @ problem (cz_domain_outbound_per_hour l < 0 \<or> cz_domain_outbound_per_day l < 0 \<or> cz_domain_outbound_recipients l < 0)
         ''limits.domain_outbound_* must be >= 0''
     @ problem (ci_max_connections_per_ip (cfg_imap c) < 0) ''imap.max_connections_per_ip must be >= 0''
     @ problem (cr_max_attempts (cfg_relay c) < 0 \<or> cr_max_retry_minutes (cfg_relay c) < 0 \<or> cr_timeout_seconds (cfg_relay c) < 0)
         ''relay.max_attempts, relay.max_retry_minutes and relay.timeout_seconds must be >= 0''
     @ problem (ck_max_attempts (cfg_webhooks c) < 0) ''webhooks.max_attempts must be >= 0''
     @ problem (f64_lt (cf_dnsbl_score (cfg_spam c)) (Fin 0)) ''spam.dnsbl_score must be >= 0'')"

definition service_problems :: "(string \<Rightarrow> bool) \<Rightarrow> config \<Rightarrow> string list" where
  "service_problems validAddress c =
     problem (ck_endpoints (cfg_webhooks c) \<noteq> [] \<and> blank (ck_secret (cfg_webhooks c)))
       ''webhooks.secret is required when webhook endpoints are configured''
     @ problem (\<not> blank (cn_from_address (cfg_notifications c)) \<and> \<not> validAddress (cn_from_address (cfg_notifications c)))
         ''notifications.from_address must be a valid email address''
     @ problem (cn_timeout_seconds (cfg_notifications c) < 0) ''notifications.timeout_seconds must be >= 0''
     @ problem (cn_max_response_bytes (cfg_notifications c) < 0) ''notifications.max_response_bytes must be >= 0''
     @ problem (f64_lt (cf_junk_threshold (cfg_spam c)) (Fin 0)) ''spam.junk_threshold must be >= 0''
     @ problem (f64_lt (cf_reject_threshold (cfg_spam c)) (Fin 0)) ''spam.reject_threshold must be >= 0''
     @ (case validateTypeSafe (cf_typesafe (cfg_spam c)) of None \<Rightarrow> [] | Some e \<Rightarrow> [e])"

definition Validate :: "(string \<Rightarrow> bool) \<Rightarrow> config \<Rightarrow> string option" where
  "Validate validAddress c =
     (let problems = server_problems c @ storage_problems c @ tls_problems (cfg_tls c) @ limit_problems c @ service_problems validAddress c
      in if problems \<noteq> [] then Some (join ''; '' problems) else None)"

definition Load :: "(string \<Rightarrow> bool) \<Rightarrow> string + config \<Rightarrow> string + config" where
  "Load validAddress decoded =
     (case decoded of Inl e \<Rightarrow> Inl e
      | Inr cfg0 \<Rightarrow>
          let cfg = cfg0\<lparr>cfg_limits := withOutboundDefaults (cfg_limits cfg0)\<rparr>
          in case Validate validAddress cfg of Some e \<Rightarrow> Inl e | None \<Rightarrow> Inr cfg)"

section \<open>Reload\<close>

definition ReloadImpact :: "config \<Rightarrow> config option \<Rightarrow> string list" where
  "ReloadImpact c new =
     (case new of None \<Rightarrow> [''config is nil'']
      | Some n \<Rightarrow>
          problem (EffectiveDatabase c \<noteq> EffectiveDatabase n) ''database''
          @ problem (cfg_s3 c \<noteq> cfg_s3 n) ''s3''
          @ problem (cs_api_addr (cfg_server c) \<noteq> cs_api_addr (cfg_server n)
              \<or> cs_public_hostname (cfg_server c) \<noteq> cs_public_hostname (cfg_server n)
              \<or> cs_instance_name (cfg_server c) \<noteq> cs_instance_name (cfg_server n)) ''server identity/listener''
          @ problem (cm_inbound_addr (cfg_smtp c) \<noteq> cm_inbound_addr (cfg_smtp n)) ''smtp listener''
          @ problem (ci_addr (cfg_imap c) \<noteq> ci_addr (cfg_imap n) \<or> ci_tls_addr (cfg_imap c) \<noteq> ci_tls_addr (cfg_imap n)) ''imap listener''
          @ problem (cfg_submission c \<noteq> cfg_submission n) ''submission listeners''
          @ problem (\<not> TLS_equal (cfg_tls c) (cfg_tls n)) ''tls''
          @ problem (cw_enabled (cfg_workers c) \<noteq> cw_enabled (cfg_workers n)) ''workers.enabled'')"

definition RequiresRestart :: "string list \<Rightarrow> bool" where
  "RequiresRestart impact = (impact \<noteq> [])"

section \<open>Lemmas\<close>

lemma problem_Nil [simp]: "problem b s = [] \<longleftrightarrow> \<not> b"
  by (simp add: problem_def)

lemma Validate_None:
  "Validate v c = None \<longleftrightarrow> server_problems c = [] \<and> storage_problems c = [] \<and> tls_problems (cfg_tls c) = []
     \<and> limit_problems c = [] \<and> service_problems v c = []"
  by (simp add: Validate_def Let_def)

lemma Load_Inr:
  "Load v d = Inr c \<longleftrightarrow> (\<exists>c0. d = Inr c0 \<and> c = c0\<lparr>cfg_limits := withOutboundDefaults (cfg_limits c0)\<rparr> \<and> Validate v c = None)"
  by (auto simp: Load_def Let_def split: sum.split option.split)

lemma TLSStorage_equal_iff: "TLSStorage_equal a b \<longleftrightarrow> a = b"
  unfolding TLSStorage_equal_def by (rule iffI; (intro tls_storage_config.equality)?) simp_all

lemma TLS_equal_iff: "TLS_equal a b \<longleftrightarrow> a = b"
  unfolding TLS_equal_def TLSStorage_equal_iff by (rule iffI; (intro tls_config.equality)?) simp_all

lemma delay_loop_closed:
  assumes "minute \<le> d" and "d < m" and "m \<le> 2 ^ 62"
  shows "delay_loop m n d = min (d * 2 ^ n) m"
  using assms
proof (induction n arbitrary: d)
  case (Suc n)
  then have w: "wrap64 (d * 2) = d * 2" by (simp add: int64_range_def)
  have p: "(1 :: int) \<le> 2 ^ n" by simp
  show ?case
  proof (cases "m \<le> d * 2")
    case True
    have "d * 2 * 1 \<le> d * 2 * 2 ^ n" by (intro mult_left_mono) (use Suc p in simp_all)
    with True w show ?thesis by (simp add: Let_def min_def mult.assoc)
  next
    case False
    with Suc w show ?thesis by (simp add: Let_def mult.assoc)
  qed
qed simp

lemma if_Some_None: "(if b then Some x else r) = None \<longleftrightarrow> \<not> b \<and> r = None"
  by simp

lemma TypeSafe_defaults [simp]:
  "cy_spam_threshold (TypeSafe_WithDefaults c) = (if cy_spam_threshold c = Fin 0 then Fin (98 / 100) else cy_spam_threshold c)"
  "cy_phishing_threshold (TypeSafe_WithDefaults c) = (if cy_phishing_threshold c = Fin 0 then Fin (98 / 100) else cy_phishing_threshold c)"
  "cy_timeout_ms (TypeSafe_WithDefaults c) = (if cy_timeout_ms c = 0 then 2000 else cy_timeout_ms c)"
  "cy_max_text_bytes (TypeSafe_WithDefaults c) = (if cy_max_text_bytes c = 0 then 16384 else cy_max_text_bytes c)"
  "cy_max_in_flight (TypeSafe_WithDefaults c) = (if cy_max_in_flight c = 0 then 8 else cy_max_in_flight c)"
  "cy_api_key (TypeSafe_WithDefaults c) = cy_api_key c"
  by (simp_all add: TypeSafe_WithDefaults_def Let_def)

lemma validateTypeSafe_None:
  assumes v: "validateTypeSafe c = None" and "TypeSafe_Enabled c"
  shows "validProbability (cy_spam_threshold (TypeSafe_WithDefaults c)) \<and> validProbability (cy_phishing_threshold (TypeSafe_WithDefaults c))
    \<and> 0 < cy_max_text_bytes (TypeSafe_WithDefaults c) \<and> 0 < cy_max_in_flight (TypeSafe_WithDefaults c)
    \<and> 100 * millisecond \<le> TypeSafe_Timeout c \<and> TypeSafe_Timeout c \<le> 10 * second
    \<and> \<not> blank (cy_api_key c) \<and> 0 \<le> cy_max_text_bytes c \<and> 0 \<le> cy_max_in_flight c \<and> 0 \<le> cy_max_requests_per_minute c"
proof -
  have "\<not> (to_lower (trim_space (cy_mode c)) = [] \<or> to_lower (trim_space (cy_mode c)) = ''off'')"
    using assms(2) by (auto simp: TypeSafe_Enabled_def)
  with v have f: "\<not> blank (cy_api_key (TypeSafe_WithDefaults c))"
      "\<not> (cy_timeout_ms c \<noteq> 0 \<and> (cy_timeout_ms c < 100 \<or> 10000 < cy_timeout_ms c))"
      "\<not> cy_max_text_bytes c < 0" "\<not> cy_max_in_flight c < 0" "\<not> cy_max_requests_per_minute c < 0"
      "\<not> (cy_spam_threshold c \<noteq> Fin 0 \<and> \<not> validProbability (cy_spam_threshold c))"
      "\<not> (cy_phishing_threshold c \<noteq> Fin 0 \<and> \<not> validProbability (cy_phishing_threshold c))"
    unfolding validateTypeSafe_def Let_def by (simp_all only: if_False if_Some_None not_False_eq_True)
  have p: "validProbability (Fin (98 / 100))" by (simp add: validProbability_def)
  have t: "100 \<le> cy_timeout_ms (TypeSafe_WithDefaults c) \<and> cy_timeout_ms (TypeSafe_WithDefaults c) \<le> 10000"
    using f(2) by auto
  then have "wrap64 (cy_timeout_ms (TypeSafe_WithDefaults c) * millisecond) = cy_timeout_ms (TypeSafe_WithDefaults c) * millisecond"
    by (intro wrap64_id) (simp add: int64_range_def del: TypeSafe_defaults)
  with f p t show ?thesis by (auto simp: TypeSafe_Timeout_def)
qed

section \<open>The rules of a loaded configuration\<close>

text \<open>
  The settings a running server cannot do without: the listeners, the identity, the database, the object store.
\<close>

definition required_settings :: "config \<Rightarrow> string list" where
  "required_settings c =
     [cs_api_addr (cfg_server c), cs_public_hostname (cfg_server c), cs_instance_name (cfg_server c),
      cm_inbound_addr (cfg_smtp c), ci_addr (cfg_imap c), cb_starttls_addr (cfg_submission c), cb_tls_addr (cfg_submission c),
      cr_addr (cfg_relay c),
      c3_endpoint (cfg_s3 c), c3_bucket (cfg_s3 c), c3_access_key_id (cfg_s3 c), c3_secret_access_key (cfg_s3 c)]"

text \<open>The settings that only a part of the server needs, when that part is switched on.\<close>

definition conditional_settings :: "config \<Rightarrow> string list" where
  "conditional_settings c =
     (if cl_axiom_enabled (cfg_logging c) then [cl_axiom_dataset (cfg_logging c), cl_axiom_token (cfg_logging c)] else [])
     @ (if to_lower (trim_space (ct_mode (cfg_tls c))) = ''acme'' then [ct_acme_email (cfg_tls c)] else [])
     @ (if to_lower (trim_space (ct_mode (cfg_tls c))) = ''storage''
        then [cg_endpoint (ct_storage (cfg_tls c)), cg_bucket (ct_storage (cfg_tls c)),
              cg_access_key_id (ct_storage (cfg_tls c)), cg_secret_access_key (ct_storage (cfg_tls c))] else [])
     @ (if ck_endpoints (cfg_webhooks c) \<noteq> [] then [ck_secret (cfg_webhooks c)] else [])
     @ (if TypeSafe_Enabled (cf_typesafe (cfg_spam c)) then [cy_api_key (cf_typesafe (cfg_spam c))] else [])"

text \<open>The counts for which zero means ``use the default''.\<close>

definition counted_settings :: "config \<Rightarrow> int list" where
  "counted_settings c =
     [cm_max_message_size_bytes (cfg_smtp c), cm_max_inbound_recipients (cfg_smtp c), cw_concurrency (cfg_workers c),
      ct_acme_http_port (cfg_tls c), ct_acme_tls_alpn_port (cfg_tls c),
      cz_max_message_size_bytes (cfg_limits c), cz_max_inbound_recipients (cfg_limits c), cz_max_submission_recipients (cfg_limits c),
      cz_max_connections_per_ip (cfg_limits c), cz_max_inbound_connections (cfg_limits c),
      cz_inbound_messages_per_minute_per_ip (cfg_limits c), ci_max_connections_per_ip (cfg_imap c),
      cr_max_attempts (cfg_relay c), cr_max_retry_minutes (cfg_relay c), cr_timeout_seconds (cfg_relay c),
      ck_max_attempts (cfg_webhooks c), cn_timeout_seconds (cfg_notifications c), cn_max_response_bytes (cfg_notifications c)]
     @ (if to_lower (trim_space (ct_mode (cfg_tls c))) = ''storage'' then [cg_refresh_interval_minutes (ct_storage (cfg_tls c))] else [])
     @ (if TypeSafe_Enabled (cf_typesafe (cfg_spam c))
        then [cy_max_text_bytes (cf_typesafe (cfg_spam c)), cy_max_in_flight (cf_typesafe (cfg_spam c)),
              cy_max_requests_per_minute (cf_typesafe (cfg_spam c))] else [])"

text \<open>The outbound limits, whose zero \<^verbatim>\<open>Load\<close> has already replaced.\<close>

definition outbound_limits :: "limits_config \<Rightarrow> int list" where
  "outbound_limits l =
     [cz_default_outbound_per_hour l, cz_default_outbound_per_day l, cz_default_outbound_recipients l,
      cz_domain_outbound_per_hour l, cz_domain_outbound_per_day l, cz_domain_outbound_recipients l]"

lemmas settings_defs = required_settings_def conditional_settings_def counted_settings_def

lemma mode_folded: "equal_fold s ''acme'' \<longleftrightarrow> to_lower s = ''acme''" "equal_fold s ''storage'' \<longleftrightarrow> to_lower s = ''storage''"
proof -
  have "to_lower ''acme'' = ''acme''" "to_lower ''storage'' = ''storage''" by code_simp+
  then show "equal_fold s ''acme'' \<longleftrightarrow> to_lower s = ''acme''" "equal_fold s ''storage'' \<longleftrightarrow> to_lower s = ''storage''"
    by (simp_all add: equal_fold_def)
qed

lemma typesafe_mode:
  "validateTypeSafe t = None \<Longrightarrow> to_lower (trim_space (cy_mode t)) \<in> {[], ''off'', ''shadow'', ''junk''}"
  by (auto simp: validateTypeSafe_def Let_def split: if_splits)

lemma required_present:
  "server_problems c = [] \<Longrightarrow> storage_problems c = [] \<Longrightarrow> list_all (\<lambda>s. \<not> blank s) (required_settings c)"
  unfolding server_problems_def storage_problems_def required_settings_def append_is_Nil_conv problem_Nil by simp

lemma typesafe_checked:
  assumes "service_problems v c = []"
  shows "validateTypeSafe (cf_typesafe (cfg_spam c)) = None"
  using assms by (auto simp: service_problems_def split: option.splits)

lemma conditional_present:
  assumes "storage_problems c = []" "tls_problems (cfg_tls c) = []" "service_problems v c = []"
  shows "list_all (\<lambda>s. \<not> blank s) (conditional_settings c)"
proof -
  note ts = validateTypeSafe_None [OF typesafe_checked [OF assms(3)]]
  have "cl_axiom_enabled (cfg_logging c) \<longrightarrow> \<not> blank (cl_axiom_dataset (cfg_logging c)) \<and> \<not> blank (cl_axiom_token (cfg_logging c))"
    using assms(1) by (auto simp: storage_problems_def)
  moreover have "to_lower (trim_space (ct_mode (cfg_tls c))) = ''acme'' \<longrightarrow> \<not> blank (ct_acme_email (cfg_tls c))"
      "to_lower (trim_space (ct_mode (cfg_tls c))) = ''storage'' \<longrightarrow>
        \<not> blank (cg_endpoint (ct_storage (cfg_tls c))) \<and> \<not> blank (cg_bucket (ct_storage (cfg_tls c)))
        \<and> \<not> blank (cg_access_key_id (ct_storage (cfg_tls c))) \<and> \<not> blank (cg_secret_access_key (ct_storage (cfg_tls c)))"
    using assms(2) unfolding tls_problems_def by (auto simp: mode_folded)
  moreover have "ck_endpoints (cfg_webhooks c) \<noteq> [] \<longrightarrow> \<not> blank (ck_secret (cfg_webhooks c))"
    using assms(3) by (auto simp: service_problems_def)
  moreover have "TypeSafe_Enabled (cf_typesafe (cfg_spam c)) \<longrightarrow> \<not> blank (cy_api_key (cf_typesafe (cfg_spam c)))"
    using ts by simp
  ultimately show ?thesis by (simp add: conditional_settings_def)
qed

lemma counts_nonnegative:
  assumes "server_problems c = []" "storage_problems c = []" "tls_problems (cfg_tls c) = []" "limit_problems c = []"
    and "service_problems v c = []"
  shows "list_all (\<lambda>n. 0 \<le> n) (counted_settings c)"
proof -
  note ts = validateTypeSafe_None [OF typesafe_checked [OF assms(5)]]
  have "to_lower (trim_space (ct_mode (cfg_tls c))) = ''storage'' \<longrightarrow> 0 \<le> cg_refresh_interval_minutes (ct_storage (cfg_tls c))"
    using assms(3) unfolding tls_problems_def by (auto simp: mode_folded)
  moreover have "0 \<le> ct_acme_http_port (cfg_tls c)" "0 \<le> ct_acme_tls_alpn_port (cfg_tls c)"
    using assms(3) unfolding tls_problems_def append_is_Nil_conv problem_Nil by simp_all
  moreover have "0 \<le> cw_concurrency (cfg_workers c)"
    using assms(2) unfolding storage_problems_def append_is_Nil_conv problem_Nil by simp
  moreover have "0 \<le> cn_timeout_seconds (cfg_notifications c)" "0 \<le> cn_max_response_bytes (cfg_notifications c)"
    using assms(5) unfolding service_problems_def append_is_Nil_conv problem_Nil by simp_all
  moreover have "0 \<le> cm_max_message_size_bytes (cfg_smtp c)" "0 \<le> cm_max_inbound_recipients (cfg_smtp c)"
    using assms(1) unfolding server_problems_def append_is_Nil_conv problem_Nil by simp_all
  ultimately show ?thesis
    using assms(4) ts unfolding limit_problems_def Let_def append_is_Nil_conv problem_Nil counted_settings_def
    by simp
qed

lemma outbound_positive:
  assumes "limit_problems c = []" and "cfg_limits c = withOutboundDefaults l"
  shows "list_all (\<lambda>n. 0 < n) (outbound_limits (cfg_limits c))"
  using assms(1) unfolding assms(2) limit_problems_def Let_def append_is_Nil_conv problem_Nil outbound_limits_def
  by (auto simp: withOutboundDefaults_def Let_def)

section \<open>Properties\<close>

text \<open>
  C31.  A configuration that \<^verbatim>\<open>Load\<close> returns meets every rule its users rely on.  Every setting the server cannot do
  without is there (listeners, identity, data source, object store), and so is every setting of a part that is switched on
  (Axiom, ACME, shared TLS storage, webhooks, TypeSafe); the database driver, the TLS mode and the TypeSafe mode are known
  ones; an import root is an absolute path; a sender address for notifications is an address; no count is negative, the
  outbound limits have their defaults in place of zero, the spam thresholds are not negative (a \<^verbatim>\<open>NaN\<close> passes the
  comparison of the code), and with TypeSafe on its thresholds are probabilities in (0, 1] and its time limit is between 100
  milliseconds and ten seconds.  Nothing but the outbound limits differs from the decoded module.
\<close>

theorem loaded_config:
  assumes "Load validAddress decoded = Inr c"
  shows "list_all (\<lambda>s. \<not> blank s) (required_settings c) \<and> list_all (\<lambda>s. \<not> blank s) (conditional_settings c)
    \<and> cd_driver (EffectiveDatabase c) \<in> {''postgres'', ''sqlite'', ''libsql''} \<and> cd_dsn (EffectiveDatabase c) \<noteq> []
    \<and> to_lower (trim_space (ct_mode (cfg_tls c))) \<in> {[], ''manual'', ''acme'', ''storage'', ''off'', ''disabled''}
    \<and> to_lower (trim_space (cy_mode (cf_typesafe (cfg_spam c)))) \<in> {[], ''off'', ''shadow'', ''junk''}
    \<and> (blank (cw_maildir_import_root (cfg_workers c)) \<or> has_prefix (trim_space (cw_maildir_import_root (cfg_workers c))) ''/'')
    \<and> (blank (cn_from_address (cfg_notifications c)) \<or> validAddress (cn_from_address (cfg_notifications c)))
    \<and> list_all (\<lambda>n. 0 \<le> n) (counted_settings c) \<and> list_all (\<lambda>n. 0 < n) (outbound_limits (cfg_limits c))
    \<and> \<not> f64_lt (cf_junk_threshold (cfg_spam c)) (Fin 0) \<and> \<not> f64_lt (cf_reject_threshold (cfg_spam c)) (Fin 0)
    \<and> \<not> f64_lt (cf_dnsbl_score (cfg_spam c)) (Fin 0)
    \<and> (TypeSafe_Enabled (cf_typesafe (cfg_spam c)) \<longrightarrow>
        validProbability (cy_spam_threshold (TypeSafe_WithDefaults (cf_typesafe (cfg_spam c))))
        \<and> validProbability (cy_phishing_threshold (TypeSafe_WithDefaults (cf_typesafe (cfg_spam c))))
        \<and> 100 * millisecond \<le> TypeSafe_Timeout (cf_typesafe (cfg_spam c)) \<and> TypeSafe_Timeout (cf_typesafe (cfg_spam c)) \<le> 10 * second)
    \<and> (\<exists>c0. decoded = Inr c0 \<and> c = c0\<lparr>cfg_limits := withOutboundDefaults (cfg_limits c0)\<rparr>)"
proof -
  from assms obtain c0 where c0: "decoded = Inr c0" "c = c0\<lparr>cfg_limits := withOutboundDefaults (cfg_limits c0)\<rparr>"
      and v: "Validate validAddress c = None"
    unfolding Load_Inr by blast
  from v have p: "server_problems c = []" "storage_problems c = []" "tls_problems (cfg_tls c) = []" "limit_problems c = []"
      "service_problems validAddress c = []"
    by (simp_all add: Validate_None)
  have l: "cfg_limits c = withOutboundDefaults (cfg_limits c0)" by (simp add: c0)
  note ts = validateTypeSafe_None [OF typesafe_checked [OF p(5)]]
  have services: "blank (cn_from_address (cfg_notifications c)) \<or> validAddress (cn_from_address (cfg_notifications c))"
      "\<not> f64_lt (cf_junk_threshold (cfg_spam c)) (Fin 0)" "\<not> f64_lt (cf_reject_threshold (cfg_spam c)) (Fin 0)"
    using p(5) unfolding service_problems_def append_is_Nil_conv problem_Nil by simp_all
  have limits: "\<not> f64_lt (cf_dnsbl_score (cfg_spam c)) (Fin 0)"
    using p(4) unfolding limit_problems_def Let_def append_is_Nil_conv problem_Nil by simp
  have storage: "cd_driver (EffectiveDatabase c) \<in> {''postgres'', ''sqlite'', ''libsql''}" "cd_dsn (EffectiveDatabase c) \<noteq> []"
      "blank (cw_maildir_import_root (cfg_workers c)) \<or> has_prefix (trim_space (cw_maildir_import_root (cfg_workers c))) ''/''"
    using p(2) unfolding storage_problems_def Let_def append_is_Nil_conv problem_Nil by blast+
  have mode: "to_lower (trim_space (ct_mode (cfg_tls c))) \<in> {[], ''manual'', ''acme'', ''storage'', ''off'', ''disabled''}"
    using p(3) unfolding tls_problems_def append_is_Nil_conv problem_Nil by blast
  show ?thesis
    using required_present [OF p(1,2)] conditional_present [OF p(2,3,5)] counts_nonnegative [OF p] outbound_positive [OF p(4) l]
      services limits storage mode typesafe_mode [OF typesafe_checked [OF p(5)]] ts c0 by blast
qed

definition sample_config :: config where
  "sample_config = \<lparr>cfg_server = \<lparr>cs_api_addr = '':8080'', cs_public_hostname = ''mx.example.org'', cs_instance_name = ''n1'', cs_shutdown_timeout_seconds = 0\<rparr>,
     cfg_smtp = \<lparr>cm_inbound_addr = '':25'', cm_max_message_size_bytes = 0, cm_max_inbound_recipients = 0\<rparr>,
     cfg_imap = \<lparr>ci_addr = '':143'', ci_tls_addr = [], ci_max_connections_per_ip = 0, ci_allow_insecure_auth = False\<rparr>,
     cfg_submission = \<lparr>cb_starttls_addr = '':587'', cb_tls_addr = '':465'', cb_allow_insecure_auth = False\<rparr>,
     cfg_relay = \<lparr>cr_addr = ''r:25'', cr_username = [], cr_password = [], cr_from_host = [], cr_max_attempts = 0, cr_max_retry_minutes = 0, cr_timeout_seconds = 0\<rparr>,
     cfg_database = \<lparr>cd_driver = [], cd_dsn = [], cd_auth_token = [], cd_namespace = []\<rparr>, cfg_postgres_dsn = ''postgres://db'',
     cfg_s3 = \<lparr>c3_endpoint = ''s3'', c3_region = [], c3_bucket = ''b'', c3_access_key_id = ''k'', c3_secret_access_key = ''s'', c3_use_ssl = True\<rparr>,
     cfg_logging = \<lparr>cl_level = [], cl_axiom_enabled = False, cl_axiom_dataset = [], cl_axiom_token = [], cl_axiom_url = []\<rparr>,
     cfg_metrics_enabled = True, cfg_api_service_token = ''t'',
     cfg_workers = \<lparr>cw_enabled = True, cw_concurrency = 1, cw_maildir_import_root = []\<rparr>,
     cfg_tls = \<lparr>ct_mode = ''off'', ct_cert_file = [], ct_key_file = [], ct_acme_email = [], ct_acme_ca = [], ct_acme_cache_path = [],
       ct_acme_listen_host = [], ct_acme_http_port = 0, ct_acme_tls_alpn_port = 0, ct_acme_disable_http_challenge = False,
       ct_acme_disable_tls_alpn_challenge = False, ct_acme_disable_distributed_solvers = False, ct_acme_cloudflare_api_token = [],
       ct_storage = \<lparr>cg_endpoint = [], cg_region = [], cg_bucket = [], cg_access_key_id = [], cg_secret_access_key = [], cg_use_ssl = False,
         cg_prefix = [], cg_issuer = [], cg_hostnames = [], cg_refresh_interval_minutes = 0\<rparr>\<rparr>,
     cfg_webhooks = \<lparr>ck_default_timeout_seconds = 0, ck_secret = [], ck_endpoints = [], ck_max_attempts = 0\<rparr>,
     cfg_notifications = \<lparr>cn_from_address = [], cn_render_url = [], cn_render_secret = [], cn_timeout_seconds = 0, cn_max_response_bytes = 0\<rparr>,
     cfg_spam = \<lparr>cf_junk_threshold = Fin 0, cf_reject_threshold = Fin 0, cf_dnsbl_zones = [], cf_dnsbl_score = Fin 0, cf_require_helo = False,
       cf_typesafe = \<lparr>cy_mode = ''Junk'', cy_api_key = ''k'', cy_model = [], cy_timeout_ms = 0, cy_max_text_bytes = 0, cy_max_in_flight = 0,
         cy_max_requests_per_minute = 0, cy_spam_threshold = Fin 0, cy_phishing_threshold = Fin 0\<rparr>\<rparr>,
     cfg_limits = \<lparr>cz_max_message_size_bytes = 0, cz_max_inbound_recipients = 0, cz_max_submission_recipients = 0, cz_max_connections_per_ip = 0,
       cz_max_inbound_connections = 0, cz_inbound_messages_per_minute_per_ip = 0, cz_default_outbound_per_hour = 0,
       cz_default_outbound_per_day = 0, cz_default_outbound_recipients = 0, cz_domain_outbound_per_hour = 0,
       cz_domain_outbound_per_day = 0, cz_domain_outbound_recipients = 0\<rparr>,
     cfg_imports = \<lparr>cx_allowed_hosts = [], cx_insecure_tls_hosts = []\<rparr>\<rparr>"

theorem loaded_config_witness:
  "\<exists>c. Load (\<lambda>_. True) (Inr sample_config) = Inr c \<and> cd_driver (EffectiveDatabase c) \<in> {''postgres'', ''sqlite'', ''libsql''}
    \<and> cz_domain_outbound_per_hour (cfg_limits c) = 200"
proof -
  have "case Load (\<lambda>_. True) (Inr sample_config) of Inl _ \<Rightarrow> False | Inr c \<Rightarrow> cz_domain_outbound_per_hour (cfg_limits c) = 200"
    by code_simp
  then obtain c where c: "Load (\<lambda>_. True) (Inr sample_config) = Inr c" "cz_domain_outbound_per_hour (cfg_limits c) = 200"
    by (auto split: sum.splits)
  with loaded_config [OF c(1)] show ?thesis by blast
qed

text \<open>
  C32.  The waiting time before a retry doubles from one minute up to the maximum of the policy and stays there: no attempt
  number makes it shorter, negative or longer.  The bound excludes maxima at which the doubled \<^verbatim>\<open>int64\<close> would wrap.
\<close>

theorem retry_delay:
  assumes "0 \<le> attempt" and "minute \<le> rp_max_delay p" and "rp_max_delay p \<le> 2 ^ 62"
  shows "Delay p attempt = min (minute * 2 ^ nat attempt) (rp_max_delay p) \<and> Delay p attempt \<le> Delay p (attempt + 1)"
proof -
  have d: "Delay p n = min (minute * 2 ^ nat n) (rp_max_delay p)" if "0 \<le> n" for n
  proof (cases "minute < rp_max_delay p")
    case True
    with delay_loop_closed [of minute "rp_max_delay p" "nat n"] assms(3) show ?thesis by (simp add: Delay_def)
  next
    case False
    with assms have m: "rp_max_delay p = minute" by simp
    have "delay_loop minute k minute = minute" for k
      by (cases k) (simp_all add: Let_def int64_range_def)
    moreover have "min (minute * 2 ^ nat n) minute = (minute :: int)" by (intro min_absorb2) simp
    ultimately show ?thesis by (simp only: Delay_def m)
  qed
  have "(minute :: int) * 2 ^ nat attempt \<le> minute * 2 ^ nat (attempt + 1)"
    using assms(1) by (simp add: nat_add_distrib)
  from min.mono [OF this order_refl] d [of attempt] d [of "attempt + 1"] assms(1) show ?thesis by simp
qed

text \<open>The policies of the relay and of the webhooks are within the bounds; the minutes of a relay must be below 76 million.\<close>

lemma policies_in_range:
  "cr_max_retry_minutes c \<le> 76000000 \<Longrightarrow> 0 \<le> cr_max_retry_minutes c \<Longrightarrow>
    minute \<le> rp_max_delay (Relay_RetryPolicy c) \<and> rp_max_delay (Relay_RetryPolicy c) \<le> 2 ^ 62"
  "minute \<le> rp_max_delay (Webhook_RetryPolicy w) \<and> rp_max_delay (Webhook_RetryPolicy w) \<le> 2 ^ 62"
  by (auto simp: Relay_RetryPolicy_def Webhook_RetryPolicy_def int64_range_def Let_def)

theorem retry_delay_witness:
  "Delay (Webhook_RetryPolicy \<lparr>ck_default_timeout_seconds = 0, ck_secret = [], ck_endpoints = [], ck_max_attempts = 0\<rparr>) 40 = hour"
proof -
  let ?p = "Webhook_RetryPolicy \<lparr>ck_default_timeout_seconds = 0, ck_secret = [], ck_endpoints = [], ck_max_attempts = 0\<rparr>"
  have m: "rp_max_delay ?p = hour" by (simp add: Webhook_RetryPolicy_def)
  have "Delay ?p 40 = min (minute * 2 ^ nat 40) (rp_max_delay ?p)"
    using retry_delay [of 40 ?p] unfolding m by fastforce
  then show ?thesis unfolding m by simp
qed

text \<open>
  A reload asks for a restart exactly when it changes something the running server cannot take over: the database, the
  object store, the identity, a listener, TLS (compared field by field in the source) or whether workers run.
\<close>

theorem reload_needs_restart:
  "RequiresRestart (ReloadImpact c (Some n)) \<longleftrightarrow>
     (EffectiveDatabase c, cfg_s3 c, cs_api_addr (cfg_server c), cs_public_hostname (cfg_server c), cs_instance_name (cfg_server c),
      cm_inbound_addr (cfg_smtp c), ci_addr (cfg_imap c), ci_tls_addr (cfg_imap c), cfg_submission c, cfg_tls c, cw_enabled (cfg_workers c))
     \<noteq> (EffectiveDatabase n, cfg_s3 n, cs_api_addr (cfg_server n), cs_public_hostname (cfg_server n), cs_instance_name (cfg_server n),
      cm_inbound_addr (cfg_smtp n), ci_addr (cfg_imap n), ci_tls_addr (cfg_imap n), cfg_submission n, cfg_tls n, cw_enabled (cfg_workers n))"
  unfolding RequiresRestart_def ReloadImpact_def option.case append_is_Nil_conv problem_Nil TLS_equal_iff prod.inject
  by blast

end
