(* ===== verification/Mime.thy ===== *)
theory Mime
  imports World
begin

text \<open>
  The bounded walk over the MIME tree of a message, \<^verbatim>\<open>internal/mailparse/limits.go\<close>, and the extraction of metadata and
  attachments from it, \<^verbatim>\<open>internal/mailparse/mailparse.go\<close>.  What the go-message library reads out of the bytes
  is a value: the header as \<open>header_view\<close>, the body as a tree of items, each a part, a multipart or an error of
  the library.  The library itself is the parameter \<open>mime_lib\<close>.
\<close>

section \<open>What the library reads\<close>

record mime_part =
  mp_disposition :: string
  mp_type :: "string option"
  mp_filename :: string
  mp_body :: string
  mp_body_error :: bool

datatype item = Leaf mime_part bool | Multi "item list" | Broken err

record header_view =
  hv_message_id :: "string option"
  hv_fields :: "(string \<times> string) list"
  hv_addresses :: "string \<Rightarrow> string list option"
  hv_subject :: "string option"
  hv_date :: "time option"

type_synonym mime_lib = "string \<Rightarrow> (header_view \<times> item) option"

section \<open>The bounded reader\<close>

definition MaxParts :: nat where "MaxParts = 256"
definition MaxDepth :: nat where "MaxDepth = 8"
definition MaxAttachments :: nat where "MaxAttachments = 64"
definition extractLimit :: nat where "extractLimit = 8192"

definition ErrTooManyParts :: err where "ErrTooManyParts = ErrText ''mailparse: too many MIME parts''"
definition ErrTooDeep :: err where "ErrTooDeep = ErrText ''mailparse: MIME nesting too deep''"

text \<open>The levels with the innermost first: what is left of the multipart, and its depth.\<close>

record bounded_reader =
  br_levels :: "(item list \<times> nat) list"
  br_visited :: nat

definition newBoundedReader :: "item \<Rightarrow> bounded_reader" where
  "newBoundedReader entity = \<lparr>br_levels = [((case entity of Multi ps \<Rightarrow> ps | _ \<Rightarrow> [entity]), 0)], br_visited = 0\<rparr>"

datatype next_result = EOF | NextErr err | NextPart mime_part bool

function next_part :: "(item list \<times> nat) list \<Rightarrow> nat \<Rightarrow> next_result \<times> bounded_reader" where
  "next_part levels visited =
     (case levels of
        [] \<Rightarrow> (EOF, \<lparr>br_levels = [], br_visited = visited\<rparr>)
      | (items, depth) # outer \<Rightarrow>
          if MaxParts \<le> visited then (NextErr ErrTooManyParts, \<lparr>br_levels = levels, br_visited = visited\<rparr>) else
          (case items of
             [] \<Rightarrow> next_part outer visited
           | Broken e # rest \<Rightarrow> (NextErr e, \<lparr>br_levels = (rest, depth) # outer, br_visited = visited\<rparr>)
           | Leaf p unknown # rest \<Rightarrow> (NextPart p unknown, \<lparr>br_levels = (rest, depth) # outer, br_visited = visited + 1\<rparr>)
           | Multi ps # rest \<Rightarrow>
               if MaxDepth < depth + 1 then (NextErr ErrTooDeep, \<lparr>br_levels = (rest, depth) # outer, br_visited = visited + 1\<rparr>)
               else next_part ((ps, depth + 1) # (rest, depth) # outer) (visited + 1)))"
  by pat_completeness auto
termination
  by (relation "measure (\<lambda>(levels, _). \<Sum>(items, _)\<leftarrow>levels. 1 + size_list size items)") auto

declare next_part.simps [simp del]

definition NextPart_of :: "bounded_reader \<Rightarrow> next_result \<times> bounded_reader" where
  "NextPart_of r = next_part (br_levels r) (br_visited r)"

definition inline_part :: "mime_part \<Rightarrow> bool" where
  "inline_part p = (mp_disposition p = ''inline''
     \<or> (mp_disposition p \<noteq> ''attachment'' \<and> has_prefix (case mp_type p of None \<Rightarrow> [] | Some t \<Rightarrow> t) ''text/''))"

section \<open>Metadata\<close>

record attachment_meta =
  am_part_index :: nat
  am_filename :: string
  am_content_type :: string
  am_size :: nat

record metadata =
  md_rfc_message_id :: string
  md_headers :: "(string \<times> string list) list"
  md_from :: "string list"
  md_to :: "string list"
  md_cc :: "string list"
  md_bcc :: "string list"
  md_subject :: string
  md_date :: "time option"
  md_text :: string
  md_html :: string
  md_attachments :: "attachment_meta list"

text \<open>\<^verbatim>\<open>values[key] = append(values[key], value)\<close> over the fields.\<close>

fun add_value :: "string \<Rightarrow> string \<Rightarrow> (string \<times> string list) list \<Rightarrow> (string \<times> string list) list" where
  "add_value k v [] = [(k, [v])]"
| "add_value k v (kv # m) = (if fst kv = k then (k, snd kv @ [v]) # m else kv # add_value k v m)"

definition headerMap :: "header_view \<Rightarrow> (string \<times> string list) list" where
  "headerMap h = foldl (\<lambda>m kv. add_value (fst kv) (snd kv) m) [] (hv_fields h)"

definition headerMessageID :: "header_view \<Rightarrow> string" where
  "headerMessageID h = (case hv_message_id h of None \<Rightarrow> [] | Some i \<Rightarrow> i)"

definition headerText :: "header_view \<Rightarrow> string" where
  "headerText h = (case hv_subject h of None \<Rightarrow> [] | Some s \<Rightarrow> s)"

definition addressList :: "header_view \<Rightarrow> string \<Rightarrow> string list" where
  "addressList h key = (case hv_addresses h key of None \<Rightarrow> [] | Some as \<Rightarrow> map to_lower as)"

definition partContentType :: "mime_part \<Rightarrow> string" where
  "partContentType p = (if \<not> inline_part p then [] else case mp_type p of None \<Rightarrow> [] | Some t \<Rightarrow> t)"

definition attachmentMetadata :: "mime_part \<Rightarrow> nat \<Rightarrow> attachment_meta option" where
  "attachmentMetadata p partIndex =
     (if inline_part p then None else Some \<lparr>am_part_index = partIndex, am_filename = mp_filename p,
        am_content_type = (case mp_type p of None \<Rightarrow> [] | Some t \<Rightarrow> t), am_size = length (mp_body p)\<rparr>)"

definition readExtract :: "mime_part \<Rightarrow> string" where
  "readExtract p = (if length (mp_body p) < extractLimit \<and> mp_body_error p then [] else take extractLimit (mp_body p))"

text \<open>One turn of the loop of \<^verbatim>\<open>Parse\<close> on a part.\<close>

definition parse_part :: "nat \<Rightarrow> mime_part \<Rightarrow> metadata \<Rightarrow> metadata" where
  "parse_part partIndex p m =
     (case attachmentMetadata p partIndex of
        Some a \<Rightarrow> if MaxAttachments \<le> length (md_attachments m) then m else m\<lparr>md_attachments := md_attachments m @ [a]\<rparr>
      | None \<Rightarrow>
          let contentType = partContentType p;
              body = readExtract p;
              m1 = (if contentType = ''text/plain'' \<and> md_text m = [] then m\<lparr>md_text := body\<rparr> else m)
          in if contentType = ''text/html'' \<and> md_html m1 = [] then m1\<lparr>md_html := body\<rparr> else m1)"

lemma next_part_simps [simp]:
  "next_part [] v = (EOF, \<lparr>br_levels = [], br_visited = v\<rparr>)"
  "MaxParts \<le> v \<Longrightarrow> next_part (l # outer) v = (NextErr ErrTooManyParts, \<lparr>br_levels = l # outer, br_visited = v\<rparr>)"
  "v < MaxParts \<Longrightarrow> next_part (([], d) # outer) v = next_part outer v"
  "v < MaxParts \<Longrightarrow> next_part ((Broken e # rest, d) # outer) v
     = (NextErr e, \<lparr>br_levels = (rest, d) # outer, br_visited = v\<rparr>)"
  "v < MaxParts \<Longrightarrow> next_part ((Leaf p u # rest, d) # outer) v
     = (NextPart p u, \<lparr>br_levels = (rest, d) # outer, br_visited = v + 1\<rparr>)"
  "v < MaxParts \<Longrightarrow> MaxDepth < d + 1 \<Longrightarrow> next_part ((Multi ps # rest, d) # outer) v
     = (NextErr ErrTooDeep, \<lparr>br_levels = (rest, d) # outer, br_visited = v + 1\<rparr>)"
  "v < MaxParts \<Longrightarrow> d + 1 \<le> MaxDepth \<Longrightarrow> next_part ((Multi ps # rest, d) # outer) v
     = next_part ((ps, d + 1) # (rest, d) # outer) (v + 1)"
  by (subst next_part.simps; auto split: prod.split)+

lemma next_part_cases [case_names finished full eof broken leaf deep multi]:
  assumes "levels = [] \<Longrightarrow> P"
    and "\<And>l outer. levels = l # outer \<Longrightarrow> MaxParts \<le> v \<Longrightarrow> P"
    and "\<And>d outer. levels = ([], d) # outer \<Longrightarrow> v < MaxParts \<Longrightarrow> P"
    and "\<And>e rest d outer. levels = (Broken e # rest, d) # outer \<Longrightarrow> v < MaxParts \<Longrightarrow> P"
    and "\<And>p u rest d outer. levels = (Leaf p u # rest, d) # outer \<Longrightarrow> v < MaxParts \<Longrightarrow> P"
    and "\<And>ps rest d outer. levels = (Multi ps # rest, d) # outer \<Longrightarrow> v < MaxParts \<Longrightarrow> MaxDepth < d + 1 \<Longrightarrow> P"
    and "\<And>ps rest d outer. levels = (Multi ps # rest, d) # outer \<Longrightarrow> v < MaxParts \<Longrightarrow> d + 1 \<le> MaxDepth \<Longrightarrow> P"
  shows P
proof (cases levels)
  case Nil
  with assms(1) show ?thesis .
next
  case (Cons l outer)
  obtain items d where l: "l = (items, d)" by (cases l)
  show ?thesis
  proof (cases "v < MaxParts")
    case False
    with Cons assms(2) show ?thesis by simp
  next
    case True
    show ?thesis
    proof (cases items)
      case Nil
      with Cons l True assms(3) show ?thesis by simp
    next
      case (Cons i rest)
      with \<open>levels = l # outer\<close> l True show ?thesis
        using assms(4-7) by (cases i; cases "d + 1 \<le> MaxDepth") auto
    qed
  qed
qed

lemma next_part_induct [case_names finished full eof broken leaf deep multi]:
  assumes "\<And>v. P [] v"
    and "\<And>l outer v. MaxParts \<le> v \<Longrightarrow> P (l # outer) v"
    and "\<And>d outer v. v < MaxParts \<Longrightarrow> P outer v \<Longrightarrow> P (([], d) # outer) v"
    and "\<And>e rest d outer v. v < MaxParts \<Longrightarrow> P ((Broken e # rest, d) # outer) v"
    and "\<And>p u rest d outer v. v < MaxParts \<Longrightarrow> P ((Leaf p u # rest, d) # outer) v"
    and "\<And>ps rest d outer v. v < MaxParts \<Longrightarrow> MaxDepth < d + 1 \<Longrightarrow> P ((Multi ps # rest, d) # outer) v"
    and "\<And>ps rest d outer v. v < MaxParts \<Longrightarrow> d + 1 \<le> MaxDepth
      \<Longrightarrow> P ((ps, d + 1) # (rest, d) # outer) (v + 1) \<Longrightarrow> P ((Multi ps # rest, d) # outer) v"
  shows "P levels v"
proof (induction "\<Sum>(items, _ :: nat)\<leftarrow>levels. 1 + size_list size items" arbitrary: levels v rule: less_induct)
  case (less levels v)
  show ?case
  proof (cases rule: next_part_cases [where levels = levels and v = v])
    case (eof d outer)
    then have "P outer v" by (intro less) simp
    with eof assms(3) show ?thesis by simp
  next
    case (multi ps rest d outer)
    then have "P ((ps, d + 1) # (rest, d) # outer) (v + 1)" by (intro less) simp
    with multi assms(7) show ?thesis by simp
  qed (use assms in simp_all)
qed

lemma next_part_visited:
  "next_part levels visited = (NextPart p u, r) \<Longrightarrow> visited < br_visited r \<and> br_visited r \<le> MaxParts"
  by (induction levels visited rule: next_part_induct) (auto simp: Suc_le_eq)

function parse_loop :: "nat \<Rightarrow> metadata \<Rightarrow> bounded_reader \<Rightarrow> metadata" where
  "parse_loop partIndex m r =
     (case NextPart_of r of
        (NextPart p unknown, r') \<Rightarrow> if unknown then m else parse_loop (partIndex + 1) (parse_part (partIndex + 1) p m) r'
      | _ \<Rightarrow> m)"
  by pat_completeness auto
termination
  by (relation "measure (\<lambda>(_, _, r). MaxParts - br_visited r)")
     (auto simp: NextPart_of_def dest!: sym [of _ "next_part _ _"] next_part_visited)

declare parse_loop.simps [simp del]

definition empty_metadata :: metadata where
  "empty_metadata = \<lparr>md_rfc_message_id = [], md_headers = [], md_from = [], md_to = [], md_cc = [], md_bcc = [],
     md_subject = [], md_date = None, md_text = [], md_html = [], md_attachments = []\<rparr>"

definition Parse :: "mime_lib \<Rightarrow> string \<Rightarrow> metadata" where
  "Parse lib data =
     (case lib data of
        None \<Rightarrow> empty_metadata
      | Some (h, entity) \<Rightarrow>
          parse_loop 0 \<lparr>md_rfc_message_id = headerMessageID h, md_headers = headerMap h,
            md_from = addressList h ''From'', md_to = addressList h ''To'', md_cc = addressList h ''Cc'',
            md_bcc = addressList h ''Bcc'', md_subject = headerText h, md_date = hv_date h,
            md_text = [], md_html = [], md_attachments = []\<rparr> (newBoundedReader entity))"

definition ParseHeaders :: "mime_lib \<Rightarrow> string \<Rightarrow> (string \<times> string list) list" where
  "ParseHeaders lib data = (case lib data of None \<Rightarrow> [] | Some (h, _) \<Rightarrow> headerMap h)"

section \<open>Attachments\<close>

record attachment =
  ac_filename :: string
  ac_content_type :: string
  ac_data :: string

function extract_loop :: "nat \<Rightarrow> nat \<Rightarrow> bounded_reader \<Rightarrow> err + attachment" where
  "extract_loop partIndex current r =
     (case NextPart_of r of
        (EOF, _) \<Rightarrow> Inl (ErrText ''attachment not found'')
      | (NextErr e, _) \<Rightarrow> Inl e
      | (NextPart p unknown, r') \<Rightarrow>
          if unknown then Inl (ErrText ''unknown charset'')
          else if current + 1 \<noteq> partIndex then extract_loop partIndex (current + 1) r'
          else if inline_part p then Inl (ErrText ''part is not an attachment'')
          else if mp_body_error p then Inl (ErrText ''read'')
          else Inr \<lparr>ac_filename = mp_filename p, ac_content_type = (case mp_type p of None \<Rightarrow> [] | Some t \<Rightarrow> t),
                 ac_data = mp_body p\<rparr>)"
  by pat_completeness auto
termination
  by (relation "measure (\<lambda>(_, _, r). MaxParts - br_visited r)")
     (auto simp: NextPart_of_def dest!: sym [of _ "next_part _ _"] next_part_visited)

declare extract_loop.simps [simp del]

definition ExtractAttachment :: "mime_lib \<Rightarrow> string \<Rightarrow> nat \<Rightarrow> err + attachment" where
  "ExtractAttachment lib data partIndex =
     (case lib data of None \<Rightarrow> Inl (ErrText ''unreadable message'')
      | Some (_, entity) \<Rightarrow> extract_loop partIndex 0 (newBoundedReader entity))"

section \<open>The walk against the tree\<close>

fun leaves :: "item \<Rightarrow> mime_part list" where
  "leaves (Leaf p _) = [p]"
| "leaves (Multi ps) = concat (map leaves ps)"
| "leaves (Broken _) = []"

fun entities :: "item \<Rightarrow> nat" where
  "entities (Leaf _ _) = 1"
| "entities (Multi ps) = Suc (sum_list (map entities ps))"
| "entities (Broken _) = 1"

fun well_read :: "item \<Rightarrow> bool" where
  "well_read (Leaf _ u) = (\<not> u)"
| "well_read (Multi ps) = list_all well_read ps"
| "well_read (Broken _) = False"

text \<open>\<open>fits d i\<close>: an item met at depth \<open>d\<close> opens no level deeper than the limit.\<close>

fun fits :: "nat \<Rightarrow> item \<Rightarrow> bool" where
  "fits d (Multi ps) = (d + 1 \<le> MaxDepth \<and> list_all (fits (d + 1)) ps)"
| "fits d _ = True"

definition pending_parts :: "(item list \<times> nat) list \<Rightarrow> mime_part list" where
  "pending_parts levels = concat (map (\<lambda>l. concat (map leaves (fst l))) levels)"

definition left :: "(item list \<times> nat) list \<Rightarrow> nat" where
  "left levels = sum_list (map (\<lambda>l. sum_list (map entities (fst l))) levels)"

definition readable :: "(item list \<times> nat) list \<Rightarrow> bool" where
  "readable levels \<longleftrightarrow> (\<forall>(items, d) \<in> set levels. list_all well_read items \<and> list_all (fits d) items)"

lemmas walk_defs = pending_parts_def left_def readable_def

lemma entities_nonzero [simp]: "entities i \<noteq> 0"
  by (cases i) simp_all

lemma next_part_pending:
  assumes "readable levels" and "left levels + v \<le> MaxParts"
  shows "case pending_parts levels of
       [] \<Rightarrow> \<forall>p u. fst (next_part levels v) \<noteq> NextPart p u
     | p # ps \<Rightarrow> \<exists>r. next_part levels v = (NextPart p False, r) \<and> pending_parts (br_levels r) = ps
         \<and> readable (br_levels r) \<and> left (br_levels r) + br_visited r \<le> MaxParts"
  using assms
proof (induction levels v rule: next_part_induct)
  case (finished v)
  then show ?case by (simp add: walk_defs)
next
  case (full l outer v)
  then have "left (l # outer) = 0" by simp
  then have "pending_parts (l # outer) = []" by (auto simp: walk_defs)
  with full show ?case by simp
next
  case (eof d outer v)
  have e: "pending_parts (([], d) # outer) = pending_parts outer" "next_part (([], d) # outer) v = next_part outer v"
    using eof(1) by (auto simp: walk_defs)
  have "left outer = left (([], d) # outer)" "readable outer" using eof(3) by (auto simp: walk_defs)
  with eof show ?case unfolding e by simp
next
  case (broken e rest d outer v)
  then show ?case by (simp add: walk_defs)
next
  case (leaf p u rest d outer v)
  then show ?case by (auto simp: walk_defs)
next
  case (deep ps rest d outer v)
  then show ?case by (simp add: walk_defs)
next
  case (multi ps rest d outer v)
  let ?l = "(ps, d + 1) # (rest, d) # outer" and ?m = "(Multi ps # rest, d) # outer"
  have e: "pending_parts ?m = pending_parts ?l" "next_part ?m v = next_part ?l (v + 1)"
    using multi(1,2) by (auto simp: walk_defs)
  have "left ?m = Suc (left ?l)" "readable ?l" using multi(4) by (auto simp: walk_defs)
  with multi show ?case unfolding e by simp
qed

text \<open>The metadata of a list of parts, numbered from \<open>i + 1\<close>.\<close>

fun parse_parts :: "nat \<Rightarrow> mime_part list \<Rightarrow> metadata \<Rightarrow> metadata" where
  "parse_parts i [] m = m"
| "parse_parts i (p # ps) m = parse_parts (i + 1) ps (parse_part (i + 1) p m)"

lemma parse_loop_parts:
  assumes "readable (br_levels r)" and "left (br_levels r) + br_visited r \<le> MaxParts"
  shows "parse_loop i m r = parse_parts i (pending_parts (br_levels r)) m"
  using assms
proof (induction "pending_parts (br_levels r)" arbitrary: i m r)
  case Nil
  with next_part_pending [OF Nil(2,3)] show ?case
    by (subst parse_loop.simps) (auto simp: NextPart_of_def split: prod.split next_result.split)
next
  case (Cons p ps)
  from next_part_pending [OF Cons(3,4)] Cons(2) obtain r' where
    r': "next_part (br_levels r) (br_visited r) = (NextPart p False, r')" "pending_parts (br_levels r') = ps"
      "readable (br_levels r')" "left (br_levels r') + br_visited r' \<le> MaxParts"
    by (auto split: list.splits)
  have "parse_loop i m r = parse_loop (i + 1) (parse_part (i + 1) p m) r'"
    by (subst parse_loop.simps) (simp add: NextPart_of_def r')
  also have "\<dots> = parse_parts (i + 1) ps (parse_part (i + 1) p m)"
    using Cons(1) [of r'] r' by simp
  finally show ?case using Cons(2) by (simp flip: Cons(2))
qed

text \<open>
  The parts that a walk meeting an item at depth \<open>d\<close> may open, multiparts included: all those of the tree but the ones inside a
  multipart that is refused.  An error of the library is no part.
\<close>

fun openable :: "nat \<Rightarrow> item \<Rightarrow> nat" where
  "openable d (Leaf _ _) = 1"
| "openable d (Multi ps) = Suc (if d + 1 \<le> MaxDepth then sum_list (map (openable (d + 1)) ps) else 0)"
| "openable d (Broken _) = 0"

definition unopened :: "(item list \<times> nat) list \<Rightarrow> nat" where
  "unopened levels = sum_list (map (\<lambda>l. sum_list (map (openable (snd l)) (fst l))) levels)"

definition opened :: "item \<Rightarrow> bounded_reader \<Rightarrow> nat" where
  "opened entity r = unopened (br_levels (newBoundedReader entity)) - unopened (br_levels r)"

text \<open>The levels are numbered from the outermost.\<close>

definition nested :: "(item list \<times> nat) list \<Rightarrow> bool" where
  "nested levels \<longleftrightarrow> map snd levels = rev [0..<length levels] \<and> length levels \<le> Suc MaxDepth"

lemma nested_simps [simp]:
  "nested []" "nested ((is, d) # outer) \<longleftrightarrow> nested outer \<and> d = length outer \<and> length outer \<le> MaxDepth"
  by (auto simp: nested_def)

lemma next_part_bounded:
  "next_part levels v = (res, r) \<Longrightarrow> v \<le> MaxParts \<Longrightarrow> nested levels
    \<Longrightarrow> br_visited r \<le> MaxParts \<and> nested (br_levels r) \<and> unopened (br_levels r) + br_visited r = unopened levels + v"
  by (induction levels v rule: next_part_induct) (auto simp: Suc_le_eq unopened_def)

text \<open>The runs of the reader: any number of \<^verbatim>\<open>NextPart\<close> calls on any tree.\<close>

inductive reads :: "item \<Rightarrow> nat \<Rightarrow> bounded_reader \<Rightarrow> bool" for entity where
  start: "reads entity 0 (newBoundedReader entity)"
| read_part: "reads entity n r \<Longrightarrow> NextPart_of r = (NextPart p u, r') \<Longrightarrow> reads entity (Suc n) r'"
| read_other: "reads entity n r \<Longrightarrow> NextPart_of r = (res, r') \<Longrightarrow> reads entity n r'"

lemma next_part_mono: "next_part levels v = (res, r) \<Longrightarrow> v \<le> br_visited r"
  by (induction levels v rule: next_part_induct) auto

lemma reads_bounded:
  "reads entity n r \<Longrightarrow> n \<le> br_visited r \<and> br_visited r \<le> MaxParts \<and> nested (br_levels r)
     \<and> unopened (br_levels r) + br_visited r = unopened (br_levels (newBoundedReader entity))"
proof (induction rule: reads.induct)
  case start
  show ?case by (simp add: newBoundedReader_def)
next
  case (read_part n r p u r')
  then show ?case
    using next_part_visited [of "br_levels r" "br_visited r" p u r'] next_part_bounded [of "br_levels r" "br_visited r" _ r']
    by (auto simp: NextPart_of_def)
next
  case (read_other n r res r')
  then show ?case
    using next_part_mono [of "br_levels r" "br_visited r" res r'] next_part_bounded [of "br_levels r" "br_visited r" res r']
    by (auto simp: NextPart_of_def)
qed

section \<open>The metadata of a list of parts\<close>

text \<open>The extract: the first inline part of the type whose extract is not empty.\<close>

definition first_text :: "string \<Rightarrow> mime_part list \<Rightarrow> string" where
  "first_text t ps = (case find (\<lambda>p. inline_part p \<and> mp_type p = Some t \<and> readExtract p \<noteq> []) ps of None \<Rightarrow> [] | Some p \<Rightarrow> readExtract p)"

text \<open>The attachments, each with the number of its part.\<close>

definition listed_attachments :: "nat \<Rightarrow> mime_part list \<Rightarrow> attachment_meta list" where
  "listed_attachments i ps = map (\<lambda>(n, p). \<lparr>am_part_index = n, am_filename = mp_filename p,
       am_content_type = (case mp_type p of None \<Rightarrow> [] | Some t \<Rightarrow> t), am_size = length (mp_body p)\<rparr>)
     (filter (\<lambda>(n, p). \<not> inline_part p) (zip [i + 1..<i + 1 + length ps] ps))"

lemma listed_Cons: "listed_attachments i (p # ps) = (if inline_part p then [] else [\<lparr>am_part_index = i + 1, am_filename = mp_filename p,
       am_content_type = (case mp_type p of None \<Rightarrow> [] | Some t \<Rightarrow> t), am_size = length (mp_body p)\<rparr>]) @ listed_attachments (i + 1) ps"
proof -
  have "[i + 1..<i + 1 + length (p # ps)] = (i + 1) # [i + 1 + 1..<i + 1 + 1 + length ps]"
    using upt_conv_Cons [of "i + 1" "i + 1 + length (p # ps)"] by simp
  then show ?thesis unfolding listed_attachments_def by simp
qed

lemma first_text_Cons: "first_text t (p # ps) = (if inline_part p \<and> mp_type p = Some t \<and> readExtract p \<noteq> [] then readExtract p else first_text t ps)"
  by (simp add: first_text_def)

lemma content_type_is: "t \<noteq> [] \<Longrightarrow> partContentType p = t \<longleftrightarrow> inline_part p \<and> mp_type p = Some t"
  by (auto simp: partContentType_def split: option.split)

lemma parse_part_fields:
  "parse_part i p m = m\<lparr>md_text := (if md_text m = [] \<and> partContentType p = ''text/plain'' then readExtract p else md_text m),
     md_html := (if md_html m = [] \<and> partContentType p = ''text/html'' then readExtract p else md_html m),
     md_attachments := (if inline_part p \<or> MaxAttachments \<le> length (md_attachments m) then md_attachments m
       else md_attachments m @ [\<lparr>am_part_index = i, am_filename = mp_filename p,
         am_content_type = (case mp_type p of None \<Rightarrow> [] | Some t \<Rightarrow> t), am_size = length (mp_body p)\<rparr>])\<rparr>"
  by (simp add: parse_part_def attachmentMetadata_def partContentType_def Let_def)

lemma parse_parts_fields:
  assumes "length (md_attachments m) \<le> MaxAttachments"
  shows "parse_parts i ps m = m\<lparr>md_text := (if md_text m = [] then first_text ''text/plain'' ps else md_text m),
     md_html := (if md_html m = [] then first_text ''text/html'' ps else md_html m),
     md_attachments := take MaxAttachments (md_attachments m @ listed_attachments i ps)\<rparr>"
  using assms
proof (induction ps arbitrary: i m)
  case Nil
  then show ?case by (simp add: first_text_def listed_attachments_def)
next
  case (Cons p ps)
  let ?m = "parse_part (i + 1) p m"
  have "length (md_attachments ?m) \<le> MaxAttachments" using Cons.prems by (simp add: parse_part_fields)
  note IH = Cons.IH [OF this, of "i + 1"]
  have t: "(if md_text ?m = [] then first_text ''text/plain'' ps else md_text ?m)
      = (if md_text m = [] then first_text ''text/plain'' (p # ps) else md_text m)"
    by (simp add: parse_part_fields first_text_Cons content_type_is)
  have h: "(if md_html ?m = [] then first_text ''text/html'' ps else md_html ?m)
      = (if md_html m = [] then first_text ''text/html'' (p # ps) else md_html m)"
    by (simp add: parse_part_fields first_text_Cons content_type_is)
  have a: "take MaxAttachments (md_attachments ?m @ listed_attachments (i + 1) ps)
      = take MaxAttachments (md_attachments m @ listed_attachments i (p # ps))"
    using Cons.prems by (auto simp: parse_part_fields listed_Cons)
  have "parse_parts i (p # ps) m = ?m\<lparr>md_text := (if md_text m = [] then first_text ''text/plain'' (p # ps) else md_text m),
     md_html := (if md_html m = [] then first_text ''text/html'' (p # ps) else md_html m),
     md_attachments := take MaxAttachments (md_attachments m @ listed_attachments i (p # ps))\<rparr>"
    unfolding parse_parts.simps IH t h a ..
  then show ?case by (simp add: parse_part_fields)
qed

section \<open>Attachments listed and attachments read\<close>

definition attachment_matches :: "attachment_meta \<Rightarrow> err + attachment \<Rightarrow> bool" where
  "attachment_matches a res \<longleftrightarrow> (case res of
     Inl e \<Rightarrow> e = ErrText ''read''
   | Inr c \<Rightarrow> ac_filename c = am_filename a \<and> ac_content_type c = am_content_type a \<and> length (ac_data c) = am_size a)"

lemma parse_part_attachments:
  "a \<in> set (md_attachments (parse_part i p m)) \<Longrightarrow> a \<notin> set (md_attachments m) \<Longrightarrow>
    \<not> inline_part p \<and> am_part_index a = i \<and> am_filename a = mp_filename p
    \<and> am_content_type a = (case mp_type p of None \<Rightarrow> [] | Some t \<Rightarrow> t) \<and> am_size a = length (mp_body p)"
  by (auto simp: parse_part_def attachmentMetadata_def Let_def split: if_splits)

lemma parse_part_bounds:
  "length (md_attachments m) \<le> MaxAttachments \<and> length (md_text m) \<le> extractLimit \<and> length (md_html m) \<le> extractLimit \<Longrightarrow>
   length (md_attachments (parse_part i p m)) \<le> MaxAttachments \<and> length (md_text (parse_part i p m)) \<le> extractLimit
     \<and> length (md_html (parse_part i p m)) \<le> extractLimit"
  by (auto simp: parse_part_def readExtract_def Let_def split: option.split)

lemma parse_loop_bounds:
  "length (md_attachments m) \<le> MaxAttachments \<and> length (md_text m) \<le> extractLimit \<and> length (md_html m) \<le> extractLimit \<Longrightarrow>
   length (md_attachments (parse_loop i m r)) \<le> MaxAttachments \<and> length (md_text (parse_loop i m r)) \<le> extractLimit
     \<and> length (md_html (parse_loop i m r)) \<le> extractLimit"
proof (induction i m r rule: parse_loop.induct)
  case (1 i m r)
  show ?case
    by (subst (1 2 3) parse_loop.simps)
       (use 1 in \<open>auto split: prod.split next_result.split simp: parse_part_bounds\<close>)
qed

lemma listed_found:
  "a \<in> set (md_attachments (parse_loop i m r)) \<Longrightarrow> a \<notin> set (md_attachments m) \<Longrightarrow>
    i < am_part_index a \<and> attachment_matches a (extract_loop (am_part_index a) i r)"
proof (induction i m r rule: parse_loop.induct)
  case (1 i m r)
  obtain res r' where n: "NextPart_of r = (res, r')" by (cases "NextPart_of r")
  have e: "parse_loop i m r = (case res of NextPart p u \<Rightarrow> if u then m else parse_loop (i + 1) (parse_part (i + 1) p m) r' | _ \<Rightarrow> m)"
    by (subst parse_loop.simps) (simp add: n split: next_result.split)
  from 1(2,3) obtain p where res: "res = NextPart p False"
    unfolding e by (cases res) (auto split: if_splits)
  have a: "a \<in> set (md_attachments (parse_loop (i + 1) (parse_part (i + 1) p m) r'))"
    using 1(2) unfolding e res by simp
  have step: "extract_loop j i r = (if i + 1 \<noteq> j then extract_loop j (i + 1) r'
      else if inline_part p then Inl (ErrText ''part is not an attachment'')
      else if mp_body_error p then Inl (ErrText ''read'')
      else Inr \<lparr>ac_filename = mp_filename p, ac_content_type = (case mp_type p of None \<Rightarrow> [] | Some t \<Rightarrow> t), ac_data = mp_body p\<rparr>)" for j
    by (subst extract_loop.simps) (simp add: n res)
  show ?case
  proof (cases "a \<in> set (md_attachments (parse_part (i + 1) p m))")
    case True
    with parse_part_attachments [OF True 1(3)] show ?thesis by (simp add: step attachment_matches_def)
  next
    case False
    with 1(1) [OF n [symmetric] res] a show ?thesis by (simp add: step)
  qed
qed

section \<open>Properties\<close>

text \<open>
  C27.  The walk is bounded whatever the message is: after any calls of \<^verbatim>\<open>NextPart\<close> at most 256 parts of the tree have been
  opened, the multiparts among them and also those it refused for their depth, the \<open>n\<close> parts returned are among these, and at
  most nine multiparts are open at a time, the outermost at depth 0 and eight more inside one another.  The metadata lists at
  most 64 attachments and its extracts have at most 8192 bytes.
\<close>

theorem walk_bounded:
  assumes "reads entity n r"
  shows "opened entity r \<le> 256 \<and> n \<le> opened entity r \<and> length (br_levels r) \<le> 9 \<and> map snd (br_levels r) = rev [0..<length (br_levels r)]
   \<and> length (md_attachments (Parse lib data)) \<le> 64 \<and> length (md_text (Parse lib data)) \<le> 8192
   \<and> length (md_html (Parse lib data)) \<le> 8192"
proof -
  have "length (md_attachments (Parse lib data)) \<le> MaxAttachments \<and> length (md_text (Parse lib data)) \<le> extractLimit
      \<and> length (md_html (Parse lib data)) \<le> extractLimit"
    by (auto simp: Parse_def empty_metadata_def intro!: parse_loop_bounds split: option.split)
  with reads_bounded [OF assms] show ?thesis
    by (auto simp: opened_def nested_def MaxParts_def MaxDepth_def MaxAttachments_def extractLimit_def)
qed

definition sample_part :: "string \<Rightarrow> string \<Rightarrow> mime_part" where
  "sample_part t body = \<lparr>mp_disposition = [], mp_type = Some t, mp_filename = ''f'', mp_body = body, mp_body_error = False\<rparr>"

definition sample_tree :: item where
  "sample_tree = Multi [Multi [Leaf (sample_part ''text/plain'' ''hi'') False, Leaf (sample_part ''text/html'' ''ho'') False],
     Leaf (sample_part ''image/png'' ''xyz'') False]"

definition sample_view :: header_view where
  "sample_view = \<lparr>hv_message_id = None, hv_fields = [(''To'', ''a''), (''To'', ''b'')], hv_addresses = (\<lambda>_. None), hv_subject = None, hv_date = None\<rparr>"

lemma sample_reads: "\<exists>r. reads sample_tree 3 r \<and> opened sample_tree r = 4 \<and> br_levels r = [([], 0)]"
proof -
  let ?r0 = "newBoundedReader sample_tree"
  have n: "fst (NextPart_of ?r0) = NextPart (sample_part ''text/plain'' ''hi'') False"
    "fst (NextPart_of (snd (NextPart_of ?r0))) = NextPart (sample_part ''text/html'' ''ho'') False"
    "fst (NextPart_of (snd (NextPart_of (snd (NextPart_of ?r0))))) = NextPart (sample_part ''image/png'' ''xyz'') False" by code_simp+
  let ?r = "snd (NextPart_of (snd (NextPart_of (snd (NextPart_of ?r0)))))"
  have "reads sample_tree (Suc (Suc (Suc 0))) ?r"
    by (rule reads.read_part [OF reads.read_part [OF reads.read_part [OF reads.start prod_eqI] prod_eqI] prod_eqI])
      (simp_all only: n fst_conv snd_conv)
  moreover have "opened sample_tree ?r = 4" "br_levels ?r = [([], 0)]" by code_simp+
  ultimately show ?thesis by (metis numeral_3_eq_3)
qed

theorem walk_bounded_witness:
  "\<exists>r. reads sample_tree 3 r \<and> opened sample_tree r = 4 \<and> length (br_levels r) = 1 \<and> opened sample_tree r \<le> 256 \<and> 3 \<le> opened sample_tree r
   \<and> length (md_attachments (Parse (\<lambda>_. Some (sample_view, sample_tree)) [])) \<le> 64"
proof -
  obtain r where r: "reads sample_tree 3 r" "opened sample_tree r = 4" "br_levels r = [([], 0)]" using sample_reads by blast
  from walk_bounded [OF r(1), of "\<lambda>_. Some (sample_view, sample_tree)" "[]"] r show ?thesis by auto
qed

text \<open>
  C28.  A message with one part or many that the library reads without an error, with at most 256 entities below the outermost
  and multiparts nested at most 8 deep in it, is walked to its end, and its metadata is this function of all its parts \<open>ps\<close>
  in the order of the document: the fields of the header, the text of the first inline part of each type that has text (cut
  after 8192 bytes), and the first 64 of the parts that are not inline, each under its number; further ones are not listed.
\<close>

definition items_of :: "item \<Rightarrow> item list" where
  "items_of entity = (case entity of Multi ps \<Rightarrow> ps | _ \<Rightarrow> [entity])"

theorem parse_complete:
  assumes "lib data = Some (h, entity)" and "\<forall>i \<in> set (items_of entity). well_read i \<and> fits 0 i" and "sum_list (map entities (items_of entity)) \<le> 256"
    and "ps = concat (map leaves (items_of entity))"
  shows "Parse lib data = \<lparr>md_rfc_message_id = headerMessageID h, md_headers = headerMap h, md_from = addressList h ''From'',
     md_to = addressList h ''To'', md_cc = addressList h ''Cc'', md_bcc = addressList h ''Bcc'', md_subject = headerText h, md_date = hv_date h,
     md_text = first_text ''text/plain'' ps, md_html = first_text ''text/html'' ps, md_attachments = take 64 (listed_attachments 0 ps)\<rparr>"
proof -
  have "readable (br_levels (newBoundedReader entity))" "left (br_levels (newBoundedReader entity)) + br_visited (newBoundedReader entity) \<le> MaxParts"
    "pending_parts (br_levels (newBoundedReader entity)) = ps"
    using assms(2,3) by (simp_all add: newBoundedReader_def items_of_def [symmetric] walk_defs list_all_iff MaxParts_def assms(4))
  from parse_loop_parts [OF this(1,2)] this(3) show ?thesis
    by (simp add: Parse_def assms(1) parse_parts_fields MaxAttachments_def)
qed

theorem parse_complete_witness:
  "(let m = Parse (\<lambda>_. Some (sample_view, sample_tree)) [] in md_text m = ''hi'' \<and> md_html m = ''ho'' \<and> map am_part_index (md_attachments m) = [3])
   \<and> md_text (Parse (\<lambda>_. Some (sample_view, Leaf (sample_part ''text/plain'' ''one'') False)) []) = ''one''"
proof -
  have many: "\<forall>i \<in> set (items_of sample_tree). well_read i \<and> fits 0 i" "sum_list (map entities (items_of sample_tree)) \<le> 256"
    by (simp_all add: items_of_def sample_tree_def MaxDepth_def)
  let ?one = "Leaf (sample_part ''text/plain'' ''one'') False"
  have one: "\<forall>i \<in> set (items_of ?one). well_read i \<and> fits 0 i" "sum_list (map entities (items_of ?one)) \<le> 256"
    by (simp_all add: items_of_def)
  note defs = items_of_def sample_tree_def first_text_def listed_attachments_def inline_part_def sample_part_def has_prefix_def readExtract_def extractLimit_def
  show ?thesis
    using parse_complete [of "\<lambda>_. Some (sample_view, sample_tree)" "[]", OF refl many refl]
      parse_complete [of "\<lambda>_. Some (sample_view, ?one)" "[]", OF refl one refl]
    by (simp add: defs Let_def)
qed

text \<open>
  The two walks agree: the part index of an attachment that \<^verbatim>\<open>Parse\<close> lists is the index under which
  \<^verbatim>\<open>ExtractAttachment\<close> finds it, with the same name, type and size, for every message, also one cut off by a limit;
  only the reading of its bytes can still fail.
\<close>

theorem attachment_found:
  assumes "a \<in> set (md_attachments (Parse lib data))"
  shows "attachment_matches a (ExtractAttachment lib data (am_part_index a))"
  using assms listed_found
  by (fastforce simp: Parse_def ExtractAttachment_def empty_metadata_def split: option.splits)

theorem attachment_found_witness:
  "map_option ac_data (case ExtractAttachment (\<lambda>_. Some (sample_view, sample_tree)) [] 3 of Inl _ \<Rightarrow> None | Inr c \<Rightarrow> Some c) = Some ''xyz''
   \<and> (\<exists>a. am_part_index a = 3 \<and> attachment_matches a (ExtractAttachment (\<lambda>_. Some (sample_view, sample_tree)) [] 3))"
proof -
  let ?a = "\<lparr>am_part_index = 3, am_filename = ''f'', am_content_type = ''image/png'', am_size = 3\<rparr>"
  have "md_attachments (Parse (\<lambda>_. Some (sample_view, sample_tree)) []) = [?a]" by code_simp
  then have "attachment_matches ?a (ExtractAttachment (\<lambda>_. Some (sample_view, sample_tree)) [] (am_part_index ?a))"
    by (intro attachment_found) simp
  moreover have "map_option ac_data (case ExtractAttachment (\<lambda>_. Some (sample_view, sample_tree)) [] 3 of Inl _ \<Rightarrow> None | Inr c \<Rightarrow> Some c) = Some ''xyz''"
    by code_simp
  ultimately show ?thesis by (intro conjI exI [of _ ?a]) simp_all
qed

end
