(* ===== verification/Spam.thy ===== *)
theory Spam
  imports Spf Routing Config Mime
begin

text \<open>
  The spam policy: DNS block lists (\<^verbatim>\<open>internal/spam/dnsbl.go\<close>), DMARC alignment (\<^verbatim>\<open>dmarc.go\<close>), the score, sender rules and
  verdict of a message (\<^verbatim>\<open>spam.go\<close>), the decision of the content evaluator (\<^verbatim>\<open>typesafe_policy.go\<close>) and the placement per
  mailbox (\<^verbatim>\<open>mailbox_policy.go\<close>).  What other parties compute is a field of \<open>oracles\<close>: the DKIM verifier, the DMARC record
  lookup, the public suffix list, the From fields as \<^verbatim>\<open>message.Read\<close> decodes them, the address parsers, the resolver, the content
  evaluator.  Numbers of type \<^verbatim>\<open>float64\<close> are
  exact rationals with the special values.
\<close>

section \<open>Floats\<close>

fun f64_add :: "float64 \<Rightarrow> float64 \<Rightarrow> float64" where
  "f64_add (Fin a) (Fin b) = Fin (a + b)"
| "f64_add NaN _ = NaN"
| "f64_add _ NaN = NaN"
| "f64_add PInf NInf = NaN"
| "f64_add NInf PInf = NaN"
| "f64_add PInf _ = PInf"
| "f64_add _ PInf = PInf"
| "f64_add NInf _ = NInf"
| "f64_add _ NInf = NInf"

abbreviation f64_ge :: "float64 \<Rightarrow> float64 \<Rightarrow> bool" where "f64_ge a b \<equiv> f64_le b a"

section \<open>DNS block lists\<close>

text \<open>The decimal digits of a byte, \<^verbatim>\<open>strconv.Itoa\<close>.\<close>

definition digit :: "nat \<Rightarrow> char" where "digit n = char_of (48 + n)"

definition Itoa_byte :: "nat \<Rightarrow> string" where
  "Itoa_byte n = (if n < 10 then [digit n] else if n < 100 then [digit (n div 10), digit (n mod 10)]
     else [digit (n div 100), digit (n div 10 mod 10), digit (n mod 10)])"

definition hex_digit :: "nat \<Rightarrow> char" where
  "hex_digit n = (if n < 10 then char_of (48 + n) else char_of (87 + n))"

text \<open>Byte \<open>i\<close> of an address counted from the least significant one.\<close>

definition byte_at :: "'a::len word \<Rightarrow> nat \<Rightarrow> nat" where
  "byte_at w i = unat w div 2 ^ (8 * i) mod 256"

definition reverseIP :: "ip \<Rightarrow> string" where
  "reverseIP a = (case a of
       V4 w \<Rightarrow> join ''.'' (map (\<lambda>i. Itoa_byte (byte_at w i)) [0..<4])
     | V6 w \<Rightarrow> join ''.'' (concat (map (\<lambda>i. [[hex_digit (byte_at w i mod 16)], [hex_digit (byte_at w i div 16)]]) [0..<16])))"

definition dnsblHit :: "ip \<Rightarrow> bool" where
  "dnsblHit a = (case a of V4 w \<Rightarrow> byte_at w 3 = 127 \<and> \<not> (byte_at w 2 = 255 \<and> byte_at w 1 = 255) | V6 _ \<Rightarrow> False)"

text \<open>\<^verbatim>\<open>IsLoopback\<close> and \<^verbatim>\<open>IsPrivate\<close>: 127/8, ::1; 10/8, 172.16/12, 192.168/16, fc00::/7.\<close>

definition local_ip :: "ip \<Rightarrow> bool" where
  "local_ip a = (case a of
       V4 w \<Rightarrow> byte_at w 3 = 127 \<or> byte_at w 3 = 10 \<or> (byte_at w 3 = 172 \<and> byte_at w 2 div 16 = 1) \<or> (byte_at w 3 = 192 \<and> byte_at w 2 = 168)
     | V6 w \<Rightarrow> w = 1 \<or> byte_at w 15 div 2 = 126)"

definition dnsblListed :: "(string \<Rightarrow> ip option) \<Rightarrow> (string \<Rightarrow> ip list option) \<Rightarrow> string \<Rightarrow> string list \<Rightarrow> bool \<times> string" where
  "dnsblListed parseIP lookupAddr remoteIP zones =
     (case parseIP remoteIP of
        None \<Rightarrow> (False, [])
      | Some a \<Rightarrow>
          if zones = [] \<or> local_ip a \<or> reverseIP a = [] then (False, []) else
          let names = map (\<lambda>z. trim_suffix (trim_space z) ''.'') zones;
              listed = (\<lambda>zone. zone \<noteq> [] \<and> (case lookupAddr (reverseIP a @ ''.'' @ zone) of
                  Some (i # _) \<Rightarrow> dnsblHit i | _ \<Rightarrow> False))
          in case find listed names of Some zone \<Rightarrow> (True, zone) | None \<Rightarrow> (False, []))"

section \<open>Alignment\<close>

datatype alignment = Relaxed | Strict
datatype dmarc_policy = PolicyNone | PolicyQuarantine | PolicyReject

record dmarc_record =
  dr_policy :: dmarc_policy
  dr_subdomain_policy :: "dmarc_policy option"
  dr_dkim_alignment :: alignment
  dr_spf_alignment :: alignment

datatype dmarc_answer = DmarcRecord dmarc_record | DmarcNoPolicy | DmarcError

datatype auth_result = ResultNone | ResultPass | ResultFail | ResultTempError

record evaluation =
  vl_status :: string
  vl_spam :: "float64 option"
  vl_phishing :: "float64 option"

record oracles =
  or_dns :: dns
  or_lookup_ip :: "string \<Rightarrow> ip list option"
  or_parse_address :: "string \<Rightarrow> string option"
  or_from_fields :: "string \<Rightarrow> string list option"
  or_parse_address_list :: "string \<Rightarrow> string list option"
  or_dkim :: "string \<Rightarrow> (string \<times> bool) list"
  or_dmarc :: "string \<Rightarrow> dmarc_answer"
  or_tld_plus_one :: "string \<Rightarrow> string option"
  or_parse_cidr :: "string \<Rightarrow> (ip \<times> int) option"
  or_format_authres :: "string \<times> string \<times> spf_result \<times> auth_result \<times> auth_result \<times> string \<Rightarrow> string"
  or_input_status :: "string \<Rightarrow> string"
  or_evaluate :: "(string \<Rightarrow> evaluation) option"

text \<open>
  \<^verbatim>\<open>mailparse.FromAddresses\<close>: the addresses of all From fields in lower case; one field that cannot be parsed, or a message
  that cannot be read, is an error.
\<close>

primrec from_addresses_loop :: "(string \<Rightarrow> string list option) \<Rightarrow> string list \<Rightarrow> string list \<Rightarrow> string list option" where
  "from_addresses_loop parse [] addresses = Some addresses"
| "from_addresses_loop parse (value # values) addresses =
     (case parse value of None \<Rightarrow> None | Some list \<Rightarrow> from_addresses_loop parse values (addresses @ map to_lower list))"

definition FromAddresses :: "oracles \<Rightarrow> string \<Rightarrow> string list option" where
  "FromAddresses orc data =
     (case or_from_fields orc data of None \<Rightarrow> None | Some values \<Rightarrow> from_addresses_loop (or_parse_address_list orc) values [])"

definition organizationalDomain :: "oracles \<Rightarrow> string \<Rightarrow> string" where
  "organizationalDomain orc domain = (case or_tld_plus_one orc domain of None \<Rightarrow> domain | Some org \<Rightarrow> org)"

definition aligned :: "oracles \<Rightarrow> alignment \<Rightarrow> string \<Rightarrow> string \<Rightarrow> bool" where
  "aligned orc mode fromDomain0 authDomain0 =
     (let fromDomain = to_lower (trim_space fromDomain0); authDomain = to_lower (trim_space authDomain0) in
      if fromDomain = [] \<or> authDomain = [] then False
      else if fromDomain = authDomain then True
      else if mode = Strict then False
      else organizationalDomain orc fromDomain = organizationalDomain orc authDomain)"

section \<open>Domains\<close>

definition mail_domain :: "oracles \<Rightarrow> string \<Rightarrow> string" where
  "mail_domain orc address =
     (let a = (case or_parse_address orc address of Some p \<Rightarrow> p | None \<Rightarrow> address)
      in case cut (to_lower a) ''@'' of (_, domain, _) \<Rightarrow> domain)"

definition firstAddressDomain :: "oracles \<Rightarrow> string list \<Rightarrow> string" where
  "firstAddressDomain orc addresses = (case addresses of [] \<Rightarrow> [] | a # _ \<Rightarrow> mail_domain orc a)"

fun from_domain_loop :: "oracles \<Rightarrow> string \<Rightarrow> string list \<Rightarrow> string" where
  "from_domain_loop orc domain [] = domain"
| "from_domain_loop orc domain (address # rest) =
     (let current = mail_domain orc address in
      if current = [] \<or> (domain \<noteq> [] \<and> current \<noteq> domain) then [] else from_domain_loop orc current rest)"

definition dmarcFromDomain :: "oracles \<Rightarrow> string list \<Rightarrow> string" where
  "dmarcFromDomain orc addresses = from_domain_loop orc [] addresses"

definition recipientMailboxIDs :: "result list \<Rightarrow> string list" where
  "recipientMailboxIDs recipients = dedup_on id [] (map mb_id (concat (map re_mailboxes recipients)))"

definition recipientDomains :: "oracles \<Rightarrow> result list \<Rightarrow> string list" where
  "recipientDomains orc recipients =
     filter (\<lambda>d. d \<noteq> []) (dedup_on id [] (map (\<lambda>r. mail_domain orc (re_original_recipient r)) recipients))"

section \<open>Authentication\<close>

definition verifyDKIM :: "oracles \<Rightarrow> string \<Rightarrow> auth_result \<times> string \<times> string list" where
  "verifyDKIM orc raw =
     (let verifications = or_dkim orc raw; passing = map fst (filter snd verifications) in
      if verifications = [] then (ResultNone, [], [])
      else if passing \<noteq> [] then (ResultPass, hd passing, passing)
      else (ResultFail, fst (hd verifications), []))"

definition checkDMARC :: "oracles \<Rightarrow> string \<Rightarrow> string list \<Rightarrow> spf_result \<Rightarrow> string \<Rightarrow> auth_result \<times> dmarc_policy" where
  "checkDMARC orc fromDomain dkimDomains spfResult spfDomain =
     (if fromDomain = [] then (ResultNone, PolicyNone) else
      let first = or_dmarc orc fromDomain;
          orgDomain = organizationalDomain orc fromDomain;
          fromOrg = (first = DmarcNoPolicy \<and> orgDomain \<noteq> fromDomain);
          answer = (if fromOrg then or_dmarc orc orgDomain else first)
      in case answer of
           DmarcNoPolicy \<Rightarrow> (ResultNone, PolicyNone)
         | DmarcError \<Rightarrow> (ResultTempError, PolicyNone)
         | DmarcRecord rec \<Rightarrow>
             let policy = (case dr_subdomain_policy rec of Some p \<Rightarrow> if fromOrg then p else dr_policy rec | None \<Rightarrow> dr_policy rec) in
             if list_ex (\<lambda>d. aligned orc (dr_dkim_alignment rec) fromDomain d) dkimDomains then (ResultPass, policy)
             else if spfResult = SpfPass \<and> aligned orc (dr_spf_alignment rec) fromDomain spfDomain then (ResultPass, policy)
             else (ResultFail, policy))"

definition fromAligned :: "oracles \<Rightarrow> string \<Rightarrow> string list \<Rightarrow> spf_result \<Rightarrow> string \<Rightarrow> bool" where
  "fromAligned orc fromDomain dkimDomains spfResult spfDomain =
     (if spfResult = SpfPass \<and> aligned orc Relaxed fromDomain spfDomain then True
      else list_ex (\<lambda>d. aligned orc Relaxed fromDomain d) dkimDomains)"

section \<open>Score\<close>

definition add_points :: "float64 \<Rightarrow> string \<Rightarrow> float64 \<times> string list \<Rightarrow> float64 \<times> string list" where
  "add_points p reason vr = (f64_add (fst vr) p, snd vr @ [reason])"

definition score :: "spf_result \<Rightarrow> auth_result \<Rightarrow> auth_result \<Rightarrow> dmarc_policy \<Rightarrow> string \<Rightarrow> float64 \<times> string list" where
  "score spfResult dkimResult dmarcResult policy listKind =
     (let s0 = (Fin 0, []);
          s1 = (if spfResult = SpfFail then add_points (Fin 2) ''spf_fail'' s0 else s0);
          s2 = (if spfResult = SpfSoftFail then add_points (Fin 1) ''spf_softfail'' s1 else s1);
          s3 = (if dkimResult = ResultFail then add_points (Fin 2) ''dkim_fail'' s2 else s2);
          s4 = (if dmarcResult = ResultFail then
                 (let a = add_points (Fin 3) ''dmarc_fail'' s3;
                      b = (if policy = PolicyQuarantine then add_points (Fin 2) ''dmarc_quarantine'' a else a)
                  in if policy = PolicyReject then add_points (Fin 10) ''dmarc_reject'' b else b)
               else s3)
      in if listKind = ''block'' then add_points (Fin 10) ''blocklist'' s4 else s4)"

definition junkThreshold :: "spam_config \<Rightarrow> float64" where
  "junkThreshold cfg = (if cf_junk_threshold cfg = Fin 0 then Fin 5 else cf_junk_threshold cfg)"

definition dnsblScore :: "spam_config \<Rightarrow> float64" where
  "dnsblScore cfg = (if cf_dnsbl_score cfg = Fin 0 then Fin 4 else cf_dnsbl_score cfg)"

definition rejectThreshold :: "spam_config \<Rightarrow> float64" where
  "rejectThreshold cfg = (if cf_reject_threshold cfg = Fin 0 then Fin 10 else cf_reject_threshold cfg)"

section \<open>Sender rules\<close>

definition ipMatches :: "oracles \<Rightarrow> string \<Rightarrow> string \<Rightarrow> bool" where
  "ipMatches orc remoteIP value =
     (case dn_parse_ip (or_dns orc) remoteIP of
        None \<Rightarrow> False
      | Some a \<Rightarrow>
          if contains value ''/'' then
            (case or_parse_cidr orc value of None \<Rightarrow> False | Some (net, ones) \<Rightarrow> same_prefix ones net a)
          else dn_parse_ip (or_dns orc) value = Some a)"

definition matches :: "oracles \<Rightarrow> sender_rule \<Rightarrow> metadata \<Rightarrow> smtp_context \<Rightarrow> bool \<Rightarrow> bool" where
  "matches orc entry md smtp authenticated =
     (let value = to_lower (sr_value entry); t = sr_match_type entry in
      if sr_kind entry = ''allow'' \<and> \<not> authenticated \<and> (t = ''email'' \<or> t = ''domain'') then False
      else if t = ''email'' then list_ex (\<lambda>a. equal_fold a value) (md_from md)
      else if t = ''domain'' then equal_fold (firstAddressDomain orc (md_from md)) value
      else if t = ''ip'' \<or> t = ''cidr'' then ipMatches orc (sm_remote_ip smtp) value
      else False)"

text \<open>The position of a mailbox among the recipients.\<close>

fun position_of :: "string \<Rightarrow> string list \<Rightarrow> nat" where
  "position_of x [] = 0"
| "position_of x (y # ys) = (if x = y then 0 else Suc (position_of x ys))"

definition sender_rule_entries :: "oracles \<Rightarrow> result list \<Rightarrow> sender_rule list io" where
  "sender_rule_entries orc recipients =
     (let domains = recipientDomains orc recipients; mailboxIDs = recipientMailboxIDs recipients in
      bindE (selectAll T_sender_rules (\<lambda>r. sr_scope r = ''global'')) (\<lambda>e1.
      bindE (if domains \<noteq> [] then selectAll T_sender_rules (\<lambda>r. sr_scope r = ''domain'' \<and> sr_scope_ref r \<in> set domains) else ret []) (\<lambda>e2.
      bindE (if mailboxIDs \<noteq> [] then selectAll T_sender_rules (\<lambda>r. sr_scope r = ''mailbox'' \<and> sr_scope_ref r \<in> set mailboxIDs) else ret []) (\<lambda>e3.
      ret (e1 @ e2 @ sort_key (\<lambda>r. position_of (sr_scope_ref r) mailboxIDs) e3)))))"

definition senderRuleMatch :: "oracles \<Rightarrow> metadata \<Rightarrow> smtp_context \<Rightarrow> result list \<Rightarrow> bool \<Rightarrow> (string \<times> string) io" where
  "senderRuleMatch orc md smtp recipients authenticated =
     bindE (sender_rule_entries orc recipients) (\<lambda>entries.
     ret (case find (\<lambda>e. matches orc e md smtp authenticated) entries of
            Some e \<Rightarrow> (sr_kind e, sr_action e) | None \<Rightarrow> ([], [])))"

section \<open>Assessments\<close>

record typesafe_result =
  ts_mode :: string
  ts_status :: string
  ts_input_status :: string
  ts_spam_probability :: "float64 option"
  ts_phishing_probability :: "float64 option"
  ts_spam_threshold :: float64
  ts_phishing_threshold :: float64
  ts_would_junk :: bool
  ts_applied_junk :: bool

record mailbox_assessment =
  ma_junk :: bool
  ma_junk_threshold :: float64
  ma_reasons :: "string list"
  ma_typesafe :: "typesafe_result option"

text \<open>The entries \<^verbatim>\<open>typesafe\<close>, \<^verbatim>\<open>spam_reasons\<close> and \<^verbatim>\<open>mailboxes\<close> of the map \<^verbatim>\<open>AuthResults\<close> are fields of their own.\<close>

record assessment =
  as_score :: float64
  as_reasons :: "string list"
  as_auth_results :: "(string \<times> json) list"
  as_auth_reasons :: "string list"
  as_typesafe :: "typesafe_result option"
  as_header :: string
  as_junk :: bool
  as_reject :: bool
  as_mailboxes :: "(string \<times> mailbox_assessment) list"

definition JunkForMailbox :: "assessment \<Rightarrow> string \<Rightarrow> bool" where
  "JunkForMailbox a i = (case map_of (as_mailboxes a) i of Some m \<Rightarrow> ma_junk m | None \<Rightarrow> as_junk a)"

section \<open>The content evaluator\<close>

definition validTypeSafeProbability :: "float64 option \<Rightarrow> bool" where
  "validTypeSafeProbability value = (case value of Some (Fin x) \<Rightarrow> 0 \<le> x \<and> x \<le> 1 | _ \<Rightarrow> False)"

text \<open>A probability that is present reaches the threshold; a result with status \<^verbatim>\<open>ok\<close> always has both.\<close>

definition reaches :: "float64 option \<Rightarrow> float64 \<Rightarrow> bool" where
  "reaches probability threshold = (case probability of None \<Rightarrow> False | Some x \<Rightarrow> f64_ge x threshold)"

definition applyRecipientTypeSafe :: "typesafe_result \<Rightarrow> assessment \<Rightarrow> assessment" where
  "applyRecipientTypeSafe r a =
     (let a1 = (if ts_applied_junk r then
            a\<lparr>as_junk := True,
              as_reasons := as_reasons a
                @ (if reaches (ts_spam_probability r) (ts_spam_threshold r) then [''typesafe_spam''] else [])
                @ (if reaches (ts_phishing_probability r) (ts_phishing_threshold r) then [''typesafe_phishing''] else [])\<rparr>
          else a)
      in a1\<lparr>as_typesafe := Some r, as_auth_reasons := (if ts_applied_junk r then as_reasons a1 else as_auth_reasons a1)\<rparr>)"

definition typesafe_base :: "typesafe_config \<Rightarrow> typesafe_result" where
  "typesafe_base cfg = \<lparr>ts_mode = cy_mode cfg, ts_status = [], ts_input_status = ''not_extracted'', ts_spam_probability = None,
     ts_phishing_probability = None, ts_spam_threshold = cy_spam_threshold cfg, ts_phishing_threshold = cy_phishing_threshold cfg,
     ts_would_junk = False, ts_applied_junk = False\<rparr>"

definition judge :: "typesafe_config \<Rightarrow> typesafe_result \<Rightarrow> typesafe_result" where
  "judge cfg r = (let would = (reaches (ts_spam_probability r) (cy_spam_threshold cfg) \<or> reaches (ts_phishing_probability r) (cy_phishing_threshold cfg))
     in r\<lparr>ts_would_junk := would, ts_applied_junk := (cy_mode cfg = ''junk'' \<and> would)\<rparr>)"

definition typesafe_evaluated :: "oracles \<Rightarrow> string \<Rightarrow> typesafe_config \<Rightarrow> (string \<Rightarrow> evaluation) \<Rightarrow> typesafe_result" where
  "typesafe_evaluated orc raw cfg evaluate =
     (let status = or_input_status orc raw; r0 = (typesafe_base cfg)\<lparr>ts_input_status := status\<rparr> in
      if status \<noteq> ''ok'' \<and> status \<noteq> ''partial'' then r0\<lparr>ts_status := status\<rparr>
      else let e = evaluate raw; r1 = r0\<lparr>ts_status := vl_status e\<rparr> in
        if vl_status e \<noteq> ''ok'' then r1
        else if \<not> validTypeSafeProbability (vl_spam e) \<or> \<not> validTypeSafeProbability (vl_phishing e)
          then r1\<lparr>ts_status := ''error_invalid_response''\<rparr>
        else judge cfg (r1\<lparr>ts_spam_probability := vl_spam e, ts_phishing_probability := vl_phishing e\<rparr>))"

definition applyTypeSafe :: "oracles \<Rightarrow> string \<Rightarrow> typesafe_config \<Rightarrow> assessment \<Rightarrow> assessment" where
  "applyTypeSafe orc raw cfg a =
     (if cy_mode cfg \<noteq> ''shadow'' \<and> cy_mode cfg \<noteq> ''junk'' then a else
      applyRecipientTypeSafe
        (if as_reject a then (typesafe_base cfg)\<lparr>ts_status := ''skipped_existing_reject''\<rparr>
         else if as_junk a then (typesafe_base cfg)\<lparr>ts_status := ''skipped_existing_junk''\<rparr>
         else case or_evaluate orc of
             None \<Rightarrow> (typesafe_base cfg)\<lparr>ts_status := ''skipped_unavailable''\<rparr>
           | Some evaluate \<Rightarrow> typesafe_evaluated orc raw cfg evaluate) a)"

section \<open>Placement per mailbox\<close>

definition recipientTypeSafeResult :: "typesafe_result \<Rightarrow> typesafe_config \<Rightarrow> bool \<Rightarrow> bool \<Rightarrow> typesafe_result" where
  "recipientTypeSafeResult shared cfg junk reject =
     (let r = shared\<lparr>ts_spam_threshold := cy_spam_threshold cfg, ts_phishing_threshold := cy_phishing_threshold cfg,
                ts_would_junk := False, ts_applied_junk := False\<rparr>
      in if reject then r\<lparr>ts_status := ''skipped_existing_reject''\<rparr>
         else if junk then r\<lparr>ts_status := ''skipped_existing_junk''\<rparr>
         else if ts_status r = ''ok'' then judge cfg r
         else r)"

definition mailbox_threshold :: "spam_config \<Rightarrow> mailbox \<Rightarrow> float64" where
  "mailbox_threshold cfg m = (case map_of (mb_spam_thresholds m) ''junk_threshold'' of
       Some v \<Rightarrow> if finite_f64 v \<and> f64_ge v (Fin 0) then v else junkThreshold cfg
     | None \<Rightarrow> junkThreshold cfg)"

definition local_probability :: "mailbox \<Rightarrow> string \<Rightarrow> float64 \<Rightarrow> float64" where
  "local_probability m key standard = (case map_of (mb_spam_thresholds m) key of
       Some v \<Rightarrow> if finite_f64 v \<and> f64_lt (Fin 0) v \<and> f64_le v (Fin 1) then v else standard
     | None \<Rightarrow> standard)"

definition local_config :: "typesafe_config \<Rightarrow> mailbox \<Rightarrow> typesafe_config" where
  "local_config cfg m = cfg\<lparr>cy_spam_threshold := local_probability m ''spam_threshold'' (cy_spam_threshold cfg),
     cy_phishing_threshold := local_probability m ''phishing_threshold'' (cy_phishing_threshold cfg)\<rparr>"

definition local_assessment :: "spam_config \<Rightarrow> bool \<Rightarrow> assessment \<Rightarrow> mailbox \<Rightarrow> mailbox_assessment" where
  "local_assessment cfg forcedJunk a m = \<lparr>ma_junk = (forcedJunk \<or> f64_ge (as_score a) (mailbox_threshold cfg m)),
     ma_junk_threshold = mailbox_threshold cfg m, ma_reasons = as_reasons a, ma_typesafe = None\<rparr>"

text \<open>The loop over the mailboxes after the probe; \<^verbatim>\<open>applyRecipientTypeSafe\<close> acts on junk flag and reasons only.\<close>

definition judge_mailbox :: "typesafe_result \<Rightarrow> typesafe_config \<Rightarrow> bool \<Rightarrow> mailbox \<Rightarrow> mailbox_assessment \<Rightarrow> mailbox_assessment" where
  "judge_mailbox shared cfg reject m l =
     (let r = recipientTypeSafeResult shared (local_config cfg m) (ma_junk l) reject
      in l\<lparr>ma_typesafe := Some r, ma_junk := (ma_junk l \<or> ts_applied_junk r),
           ma_reasons := (if ts_applied_junk r then ma_reasons l
                @ (if reaches (ts_spam_probability r) (ts_spam_threshold r) then [''typesafe_spam''] else [])
                @ (if reaches (ts_phishing_probability r) (ts_phishing_threshold r) then [''typesafe_phishing''] else [])
              else ma_reasons l)\<rparr>)"

definition applyMailboxPolicy :: "oracles \<Rightarrow> string \<Rightarrow> spam_config \<Rightarrow> result list \<Rightarrow> bool \<Rightarrow> assessment \<Rightarrow> assessment" where
  "applyMailboxPolicy orc raw cfg recipients forcedJunk a =
     (let typeSafeCfg = TypeSafe_WithDefaults (cf_typesafe cfg);
          boxes = dedup_on mb_id [] (concat (map re_mailboxes recipients));
          local = local_assessment cfg forcedJunk a
      in if boxes = [] then applyTypeSafe orc raw typeSafeCfg (a\<lparr>as_mailboxes := []\<rparr>) else
         let probe = applyTypeSafe orc raw typeSafeCfg (a\<lparr>as_junk := list_all (\<lambda>m. ma_junk (local m)) boxes\<rparr>)
         in case as_typesafe probe of
              None \<Rightarrow> a\<lparr>as_mailboxes := map (\<lambda>m. (mb_id m, local m)) boxes\<rparr>
            | Some shared \<Rightarrow>
                (applyRecipientTypeSafe (recipientTypeSafeResult shared typeSafeCfg (as_junk a) (as_reject a)) a)
                  \<lparr>as_mailboxes := map (\<lambda>m. (mb_id m, judge_mailbox shared typeSafeCfg (as_reject a) m (local m))) boxes\<rparr>)"

section \<open>The check of a message\<close>

definition spf_text :: "spf_result \<Rightarrow> string" where
  "spf_text r = (case r of SpfNone \<Rightarrow> ''none'' | SpfPass \<Rightarrow> ''pass'' | SpfFail \<Rightarrow> ''fail'' | SpfSoftFail \<Rightarrow> ''softfail''
     | SpfNeutral \<Rightarrow> ''neutral'' | SpfTempError \<Rightarrow> ''temperror'' | SpfPermError \<Rightarrow> ''permerror'')"

definition auth_text :: "auth_result \<Rightarrow> string" where
  "auth_text r = (case r of ResultNone \<Rightarrow> ''none'' | ResultPass \<Rightarrow> ''pass'' | ResultFail \<Rightarrow> ''fail'' | ResultTempError \<Rightarrow> ''temperror'')"

definition policy_text :: "dmarc_policy \<Rightarrow> string" where
  "policy_text p = (case p of PolicyNone \<Rightarrow> ''none'' | PolicyQuarantine \<Rightarrow> ''quarantine'' | PolicyReject \<Rightarrow> ''reject'')"

definition authResultsHeader :: "oracles \<Rightarrow> string \<Rightarrow> spf_result \<Rightarrow> auth_result \<Rightarrow> auth_result \<Rightarrow> smtp_context \<Rightarrow> string \<Rightarrow> string" where
  "authResultsHeader orc authID spfResult dkimResult dmarcResult smtp fromDomain =
     (let d = mail_domain orc (sm_mail_from smtp); mailFromDomain = (if d = [] then sm_mail_from smtp else d)
      in or_format_authres orc (authID, mailFromDomain, spfResult, dkimResult, dmarcResult, fromDomain))"

record auth_outcome =
  ao_spf :: spf_result
  ao_spf_domain :: string
  ao_spf_reason :: string
  ao_dkim :: auth_result
  ao_dkim_domain :: string
  ao_dmarc :: auth_result
  ao_policy :: dmarc_policy
  ao_from_domain :: string
  ao_authenticated :: bool

definition authenticate :: "oracles \<Rightarrow> string \<Rightarrow> smtp_context \<Rightarrow> auth_outcome" where
  "authenticate orc raw smtp =
     (let fromAddresses = (case FromAddresses orc raw of None \<Rightarrow> [] | Some as \<Rightarrow> as);
          fromDomain = dmarcFromDomain orc fromAddresses
      in case verifyDKIM orc raw of (dkimResult, dkimDomain, dkimPassing) \<Rightarrow>
         case fst (checkSPF (or_dns orc) (mail_domain orc (sm_mail_from smtp)) smtp) of (spfResult, spfDomain, spfReason) \<Rightarrow>
         let dmarc = (if FromAddresses orc raw = None \<or> (fromAddresses \<noteq> [] \<and> fromDomain = []) then (ResultFail, PolicyQuarantine)
                else checkDMARC orc fromDomain dkimPassing spfResult spfDomain)
         in \<lparr>ao_spf = spfResult, ao_spf_domain = spfDomain, ao_spf_reason = spfReason, ao_dkim = dkimResult, ao_dkim_domain = dkimDomain,
             ao_dmarc = fst dmarc, ao_policy = snd dmarc, ao_from_domain = fromDomain,
             ao_authenticated = (fst dmarc = ResultPass
               \<or> (fst dmarc = ResultNone \<and> fromAligned orc fromDomain dkimPassing spfResult spfDomain))\<rparr>)"

definition total_score :: "oracles \<Rightarrow> spam_config \<Rightarrow> metadata \<Rightarrow> smtp_context \<Rightarrow> auth_outcome \<Rightarrow> string \<Rightarrow> float64 \<times> string list" where
  "total_score orc cfg md smtp ao listKind =
     (let s0 = score (ao_spf ao) (ao_dkim ao) (ao_dmarc ao) (ao_policy ao) listKind;
          listed = dnsblListed (dn_parse_ip (or_dns orc)) (or_lookup_ip orc) (sm_remote_ip smtp) (cf_dnsbl_zones cfg);
          s1 = (if fst listed then add_points (dnsblScore cfg) (''dnsbl:'' @ snd listed) s0 else s0);
          s2 = (if cf_require_helo cfg \<and> trim_space (sm_helo smtp) = [] then add_points (Fin 1) ''missing_helo'' s1 else s1);
          s3 = (if md_from md = [] then add_points (Fin 2) ''missing_from'' s2 else s2);
          s4 = (if md_rfc_message_id md = [] then add_points (Fin 1) ''missing_message_id'' s3 else s3);
          v = (if listKind = ''allow'' then f64_add (fst s4) (Fin (- 5)) else fst s4)
      in (if f64_lt v (Fin 0) then Fin 0 else v, snd s4))"

definition CheckParsed :: "oracles \<Rightarrow> spam_config \<Rightarrow> string \<Rightarrow> string \<Rightarrow> metadata \<Rightarrow> smtp_context \<Rightarrow> result list \<Rightarrow> assessment io" where
  "CheckParsed orc cfg authID raw md smtp recipients =
     (let ao = authenticate orc raw smtp in
      bindE (senderRuleMatch orc md smtp recipients (ao_authenticated ao)) (\<lambda>(listKind, listAction).
      let sr = total_score orc cfg md smtp ao listKind;
          dmarcFailed = (ao_dmarc ao = ResultFail);
          forcedJunk = ((dmarcFailed \<and> ao_policy ao = PolicyQuarantine) \<or> listKind = ''block'');
          a = \<lparr>as_score = fst sr, as_reasons = snd sr,
               as_auth_results = [(''spf'', JStr (spf_text (ao_spf ao))), (''spf_domain'', JStr (ao_spf_domain ao)),
                 (''spf_reason'', JStr (ao_spf_reason ao)), (''dkim'', JStr (auth_text (ao_dkim ao))),
                 (''dkim_domain'', JStr (ao_dkim_domain ao)), (''dmarc'', JStr (auth_text (ao_dmarc ao))),
                 (''dmarc_policy'', JStr (policy_text (ao_policy ao))), (''tls'', JBool (sm_tls smtp)),
                 (''remote_ip'', JStr (sm_remote_ip smtp)), (''helo'', JStr (sm_helo smtp)), (''list_kind'', JStr listKind),
                 (''list_action'', JStr listAction),
                 (''dnsbl'', JStr (snd (dnsblListed (dn_parse_ip (or_dns orc)) (or_lookup_ip orc) (sm_remote_ip smtp) (cf_dnsbl_zones cfg))))],
               as_auth_reasons = snd sr, as_typesafe = None,
               as_header = authResultsHeader orc authID (ao_spf ao) (ao_dkim ao) (ao_dmarc ao) smtp (ao_from_domain ao),
               as_junk = (f64_ge (fst sr) (junkThreshold cfg) \<or> (dmarcFailed \<and> ao_policy ao = PolicyQuarantine) \<or> listKind = ''block''),
               as_reject = (f64_ge (fst sr) (rejectThreshold cfg) \<or> (dmarcFailed \<and> ao_policy ao = PolicyReject) \<or> listAction = ''reject''),
               as_mailboxes = []\<rparr>
      in ret (applyMailboxPolicy orc raw cfg recipients forcedJunk a)))"

definition Check :: "oracles \<Rightarrow> mime_lib \<Rightarrow> spam_config \<Rightarrow> string \<Rightarrow> string \<Rightarrow> smtp_context \<Rightarrow> result list \<Rightarrow> assessment io" where
  "Check orc lib cfg authID raw smtp recipients = CheckParsed orc cfg authID raw (Parse lib raw) smtp recipients"

text \<open>The mailboxes a message goes to, each once, in the order of the recipients.\<close>

definition destinations :: "result list \<Rightarrow> mailbox list" where
  "destinations recipients = dedup_on mb_id [] (concat (map re_mailboxes recipients))"

end
