(* ===== verification/Rfc822.thy ===== *)
theory Rfc822
  imports Prelude "HOL-Library.Char_ord" "HOL-Library.List_Lexorder"
begin

text \<open>
  Messages as bytes, \<^verbatim>\<open>internal/mailparse/rfc822.go\<close> and \<^verbatim>\<open>internal/mailparse/compose.go\<close>: where the header ends,
  normal line endings, removing and appending header fields, folding.  A Go slice expression out of range is a panic: the
  functions that can reach one return \<open>None\<close> for it.
\<close>

abbreviation CRLF :: string where "CRLF \<equiv> [CR, LF]"

definition is_wsp :: "char \<Rightarrow> bool" where
  "is_wsp c \<longleftrightarrow> c = SP \<or> c = TAB"

section \<open>Where the header ends\<close>

definition isHeaderTerminatorLine :: "string \<Rightarrow> bool" where
  "isHeaderTerminatorLine line = (trim_suffix (trim_suffix line [LF]) [CR] = [])"

text \<open>\<^verbatim>\<open>ReadBytes('\n')\<close>: the bytes up to and with the next LF, and the rest.\<close>

fun read_line :: "string \<Rightarrow> string \<times> string" where
  "read_line [] = ([], [])"
| "read_line (c # cs) = (if c = LF then ([LF], cs) else case read_line cs of (l, r) \<Rightarrow> (c # l, r))"

lemma read_line_append [simp]: "fst (read_line s) @ snd (read_line s) = s"
  by (induction s) (simp_all add: case_prod_unfold)

lemma read_line_Nil [simp]: "fst (read_line s) = [] \<longleftrightarrow> s = []"
  by (cases s) (simp_all add: case_prod_unfold)

lemma read_line_less: "s \<noteq> [] \<Longrightarrow> length (snd (read_line s)) < length s"
proof -
  assume "s \<noteq> []"
  then have "0 < length (fst (read_line s))" by (simp del: read_line.simps)
  moreover have "length (fst (read_line s)) + length (snd (read_line s)) = length s"
    by (metis length_append read_line_append)
  ultimately show ?thesis by linarith
qed

function rfc822_loop :: "string \<Rightarrow> string \<Rightarrow> string \<Rightarrow> (string \<times> string) option" where
  "rfc822_loop raw headerBuf s =
     (if s = [] then None else
      let line = fst (read_line s); rest = snd (read_line s) in
      if isHeaderTerminatorLine line then (if headerBuf = [] then Some ([], raw) else Some (headerBuf, rest))
      else rfc822_loop raw (headerBuf @ line) rest)"
  by pat_completeness auto
termination
  by (relation "measure (\<lambda>(_, _, s). length s)") (auto simp: read_line_less)

declare rfc822_loop.simps [simp del]

definition splitHeaderBodyRFC822 :: "string \<Rightarrow> (string \<times> string) option" where
  "splitHeaderBodyRFC822 raw = rfc822_loop raw [] raw"

text \<open>Two \<^verbatim>\<open>ReplaceAll\<close>: CRLF to LF, then the remaining CR to LF.\<close>

fun crlf_to_lf :: "string \<Rightarrow> string" where
  "crlf_to_lf [] = []"
| "crlf_to_lf [c] = [c]"
| "crlf_to_lf (c # d # s) = (if c = CR \<and> d = LF then LF # crlf_to_lf s else c # crlf_to_lf (d # s))"

definition unify_newlines :: "string \<Rightarrow> string" where
  "unify_newlines s = map (\<lambda>c. if c = CR then LF else c) (crlf_to_lf s)"

definition isHeaderKeyByte :: "char \<Rightarrow> bool" where
  "isHeaderKeyByte b = (code CHR ''a'' \<le> code b \<and> code b \<le> code CHR ''z''
     \<or> code CHR ''A'' \<le> code b \<and> code b \<le> code CHR ''Z''
     \<or> code CHR ''0'' \<le> code b \<and> code b \<le> code CHR ''9'' \<or> b = CHR ''-'')"

definition isHeaderLine :: "string \<Rightarrow> bool" where
  "isHeaderLine line =
     (let trimmed = trim_space line in
      if trimmed = [] then False
      else if hd trimmed = SP \<or> hd trimmed = TAB then True
      else case index_of '':'' trimmed of
        None \<Rightarrow> False
      | Some colon \<Rightarrow> 0 < colon \<and> list_all isHeaderKeyByte (take colon trimmed))"

definition headerBlockValid :: "string \<Rightarrow> bool" where
  "headerBlockValid header = list_all (\<lambda>line. trim_space line = [] \<or> isHeaderLine line)
     (split_on LF (unify_newlines header))"

definition splitAtSeparator :: "string \<Rightarrow> string \<Rightarrow> nat \<Rightarrow> nat \<Rightarrow> (string \<times> string) option" where
  "splitAtSeparator raw separator headerEnd bodyStart =
     (case index_of separator raw of
        None \<Rightarrow> None
      | Some i \<Rightarrow> if headerBlockValid (take (i + headerEnd) raw)
          then Some (take (i + headerEnd) raw, drop (i + bodyStart) raw) else None)"

text \<open>The search for CRLFCRLF after which the bytes before it are a valid header block.\<close>

function searchSeparator :: "string \<Rightarrow> nat \<Rightarrow> (string \<times> string) option" where
  "searchSeparator raw search =
     (case index_of (CRLF @ CRLF) (drop search raw) of
        None \<Rightarrow> None
      | Some j \<Rightarrow> let i = j + search in
          if headerBlockValid (take i raw) then Some (take i raw, drop (i + 4) raw)
          else searchSeparator raw (i + 4))"
  by pat_completeness auto
termination
proof (relation "measure (\<lambda>(raw, search). length raw - search)")
  fix raw search j i
  assume "index_of (CRLF @ CRLF) (drop search raw) = Some j"
  then have "drop search raw \<noteq> []" by auto
  then show "((raw, i + 4), raw, search) \<in> measure (\<lambda>(raw, search). length raw - search)" if "i = j + search"
    using that by simp
qed simp

declare searchSeparator.simps [simp del]

fun lf_end_from :: "string \<Rightarrow> nat \<Rightarrow> nat \<Rightarrow> nat option" where
  "lf_end_from raw 0 i = None"
| "lf_end_from raw (Suc n) i =
     (if \<not> i + 1 < length raw then None
      else if raw ! i \<noteq> LF \<or> raw ! (i + 1) \<noteq> LF then lf_end_from raw n (i + 1)
      else if 0 < i \<and> raw ! (i - 1) = CR then lf_end_from raw n (i + 1)
      else if headerBlockValid (take i raw) then Some i
      else lf_end_from raw n (i + 1))"

definition indexLFHeaderEnd :: "string \<Rightarrow> nat option" where
  "indexLFHeaderEnd raw = lf_end_from raw (length raw) 0"

definition joinLines :: "string list \<Rightarrow> string" where
  "joinLines lines = join [LF] lines"

fun split_lines :: "string list \<Rightarrow> string list \<Rightarrow> string list \<times> string list" where
  "split_lines headerLines [] = (headerLines, [])"
| "split_lines headerLines (line # lines) =
     (if trim_space line = [] then (headerLines, lines)
      else if \<not> isHeaderLine line \<and> headerLines \<noteq> [] then (headerLines, line # lines)
      else split_lines (headerLines @ [line]) lines)"

definition splitHeaderBodyLines :: "string \<Rightarrow> string \<times> string" where
  "splitHeaderBodyLines raw =
     (case split_lines [] (split_on LF (unify_newlines raw)) of
        (headerLines, bodyLines) \<Rightarrow>
          let header = joinLines headerLines in
          (if header \<noteq> [] then header @ [LF] else header, joinLines bodyLines))"

definition SplitHeaderBody :: "string \<Rightarrow> string \<times> string" where
  "SplitHeaderBody raw =
     (case splitHeaderBodyRFC822 raw of Some hb \<Rightarrow> hb
      | None \<Rightarrow> (case splitAtSeparator raw (CRLF @ [LF]) 2 3 of Some hb \<Rightarrow> hb
      | None \<Rightarrow> (case searchSeparator raw 0 of Some hb \<Rightarrow> hb
      | None \<Rightarrow> (case indexLFHeaderEnd raw of Some i \<Rightarrow> (take i raw, drop (i + 2) raw)
      | None \<Rightarrow> splitHeaderBodyLines raw))))"

definition trim_cr :: "string \<Rightarrow> string" where
  "trim_cr line = trim_right (\<lambda>c. c = CR) line"

section \<open>Joining header and body\<close>

definition toCRLF :: "string \<Rightarrow> string" where
  "toCRLF data =
     (if data = [] then [] else
      let buf = join CRLF (map (trim_cr) (split_on LF (unify_newlines data)))
      in if buf \<noteq> [] then buf @ CRLF else buf)"

definition ensureHeaderBodySeparator :: "string \<Rightarrow> string" where
  "ensureHeaderBodySeparator header =
     (if has_suffix header (CRLF @ CRLF) then header
      else if has_suffix header CRLF then header @ CRLF
      else header @ CRLF @ CRLF)"

definition JoinHeaderBody :: "string \<Rightarrow> string \<Rightarrow> string" where
  "JoinHeaderBody header0 body0 =
     (let header = toCRLF header0 in
      if body0 = [] then ensureHeaderBodySeparator header else
      let body = toCRLF body0 in
      if header = [] then body
      else ensureHeaderBodySeparator header @ body)"

definition NormalizeMessage :: "string \<Rightarrow> string" where
  "NormalizeMessage raw = (case SplitHeaderBody raw of (header, body) \<Rightarrow> JoinHeaderBody header body)"

section \<open>Header fields\<close>

definition is_eol :: "char \<Rightarrow> bool" where
  "is_eol c \<longleftrightarrow> c = CR \<or> c = LF"

definition AppendHeaderFields :: "string \<Rightarrow> string list \<Rightarrow> string" where
  "AppendHeaderFields header extra =
     foldl (\<lambda>h f. (if h \<noteq> [] then h @ [LF] else h) @ trim_right is_eol f) (trim_right is_eol header) extra"

fun remove_lines :: "(string \<Rightarrow> bool) \<Rightarrow> (string \<Rightarrow> string) \<Rightarrow> bool \<Rightarrow> string list \<Rightarrow> string list" where
  "remove_lines gone norm skipping [] = []"
| "remove_lines gone norm skipping (line # lines) =
     (let trimmed = norm line in
      if trimmed \<noteq> [] \<and> is_wsp (hd trimmed) then
        (if skipping then remove_lines gone norm skipping lines else line # remove_lines gone norm skipping lines)
      else if gone trimmed then remove_lines gone norm True lines
      else line # remove_lines gone norm False lines)"

definition RemoveHeaderField :: "string \<Rightarrow> string \<Rightarrow> string" where
  "RemoveHeaderField header key =
     join [LF] (remove_lines (\<lambda>l. has_prefix (to_lower l) (to_lower key @ '':'')) (trim_cr) False (split_on LF header))"

definition StripHaitatsuHeaders :: "string \<Rightarrow> string" where
  "StripHaitatsuHeaders header =
     join [LF] (remove_lines (\<lambda>l. has_prefix (to_lower l) ''x-haitatsu-'') (\<lambda>l. l) False (split_on LF header))"

section \<open>Folding\<close>

definition index_wsp :: "string \<Rightarrow> nat option" where
  "index_wsp s = (if list_ex is_wsp s then Some (length (takeWhile (\<lambda>c. \<not> is_wsp c) s)) else None)"

definition last_wsp :: "string \<Rightarrow> nat option" where
  "last_wsp s = (if list_ex is_wsp s then Some (length s - 1 - length (takeWhile (\<lambda>c. \<not> is_wsp c) (rev s))) else None)"

text \<open>The break of a line longer than 78 bytes: \<open>Inl\<close> is the panic of \<^verbatim>\<open>line[minimum:]\<close>.\<close>

definition fold_point :: "nat \<Rightarrow> string \<Rightarrow> unit + nat option" where
  "fold_point minimum line =
     (case last_wsp (take 78 line) of
        Some i \<Rightarrow> if minimum \<le> i then Inr (Some i)
          else if length line < minimum then Inl () else Inr (map_option (\<lambda>j. j + minimum) (index_wsp (drop minimum line)))
      | None \<Rightarrow> if length line < minimum then Inl () else Inr (map_option (\<lambda>j. j + minimum) (index_wsp (drop minimum line))))"

partial_function (option) fold_loop :: "nat \<Rightarrow> string \<Rightarrow> string option" where
  "fold_loop minimum line =
     (if length line \<le> 78 then Some line else
      case fold_point minimum line of
        Inl _ \<Rightarrow> None
      | Inr None \<Rightarrow> Some line
      | Inr (Some i) \<Rightarrow>
          Option.bind (fold_loop (length (takeWhile is_wsp (drop i line)) + 1) (drop i line))
            (\<lambda>rest. Some (take i line @ CRLF @ rest)))"

declare fold_loop.simps [code]

definition foldHeaderLine :: "string \<Rightarrow> string \<Rightarrow> string option" where
  "foldHeaderLine key value = fold_loop (length key + 2) (key @ '': '' @ value)"

text \<open>\<^verbatim>\<open>textproto.MIMEHeader\<close>: values by key, as an association list without repeated keys.\<close>

type_synonym mime_header = "(string \<times> string list) list"

fun format_values :: "string \<Rightarrow> string list \<Rightarrow> string option" where
  "format_values key [] = Some []"
| "format_values key (value # rest) =
     Option.bind (foldHeaderLine key value) (\<lambda>line. map_option (\<lambda>s. line @ CRLF @ s) (format_values key rest))"

fun format_fields :: "mime_header \<Rightarrow> string option" where
  "format_fields [] = Some []"
| "format_fields (kv # h) =
     Option.bind (format_values (fst kv) (snd kv)) (\<lambda>s. map_option (\<lambda>t. s @ t) (format_fields h))"

definition FormatRFC822 :: "mime_header \<Rightarrow> string \<Rightarrow> string option" where
  "FormatRFC822 h body = map_option (\<lambda>s. s @ CRLF @ body) (format_fields (sort_key fst h))"

end
