(* ===== verification/Rfc822_Props.thy ===== *)
theory Rfc822_Props
  imports Rfc822
begin

text \<open>
  What the message functions guarantee: where the header ends, the line endings of a normalised message, the removal of
  header fields as an operation on a list of fields, and folding as an operation that unfolding undoes.
\<close>

section \<open>Lines\<close>

lemma read_line_LF:
  "LF \<notin> set a \<Longrightarrow> read_line (a @ LF # b) = (a @ [LF], b)"
  by (induction a) auto

lemma read_line_no_LF: "LF \<notin> set s \<Longrightarrow> read_line s = (s, [])"
  by (induction s) auto

lemma terminator_lines [simp]:
  "isHeaderTerminatorLine [LF]" "isHeaderTerminatorLine [CR, LF]" "isHeaderTerminatorLine [CR]"
  by (simp_all add: isHeaderTerminatorLine_def trim_suffix_def has_suffix_def)

lemma rfc822_line:
  assumes "LF \<notin> set a" and "\<not> isHeaderTerminatorLine (a @ [LF])"
  shows "rfc822_loop raw h (a @ LF # b) = rfc822_loop raw (h @ a @ [LF]) b"
  using assms by (subst rfc822_loop.simps) (simp add: read_line_LF)

lemma rfc822_end:
  "isHeaderTerminatorLine (a @ [LF]) \<Longrightarrow> LF \<notin> set a
    \<Longrightarrow> rfc822_loop raw h (a @ LF # b) = (if h = [] then Some ([], raw) else Some (h, b))"
  by (subst rfc822_loop.simps) (simp add: read_line_LF)

lemma append_eq_split: "a @ x # t = u @ x # v \<Longrightarrow> x \<notin> set u \<Longrightarrow> x \<notin> set a \<Longrightarrow> u = a \<and> v = t"
  by (induction a arbitrary: u) (auto simp: Cons_eq_append_conv append_eq_Cons_conv)

lemma rfc822_start:
  "rfc822_loop raw h (LF # b) \<noteq> None" "rfc822_loop raw h (CR # LF # b) \<noteq> None"
  using rfc822_end [of "[]" raw h b] rfc822_end [of "[CR]" raw h b] by simp_all

text \<open>Where the line rule finds no end, no empty line follows a line.\<close>

lemma rfc822_None:
  "rfc822_loop raw h s = None \<Longrightarrow> s = a @ LF # t \<Longrightarrow> \<not> has_prefix t [LF] \<and> \<not> has_prefix t CRLF"
proof (induction "length s" arbitrary: s h a rule: less_induct)
  case less
  obtain u v where uv: "a @ LF # t = u @ LF # v" "LF \<notin> set u"
    using split_list_first [of LF "a @ LF # t"] by auto
  have nt: "\<not> isHeaderTerminatorLine (u @ [LF])"
    using less.prems uv rfc822_end [of u raw h v] by (auto split: if_splits)
  have r: "rfc822_loop raw (h @ u @ [LF]) v = None"
    using less.prems uv rfc822_line [OF uv(2) nt, of raw h v] by simp
  show ?case
  proof (cases "LF \<in> set a")
    case False
    with uv have "v = t" using append_eq_split [OF uv(1)] by simp
    moreover have "v \<noteq> LF # b" "v \<noteq> CR # LF # b" for b
      using r rfc822_start [of raw "h @ u @ [LF]" b] by auto
    ultimately show ?thesis by (auto simp: has_prefix_iff)
  next
    case True
    then obtain a1 a2 where a: "a = a1 @ LF # a2" "LF \<notin> set a1" by (meson split_list_first)
    with uv have v: "v = a2 @ LF # t" using append_eq_split [of a1 LF "a2 @ LF # t" u v] by simp
    then have "length v < length s" using less.prems(2) a by simp
    from less.hyps [OF this r v] show ?thesis .
  qed
qed

lemma split_None:
  assumes "splitHeaderBodyRFC822 raw = None"
  shows "splitAtSeparator raw (CRLF @ [LF]) m n = None" and "searchSeparator raw 0 = None" and "indexLFHeaderEnd raw = None"
proof -
  note no = rfc822_None [OF assms [unfolded splitHeaderBodyRFC822_def]]
  have "\<not> contains raw (CRLF @ [LF])"
    using no [of "a @ [CR]" "LF # b" for a b] by (auto simp: contains_iff has_prefix_def)
  then show "splitAtSeparator raw (CRLF @ [LF]) m n = None"
    by (simp add: splitAtSeparator_def contains_def)
  have "\<not> contains raw (CRLF @ CRLF)"
    using no [of "a @ [CR]" "CRLF @ b" for a b] by (auto simp: contains_iff has_prefix_def)
  then show "searchSeparator raw 0 = None"
    by (subst searchSeparator.simps) (simp add: contains_def)
  have "lf_end_from raw n i = None" for n i
  proof (induction n arbitrary: i)
    case (Suc n)
    have "raw ! (i + 1) \<noteq> LF" if "i + 1 < length raw" "raw ! i = LF"
    proof
      assume "raw ! (i + 1) = LF"
      with that have "raw = take i raw @ LF # LF # drop (i + 2) raw"
        by (metis Cons_nth_drop_Suc Suc_eq_plus1 Suc_lessD add_2_eq_Suc' append_take_drop_id)
      with no [of "take i raw" "LF # drop (i + 2) raw"] show False by (auto simp: has_prefix_def)
    qed
    with Suc show ?case by auto
  qed simp
  then show "indexLFHeaderEnd raw = None" by (simp add: indexLFHeaderEnd_def)
qed

lemma split_cases:
  "SplitHeaderBody raw = (case splitHeaderBodyRFC822 raw of Some hb \<Rightarrow> hb | None \<Rightarrow> splitHeaderBodyLines raw)"
  by (cases "splitHeaderBodyRFC822 raw") (simp_all add: SplitHeaderBody_def split_None [simplified])

text \<open>
  The line rule, said of positions: \<open>line_end raw i\<close> is the length of the empty line that starts at byte \<open>i\<close>, a LF, a CRLF, or a
  CR that ends the message.  The header ends at the first of them; a message that starts with one has no header and is all body.
\<close>

definition line_end :: "string \<Rightarrow> nat \<Rightarrow> nat option" where
  "line_end raw i =
     (if 0 < i \<and> raw ! (i - 1) \<noteq> LF then None
      else if raw ! i = LF then Some 1
      else if raw ! i = CR \<and> i + 1 = length raw then Some 1
      else if raw ! i = CR \<and> raw ! (i + 1) = LF then Some 2
      else None)"

definition first_empty_line :: "string \<Rightarrow> nat option" where
  "first_empty_line raw = find (\<lambda>i. line_end raw i \<noteq> None) [0..<length raw]"

text \<open>Without an empty line, the header is the lines up to the first that is blank, or is not the first and not a field.\<close>

definition field_like :: "string \<Rightarrow> bool" where
  "field_like line \<longleftrightarrow> (\<exists>name rest. trim_space line = name @ '':'' @ rest \<and> name \<noteq> [] \<and> list_all isHeaderKeyByte name)"

definition header_lines :: "string list \<Rightarrow> nat" where
  "header_lines ls = (case find (\<lambda>k. trim_space (ls ! k) = [] \<or> 0 < k \<and> \<not> field_like (ls ! k)) [0..<length ls] of
     None \<Rightarrow> length ls | Some k \<Rightarrow> k)"

definition by_lines :: "string list \<Rightarrow> string \<times> string" where
  "by_lines ls = (let k = header_lines ls in
     (concat (map (\<lambda>l. l @ [LF]) (take k ls)),
      join [LF] (drop (if k < length ls \<and> trim_space (ls ! k) = [] then Suc k else k) ls)))"

lemma terminator_iff: "isHeaderTerminatorLine line \<longleftrightarrow> line \<in> {[], [LF], [CR], [CR, LF]}"
proof
  assume t: "isHeaderTerminatorLine line"
  show "line \<in> {[], [LF], [CR], [CR, LF]}"
  proof (cases "has_suffix line [LF]")
    case True
    then obtain a where a: "line = a @ [LF]" by (auto simp: has_suffix_iff)
    with t have "trim_suffix a [CR] = []" by (simp add: isHeaderTerminatorLine_def trim_suffix_def has_suffix_iff)
    then have "a = [] \<or> a = [CR]" by (cases a rule: rev_cases) (auto simp: trim_suffix_def has_suffix_iff split: if_splits)
    with a show ?thesis by auto
  next
    case False
    with t have "trim_suffix line [CR] = []" by (simp add: isHeaderTerminatorLine_def trim_suffix_def)
    then show ?thesis by (cases line rule: rev_cases) (auto simp: trim_suffix_def has_suffix_iff split: if_splits)
  qed
qed (auto simp: isHeaderTerminatorLine_def trim_suffix_def has_suffix_def)

lemma read_line_last: "snd (read_line s) \<noteq> [] \<Longrightarrow> fst (read_line s) \<noteq> [] \<and> last (fst (read_line s)) = LF"
  by (induction s) (auto simp: case_prod_unfold)

lemma find_skip: "(\<And>x. x \<in> set xs \<Longrightarrow> \<not> p x) \<Longrightarrow> find p (xs @ ys) = find p ys"
  by (induction xs) auto

lemma line_end_inside: "0 < i \<Longrightarrow> raw ! (i - 1) \<noteq> LF \<Longrightarrow> line_end raw i = None"
  by (simp add: line_end_def)

text \<open>The line at a position where one starts.\<close>

lemma line_end_start:
  assumes "s \<noteq> []" and "h = [] \<or> last h = LF"
  shows "line_end (h @ s) (length h) = (if isHeaderTerminatorLine (fst (read_line s)) then Some (length (fst (read_line s))) else None)"
proof -
  have st: "\<not> (0 < length h \<and> (h @ s) ! (length h - 1) \<noteq> LF)"
    using assms(2) by (cases h rule: rev_cases) (auto simp: nth_append)
  obtain c t where s: "s = c # t" using assms(1) by (cases s) auto
  have at: "(h @ s) ! length h = c" "(h @ s) ! (length h + 1) = t ! 0" "length h + 1 = length (h @ s) \<longleftrightarrow> t = []"
    by (simp_all add: s nth_append)
  show ?thesis
    unfolding line_end_def if_not_P [OF st] at
    by (cases t) (auto simp: s terminator_iff split: prod.split)
qed

lemma inside_line:
  assumes "length h < i" and "i < length h + length (fst (read_line s))"
  shows "line_end (h @ s) i = None"
proof (rule line_end_inside)
  let ?l = "fst (read_line s)" and ?j = "i - 1 - length h"
  have nl: "fst (read_line s) ! j \<noteq> LF" if "Suc j < length (fst (read_line s))" for j and s :: string
    using that by (induction s arbitrary: j) (auto simp: nth_Cons' split: prod.splits if_splits)
  have j: "?j < length ?l" using assms by linarith
  have "s ! ?j = (?l @ snd (read_line s)) ! ?j" by simp
  also have "\<dots> = ?l ! ?j" using j by (simp only: nth_append if_True)
  finally have "s ! ?j = ?l ! ?j" .
  moreover have "\<not> i - 1 < length h" using assms(1) by linarith
  then have "(h @ s) ! (i - 1) = s ! ?j" by (simp only: nth_append if_False)
  moreover have "?l ! ?j \<noteq> LF" by (rule nl) (use assms in linarith)
  ultimately show "(h @ s) ! (i - 1) \<noteq> LF" by simp
qed (use assms in simp)

lemma rfc822_rule:
  assumes "raw = h @ s" and "h = [] \<or> last h = LF"
  shows "rfc822_loop raw h s = (case find (\<lambda>i. line_end raw i \<noteq> None) [length h..<length raw] of
     None \<Rightarrow> None | Some i \<Rightarrow> Some (if i = 0 then ([], raw) else (take i raw, drop (i + the (line_end raw i)) raw)))"
  using assms
proof (induction "length s" arbitrary: h s rule: less_induct)
  case less
  show ?case
  proof (cases "s = []")
    case True
    with less.prems show ?thesis by (subst rfc822_loop.simps) simp
  next
    case False
    let ?l = "fst (read_line s)" and ?r = "snd (read_line s)"
    have s: "s = ?l @ ?r" by simp
    have upt: "[length h..<length raw] = length h # [Suc (length h)..<length raw]" using False less.prems(1) by (simp add: upt_conv_Cons)
    note st = line_end_start [OF False less.prems(2), folded less.prems(1)]
    show ?thesis
    proof (cases "isHeaderTerminatorLine ?l")
      case True
      have "drop (length h + length ?l) raw = ?r" using less.prems(1) by (metis append.assoc append_eq_conv_conj length_append s)
      moreover have "find (\<lambda>i. line_end raw i \<noteq> None) [length h..<length raw] = Some (length h)"
        unfolding upt find.simps st using True by simp
      moreover have "take (length h) raw = h" using less.prems(1) by simp
      ultimately show ?thesis using True False st by (subst rfc822_loop.simps) (simp add: Let_def)
    next
      case nt: False
      have step: "rfc822_loop raw h s = rfc822_loop raw (h @ ?l) ?r" using False nt by (subst rfc822_loop.simps) (simp add: Let_def)
      have raw: "raw = (h @ ?l) @ ?r" using less.prems(1) by simp
      have "[length h..<length raw] = [length h..<length h + length ?l] @ [length (h @ ?l)..<length raw]"
        unfolding raw using upt_add_eq_append [of "length h" "length h + length ?l" "length ?r"]
        by (simp add: add.assoc del: read_line_append)
      moreover have "line_end raw i = None" if "i \<in> set [length h..<length h + length ?l]" for i
        using that st nt inside_line [of h i s] less.prems(1) by (cases "i = length h") auto
      ultimately have f: "find (\<lambda>i. line_end raw i \<noteq> None) [length h..<length raw] = find (\<lambda>i. line_end raw i \<noteq> None) [length (h @ ?l)..<length raw]"
        by (simp only: find_skip not_not)
      show ?thesis
      proof (cases "?r = []")
        case True
        then have "length (h @ ?l) = length raw" using raw by simp
        with True show ?thesis unfolding step f by (subst rfc822_loop.simps) simp
      next
        case False
        then have "last (h @ ?l) = LF" using read_line_last [of s] \<open>s \<noteq> []\<close> by simp
        moreover have "length ?r < length s" using \<open>s \<noteq> []\<close> by (rule read_line_less)
        ultimately show ?thesis unfolding step f using less.hyps [OF _ raw] by simp
      qed
    qed
  qed
qed

lemma join_eq_Nil: "sep \<noteq> [] \<Longrightarrow> join sep ls = [] \<longleftrightarrow> ls = [] \<or> ls = [[]]"
  by (cases "(sep, ls)" rule: join.cases) auto

lemma name_no_colon: "list_all isHeaderKeyByte name \<Longrightarrow> CHR '':'' \<notin> set name"
  by (auto simp: list_all_iff isHeaderKeyByte_def code_def)

lemma trim_right_prefix: "trim_right p s @ rev (takeWhile p (rev s)) = s"
  by (metis rev_append rev_rev_ident takeWhile_dropWhile_id trim_right_def)

lemma trim_space_hd: "trim_space l \<noteq> [] \<Longrightarrow> \<not> is_space (hd (trim_space l))"
proof -
  assume "trim_space l \<noteq> []"
  obtain t where t: "dropWhile is_space l = trim_space l @ t"
    using trim_right_prefix [of is_space "dropWhile is_space l"] unfolding trim_space_def trim_left_def by metis
  with \<open>trim_space l \<noteq> []\<close> show ?thesis by (metis append_is_Nil_conv hd_append2 hd_dropWhile)
qed

lemma field_like_iff: "trim_space l \<noteq> [] \<Longrightarrow> isHeaderLine l \<longleftrightarrow> field_like l"
proof -
  assume ne: "trim_space l \<noteq> []"
  then have "\<not> (hd (trim_space l) = SP \<or> hd (trim_space l) = TAB)" using trim_space_hd [OF ne] by (auto simp: is_space_def code_def)
  with ne have h: "isHeaderLine l \<longleftrightarrow> (case index_of '':'' (trim_space l) of None \<Rightarrow> False
      | Some i \<Rightarrow> 0 < i \<and> list_all isHeaderKeyByte (take i (trim_space l)))"
    by (simp add: isHeaderLine_def Let_def)
  show ?thesis
  proof
    assume "isHeaderLine l"
    with h obtain i where i: "index_of '':'' (trim_space l) = Some i" "0 < i" "list_all isHeaderKeyByte (take i (trim_space l))"
      by (auto split: option.splits)
    from index_of_Some [OF i(1)] obtain a b where "trim_space l = a @ '':'' @ b" "length a = i" by blast
    with i show "field_like l" unfolding field_like_def by (intro exI [of _ a] exI [of _ b]) auto
  next
    assume "field_like l"
    then obtain name rest where t: "trim_space l = name @ CHR '':'' # rest" "name \<noteq> []" "list_all isHeaderKeyByte name"
      by (auto simp: field_like_def)
    then have "index_of '':'' (trim_space l) = Some (length name)" by (simp add: index_of_char name_no_colon)
    with h t show "isHeaderLine l" by simp
  qed
qed

text \<open>The lines rule, by the lines already taken.\<close>

lemma split_lines_rule:
  assumes "ls = hl @ rest"
  shows "split_lines hl rest = (let k = (case find (\<lambda>k. trim_space (ls ! k) = [] \<or> 0 < k \<and> \<not> field_like (ls ! k)) [length hl..<length ls] of
       None \<Rightarrow> length ls | Some k \<Rightarrow> k)
     in (take k ls, drop (if k < length ls \<and> trim_space (ls ! k) = [] then Suc k else k) ls))"
  using assms
proof (induction rest arbitrary: hl)
  case (Cons l rest)
  have at: "ls ! length hl = l" using Cons.prems by simp
  have upt: "[length hl..<length ls] = length hl # [length (hl @ [l])..<length ls]"
    using upt_conv_Cons [of "length hl" "length ls"] Cons.prems by simp
  consider (blank) "trim_space l = []" | (stop) "trim_space l \<noteq> []" "\<not> field_like l" "hl \<noteq> []" | (more) "trim_space l \<noteq> []" "field_like l \<or> hl = []" by blast
  then show ?case
  proof cases
    case blank
    then have "split_lines hl (l # rest) = (hl, rest)" by simp
    moreover have "take (length hl) ls = hl" "drop (Suc (length hl)) ls = rest" "length hl < length ls" using Cons.prems by simp_all
    ultimately show ?thesis unfolding upt find.simps at using blank at by (simp add: Let_def)
  next
    case stop
    then have "split_lines hl (l # rest) = (hl, l # rest)" by (simp add: field_like_iff)
    moreover have "take (length hl) ls = hl" "drop (length hl) ls = l # rest" using Cons.prems by simp_all
    ultimately show ?thesis unfolding upt find.simps at using stop at by (simp add: Let_def)
  next
    case more
    then have "split_lines hl (l # rest) = split_lines (hl @ [l]) rest" by (auto simp: field_like_iff)
    also have "\<dots> = (let k = (case find (\<lambda>k. trim_space (ls ! k) = [] \<or> 0 < k \<and> \<not> field_like (ls ! k)) [length (hl @ [l])..<length ls] of
         None \<Rightarrow> length ls | Some k \<Rightarrow> k)
       in (take k ls, drop (if k < length ls \<and> trim_space (ls ! k) = [] then Suc k else k) ls))"
      by (rule Cons.IH) (use Cons.prems in simp)
    finally have e: "split_lines hl (l # rest) = \<dots>" .
    have "\<not> (trim_space (ls ! length hl) = [] \<or> 0 < length hl \<and> \<not> field_like (ls ! length hl))" using more at by auto
    then show ?thesis unfolding e upt find.simps by (simp only: if_False)
  qed
qed simp

lemma header_lines_blank: "j < header_lines ls \<Longrightarrow> trim_space (ls ! j) \<noteq> []"
proof -
  assume j: "j < header_lines ls"
  let ?p = "\<lambda>k. trim_space (ls ! k) = [] \<or> 0 < k \<and> \<not> field_like (ls ! k)"
  show ?thesis
  proof (cases "find ?p [0..<length ls]")
    case None
    with j show ?thesis by (auto simp: header_lines_def find_None_iff)
  next
    case (Some k)
    then obtain m where "m < length [0..<length ls]" "k = [0..<length ls] ! m" "\<forall>n < m. \<not> ?p ([0..<length ls] ! n)"
      by (auto simp: find_Some_iff)
    with j Some show ?thesis by (auto simp: header_lines_def)
  qed
qed

lemma join_terminated: "ls \<noteq> [] \<Longrightarrow> join [LF] ls @ [LF] = concat (map (\<lambda>l. l @ [LF]) ls)"
  by (induction ls rule: induct_list012) simp_all

lemma by_lines_eq: "splitHeaderBodyLines raw = by_lines (split_on LF (unify_newlines raw))"
proof -
  let ?ls = "split_on LF (unify_newlines raw)" and ?k = "header_lines (split_on LF (unify_newlines raw))"
  have sp: "split_lines [] ?ls = (take ?k ?ls, drop (if ?k < length ?ls \<and> trim_space (?ls ! ?k) = [] then Suc ?k else ?k) ?ls)"
    using split_lines_rule [of ?ls "[]" ?ls] by (simp add: header_lines_def Let_def)
  show ?thesis
  proof (cases "?k = 0")
    case True
    then show ?thesis by (simp add: splitHeaderBodyLines_def sp by_lines_def Let_def joinLines_def)
  next
    case False
    then have ne: "take ?k ?ls \<noteq> []" by simp
    have "trim_space (?ls ! 0) \<noteq> []" using False by (intro header_lines_blank) simp
    then have "?ls ! 0 \<noteq> []" by auto
    then have "join [LF] (take ?k ?ls) \<noteq> []" using False by (cases ?ls) (auto simp: join_eq_Nil take_Cons' split: if_splits)
    with ne show ?thesis by (simp add: splitHeaderBodyLines_def sp by_lines_def Let_def joinLines_def join_terminated)
  qed
qed

section \<open>Normal line endings\<close>

fun crlf_clean :: "string \<Rightarrow> bool" where
  "crlf_clean [] = True"
| "crlf_clean [c] = (c \<noteq> CR \<and> c \<noteq> LF)"
| "crlf_clean (c # d # s) = (if c = CR then d = LF \<and> crlf_clean s else c \<noteq> LF \<and> crlf_clean (d # s))"

lemma crlf_clean_append: "crlf_clean a \<Longrightarrow> crlf_clean b \<Longrightarrow> crlf_clean (a @ b)"
proof (induction a rule: crlf_clean.induct)
  case (2 c)
  then show ?case by (cases b) auto
qed (auto split: if_splits)

lemma crlf_clean_plain: "CR \<notin> set s \<Longrightarrow> LF \<notin> set s \<Longrightarrow> crlf_clean s"
  by (induction s rule: crlf_clean.induct) auto

lemma crlf_clean_lines:
  "(\<And>l. l \<in> set ls \<Longrightarrow> CR \<notin> set l \<and> LF \<notin> set l) \<Longrightarrow> crlf_clean (join CRLF ls)"
proof (induction ls rule: induct_list012)
  case (2 w)
  then show ?case by (simp add: crlf_clean_plain)
next
  case (3 w v ws)
  have "crlf_clean (w @ (CRLF @ join CRLF (v # ws)))"
    using 3 by (intro crlf_clean_append) (auto simp: crlf_clean_plain)
  then show ?case by simp
qed simp

lemma unify_no_CR: "CR \<notin> set (unify_newlines s)"
  by (auto simp: unify_newlines_def)

lemma trim_right_plain: "(\<And>c. c \<in> set s \<Longrightarrow> \<not> p c) \<Longrightarrow> trim_right p s = s"
  by (rule trim_right_id) (metis last_in_set)

lemma set_split_on: "w \<in> set (split_on d s) \<Longrightarrow> set w \<subseteq> set s"
proof (induction s arbitrary: w)
  case (Cons c s)
  then show ?case by (cases "split_on d s") (fastforce split: if_splits)+
qed simp

lemma unified_lines:
  assumes "l \<in> set (split_on LF (unify_newlines s))"
  shows "CR \<notin> set l \<and> LF \<notin> set l"
  using assms unify_no_CR [of s] set_split_on [OF assms] split_on_no_sep [OF assms] by blast

lemma crlf_to_lf_Nil [simp]: "crlf_to_lf s = [] \<longleftrightarrow> s = []"
  by (induction s rule: crlf_to_lf.induct) auto

lemma unify_Nil [simp]: "unify_newlines s = [] \<longleftrightarrow> s = []"
  by (simp add: unify_newlines_def)

lemma split_on_single: "split_on d s = [w] \<Longrightarrow> w = s"
  using join_split_on [of d s] by simp

lemma toCRLF_lines:
  assumes "s \<noteq> []"
  shows "toCRLF s = join CRLF (split_on LF (unify_newlines s)) @ CRLF"
proof -
  have t: "map (trim_cr) (split_on LF (unify_newlines s)) = split_on LF (unify_newlines s)"
    by (rule map_idI) (auto simp: trim_cr_def dest: unified_lines intro!: trim_right_plain)
  have "join CRLF (split_on LF (unify_newlines s)) \<noteq> []"
    using assms split_on_single [of LF "unify_newlines s" "[]"] by (auto simp: join_eq_Nil) (metis unify_Nil)
  with assms t show ?thesis by (simp add: toCRLF_def Let_def)
qed

lemma toCRLF_clean: "crlf_clean (toCRLF s)"
proof (cases "s = []")
  case False
  then show ?thesis
    unfolding toCRLF_lines [OF False] by (intro crlf_clean_append crlf_clean_lines unified_lines) simp_all
qed (simp add: toCRLF_def)

lemma ensure_clean: "crlf_clean h \<Longrightarrow> crlf_clean (ensureHeaderBodySeparator h)"
  by (auto simp: ensureHeaderBodySeparator_def intro!: crlf_clean_append)

lemma join_clean: "crlf_clean (JoinHeaderBody h b)"
  by (auto simp: JoinHeaderBody_def Let_def intro!: crlf_clean_append ensure_clean toCRLF_clean)

lemma unify_clean_append:
  "crlf_clean a \<Longrightarrow> unify_newlines (a @ b) = unify_newlines a @ unify_newlines b"
proof (induction a rule: crlf_clean.induct)
  case (2 c)
  then show ?case by (cases b) (auto simp: unify_newlines_def)
qed (auto simp: unify_newlines_def split: if_splits)

lemma unify_plain: "CR \<notin> set s \<Longrightarrow> LF \<notin> set s \<Longrightarrow> unify_newlines s = s"
  by (induction s rule: crlf_to_lf.induct) (auto simp: unify_newlines_def)

lemma unify_join_lines:
  "(\<And>l. l \<in> set ls \<Longrightarrow> CR \<notin> set l \<and> LF \<notin> set l) \<Longrightarrow> unify_newlines (join CRLF ls) = join [LF] ls"
proof (induction ls rule: induct_list012)
  case (2 w)
  then show ?case by (simp add: unify_plain)
next
  case (3 w v ws)
  have "unify_newlines (w @ (CRLF @ join CRLF (v # ws))) = w @ [LF] @ join [LF] (v # ws)"
    using 3 by (simp add: unify_clean_append crlf_clean_plain unify_plain) (simp add: unify_newlines_def)
  then show ?case by simp
qed (simp add: unify_newlines_def)

text \<open>The text of the lines is kept; one line end is added.\<close>

lemma unify_toCRLF:
  assumes "s \<noteq> []"
  shows "unify_newlines (toCRLF s) = unify_newlines s @ [LF]"
proof -
  let ?ls = "split_on LF (unify_newlines s)"
  have "unify_newlines (toCRLF s) = unify_newlines (join CRLF ?ls) @ unify_newlines CRLF"
    unfolding toCRLF_lines [OF assms] by (intro unify_clean_append crlf_clean_lines unified_lines)
  also have "unify_newlines (join CRLF ?ls) = unify_newlines s"
    by (simp add: unify_join_lines unified_lines)
  finally show ?thesis by (simp add: unify_newlines_def)
qed

lemma toCRLF_twice:
  assumes "s \<noteq> []"
  shows "toCRLF (toCRLF s) = toCRLF s @ CRLF"
proof -
  have app: "join CRLF (ls @ [[]]) = join CRLF ls @ CRLF" if "ls \<noteq> []" for ls :: "string list"
    using that by (induction ls rule: induct_list012) simp_all
  have sp: "split_on LF (u @ [LF]) = split_on LF u @ [[]]" for u
    by (induction u) (auto split: list.splits)
  have "toCRLF s \<noteq> []" using assms by (simp add: toCRLF_lines)
  then have "toCRLF (toCRLF s) = join CRLF (split_on LF (unify_newlines s @ [LF])) @ CRLF"
    unfolding unify_toCRLF [OF assms, symmetric] by (rule toCRLF_lines)
  also have "\<dots> = toCRLF s @ CRLF"
    using assms by (simp add: sp app toCRLF_lines)
  finally show ?thesis .
qed

subsection \<open>The parts of a normalised message\<close>

text \<open>A header that is not empty ends with a LF.\<close>

lemma header_ends_line:
  assumes "SplitHeaderBody raw = (h, b)"
  shows "h = [] \<or> (\<exists>t. h = t @ [LF])"
proof (cases "splitHeaderBodyRFC822 raw")
  case None
  with assms have "h = fst (by_lines (split_on LF (unify_newlines raw)))" by (simp add: split_cases by_lines_eq)
  then have "h = concat (map (\<lambda>l. l @ [LF]) (take (header_lines (split_on LF (unify_newlines raw))) (split_on LF (unify_newlines raw))))"
    by (simp add: by_lines_def Let_def)
  moreover have "concat (map (\<lambda>l. l @ [LF]) ls) = [] \<or> (\<exists>t. concat (map (\<lambda>l. l @ [LF]) ls) = t @ [LF])" for ls
    by (cases ls rule: rev_cases) auto
  ultimately show ?thesis by blast
next
  case (Some hb)
  have "\<exists>t. h = t @ [LF]" if "i < length raw" "line_end raw i \<noteq> None" "0 < i" "h = take i raw" for i
  proof -
    from that have "raw ! (i - 1) = LF" by (auto simp: line_end_def split: if_splits)
    moreover have "take i raw = take (i - 1) raw @ [raw ! (i - 1)]" using that(1,3) take_Suc_conv_app_nth [of "i - 1" raw] by simp
    ultimately show ?thesis using that(4) by auto
  qed
  moreover have "rfc822_loop raw [] raw = Some (h, b)" using Some assms by (simp add: split_cases splitHeaderBodyRFC822_def)
  then obtain i where "find (\<lambda>i. line_end raw i \<noteq> None) [0..<length raw] = Some i" and h: "h = (if i = 0 then [] else take i raw)"
    unfolding rfc822_rule [of raw "[]" raw, simplified] by (auto split: option.splits if_splits)
  then have "i < length raw" "line_end raw i \<noteq> None" by (auto simp: find_Some_iff)
  ultimately show ?thesis using h by (cases "i = 0") auto
qed

lemma crlf_to_lf_snoc: "\<exists>u. crlf_to_lf (t @ [LF]) = u @ [LF]"
proof (induction t rule: crlf_to_lf.induct)
  case (3 c d s)
  then show ?case by (cases s) auto
qed (auto split: if_splits)

lemma unify_ends_line: "h = t @ [LF] \<Longrightarrow> \<exists>u. unify_newlines h = u @ [LF]"
  using crlf_to_lf_snoc [of t] by (auto simp: unify_newlines_def)

lemma split_on_snoc: "split_on LF (u @ [LF]) = split_on LF u @ [[]]"
  by (induction u) (auto split: list.splits)

lemma join_CRLF_snoc: "ls \<noteq> [] \<Longrightarrow> join CRLF (ls @ [[]]) = join CRLF ls @ CRLF"
  by (induction ls rule: induct_list012) simp_all

lemma header_separated:
  assumes "h = t @ [LF]"
  shows "ensureHeaderBodySeparator (toCRLF h) = toCRLF h" and "toCRLF h \<noteq> []"
proof -
  from unify_ends_line [OF assms] obtain u where u: "unify_newlines h = u @ [LF]" by blast
  have "h \<noteq> []" using assms by simp
  from toCRLF_lines [OF this] have e: "toCRLF h = join CRLF (split_on LF u) @ CRLF @ CRLF"
    unfolding u split_on_snoc by (simp add: join_CRLF_snoc)
  then show "ensureHeaderBodySeparator (toCRLF h) = toCRLF h" "toCRLF h \<noteq> []"
    by (simp_all add: ensureHeaderBodySeparator_def has_suffix_iff)
qed

lemma unify_join_parts:
  assumes "h = [] \<or> (\<exists>t. h = t @ [LF])"
  shows "unify_newlines (JoinHeaderBody h b) =
    (if h = [] \<and> b = [] then [LF, LF]
     else (if h = [] then [] else unify_newlines h @ [LF]) @ (if b = [] then [] else unify_newlines b @ [LF]))"
proof (cases "h = []")
  case True
  have e: "toCRLF [] = []" by (simp add: toCRLF_def)
  show ?thesis
  proof (cases "b = []")
    case True
    have "unify_newlines (ensureHeaderBodySeparator []) = [LF, LF]" by code_simp
    with \<open>h = []\<close> True show ?thesis by (simp add: JoinHeaderBody_def e)
  next
    case False
    with \<open>h = []\<close> show ?thesis by (simp add: JoinHeaderBody_def e unify_toCRLF)
  qed
next
  case False
  with assms obtain t where "h = t @ [LF]" by blast
  note s = header_separated [OF this]
  show ?thesis
    using False s by (auto simp: JoinHeaderBody_def Let_def unify_clean_append [OF toCRLF_clean] unify_toCRLF)
qed

section \<open>Removing fields\<close>

text \<open>A header as a list of fields: a first line with the continuation lines after it.\<close>

function field_groups :: "(string \<Rightarrow> bool) \<Rightarrow> string list \<Rightarrow> string list list" where
  "field_groups cont [] = []"
| "field_groups cont (l # ls) = (l # takeWhile cont ls) # field_groups cont (dropWhile cont ls)"
  by pat_completeness auto
termination
  by (relation "measure (\<lambda>(_, ls). length ls)") (auto simp: length_dropWhile_le less_Suc_eq_le)

definition continuation :: "(string \<Rightarrow> string) \<Rightarrow> string \<Rightarrow> bool" where
  "continuation norm l \<longleftrightarrow> norm l \<noteq> [] \<and> is_wsp (hd (norm l))"

definition kept :: "(string \<Rightarrow> bool) \<Rightarrow> (string \<Rightarrow> string) \<Rightarrow> string list \<Rightarrow> bool" where
  "kept gone norm g \<longleftrightarrow> continuation norm (hd g) \<or> \<not> gone (norm (hd g))"

lemma remove_lines_step:
  "remove_lines gone norm b (l # ls) =
     (if continuation norm l then (if b then remove_lines gone norm b ls else l # remove_lines gone norm b ls)
      else if gone (norm l) then remove_lines gone norm True ls else l # remove_lines gone norm False ls)"
  by (simp add: continuation_def Let_def)

lemma remove_lines_run:
  "remove_lines gone norm b ls =
     (if b then [] else takeWhile (continuation norm) ls) @ remove_lines gone norm False (dropWhile (continuation norm) ls)"
proof (induction ls arbitrary: b)
  case (Cons l ls)
  show ?case
    using Cons [of True] Cons [of False] by (simp add: remove_lines_step del: remove_lines.simps)
qed simp

text \<open>The line-by-line removal is a filter on fields.\<close>

lemma remove_lines_fields:
  "remove_lines gone norm False ls = concat (filter (kept gone norm) (field_groups (continuation norm) ls))"
proof (induction "continuation norm" ls rule: field_groups.induct)
  case (2 l ls)
  have "remove_lines gone norm False (l # ls)
      = (if kept gone norm [l] then [l] else []) @ remove_lines gone norm (\<not> kept gone norm [l]) ls"
    by (simp add: remove_lines_step kept_def del: remove_lines.simps)
  also have "remove_lines gone norm (\<not> kept gone norm [l]) ls
      = (if kept gone norm [l] then takeWhile (continuation norm) ls else []) @ remove_lines gone norm False (dropWhile (continuation norm) ls)"
    by (subst remove_lines_run) simp
  finally show ?case
    using 2 by (simp add: kept_def)
qed simp

lemma remove_lines_clean:
  assumes "l \<in> set (remove_lines gone norm b ls)"
  shows "continuation norm l \<or> \<not> gone (norm l)"
  using assms
  by (induction ls arbitrary: b) (auto simp: continuation_def Let_def split: if_splits)

lemma remove_lines_id:
  "(\<And>l. l \<in> set ls \<Longrightarrow> continuation norm l \<or> \<not> gone (norm l)) \<Longrightarrow> remove_lines gone norm False ls = ls"
proof (induction ls)
  case (Cons l ls)
  have "continuation norm l \<or> \<not> gone (norm l)" using Cons.prems by simp
  moreover have "remove_lines gone norm False ls = ls" using Cons by simp
  ultimately show ?case by (auto simp: remove_lines_step simp del: remove_lines.simps)
qed simp

lemma remove_lines_subset: "set (remove_lines gone norm b ls) \<subseteq> set ls"
  by (induction ls arbitrary: b) (auto simp: Let_def split: if_splits)

lemma split_on_join_sub:
  assumes "set ls \<subseteq> set (split_on d s)"
  shows "split_on d (join [d] ls) = (if ls = [] then [[]] else ls)"
  using assms split_on_no_sep [of _ d s] by (auto intro!: split_on_join)

text \<open>The lines that name a field, as \<^verbatim>\<open>RemoveHeaderField\<close> recognises them.\<close>

definition field_line :: "string \<Rightarrow> string \<Rightarrow> bool" where
  "field_line key line \<longleftrightarrow> has_prefix (to_lower (trim_cr line)) (to_lower key @ '':'')"

definition field_count :: "string \<Rightarrow> string \<Rightarrow> nat" where
  "field_count key header = length (filter (field_line key) (split_on LF header))"

lemma field_line_no_wsp:
  assumes "key \<noteq> []" and "\<not> is_wsp (hd key)" and "field_line key l"
  shows "\<not> continuation (trim_cr) l"
proof -
  let ?n = "trim_cr l"
  obtain t where t: "to_lower ?n = to_lower key @ '':'' @ t"
    using assms(3) by (auto simp: field_line_def has_prefix_iff)
  with assms(1) have "lower_char (hd ?n) = lower_char (hd key)"
    by (cases key; cases ?n) (auto simp: to_lower_def)
  moreover have "lower_char c = SP \<longleftrightarrow> c = SP" "lower_char c = TAB \<longleftrightarrow> c = TAB" for c
    by (auto simp: lower_char_def code_def dest!: arg_cong [where f = "of_char :: char \<Rightarrow> nat"])
  ultimately have "is_wsp (hd ?n) = is_wsp (hd key)"
    by (metis is_wsp_def)
  with assms(2) show ?thesis by (simp add: continuation_def)
qed

section \<open>Folding\<close>

definition no_eol :: "string \<Rightarrow> bool" where
  "no_eol s \<longleftrightarrow> (\<forall>c \<in> set s. \<not> is_eol c)"

definition unfold :: "string \<Rightarrow> string" where
  "unfold s = filter (\<lambda>c. \<not> is_eol c) s"

lemma index_wsp_Some: "index_wsp s = Some i \<Longrightarrow> i < length s \<and> is_wsp (s ! i)"
  by (auto simp: index_wsp_def list_ex_iff split: if_splits)
     (metis length_takeWhile_le linorder_not_le nle_le nth_length_takeWhile takeWhile_eq_all_conv takeWhile_eq_take take_all order_le_imp_less_or_eq)+

lemma last_wsp_Some: "last_wsp s = Some i \<Longrightarrow> i < length s \<and> is_wsp (s ! i)"
proof -
  assume "last_wsp s = Some i"
  then have ex: "\<exists>c \<in> set s. is_wsp c" and i: "i = length s - 1 - length (takeWhile (\<lambda>c. \<not> is_wsp c) (rev s))"
    by (auto simp: last_wsp_def list_ex_iff split: if_splits)
  let ?n = "length (takeWhile (\<lambda>c. \<not> is_wsp c) (rev s))"
  have "?n < length (rev s)"
    using ex by (metis length_takeWhile_le order_le_less set_rev takeWhile_eq_all_conv takeWhile_eq_take take_all order_refl)
  then have "?n < length s" and "is_wsp (rev s ! ?n)"
    using nth_length_takeWhile [of "\<lambda>c. \<not> is_wsp c" "rev s"] by simp_all
  with i show ?thesis by (simp add: rev_nth)
qed

text \<open>A line that may be longer than 78 bytes: after the position \<open>m\<close> it is one word.\<close>

definition one_word :: "nat \<Rightarrow> string \<Rightarrow> bool" where
  "one_word m l \<longleftrightarrow> (\<forall>k. m \<le> k \<and> k < length l \<longrightarrow> \<not> is_wsp (l ! k))"

definition indent :: "string \<Rightarrow> nat" where
  "indent l = length (takeWhile is_wsp l)"

definition fold_line :: "nat \<Rightarrow> string \<Rightarrow> bool" where
  "fold_line m l \<longleftrightarrow> length l \<le> 78 \<or> one_word m l"

definition continues :: "string \<Rightarrow> bool" where
  "continues l \<longleftrightarrow> l \<noteq> [] \<and> is_wsp (hd l) \<and> indent l < length l \<and> fold_line (indent l + 1) l"

lemma index_wsp_first: "index_wsp s = Some i \<Longrightarrow> k < i \<Longrightarrow> \<not> is_wsp (s ! k)"
  by (auto simp: index_wsp_def split: if_splits) (metis nth_mem set_takeWhileD takeWhile_nth)

lemma index_wsp_None: "index_wsp s = None \<Longrightarrow> k < length s \<Longrightarrow> \<not> is_wsp (s ! k)"
  by (auto simp: index_wsp_def list_ex_iff split: if_splits)

lemma one_word_drop: "index_wsp (drop m l) = None \<Longrightarrow> one_word m l"
  unfolding one_word_def
proof (intro allI impI)
  fix k assume n: "index_wsp (drop m l) = None" and k: "m \<le> k \<and> k < length l"
  then have "k - m < length (drop m l)" "drop m l ! (k - m) = l ! k" by auto
  with index_wsp_None [OF n] show "\<not> is_wsp (l ! k)" by metis
qed

lemma one_word_take:
  assumes "index_wsp (drop m l) = Some j"
  shows "one_word m (take (j + m) l)"
  unfolding one_word_def
proof (intro allI impI)
  fix k assume k: "m \<le> k \<and> k < length (take (j + m) l)"
  then have "k - m < j" "drop m l ! (k - m) = take (j + m) l ! k" by auto
  with index_wsp_first [OF assms] show "\<not> is_wsp (take (j + m) l ! k)" by metis
qed

lemma fold_point_cases:
  assumes "m \<le> length line"
  obtains "fold_point m line = Inr None" "one_word m line"
  | i where "fold_point m line = Inr (Some i)" "m \<le> i" "i < length line" "is_wsp (line ! i)" "fold_line m (take i line)"
proof -
  note none = that(1) and some = that(2)
  have late: thesis if late: "fold_point m line = Inr (map_option (\<lambda>j. j + m) (index_wsp (drop m line)))"
  proof (cases "index_wsp (drop m line)")
    case None
    with late one_word_drop show ?thesis by (intro none) simp_all
  next
    case (Some j)
    with index_wsp_Some [OF Some] one_word_take [OF Some] late show ?thesis
      by (intro some [of "j + m"]) (auto simp: fold_line_def add.commute)
  qed
  show ?thesis
  proof (cases "last_wsp (take 78 line)")
    case None
    with assms late show ?thesis by (simp add: fold_point_def)
  next
    case (Some i)
    show ?thesis
    proof (cases "m \<le> i")
      case True
      with Some last_wsp_Some [OF Some] show ?thesis
        by (intro some [of i]) (auto simp: fold_point_def fold_line_def)
    next
      case False
      with Some assms late show ?thesis by (simp add: fold_point_def)
    qed
  qed
qed

lemma indent_drop:
  assumes "i < length line" and "is_wsp (line ! i)" and "\<not> is_wsp (last line)"
  shows "drop i line \<noteq> []" and "is_wsp (hd (drop i line))" and "\<not> is_wsp (last (drop i line))"
    and "indent (drop i line) < length (drop i line)"
proof -
  show ne: "drop i line \<noteq> []" using assms by simp
  show "is_wsp (hd (drop i line))" using assms by (simp add: hd_drop_conv_nth)
  show l: "\<not> is_wsp (last (drop i line))" using assms by simp
  show "indent (drop i line) < length (drop i line)"
    unfolding indent_def using l ne
    by (metis last_in_set length_takeWhile_le nat_less_le set_takeWhileD takeWhile_eq_all_conv takeWhile_eq_take take_all order_refl)
qed

lemma indent_take:
  assumes "indent l < n" and "n \<le> length l"
  shows "indent (take n l) = indent l"
proof -
  have k: "indent l < length l" using assms by simp
  have "takeWhile is_wsp (take n l) = take (indent l) (take n l)"
  proof (rule takeWhile_eq_take_P_nth)
    fix i assume "i < indent l" "i < length (take n l)"
    then show "is_wsp (take n l ! i)"
      unfolding indent_def by (metis nth_mem nth_take length_take min_less_iff_conj set_takeWhileD takeWhile_nth)
  next
    assume "indent l < length (take n l)"
    with k assms show "\<not> is_wsp (take n l ! indent l)"
      unfolding indent_def by (simp add: nth_length_takeWhile)
  qed
  with assms show ?thesis by (simp add: indent_def)
qed

lemma fold_loop_ok:
  assumes "1 \<le> m" and "m \<le> length line" and "\<not> is_wsp (last line)"
  shows "\<exists>l ls. fold_loop m line = Some (join CRLF (l # ls)) \<and> concat (l # ls) = line \<and> m \<le> length l
    \<and> fold_line m l \<and> (\<forall>x \<in> set ls. continues x)"
  using assms
proof (induction "length line" arbitrary: line m rule: less_induct)
  case less
  show ?case
  proof (cases "length line \<le> 78")
    case True
    with less.prems show ?thesis
      by (intro exI [of _ line] exI [of _ "[]"]) (simp add: fold_loop.simps fold_line_def)
  next
    case False
    from less.prems(2) show ?thesis
    proof (cases rule: fold_point_cases)
      case 1
      with False less.prems show ?thesis
        by (intro exI [of _ line] exI [of _ "[]"]) (simp add: fold_loop.simps fold_line_def)
    next
      case (2 i)
      let ?r = "drop i line"
      note d = indent_drop [OF 2(3,4) less.prems(3)]
      have "length ?r < length line" using 2 less.prems(1) by simp
      from less.hyps [OF this, of "indent ?r + 1"] d obtain l ls where
        r: "fold_loop (indent ?r + 1) ?r = Some (join CRLF (l # ls))" "concat (l # ls) = ?r" "indent ?r + 1 \<le> length l"
          "fold_line (indent ?r + 1) l" "\<forall>x \<in> set ls. continues x"
        by auto
      have l: "l = take (length l) ?r" using r(2) by (metis append_eq_conv_conj concat.simps(2))
      then have "length l \<le> length ?r" by (metis length_take min.cobounded1)
      then have "indent l = indent ?r" using indent_take [of ?r "length l"] r(3) l by simp
      moreover have "l \<noteq> []" "hd l = hd ?r" using r(2,3) by (cases l; auto simp flip: r(2))+
      ultimately have "continues l" using r(3,4) d(2) by (simp add: continues_def)
      moreover have "fold_loop m line = Some (join CRLF (take i line # l # ls))"
        using False 2 r(1) by (subst fold_loop.simps) (simp add: indent_def)
      moreover have "concat (take i line # l # ls) = line" using r(2) by simp
      ultimately show ?thesis using 2 r(5)
        by (intro exI [of _ "take i line"] exI [of _ "l # ls"]) auto
    qed
  qed
qed

lemma fold_loop_empty:
  assumes "m = length line"
  shows "fold_loop m line = Some line \<and> fold_line m line"
proof -
  have "last_wsp (take 78 line) = Some i \<Longrightarrow> \<not> m \<le> i" for i
    using last_wsp_Some [of "take 78 line" i] assms by auto
  then have "fold_point m line = Inr None"
    using assms by (auto simp: fold_point_def index_wsp_def split: option.split)
  with assms show ?thesis
    by (subst fold_loop.simps) (auto simp: fold_line_def one_word_def)
qed

section \<open>Properties\<close>

text \<open>
  C23.  Where the header ends, as a rule on positions.  The header of a message is everything before its first empty line (a LF,
  a CRLF or a final CR at the start of a line), the body everything after that line; a message that starts with an empty line is
  all body; a line of white space does not end the header.  A message without an empty line is split, after its line ends are
  unified, before the first line that is blank or, after the first line, not a field, a name of letters, digits and dashes
  followed by a colon; a blank line there is dropped.  The three searches for a separator in between never find one.
\<close>

theorem header_end_rule:
  "SplitHeaderBody raw = (case first_empty_line raw of
     Some i \<Rightarrow> if i = 0 then ([], raw) else (take i raw, drop (i + the (line_end raw i)) raw)
   | None \<Rightarrow> by_lines (split_on LF (unify_newlines raw)))"
proof -
  have "splitHeaderBodyRFC822 raw = (case first_empty_line raw of None \<Rightarrow> None
      | Some i \<Rightarrow> Some (if i = 0 then ([], raw) else (take i raw, drop (i + the (line_end raw i)) raw)))"
    using rfc822_rule [of raw "[]" raw] by (simp add: splitHeaderBodyRFC822_def first_empty_line_def)
  then show ?thesis unfolding split_cases by (simp add: by_lines_eq split: option.split)
qed

text \<open>
  C24.  What normalisation does to a message with the header \<open>h\<close> and the body \<open>b\<close>: the result has no bare CR and no bare LF, and
  its lines are those of the header, an empty line, and those of the body, each part with one line end added; without a header
  it is the body, and an empty message becomes two line ends.
\<close>

theorem normalised_line_ends:
  "crlf_clean (NormalizeMessage raw)
   \<and> (case SplitHeaderBody raw of (h, b) \<Rightarrow> unify_newlines (NormalizeMessage raw) =
        (if h = [] \<and> b = [] then [LF, LF]
         else (if h = [] then [] else unify_newlines h @ [LF]) @ (if b = [] then [] else unify_newlines b @ [LF]))
      \<and> (h = [] \<or> (\<exists>u. unify_newlines h = u @ [LF])))"
proof -
  obtain h b where hb: "SplitHeaderBody raw = (h, b)" by (cases "SplitHeaderBody raw") auto
  note e = header_ends_line [OF hb]
  from e unify_ends_line have u: "h = [] \<or> (\<exists>u. unify_newlines h = u @ [LF])" by blast
  have "crlf_clean (NormalizeMessage raw)" using join_clean by (simp add: NormalizeMessage_def hb)
  moreover have "unify_newlines (NormalizeMessage raw) =
        (if h = [] \<and> b = [] then [LF, LF]
         else (if h = [] then [] else unify_newlines h @ [LF]) @ (if b = [] then [] else unify_newlines b @ [LF]))"
    using unify_join_parts [OF e] by (simp add: NormalizeMessage_def hb)
  ultimately show ?thesis using u by (simp add: hb)
qed

text \<open>
  C25.  \<^verbatim>\<open>RemoveHeaderField\<close> is a filter on the fields of the header: it removes the fields of that name with
  their continuation lines, keeps every other field in its place and byte for byte, leaves no line that names the field, and
  a second removal changes nothing.
\<close>

theorem remove_header_field:
  assumes "key \<noteq> []" and "\<not> is_wsp (hd key)"
  shows "RemoveHeaderField header key = join [LF] (concat (filter (\<lambda>g. continuation trim_cr (hd g) \<or> \<not> field_line key (hd g))
      (field_groups (continuation trim_cr) (split_on LF header))))
    \<and> field_count key (RemoveHeaderField header key) = 0
    \<and> RemoveHeaderField (RemoveHeaderField header key) key = RemoveHeaderField header key"
proof -
  let ?gone = "\<lambda>l. has_prefix (to_lower l) (to_lower key @ '':'')"
  let ?ls = "remove_lines ?gone trim_cr False (split_on LF header)"
  have sp: "split_on LF (RemoveHeaderField header key) = (if ?ls = [] then [[]] else ?ls)"
    unfolding RemoveHeaderField_def by (rule split_on_join_sub) (rule remove_lines_subset)
  have clean: "\<not> field_line key l \<and> (continuation trim_cr l \<or> \<not> ?gone (trim_cr l))" if "l \<in> set (if ?ls = [] then [[]] else ?ls)" for l
  proof (cases "?ls = []")
    case True
    with that show ?thesis by (simp add: field_line_def has_prefix_def trim_right_def trim_cr_def)
  next
    case False
    with that remove_lines_clean [of l ?gone trim_cr False "split_on LF header"] field_line_no_wsp [OF assms(1,2), of l]
    show ?thesis by (auto simp: field_line_def )
  qed
  have "remove_lines ?gone trim_cr False (if ?ls = [] then [[]] else ?ls) = (if ?ls = [] then [[]] else ?ls)"
    by (rule remove_lines_id) (use clean in blast)
  then have "RemoveHeaderField (RemoveHeaderField header key) key = join [LF] (if ?ls = [] then [[]] else ?ls)"
    unfolding RemoveHeaderField_def [of "RemoveHeaderField header key"] sp by simp
  moreover have "join [LF] (if ?ls = [] then [[]] else ?ls) = RemoveHeaderField header key"
    by (simp add: RemoveHeaderField_def )
  moreover have "field_count key (RemoveHeaderField header key) = 0"
    unfolding field_count_def sp using clean by (simp add: filter_empty_conv)
  ultimately show ?thesis
    by (simp add: RemoveHeaderField_def remove_lines_fields kept_def [abs_def] field_line_def )
qed

theorem remove_header_field_witness:
  "field_count ''X'' (RemoveHeaderField (''A: 1'' @ CRLF @ ''x: 2'' @ CRLF @ '' 3'' @ CRLF) ''X'') = 0
   \<and> RemoveHeaderField (''A: 1'' @ CRLF @ ''x: 2'' @ CRLF @ '' 3'' @ CRLF) ''X'' = ''A: 1'' @ CRLF"
proof -
  have "''X'' \<noteq> []" "\<not> is_wsp (hd ''X'')" by (simp_all add: is_wsp_def)
  from remove_header_field [OF this, of "''A: 1'' @ CRLF @ ''x: 2'' @ CRLF @ '' 3'' @ CRLF"]
  have "field_count ''X'' (RemoveHeaderField (''A: 1'' @ CRLF @ ''x: 2'' @ CRLF @ '' 3'' @ CRLF) ''X'') = 0" by blast
  moreover have "RemoveHeaderField (''A: 1'' @ CRLF @ ''x: 2'' @ CRLF @ '' 3'' @ CRLF) ''X'' = ''A: 1'' @ CRLF" by code_simp
  ultimately show ?thesis ..
qed

text \<open>
  C26.  Folding a header field whose value does not end in white space returns; a value that does can make it panic, as
  \<open>fold_panics\<close> below shows.  The lines of the result put together
  are the field; each line after the first begins with white space and holds a character that is not, so no parser takes
  it for the end of the header; a line is longer than 78 bytes only when it is a single word after its start.
\<close>

theorem fold_header_line:
  assumes "value = [] \<or> \<not> is_wsp (last value)"
  shows "\<exists>l ls. foldHeaderLine key value = Some (join CRLF (l # ls)) \<and> concat (l # ls) = key @ '': '' @ value
    \<and> (length l \<le> 78 \<or> one_word (length key + 2) l) \<and> (\<forall>x \<in> set ls. continues x)"
proof (cases "value = []")
  case True
  with fold_loop_empty [of "length key + 2" "key @ '': ''"] show ?thesis
    by (intro exI [of _ "key @ '': ''"] exI [of _ "[]"]) (simp add: foldHeaderLine_def fold_line_def)
next
  case False
  with assms fold_loop_ok [of "length key + 2" "key @ '': '' @ value"] show ?thesis
    by (auto simp: foldHeaderLine_def fold_line_def)
qed

theorem fold_header_line_witness:
  "\<exists>l ls. foldHeaderLine ''Subject'' (replicate 60 CHR ''x'' @ '' '' @ replicate 30 CHR ''y'') = Some (join CRLF (l # ls))
    \<and> concat (l # ls) = ''Subject: '' @ replicate 60 CHR ''x'' @ '' '' @ replicate 30 CHR ''y''"
  using fold_header_line [of "replicate 60 CHR ''x'' @ '' '' @ replicate 30 CHR ''y''" "''Subject''"]
  by (fastforce simp: is_wsp_def)

text \<open>A value that ends in white space can make the function panic: the remark needs the hypothesis.\<close>

lemma last_wsp_last: "s \<noteq> [] \<Longrightarrow> is_wsp (last s) \<Longrightarrow> last_wsp s = Some (length s - 1)"
  by (cases s rule: rev_cases) (auto simp: last_wsp_def)

lemma fold_point_spaces: "78 < n \<Longrightarrow> fold_point (Suc n) (replicate n SP) = Inl ()"
  by (simp add: fold_point_def last_wsp_last is_wsp_def)

lemma fold_panics: "160 \<le> n \<Longrightarrow> foldHeaderLine ''Subject'' (''x'' @ replicate n SP) = None"
proof -
  assume n: "160 \<le> n"
  let ?line = "''Subject: x'' @ replicate n SP"
  have "last_wsp (take 78 ?line) = Some 77"
    using n by (subst last_wsp_last) (simp_all add: is_wsp_def)
  then have p: "fold_point 9 ?line = Inr (Some 77)" by (simp add: fold_point_def)
  have d: "drop 77 ?line = replicate (n - 67) SP" by simp
  have "takeWhile is_wsp (replicate k SP) = replicate k SP" for k
    by (simp add: is_wsp_def)
  then have "fold_loop (length (takeWhile is_wsp (drop 77 ?line)) + 1) (drop 77 ?line) = None"
    using n unfolding d by (subst fold_loop.simps) (simp add: fold_point_spaces)
  with n p have "fold_loop 9 ?line = None"
    by (subst fold_loop.simps) (simp del: replicate.simps)
  moreover have "foldHeaderLine ''Subject'' (''x'' @ replicate n SP) = fold_loop 9 ?line"
    by (simp add: foldHeaderLine_def eval_nat_numeral)
  ultimately show ?thesis by simp
qed

end
