(* ===== verification/Delivery.thy ===== *)
theory Delivery
  imports Clock Rules Spam Rfc822_Props Mailstore_Inv
begin

text \<open>
  Delivery of an accepted message, \<^verbatim>\<open>internal/messages/delivery.go\<close>: the trace headers, one pending row per destination
  mailbox, the object stored before the transaction that records the message and attaches it to every mailbox, and the
  notifications, rules and events after the commit.  The hash of the object is the parameter \<open>digest\<close>; metrics are left out.
\<close>

section \<open>Operations\<close>

record delivery_service =
  ds_public_hostname :: string
  ds_instance_name :: string
  ds_rules :: bool
  ds_events :: bool
  ds_digest :: "string \<Rightarrow> string"
  ds_mime :: mime_lib

definition messageObjectKey :: "time \<Rightarrow> string \<Rightarrow> string" where
  "messageObjectKey t messageID = ''messages/'' @ date_path t @ ''/'' @ messageID @ ''.eml''"

definition trace_fields :: "string list" where
  "trace_fields = [''Authentication-Results'', ''X-Haitatsu-Trace-ID'', ''X-Haitatsu-Node'']"

definition trace_block :: "delivery_service \<Rightarrow> string \<Rightarrow> string \<Rightarrow> string \<Rightarrow> string" where
  "trace_block s stamp authResults traceID =
     ''Received: by '' @ ds_public_hostname s @ '' (Haitatsu/0.1; '' @ ds_instance_name s @ '') with SMTP; '' @ stamp @ CRLF
     @ ''Authentication-Results: '' @ authResults @ CRLF
     @ ''X-Haitatsu-Trace-ID: '' @ traceID @ CRLF
     @ ''X-Haitatsu-Node: '' @ ds_instance_name s @ CRLF"

definition withTraceHeaders :: "delivery_service \<Rightarrow> time \<Rightarrow> string \<Rightarrow> string \<Rightarrow> string \<Rightarrow> string" where
  "withTraceHeaders s t raw traceID authResults =
     (let auth = (if authResults = [] then ds_public_hostname s @ ''; none'' else authResults);
          hb = SplitHeaderBody raw;
          header = foldl RemoveHeaderField (fst hb) trace_fields
      in trace_block s (format_rfc1123z t) auth traceID @ JoinHeaderBody header (snd hb))"

record pending_delivery =
  pd_attach :: attach
  pd_route :: result

definition pending_one :: "string \<Rightarrow> int \<Rightarrow> assessment \<Rightarrow> result \<Rightarrow> string list \<times> pending_delivery list \<Rightarrow> mailbox
    \<Rightarrow> (string list \<times> pending_delivery list) io" where
  "pending_one messageID sz a recipient st mbox =
     (case st of (seen, pending) \<Rightarrow>
        if mb_id mbox \<in> set seen then ret (seen, pending) else
        let folderName = (if JunkForMailbox a (mb_id mbox) then ''Junk'' else ''INBOX'') in
        bindE (FolderByName (mb_id mbox) folderName) (\<lambda>deliveryFolder.
        ret (mb_id mbox # seen, pending @ [\<lparr>pd_attach = \<lparr>at_mailbox_id = mb_id mbox, at_message_id = messageID,
             at_folder_id = fo_id deliveryFolder, at_size_bytes = sz, at_original_rcpt = re_original_recipient recipient,
             at_base_rcpt = re_base_recipient recipient, at_plus_tag = re_plus_tag recipient,
             at_resolved_route_id = re_route_id recipient, at_flags = no_flags, at_created_at = 0, at_enforce_quota = True\<rparr>,
           pd_route = recipient\<rparr>])))"

definition pendingDeliveries :: "string \<Rightarrow> int \<Rightarrow> result list \<Rightarrow> assessment \<Rightarrow> pending_delivery list io" where
  "pendingDeliveries messageID sz recipients a =
     bindE (foldE (\<lambda>st recipient. foldE (pending_one messageID sz a recipient) st (re_mailboxes recipient)) ([], []) recipients)
       (\<lambda>st. ret (snd st))"

definition deliveriesInTx :: "pending_delivery list \<Rightarrow> delivery list io" where
  "deliveriesInTx pending = mapE pending (\<lambda>p.
     bindE (attachInTx (pd_attach p)) (\<lambda>item. ret \<lparr>de_message = item, de_route = pd_route p\<rparr>))"

definition attachment_json :: "attachment_meta \<Rightarrow> json" where
  "attachment_json a = JObj [(''part_index'', JNum (of_nat (am_part_index a))), (''filename'', JStr (am_filename a)),
     (''content_type'', JStr (am_content_type a)), (''size_bytes'', JNum (of_nat (am_size a)))]"

definition new_message :: "delivery_service \<Rightarrow> string \<Rightarrow> string \<Rightarrow> string \<Rightarrow> string \<Rightarrow> metadata \<Rightarrow> assessment \<Rightarrow> time \<Rightarrow> message" where
  "new_message s messageID traceID key stored md a t = \<lparr>me_id = messageID, me_trace_id = traceID,
     me_rfc_message_id = md_rfc_message_id md, me_blob_key = key, me_sha256 = ds_digest s stored,
     me_size_bytes = int (length stored), me_headers = md_headers md, me_from = md_from md, me_to = md_to md, me_cc = md_cc md,
     me_bcc = md_bcc md, me_subject = md_subject md, me_date = md_date md, me_text_extract = md_text md,
     me_html_extract = md_html md, me_attachments = map attachment_json (md_attachments md), me_spam_score = as_score a,
     me_auth_results = as_auth_results a, me_created_at = t\<rparr>"

definition message_clash :: "message \<Rightarrow> message \<Rightarrow> bool" where
  "message_clash r x \<longleftrightarrow> me_id r = me_id x"

definition storeInTx :: "message \<Rightarrow> pending_delivery list \<Rightarrow> delivery list io" where
  "storeInTx msg pending =
     bindE (insertRow T_messages message_clash msg) (\<lambda>_. deliveriesInTx pending)"

definition notify_all :: "pending_delivery list \<Rightarrow> delivery list \<Rightarrow> unit io" where
  "notify_all pending deliveries = forE (zip pending deliveries) (\<lambda>(p, d). NotifyAttached (pd_attach p) (de_message d))"

definition after_commit :: "delivery_service \<Rightarrow> message \<Rightarrow> delivery list \<Rightarrow> result list \<Rightarrow> unit io" where
  "after_commit s msg deliveries recipients =
     bindE (if ds_rules s then tryE (Apply (ds_events s) msg deliveries) else ret (Inr ())) (\<lambda>_.
     bindE (if ds_events s then tryE (EmitMessageReceived msg recipients) else ret (Inr ())) (\<lambda>_.
     ret ()))"

definition deliver :: "delivery_service \<Rightarrow> string \<Rightarrow> string \<Rightarrow> string \<Rightarrow> metadata \<Rightarrow> result list \<Rightarrow> assessment \<Rightarrow> message io" where
  "deliver s messageID traceID stored md recipients a =
     bindE now (\<lambda>t.
     let key = messageObjectKey t messageID; msg = new_message s messageID traceID key stored md a t in
     bindE (pendingDeliveries messageID (int (length stored)) recipients a) (\<lambda>pending.
     bindE (putBlob key stored) (\<lambda>_.
     bindE (in_tx (storeInTx msg pending)) (\<lambda>deliveries.
     bindE (notify_all pending deliveries) (\<lambda>_.
     bindE (after_commit s msg deliveries recipients) (\<lambda>_.
     ret msg))))))"

definition Deliver :: "delivery_service \<Rightarrow> string \<Rightarrow> result list \<Rightarrow> assessment \<Rightarrow> message io" where
  "Deliver s raw recipients a =
     bindE newID (\<lambda>messageID.
     bindE newID (\<lambda>traceID.
     bindE now (\<lambda>t.
     let stored = withTraceHeaders s t (NormalizeMessage raw) traceID (as_header a) in
     deliver s messageID traceID stored (Parse (ds_mime s) stored) recipients a)))"

definition DeliverParsed :: "delivery_service \<Rightarrow> string \<Rightarrow> metadata \<Rightarrow> result list \<Rightarrow> assessment \<Rightarrow> message io" where
  "DeliverParsed s normalized md recipients a =
     bindE newID (\<lambda>messageID.
     bindE newID (\<lambda>traceID.
     bindE now (\<lambda>t.
     let stored = withTraceHeaders s t normalized traceID (as_header a) in
     deliver s messageID traceID stored (md\<lparr>md_headers := ParseHeaders (ds_mime s) stored\<rparr>) recipients a)))"

end
