(* ===== verification/Cleanup_Props.thy ===== *)
theory Cleanup_Props
  imports Cleanup_Rows Delivery
begin

text \<open>
  Cleanup loses no mail: the invariant of the tables and the object store that every part of a cleanup keeps, and the number
  of pages the search for orphans takes.
\<close>

section \<open>Rules for invariants of the tables and the objects\<close>

definition outside :: "(string \<times> string) list \<Rightarrow> time \<Rightarrow> world \<Rightarrow> bool" where
  "outside b c w \<longleftrightarrow> w_blobs w = b \<and> w_clock w = c"

lemma preserves_split:
  assumes "\<And>b c. preserves (\<lambda>w. Q (w_db w) b c) m" and "\<And>b c. preserves (outside b c) m"
  shows "preserves (\<lambda>w. Q (w_db w) (w_blobs w) (w_clock w)) m"
  unfolding preserves_def
proof (intro allI impI)
  fix w :: world
  assume q: "Q (w_db w) (w_blobs w) (w_clock w)"
  have o: "outside (w_blobs w) (w_clock w) w" by (simp add: outside_def)
  have "wp m (\<lambda>_ w'. Q (w_db w') (w_blobs w) (w_clock w) \<and> outside (w_blobs w) (w_clock w) w') w"
    using assms(1) [of "w_blobs w" "w_clock w"] assms(2) [of "w_blobs w" "w_clock w"] q o
    unfolding preserves_def wp_conj by blast
  then show "wp m (\<lambda>_ w'. Q (w_db w') (w_blobs w') (w_clock w')) w" by (rule wp_mono) (auto simp: outside_def)
qed

lemma outside_statements:
  "preserves (outside b c) (dbcall f)" "preserves (outside b c) (selectAll t p)"
  "preserves (outside b c) (selectOnly t p)" "preserves (outside b c) (updateWhere t p g)" "preserves (outside b c) (updateOne t p g)"
  "preserves (outside b c) (deleteWhere t p)" "preserves (outside b c) (deleteOne t p)"
  "preserves (outside b c) now" "preserves (outside b c) newID" "preserves (outside b c) (publish ch)"
  by (simp_all add: preserves_def wp_dbcall wp_simps outside_def split: list.split)

lemma outside_in_tx: "preserves (outside b c) m \<Longrightarrow> preserves (outside b c) (in_tx m)"
proof -
  assume "preserves (outside b c) m"
  then have m: "wp m (\<lambda>_. outside b c) (pop w)" if "outside b c w" for w
    using that by (simp add: preserves_def outside_def)
  show ?thesis
    unfolding preserves_def wp_in_tx
    by (auto simp: outside_def intro!: wp_mono [OF m] split: sum.splits)
qed

lemmas outside_intros = preserves_intros outside_statements outside_in_tx

section \<open>The invariant\<close>

definition needed_ids :: "time \<Rightarrow> db \<Rightarrow> string set" where
  "needed_ids R d = mm_message_id ` {r \<in> set (db_mms d). needed_row R r} \<union> oj_message_id ` {j \<in> set (db_jobs d). needed_job j}"

definition export_keys :: "db \<Rightarrow> string set" where
  "export_keys d = {k. \<exists>j \<in> set (db_exports d). ej_object_key j = Some k}"

text \<open>
  What is needed is there: every message a needed row or job refers to is recorded and its object stored; \<open>M\<close> is the set of
  messages there were at the start, \<open>X\<close> the keys of the exports.
\<close>

definition mail_kept :: "time \<Rightarrow> message set \<Rightarrow> string set \<Rightarrow> db \<Rightarrow> (string \<times> string) list \<Rightarrow> bool" where
  "mail_kept R M X d b \<longleftrightarrow> needed_ids R d \<subseteq> me_id ` set (db_messages d) \<and> set (db_messages d) \<subseteq> M \<and> export_keys d \<subseteq> X
     \<and> (\<forall>m \<in> set (db_messages d). me_blob_key m \<in> fst ` set b)"

lemma mail_kept_frame:
  assumes "mail_kept R M X d b" and "needed_ids R d' \<subseteq> needed_ids R d" and "db_messages d' = db_messages d" and "export_keys d' \<subseteq> export_keys d"
  shows "mail_kept R M X d' b"
  using assms by (auto simp: mail_kept_def)

lemma needed_ids_update:
  assumes "\<And>r. p r \<Longrightarrow> mm_message_id (f r) = mm_message_id r" and "\<And>r. p r \<Longrightarrow> needed_row R (f r) \<Longrightarrow> needed_row R r"
  shows "needed_ids R (d\<lparr>db_mms := update_where p f (db_mms d)\<rparr>) \<subseteq> needed_ids R d"
proof
  fix i assume "i \<in> needed_ids R (d\<lparr>db_mms := update_where p f (db_mms d)\<rparr>)"
  then consider r where "r \<in> set (db_mms d)" "needed_row R (if p r then f r else r)" "i = mm_message_id (if p r then f r else r)"
    | j where "j \<in> set (db_jobs d)" "needed_job j" "i = oj_message_id j"
    by (auto simp: needed_ids_def in_set_update_where)
  then show "i \<in> needed_ids R d"
  proof cases
    case (1 r)
    then have "needed_row R r" "i = mm_message_id r" using assms by (auto split: if_splits)
    with 1(1) show ?thesis by (auto simp: needed_ids_def)
  next
    case (2 j)
    then show ?thesis by (auto simp: needed_ids_def)
  qed
qed

lemma needed_ids_update_jobs:
  assumes "\<And>j. p j \<Longrightarrow> oj_message_id (f j) = oj_message_id j" and "\<And>j. p j \<Longrightarrow> needed_job (f j) \<Longrightarrow> needed_job j"
  shows "needed_ids R (d\<lparr>db_jobs := update_where p f (db_jobs d)\<rparr>) \<subseteq> needed_ids R d"
proof
  fix i assume "i \<in> needed_ids R (d\<lparr>db_jobs := update_where p f (db_jobs d)\<rparr>)"
  then consider r where "r \<in> set (db_mms d)" "needed_row R r" "i = mm_message_id r"
    | j where "j \<in> set (db_jobs d)" "needed_job (if p j then f j else j)" "i = oj_message_id (if p j then f j else j)"
    by (auto simp: needed_ids_def in_set_update_where)
  then show "i \<in> needed_ids R d"
  proof cases
    case (1 r)
    then show ?thesis by (auto simp: needed_ids_def)
  next
    case (2 j)
    then have "needed_job j" "i = oj_message_id j" using assms by (auto split: if_splits)
    with 2(1) show ?thesis by (auto simp: needed_ids_def)
  qed
qed

lemma needed_ids_same [simp]:
  "needed_ids R (d\<lparr>db_mailboxes := x\<rparr>) = needed_ids R d" "needed_ids R (d\<lparr>db_links := y\<rparr>) = needed_ids R d"
  "needed_ids R (d\<lparr>db_labels := z\<rparr>) = needed_ids R d" "needed_ids R (d\<lparr>db_folders := u\<rparr>) = needed_ids R d"
  "needed_ids R (d\<lparr>db_events := e\<rparr>) = needed_ids R d" "needed_ids R (d\<lparr>db_exports := ex\<rparr>) = needed_ids R d"
  "needed_ids R (d\<lparr>db_imports := im\<rparr>) = needed_ids R d" "needed_ids R (d\<lparr>db_lockouts := l\<rparr>) = needed_ids R d"
  "needed_ids R (d\<lparr>db_audit := a\<rparr>) = needed_ids R d" "needed_ids R (d\<lparr>db_bounces := b\<rparr>) = needed_ids R d"
  "needed_ids R (d\<lparr>db_attempts := t\<rparr>) = needed_ids R d" "needed_ids R (d\<lparr>db_messages := m\<rparr>) = needed_ids R d"
  by (simp_all add: needed_ids_def)

lemma export_keys_same [simp]:
  "export_keys (d\<lparr>db_mailboxes := x\<rparr>) = export_keys d" "export_keys (d\<lparr>db_links := y\<rparr>) = export_keys d"
  "export_keys (d\<lparr>db_labels := z\<rparr>) = export_keys d" "export_keys (d\<lparr>db_folders := u\<rparr>) = export_keys d"
  "export_keys (d\<lparr>db_events := e\<rparr>) = export_keys d" "export_keys (d\<lparr>db_mms := mm\<rparr>) = export_keys d"
  "export_keys (d\<lparr>db_imports := im\<rparr>) = export_keys d" "export_keys (d\<lparr>db_lockouts := l\<rparr>) = export_keys d"
  "export_keys (d\<lparr>db_audit := a\<rparr>) = export_keys d" "export_keys (d\<lparr>db_bounces := b\<rparr>) = export_keys d"
  "export_keys (d\<lparr>db_attempts := t\<rparr>) = export_keys d" "export_keys (d\<lparr>db_messages := m\<rparr>) = export_keys d"
  "export_keys (d\<lparr>db_jobs := j\<rparr>) = export_keys d"
  by (simp_all add: export_keys_def)

lemma needed_ids_delete:
  "needed_ids R (d\<lparr>db_mms := delete_where p (db_mms d)\<rparr>) \<subseteq> needed_ids R d"
  "needed_ids R (d\<lparr>db_jobs := delete_where q (db_jobs d)\<rparr>) \<subseteq> needed_ids R d"
  by (auto simp: needed_ids_def delete_where_def)

lemma export_keys_delete:
  "export_keys (d\<lparr>db_exports := delete_where p (db_exports d)\<rparr>) \<subseteq> export_keys d"
  "(\<And>j. q j \<Longrightarrow> ej_object_key (f j) = ej_object_key j) \<Longrightarrow> export_keys (d\<lparr>db_exports := update_where q f (db_exports d)\<rparr>) \<subseteq> export_keys d"
  by (fastforce simp: export_keys_def delete_where_def in_set_update_where split: if_splits)+

section \<open>Each part keeps it\<close>

text \<open>The statements of the parts, with the objects fixed to \<open>b\<close>.\<close>

lemma kept_mms:
  assumes "\<And>r. p r \<Longrightarrow> mm_message_id (f r) = mm_message_id r" and "\<And>r. p r \<Longrightarrow> needed_row R (f r) \<Longrightarrow> needed_row R r"
  shows "preserves (\<lambda>w. mail_kept R M X (w_db w) b) (updateWhere T_mms p f)"
proof -
  have "needed_ids R (d\<lparr>db_mms := update_where p f (db_mms d)\<rparr>) \<subseteq> needed_ids R d" for d using assms by (intro needed_ids_update) auto
  then show ?thesis by (intro preserves_updateWhere) (rule mail_kept_frame, auto simp: T_mms_def)
qed

lemma kept_jobs:
  assumes "\<And>j. p j \<Longrightarrow> oj_message_id (f j) = oj_message_id j" and "\<And>j. p j \<Longrightarrow> needed_job (f j) \<Longrightarrow> needed_job j"
  shows "preserves (\<lambda>w. mail_kept R M X (w_db w) b) (updateWhere T_jobs p f)"
proof -
  have "needed_ids R (d\<lparr>db_jobs := update_where p f (db_jobs d)\<rparr>) \<subseteq> needed_ids R d" for d using assms by (intro needed_ids_update_jobs) auto
  then show ?thesis by (intro preserves_updateWhere) (rule mail_kept_frame, auto simp: T_jobs_def)
qed

lemma kept_exports:
  assumes "\<And>j. p j \<Longrightarrow> ej_object_key (f j) = ej_object_key j"
  shows "preserves (\<lambda>w. mail_kept R M X (w_db w) b) (updateWhere T_exports p f)"
proof -
  have "export_keys (d\<lparr>db_exports := update_where p f (db_exports d)\<rparr>) \<subseteq> export_keys d" for d using assms by (intro export_keys_delete(2)) auto
  then show ?thesis by (intro preserves_updateWhere) (rule mail_kept_frame, auto simp: T_exports_def)
qed

lemma kept_other:
  "preserves (\<lambda>w. mail_kept R M X (w_db w) b) (updateOne T_mailboxes p1 f1)"
  "preserves (\<lambda>w. mail_kept R M X (w_db w) b) (updateWhere T_events p2 f2)"
  "preserves (\<lambda>w. mail_kept R M X (w_db w) b) (updateWhere T_imports p3 f3)"
  by (rule preserves_updateOne preserves_updateWhere, rule mail_kept_frame, auto simp: table_defs)+

lemma kept_delete:
  "preserves (\<lambda>w. mail_kept R M X (w_db w) b) (deleteWhere T_mms p1)" "preserves (\<lambda>w. mail_kept R M X (w_db w) b) (deleteWhere T_jobs p2)"
  "preserves (\<lambda>w. mail_kept R M X (w_db w) b) (deleteWhere T_links p3)" "preserves (\<lambda>w. mail_kept R M X (w_db w) b) (deleteWhere T_labels p4)"
  "preserves (\<lambda>w. mail_kept R M X (w_db w) b) (deleteWhere T_folders p5)" "preserves (\<lambda>w. mail_kept R M X (w_db w) b) (deleteOne T_mailboxes p6)"
  "preserves (\<lambda>w. mail_kept R M X (w_db w) b) (deleteWhere T_lockouts p7)" "preserves (\<lambda>w. mail_kept R M X (w_db w) b) (deleteWhere T_events p8)"
  "preserves (\<lambda>w. mail_kept R M X (w_db w) b) (deleteWhere T_audit p9)" "preserves (\<lambda>w. mail_kept R M X (w_db w) b) (deleteWhere T_bounces p10)"
  "preserves (\<lambda>w. mail_kept R M X (w_db w) b) (deleteWhere T_attempts p11)" "preserves (\<lambda>w. mail_kept R M X (w_db w) b) (deleteOne T_exports p12)"
  by (rule preserves_deleteWhere preserves_deleteOne, rule mail_kept_frame,
      auto simp: table_defs dest: needed_ids_delete [THEN subsetD] export_keys_delete(1) [THEN subsetD])+

lemmas kept_intros = preserves_intros preserves_read kept_other kept_delete preserves_in_tx

lemma message_sizes_kept: "preserves (\<lambda>w. P (w_db w)) (messageSizes ids)"
  unfolding messageSizes_def by (intro preserves_intros preserves_read)

lemma soft_delete_kept: "preserves (\<lambda>w. mail_kept R M X (w_db w) b) (SoftDeleteMany items)"
  unfolding SoftDeleteMany_def softDeleteBatch_def softDeleteBatchInTx_def softDeleteChunk_def Let_def
  by (intro kept_intros message_sizes_kept kept_mms) (auto simp: needed_row_def)

lemma delete_links_kept: "preserves (\<lambda>w. mail_kept R M X (w_db w) b) (DeleteLabelLinks ids)"
  unfolding DeleteLabelLinks_def by (intro kept_intros)

lemma purge_kept: "preserves (\<lambda>w. mail_kept R M X (w_db w) b) (PurgeMailbox i)"
  unfolding PurgeMailbox_def by (intro kept_intros delete_links_kept) (auto intro!: preserves_intros split: sum.split)

lemma recover_kept: "preserves (\<lambda>w. mail_kept R M X (w_db w) b) recoverStaleLeases"
  unfolding recoverStaleLeases_def
  by (intro kept_intros kept_jobs kept_exports) (auto simp: unlock_job_def needed_job_def)

lemma prune_kept: "preserves (\<lambda>w. mail_kept R M X (w_db w) b) pruneHistory"
  unfolding pruneHistory_def join_all_def no_count_def Let_def foldE.simps by (intro kept_intros)

text \<open>The objects and the clock stay as they are, except in the two parts that delete objects.\<close>

lemma outside_parts:
  "preserves (outside b c) (SoftDeleteMany items)" "preserves (outside b c) (PurgeMailbox i)"
  "preserves (outside b c) recoverStaleLeases" "preserves (outside b c) pruneHistory"
  "preserves (outside b c) (deleteMessageInTx j R)"
  unfolding SoftDeleteMany_def softDeleteBatch_def softDeleteBatchInTx_def softDeleteChunk_def messageSizes_def Let_def
    PurgeMailbox_def DeleteLabelLinks_def recoverStaleLeases_def pruneHistory_def join_all_def no_count_def deleteMessageInTx_def
  by (simp_all add: outside_intros split: sum.split)

definition kept :: "message set \<Rightarrow> string set \<Rightarrow> world \<Rightarrow> bool" where
  "kept M X w \<longleftrightarrow> mail_kept (w_clock w - days30) M X (w_db w) (w_blobs w)"

lemma kept_by_parts:
  assumes "\<And>R b. preserves (\<lambda>w. mail_kept R M X (w_db w) b) m" and "\<And>b c. preserves (outside b c) m"
  shows "preserves (kept M X) m"
proof -
  have "preserves (\<lambda>w. (\<lambda>d b c. mail_kept (c - days30) M X d b) (w_db w) (w_blobs w) (w_clock w)) m"
    by (rule preserves_split) (simp_all add: assms)
  then show ?thesis by (simp add: kept_def [abs_def])
qed

lemma kept_statements:
  "preserves (kept M X) (selectAll t p)" "preserves (kept M X) now" "preserves (kept M X) (deleteWhere T_lockouts p7)"
  "preserves (kept M X) (deleteOne T_exports p12)"
  by (rule kept_by_parts, (rule kept_intros)+, rule outside_statements)+

lemma trash_kept: "preserves (kept M X) cleanupTrash"
  unfolding cleanupTrash_def Let_def
  by (intro preserves_intros kept_statements kept_by_parts [OF soft_delete_kept outside_parts(1)])

lemma mailboxes_kept: "preserves (kept M X) cleanupDeletedMailboxes"
  unfolding cleanupDeletedMailboxes_def Let_def
  by (intro preserves_intros kept_statements kept_by_parts [OF purge_kept outside_parts(2)])

lemma lockouts_kept: "preserves (kept M X) cleanupAuthLockouts"
  unfolding cleanupAuthLockouts_def by (intro preserves_intros kept_statements)

lemma depth_kept: "preserves (kept M X) (no_count updateQueueDepth)"
  unfolding no_count_def updateQueueDepth_def by (intro preserves_intros kept_statements)

text \<open>The deletion of an object no message has.\<close>

lemma deleteBlob_kept:
  assumes "kept M X w" and "\<And>m. m \<in> set (db_messages (w_db w)) \<Longrightarrow> me_blob_key m \<noteq> key"
  shows "wp (deleteBlob key) (\<lambda>_. kept M X) w"
  using assms by (auto simp: wp_def deleteBlob_eq kept_def mail_kept_def image_iff) fastforce

lemma exports_kept:
  assumes "X \<inter> me_blob_key ` M = {}"
  shows "preserves (kept M X) cleanupExpiredExports"
proof -
  have one: "wp (bindE (deleteBlob (the (ej_object_key job))) (\<lambda>_. ignoreNotFound (deleteOne T_exports (\<lambda>j. ej_id j = ej_id job))))
      (\<lambda>r w'. kept M X w') w" if "kept M X w" "the (ej_object_key job) \<in> X" for job w
  proof -
    have "me_blob_key m \<noteq> the (ej_object_key job)" if "m \<in> set (db_messages (w_db w))" for m
    proof -
      have "me_blob_key m \<in> me_blob_key ` M" using that \<open>kept M X w\<close> by (auto simp: kept_def mail_kept_def)
      with \<open>the (ej_object_key job) \<in> X\<close> assms show ?thesis by fastforce
    qed
    from deleteBlob_kept [OF \<open>kept M X w\<close> this]
    have d: "wp (deleteBlob (the (ej_object_key job))) (\<lambda>_. kept M X) w" .
    have i: "preserves (kept M X) (ignoreNotFound (deleteOne T_exports (\<lambda>j. ej_id j = ej_id job)))"
      unfolding ignoreNotFound_def by (intro preserves_intros kept_statements) (auto intro: preserves_intros split: sum.split)
    show ?thesis
      unfolding wp_bindE by (rule wp_mono [OF d]) (use i in \<open>auto simp: preserves_def split: sum.split\<close>)
  qed
  have "wp cleanupExpiredExports (\<lambda>_ w'. kept M X w') w" if k: "kept M X w" for w
  proof (cases "faulty w")
    case True
    with k show ?thesis by (simp add: cleanupExpiredExports_def wp_simps kept_def)
  next
    case False
    let ?jobs = "filter (\<lambda>j. (case ej_expires_at j of None \<Rightarrow> False | Some u \<Rightarrow> u \<le> w_clock w) \<and> ej_object_key j \<noteq> None) (db_exports (w_db w))"
    have x: "the (ej_object_key job) \<in> X" if "job \<in> set ?jobs" for job
      using that k by (auto simp: kept_def mail_kept_def export_keys_def)
    have "wp (forE ?jobs (\<lambda>job. bindE (deleteBlob (the (ej_object_key job))) (\<lambda>_. ignoreNotFound (deleteOne T_exports (\<lambda>j. ej_id j = ej_id job)))))
       (\<lambda>r w'. case r of Inl e \<Rightarrow> kept M X w' | Inr _ \<Rightarrow> kept M X w') (pop w)"
    proof (rule wp_forE [where I = "\<lambda>_. kept M X"])
      show "kept M X (pop w)" using k by (simp add: kept_def)
    next
      fix ys job w1
      assume "kept M X w1" "job \<in> set ?jobs"
      from one [OF this(1) x [OF this(2)]]
      show "wp (bindE (deleteBlob (the (ej_object_key job))) (\<lambda>_. ignoreNotFound (deleteOne T_exports (\<lambda>j. ej_id j = ej_id job))))
        (\<lambda>r w'. case r of Inl e \<Rightarrow> kept M X w' | Inr _ \<Rightarrow> kept M X w') w1"
        by (rule wp_mono) (simp split: sum.split)
    qed
    with False show ?thesis
      by (simp add: cleanupExpiredExports_def wp_simps T_exports_def)
  qed
  then show ?thesis by (simp add: preserves_def)
qed

section \<open>Orphaned messages\<close>

lemma delete_rows_kept:
  assumes "mail_kept R M X d b"
  shows "mail_kept R M X (d\<lparr>db_messages := delete_where (\<lambda>m. me_id m = i \<and> unreferencedMessage R d m) (db_messages d)\<rparr>) b"
proof -
  have n: "i \<notin> needed_ids R d" if "m \<in> set (db_messages d)" "me_id m = i" "unreferencedMessage R d m" for m
    using that by (auto simp: unreferencedMessage_def needed_ids_def needed_row_def needed_job_def list_ex_iff split: option.splits)
  have "j \<in> me_id ` set (delete_where (\<lambda>m. me_id m = i \<and> unreferencedMessage R d m) (db_messages d))" if j: "j \<in> needed_ids R d" for j
  proof -
    from j assms obtain m where m: "m \<in> set (db_messages d)" "j = me_id m" by (auto simp: mail_kept_def)
    with n [of m] j have "\<not> (me_id m = i \<and> unreferencedMessage R d m)" by auto
    with m show ?thesis by (auto simp: delete_where_def)
  qed
  with assms show ?thesis by (auto simp: mail_kept_def delete_where_def)
qed

lemma delete_message_spec:
  assumes "mail_kept R M X (w_db w) b"
  shows "wp (deleteMessageInTx i R) (\<lambda>r w'. case r of Inl _ \<Rightarrow> True
    | Inr n \<Rightarrow> mail_kept R M X (w_db w') b \<and> (n \<noteq> 0 \<longrightarrow> i \<notin> me_id ` set (db_messages (w_db w')))) w"
proof -
  let ?first = "\<lambda>ids. if ids = [] then ret () else
       bindE (DeleteLabelLinks ids) (\<lambda>_. bindE (deleteWhere T_mms (\<lambda>r. mm_id r \<in> set ids \<and> deleted_before R r)) (\<lambda>_. ret ()))"
  let ?last = "dbcall (\<lambda>d. let p = (\<lambda>m. me_id m = i \<and> unreferencedMessage R d m) in
       (Inr (length (filter p (db_messages d))), d\<lparr>db_messages := delete_where p (db_messages d)\<rparr>))"
  have p: "preserves (\<lambda>w. mail_kept R M X (w_db w) b) (?first ids)" for ids
    by (intro kept_intros delete_links_kept)
  have u: "unreferencedMessage R d m = unreferencedMessage R d m'" if "me_id m = me_id m'" for d m m'
    using that by (simp add: unreferencedMessage_def)
  have last: "wp ?last (\<lambda>r w'. case r of Inl _ \<Rightarrow> True
    | Inr n \<Rightarrow> mail_kept R M X (w_db w') b \<and> (n \<noteq> 0 \<longrightarrow> i \<notin> me_id ` set (db_messages (w_db w')))) w1"
    if k: "mail_kept R M X (w_db w1) b" for w1
  proof (cases "faulty w1")
    case False
    let ?p = "\<lambda>m. me_id m = i \<and> unreferencedMessage R (w_db w1) m"
    have gone: "i \<notin> me_id ` set (delete_where ?p (db_messages (w_db w1)))" if ne: "filter ?p (db_messages (w_db w1)) \<noteq> []"
    proof
      assume "i \<in> me_id ` set (delete_where ?p (db_messages (w_db w1)))"
      then obtain m where m: "me_id m = i" "\<not> ?p m" by (auto simp: delete_where_def)
      from ne obtain m' where "?p m'" by (auto simp: filter_empty_conv)
      with m u [of m m'] show False by simp
    qed
    show ?thesis
      unfolding wp_dbcall Let_def if_not_P [OF False] fst_conv snd_conv sum.case
      using delete_rows_kept [OF k, of i] gone by (cases "filter ?p (db_messages (w_db w1)) = []") simp_all
  qed (simp add: wp_dbcall)
  have rest: "wp (bindE (?first ids) (\<lambda>_. ?last)) (\<lambda>r w'. case r of Inl _ \<Rightarrow> True
    | Inr n \<Rightarrow> mail_kept R M X (w_db w') b \<and> (n \<noteq> 0 \<longrightarrow> i \<notin> me_id ` set (db_messages (w_db w')))) w1"
    if k: "mail_kept R M X (w_db w1) b" for w1 ids
  proof -
    have f: "wp (?first ids) (\<lambda>_ w'. mail_kept R M X (w_db w') b) w1"
      using p [of ids] k unfolding preserves_def by blast
    show ?thesis
      unfolding wp_bindE
    proof (rule wp_mono [OF f])
      fix r :: "err + unit" and w' :: world
      assume m: "mail_kept R M X (w_db w') b"
      show "case r of Inl e \<Rightarrow> (case Inl e of Inl _ \<Rightarrow> True | Inr n \<Rightarrow> mail_kept R M X (w_db w') b \<and> (n \<noteq> 0 \<longrightarrow> i \<notin> me_id ` set (db_messages (w_db w'))))
         | Inr x \<Rightarrow> wp ?last (\<lambda>r w'. case r of Inl _ \<Rightarrow> True
             | Inr n \<Rightarrow> mail_kept R M X (w_db w') b \<and> (n \<noteq> 0 \<longrightarrow> i \<notin> me_id ` set (db_messages (w_db w')))) w'"
        using last [OF m] by (cases r) simp_all
    qed
  qed
  show ?thesis
  proof (cases "faulty w")
    case True
    then show ?thesis by (simp add: deleteMessageInTx_def wp_bindE wp_selectAll)
  next
    case False
    have "mail_kept R M X (w_db (pop w)) b" using assms by simp
    from rest [OF this] False show ?thesis
      unfolding deleteMessageInTx_def wp_bindE [of "selectAll T_mms _"] wp_selectAll by (simp only: if_False sum.case Let_def)
  qed
qed

lemma delete_rows_spec:
  assumes k: "kept M X w" and m: "msg \<in> M" and inj: "inj_on me_id M" "inj_on me_blob_key M" and R: "R = w_clock w - days30"
  shows "wp (deleteMessageRows msg R) (\<lambda>_ w'. kept M X w' \<and> w_clock w' = w_clock w) w"
proof -
  let ?body = "bindE (deleteMessageInTx (me_id msg) R) (\<lambda>n. if n = 0 then fail nothing_deleted else ret ())"
  have mk: "mail_kept R M X (w_db w) (w_blobs w)" using k R by (simp add: kept_def)
  have body: "wp ?body (\<lambda>r w'. case r of Inl _ \<Rightarrow> True
      | Inr _ \<Rightarrow> mail_kept R M X (w_db w') (w_blobs w) \<and> me_id msg \<notin> me_id ` set (db_messages (w_db w'))) (pop w)"
    unfolding wp_bindE
    by (rule wp_mono [OF delete_message_spec [of R M X "pop w" "w_blobs w"]]) (use mk in \<open>auto simp: wp_simps split: sum.splits\<close>)
  have out: "preserves (outside (w_blobs w) (w_clock w)) (in_tx ?body)"
    by (intro outside_intros outside_parts(5))
  have "wp (in_tx ?body) (\<lambda>r w'. case r of Inl _ \<Rightarrow> w_db w' = w_db w
      | Inr _ \<Rightarrow> mail_kept R M X (w_db w') (w_blobs w) \<and> me_id msg \<notin> me_id ` set (db_messages (w_db w'))) w"
    unfolding wp_in_tx using wp_mono [OF body] by (auto split: sum.splits)
  moreover have "wp (in_tx ?body) (\<lambda>_. outside (w_blobs w) (w_clock w)) w"
    using out by (auto simp: preserves_def outside_def)
  ultimately have tx: "wp (in_tx ?body) (\<lambda>r w'. outside (w_blobs w) (w_clock w) w' \<and> (case r of Inl _ \<Rightarrow> w_db w' = w_db w
      | Inr _ \<Rightarrow> mail_kept R M X (w_db w') (w_blobs w) \<and> me_id msg \<notin> me_id ` set (db_messages (w_db w')))) w"
    by (simp add: wp_conj)
  have del: "wp (deleteBlob (me_blob_key msg)) (\<lambda>_ w''. kept M X w'' \<and> w_clock w'' = w_clock w) w'"
    if o: "outside (w_blobs w) (w_clock w) w'" and s: "mail_kept R M X (w_db w') (w_blobs w)" "me_id msg \<notin> me_id ` set (db_messages (w_db w'))" for w'
  proof -
    have k': "kept M X w'" using o s R by (simp add: kept_def outside_def)
    have "me_blob_key x \<noteq> me_blob_key msg" if "x \<in> set (db_messages (w_db w'))" for x
      using that s m inj(2) by (auto simp: mail_kept_def dest: inj_onD)
    from deleteBlob_kept [OF k' this] have "wp (deleteBlob (me_blob_key msg)) (\<lambda>_. kept M X) w'" .
    then show ?thesis using o by (auto simp: wp_def deleteBlob_eq outside_def split: if_splits)
  qed
  show ?thesis
    unfolding deleteMessageRows_def wp_bindE wp_tryE sum.case
  proof (rule wp_mono [OF tx])
    fix r :: "err + unit" and w' :: world
    assume a: "outside (w_blobs w) (w_clock w) w' \<and> (case r of Inl _ \<Rightarrow> w_db w' = w_db w
      | Inr _ \<Rightarrow> mail_kept R M X (w_db w') (w_blobs w) \<and> me_id msg \<notin> me_id ` set (db_messages (w_db w')))"
    show "wp (case r of Inl e \<Rightarrow> if e = nothing_deleted then ret () else fail e
       | Inr _ \<Rightarrow> if me_blob_key msg = [] then ret () else deleteBlob (me_blob_key msg))
       (\<lambda>_ w'. kept M X w' \<and> w_clock w' = w_clock w) w'"
      using a del [of w'] mk R by (cases r) (auto simp: wp_simps kept_def outside_def)
  qed
qed

lemma orphan_loop_kept:
  assumes "kept M X w" and "inj_on me_id M" "inj_on me_blob_key M" and "R = w_clock w - days30"
  shows "wp (orphan_loop n cutoff R lastID) (\<lambda>_ w'. kept M X w' \<and> w_clock w' = w_clock w) w"
  using assms(1,4)
proof (induction n arbitrary: lastID w)
  case 0
  then show ?case by (simp add: wp_simps)
next
  case (Suc n)
  let ?page = "take page_size (orphans_after cutoff R lastID (w_db w))"
  have page: "set ?page \<subseteq> M"
  proof -
    have "set ?page \<subseteq> set (orphans_after cutoff R lastID (w_db w))" by (rule set_take_subset)
    also have "\<dots> \<subseteq> set (db_messages (w_db w))" by (auto simp: orphans_after_def)
    finally have "set ?page \<subseteq> set (db_messages (w_db w))" .
    with Suc.prems(1) show ?thesis by (auto simp: kept_def mail_kept_def)
  qed
  have w: "kept M X (pop w)" "w_clock (pop w) = w_clock w" using Suc.prems by (simp_all add: kept_def)
  have loop: "wp (forE ?page (\<lambda>msg. deleteMessageRows msg R)) (\<lambda>r w'. case r of Inl e \<Rightarrow> kept M X w' \<and> w_clock w' = w_clock w
      | Inr _ \<Rightarrow> kept M X w' \<and> w_clock w' = w_clock w) (pop w)"
  proof (rule wp_forE [where I = "\<lambda>_ w'. kept M X w' \<and> w_clock w' = w_clock w"])
    fix ys msg w1
    assume a: "kept M X w1 \<and> w_clock w1 = w_clock w" "msg \<in> set ?page"
    have "wp (deleteMessageRows msg R) (\<lambda>_ w'. kept M X w' \<and> w_clock w' = w_clock w1) w1"
      by (rule delete_rows_spec) (use a page assms(2,3) Suc.prems(2) in auto)
    then show "wp (deleteMessageRows msg R) (\<lambda>r w'. case r of Inl e \<Rightarrow> kept M X w' \<and> w_clock w' = w_clock w
        | Inr _ \<Rightarrow> kept M X w' \<and> w_clock w' = w_clock w) w1"
      by (rule wp_mono) (use a(1) in \<open>simp split: sum.split\<close>)
  qed (use w in simp)
  show ?case
  proof (cases "faulty w")
    case True
    with w show ?thesis by (simp add: orphan_page_def wp_bindE wp_dbcall)
  next
    case False
    have "wp (bindE (forE ?page (\<lambda>msg. deleteMessageRows msg R)) (\<lambda>_. if length ?page < page_size then ret () else orphan_loop n cutoff R (me_id (last ?page))))
       (\<lambda>_ w'. kept M X w' \<and> w_clock w' = w_clock w) (pop w)"
      unfolding wp_bindE
    proof (rule wp_mono [OF loop])
      fix r :: "err + unit" and w' :: world
      assume a: "case r of Inl e \<Rightarrow> kept M X w' \<and> w_clock w' = w_clock w | Inr _ \<Rightarrow> kept M X w' \<and> w_clock w' = w_clock w"
      then have b: "kept M X w'" "w_clock w' = w_clock w" by (auto split: sum.splits)
      have "wp (orphan_loop n cutoff R (me_id (last ?page))) (\<lambda>_ w''. kept M X w'' \<and> w_clock w'' = w_clock w') w'"
        using b Suc.prems(2) by (intro Suc.IH) simp_all
      with b show "case r of Inl e \<Rightarrow> kept M X w' \<and> w_clock w' = w_clock w
        | Inr _ \<Rightarrow> wp (if length ?page < page_size then ret () else orphan_loop n cutoff R (me_id (last ?page))) (\<lambda>_ w'. kept M X w' \<and> w_clock w' = w_clock w) w'"
        by (simp add: wp_ret split: sum.split)
    qed
    with False show ?thesis
      unfolding orphan_loop.simps orphan_page_def wp_bindE [of "dbcall _"] wp_dbcall by (simp only: if_False fst_conv snd_conv sum.case pop_same_db)
  qed
qed

lemma orphans_kept:
  assumes "inj_on me_id M" "inj_on me_blob_key M"
  shows "preserves (kept M X) cleanupOrphanedMessages"
  unfolding preserves_def
proof (intro allI impI)
  fix w :: world
  assume k: "kept M X w"
  from orphan_loop_kept [OF k assms refl, of "orphan_fuel (w_db w)" "w_clock w - day" "[]"]
  show "wp cleanupOrphanedMessages (\<lambda>_. kept M X) w"
    by (simp add: wp_def cleanupOrphanedMessages_def split: prod.splits)
qed

lemma cleanup_kept:
  assumes "inj_on me_id M" "inj_on me_blob_key M" and "X \<inter> me_blob_key ` M = {}"
  shows "preserves (kept M X) Cleanup"
  unfolding Cleanup_def join_all_def foldE.simps
  by (intro preserves_intros trash_kept mailboxes_kept exports_kept assms orphans_kept lockouts_kept depth_kept
      kept_by_parts [OF recover_kept outside_parts(3)] kept_by_parts [OF prune_kept outside_parts(4)])

section \<open>The pages\<close>

text \<open>What a deletion leaves is not more than there was, so the search ends: a page starts after the last of the page before.\<close>

lemma deleteMessageRows_shrinks:
  "wp (deleteMessageRows msg R) (\<lambda>_ w'. set (db_messages (w_db w')) \<subseteq> M) w" if "set (db_messages (w_db w)) \<subseteq> M"
proof -
  have "preserves (\<lambda>w. set (db_messages (w_db w)) \<subseteq> M) (deleteMessageRows msg R)"
  proof -
    have d: "preserves (\<lambda>w. set (db_messages (w_db w)) \<subseteq> M) (deleteMessageInTx i R)" for i
      unfolding deleteMessageInTx_def Let_def DeleteLabelLinks_def
      by (intro preserves_intros preserves_read preserves_deleteWhere)
         (auto simp: table_defs preserves_def wp_dbcall delete_where_def)
    have b: "preserves (\<lambda>w. set (db_messages (w_db w)) \<subseteq> M) (deleteBlob key)" for key
      by (simp add: preserves_def wp_def deleteBlob_eq)
    show ?thesis
      unfolding deleteMessageRows_def
      by (intro preserves_intros preserves_in_tx d) (auto intro!: preserves_intros b split: sum.split)
  qed
  with that show ?thesis by (simp add: preserves_def)
qed

lemma pages_shrink: "preserves (\<lambda>w. set (db_messages (w_db w)) \<subseteq> M) (forE msgs (\<lambda>msg. deleteMessageRows msg R))"
  by (intro preserves_forE) (simp add: preserves_def deleteMessageRows_shrinks)

text \<open>The ids of the messages that a further page can still show.\<close>

definition ids_after :: "string \<Rightarrow> message set \<Rightarrow> string set" where
  "ids_after lastID M = {i \<in> me_id ` M. lastID = [] \<or> lastID < i}"

lemma last_page:
  assumes "take page_size (orphans_after cutoff R lastID d) \<noteq> []" and "set (db_messages d) \<subseteq> M"
  shows "me_id (last (take page_size (orphans_after cutoff R lastID d))) \<in> ids_after lastID M"
proof -
  have "last (take page_size (orphans_after cutoff R lastID d)) \<in> set (orphans_after cutoff R lastID d)"
    using assms(1) by (meson in_set_takeD last_in_set)
  with assms(2) show ?thesis by (auto simp: orphans_after_def ids_after_def)
qed

text \<open>With more pages allowed than there are ids left, the bound is never reached.\<close>

lemma orphan_loop_enough:
  assumes "finite M" and "[] \<notin> me_id ` M" and "set (db_messages (w_db w)) \<subseteq> M" and "card (ids_after lastID M) < n"
  shows "orphan_loop (n + k) cutoff R lastID w = orphan_loop n cutoff R lastID w"
  using assms(3,4)
proof (induction n arbitrary: lastID w)
  case 0
  then show ?case by simp
next
  case (Suc n)
  let ?page = "take page_size (orphans_after cutoff R lastID (w_db w))" and ?last = "me_id (last (take page_size (orphans_after cutoff R lastID (w_db w))))"
  have step: "orphan_loop (n + k) cutoff R ?last w2 = orphan_loop n cutoff R ?last w2"
    if "\<not> length ?page < page_size" "set (db_messages (w_db w2)) \<subseteq> M" for w2
  proof (rule Suc.IH [OF that(2)])
    have "?page \<noteq> []" using that(1) by (auto simp: page_size_def)
    from last_page [OF this Suc.prems(1)] have l: "?last \<in> ids_after lastID M" .
    moreover have "?last \<notin> ids_after ?last M" using l assms(2) by (auto simp: ids_after_def)
    moreover have "ids_after ?last M \<subseteq> ids_after lastID M" using l assms(2) by (auto simp: ids_after_def)
    ultimately have "ids_after ?last M \<subset> ids_after lastID M" by blast
    moreover have "finite (ids_after lastID M)" using assms(1) by (simp add: ids_after_def)
    ultimately have "card (ids_after ?last M) < card (ids_after lastID M)" by (metis psubset_card_mono)
    with Suc.prems(2) show "card (ids_after ?last M) < n" by simp
  qed
  show ?case
  proof (cases "faulty w")
    case True
    then show ?thesis by (simp add: orphan_page_def bindE_def dbcall_eq)
  next
    case False
    obtain r w2 where f: "forE ?page (\<lambda>msg. deleteMessageRows msg R) (pop w) = (r, w2)"
      by (cases "forE ?page (\<lambda>msg. deleteMessageRows msg R) (pop w)")
    have sub: "set (db_messages (w_db w2)) \<subseteq> M"
      by (rule preservesD [OF pages_shrink _ f]) (use Suc.prems(1) in simp)
    have e: "orphan_loop (Suc m) cutoff R lastID w = (case r of Inl e \<Rightarrow> (Inl e, w2)
        | Inr _ \<Rightarrow> (if length ?page < page_size then ret () else orphan_loop m cutoff R ?last) w2)" for m
      unfolding orphan_loop.simps orphan_page_def bindE_def dbcall_eq
      by (simp only: if_not_P [OF False] fst_conv snd_conv prod.case sum.case pop_same_db f split: sum.split)
    show ?thesis
      unfolding add_Suc e using step [OF _ sub] by (auto split: sum.split)
  qed
qed

section \<open>Properties\<close>

text \<open>
  The mail that is stored: ids and object keys are unique, the exports have keys of their own, every recorded message has its
  object, and every message that a live row, a row deleted in the last 30 days, or a job yet to be sent refers to is recorded.
\<close>

definition mail_stored :: "world \<Rightarrow> bool" where
  "mail_stored w \<longleftrightarrow> inj_on me_id (set (db_messages (w_db w))) \<and> inj_on me_blob_key (set (db_messages (w_db w)))
     \<and> export_keys (w_db w) \<inter> me_blob_key ` set (db_messages (w_db w)) = {}
     \<and> (\<forall>m \<in> set (db_messages (w_db w)). me_blob_key m \<in> fst ` set (w_blobs w))
     \<and> (\<forall>r \<in> set (db_mms (w_db w)). needed_row (w_clock w - days30) r \<longrightarrow> mm_message_id r \<in> me_id ` set (db_messages (w_db w)))
     \<and> (\<forall>j \<in> set (db_jobs (w_db w)). needed_job j \<longrightarrow> oj_message_id j \<in> me_id ` set (db_messages (w_db w)))"

lemma mail_stored_kept:
  "mail_stored w \<longleftrightarrow> inj_on me_id (set (db_messages (w_db w))) \<and> inj_on me_blob_key (set (db_messages (w_db w)))
     \<and> export_keys (w_db w) \<inter> me_blob_key ` set (db_messages (w_db w)) = {}
     \<and> kept (set (db_messages (w_db w))) (export_keys (w_db w)) w"
  by (auto simp: mail_stored_def kept_def mail_kept_def needed_ids_def)

text \<open>
  C9.  Cleanup loses no mail, whatever calls fail.  Relative to the tables it starts from: every row that is live, or was deleted
  in the last 30 days, is still there as it was, unless its mailbox was deleted 30 days ago or more; a live row untouched for 30
  days in a Trash folder may be marked deleted now, and nothing else about it changes.  Every unsent job is still there as it was,
  or released for a retry when its lease had run out.  Every mailbox that was not deleted 30 days ago is still there with its
  folders, its used bytes apart.  No row, job, mailbox, folder or message is new.  And if every message that is needed is recorded
  and its object stored at the start, so it is at the end: a message, and its object after it, is only deleted when none of these
  rows and jobs refers to it.
\<close>

theorem cleanup_keeps_mail:
  assumes "mail_stored w" and "distinct (map mm_id (db_mms (w_db w)))" and "Cleanup w = (r, w')"
  shows "nothing_lost (w_clock w) (w_db w) (w_db w') \<and> nothing_new (w_clock w) (w_db w) (w_db w')
    \<and> mail_stored w' \<and> set (db_messages (w_db w')) \<subseteq> set (db_messages (w_db w))"
proof -
  let ?M = "set (db_messages (w_db w))" and ?X = "export_keys (w_db w)"
  from assms(1) have m: "inj_on me_id ?M" "inj_on me_blob_key ?M" "?X \<inter> me_blob_key ` ?M = {}" "kept ?M ?X w"
    by (simp_all add: mail_stored_kept)
  from preservesD [OF cleanup_kept [OF m(1-3)] m(4) assms(3)]
  have k: "kept ?M ?X w'" and sub: "set (db_messages (w_db w')) \<subseteq> ?M" "export_keys (w_db w') \<subseteq> ?X"
    by (simp_all add: kept_def mail_kept_def)
  have "inj_on me_id (set (db_messages (w_db w')))" "inj_on me_blob_key (set (db_messages (w_db w')))"
    using m(1,2) sub(1) by (auto intro: inj_on_subset)
  moreover have "export_keys (w_db w') \<inter> me_blob_key ` set (db_messages (w_db w')) = {}"
    using m(3) sub by fast
  moreover have "kept (set (db_messages (w_db w'))) (export_keys (w_db w')) w'"
    using k by (simp add: kept_def mail_kept_def)
  ultimately show ?thesis using sub(1) cleanup_keeps_rows [OF assms(2,3)] by (simp add: mail_stored_kept rows_kept_def)
qed

definition cleanup_world :: world where
  "cleanup_world = (world_of (sample_db\<lparr>db_messages := [(sample_message ''m1'' 10)\<lparr>me_blob_key := ''k1''\<rparr>, (sample_message ''m2'' 30)\<lparr>me_blob_key := ''k2''\<rparr>],
       db_mailboxes := [sample_mailbox, sample_mailbox\<lparr>mb_id := ''old'', mb_status := ''deleted'', mb_deleted_at := Some (9 * day)\<rparr>],
       db_mms := [sample_row, sample_row\<lparr>mm_id := ''trashed'', mm_folder_id := ''trash''\<rparr>, sample_row\<lparr>mm_id := ''gone'', mm_mailbox_id := ''old''\<rparr>]\<rparr>))
     \<lparr>w_clock := 40 * day, w_blobs := [(''k1'', ''A''), (''k2'', ''B'')]\<rparr>"

theorem cleanup_keeps_mail_witness:
  "db_mms (w_db (snd (Cleanup cleanup_world))) = [sample_row, trashed (40 * day) (sample_row\<lparr>mm_id := ''trashed'', mm_folder_id := ''trash''\<rparr>)]
   \<and> map mb_id (db_mailboxes (w_db (snd (Cleanup cleanup_world)))) = [mb_id sample_mailbox]
   \<and> map me_id (db_messages (w_db (snd (Cleanup cleanup_world)))) = [''m1''] \<and> map fst (w_blobs (snd (Cleanup cleanup_world))) = [''k1'']
   \<and> nothing_lost (40 * day) (w_db cleanup_world) (w_db (snd (Cleanup cleanup_world))) \<and> mail_stored (snd (Cleanup cleanup_world))"
proof -
  have m: "mail_stored cleanup_world"
    by (auto simp: mail_stored_def cleanup_world_def world_of_def sample_db_def empty_db_def sample_message_def sample_row_def export_keys_def inj_on_def)
  have d: "distinct (map mm_id (db_mms (w_db cleanup_world)))" and c: "w_clock cleanup_world = 40 * day"
    by (simp_all add: cleanup_world_def world_of_def sample_row_def)
  note cleanup_keeps_mail [OF m d prod.collapse [symmetric], unfolded c]
  moreover have "map me_id (db_messages (w_db (snd (Cleanup cleanup_world)))) = [''m1'']" "map fst (w_blobs (snd (Cleanup cleanup_world))) = [''k1'']"
      "db_mms (w_db (snd (Cleanup cleanup_world))) = [sample_row, trashed (40 * day) (sample_row\<lparr>mm_id := ''trashed'', mm_folder_id := ''trash''\<rparr>)]"
      "map mb_id (db_mailboxes (w_db (snd (Cleanup cleanup_world)))) = [mb_id sample_mailbox]"
    by code_simp+
  ultimately show ?thesis by blast
qed

text \<open>
  The search for orphaned messages ends: with the pages the model allows, one for each message and one more, allowing more
  pages changes nothing, because every page starts after the last id of the page before.
\<close>

theorem orphan_pages_enough:
  assumes "\<forall>m \<in> set (db_messages (w_db w)). me_id m \<noteq> []"
  shows "orphan_loop (orphan_fuel (w_db w) + k) cutoff R [] w = orphan_loop (orphan_fuel (w_db w)) cutoff R [] w"
proof (rule orphan_loop_enough)
  show "card (ids_after [] (set (db_messages (w_db w)))) < orphan_fuel (w_db w)"
  proof -
    have "ids_after [] (set (db_messages (w_db w))) = me_id ` set (db_messages (w_db w))" by (auto simp: ids_after_def)
    moreover have "card (me_id ` set (db_messages (w_db w))) \<le> length (db_messages (w_db w))"
      by (metis card_image_le card_length finite_set le_trans)
    ultimately show ?thesis by (simp add: orphan_fuel_def)
  qed
qed (use assms in auto)

theorem orphan_pages_enough_witness:
  "orphan_loop 7 0 0 [] cleanup_world = orphan_loop 3 0 0 [] cleanup_world"
proof -
  have "\<forall>m \<in> set (db_messages (w_db cleanup_world)). me_id m \<noteq> []" "orphan_fuel (w_db cleanup_world) = 3" by code_simp+
  from orphan_pages_enough [OF this(1), of 4 0 0] this(2) show ?thesis by simp
qed

end
