(* ===== verification/Headers.thy ===== *)
theory Headers
  imports Rfc822
begin

text \<open>
  Header fields by name: what \<^verbatim>\<open>InjectHeaders\<close> of \<^verbatim>\<open>internal/mailparse/compose.go\<close> uses of \<^verbatim>\<open>net/mail.ReadMessage\<close> and
  \<^verbatim>\<open>textproto.MIMEHeader\<close> (the names are canonical, a map is an association list without repeated keys), and the functions
  of \<^verbatim>\<open>internal/outbound/submission.go\<close> that read the fields of a raw header.
\<close>

section \<open>Reading a message\<close>

definition trim_wsp :: "string \<Rightarrow> string" where
  "trim_wsp s = trim_right is_wsp (trim_left is_wsp s)"

text \<open>\<^verbatim>\<open>ReadLine\<close>: the next line without its LF or CRLF, and the rest; \<open>None\<close> at the end.\<close>

definition read_line_slice :: "string \<Rightarrow> (string \<times> string) option" where
  "read_line_slice s = (if s = [] then None else
     let l = fst (read_line s) in
     Some (if has_suffix l [LF] then trim_suffix (trim_suffix l [LF]) [CR] else l, snd (read_line s)))"

lemma read_line_slice_less: "read_line_slice s = Some (l, r) \<Longrightarrow> length r < length s"
  using read_line_less [of s] by (auto simp: read_line_slice_def Let_def split: if_splits)

text \<open>The continuation lines that follow a line: each is joined to it by one space.\<close>

function continued :: "string \<Rightarrow> string \<Rightarrow> string \<times> string" where
  "continued buf s =
     (let k = length (takeWhile is_wsp s) in
      if k = 0 then (buf, s) else
      case read_line_slice (drop k s) of
        None \<Rightarrow> (buf @ [SP], [])
      | Some (l, r) \<Rightarrow> continued (buf @ SP # trim_wsp l) r)"
  by pat_completeness auto
termination
  by (relation "measure (\<lambda>(_, s). length s)") (auto dest!: read_line_slice_less)

declare continued.simps [simp del]

lemma continued_length: "length (snd (continued buf s)) \<le> length s"
proof (induction buf s rule: continued.induct)
  case (1 buf s)
  show ?case
  proof (cases "read_line_slice (drop (length (takeWhile is_wsp s)) s)")
    case None
    then show ?thesis by (subst continued.simps) (simp add: Let_def)
  next
    case (Some a)
    obtain l r where a: "a = (l, r)" by (cases a)
    with Some have "length r < length s - length (takeWhile is_wsp s)" using read_line_slice_less by fastforce
    with 1 [OF refl _ Some a [symmetric]] show ?thesis
      by (subst continued.simps) (fastforce simp add: Let_def Some a)
  qed
qed

definition valid_token :: "char \<Rightarrow> bool" where
  "valid_token c \<longleftrightarrow> is_digit c \<or> (65 \<le> code c \<and> code c \<le> 90) \<or> (97 \<le> code c \<and> code c \<le> 122)
     \<or> c \<in> set ''!#$%&*+-.^_|~'' \<or> code c = 39 \<or> code c = 96"

definition upper_char :: "char \<Rightarrow> char" where
  "upper_char c = (if 97 \<le> code c \<and> code c \<le> 122 then char_of (code c - 32) else c)"

fun canonical_from :: "bool \<Rightarrow> string \<Rightarrow> string" where
  "canonical_from upper [] = []"
| "canonical_from upper (c # cs) = (let d = (if upper then upper_char c else lower_char c) in d # canonical_from (d = CHR ''-'') cs)"

definition CanonicalKey :: "string \<Rightarrow> string" where
  "CanonicalKey s = (if list_all valid_token s then canonical_from True s else s)"

definition header_values :: "mime_header \<Rightarrow> string \<Rightarrow> string list" where
  "header_values h key = (case map_of h (CanonicalKey key) of None \<Rightarrow> [] | Some vs \<Rightarrow> vs)"

definition header_get :: "mime_header \<Rightarrow> string \<Rightarrow> string" where
  "header_get h key = (case header_values h key of [] \<Rightarrow> [] | v # _ \<Rightarrow> v)"

definition header_del :: "string \<Rightarrow> mime_header \<Rightarrow> mime_header" where
  "header_del key h = filter (\<lambda>kv. fst kv \<noteq> CanonicalKey key) h"

definition header_set :: "string \<Rightarrow> string \<Rightarrow> mime_header \<Rightarrow> mime_header" where
  "header_set key v h = header_del key h @ [(CanonicalKey key, [v])]"

fun header_add :: "string \<Rightarrow> string \<Rightarrow> mime_header \<Rightarrow> mime_header" where
  "header_add key v [] = [(key, [v])]"
| "header_add key v (kv # h) = (if fst kv = key then (key, snd kv @ [v]) # h else kv # header_add key v h)"

datatype header_end = BlankLine | EndOfInput | BadLine

function read_header :: "mime_header \<Rightarrow> string \<Rightarrow> header_end \<times> mime_header \<times> string" where
  "read_header m s =
     (case read_line_slice s of
        None \<Rightarrow> (EndOfInput, m, [])
      | Some (l, r) \<Rightarrow>
          if l = [] then (BlankLine, m, r) else
          let kv = fst (continued (trim_wsp l) r); rest = snd (continued (trim_wsp l) r) in
          if kv = [] then (BlankLine, m, rest) else
          (case cut kv '':'' of
             (k, v, True) \<Rightarrow> read_header (if k = [] then m else header_add (CanonicalKey k) (trim_left is_wsp v) m) rest
           | (_, _, False) \<Rightarrow> (BadLine, m, rest)))"
  by pat_completeness auto
termination
proof (relation "measure (\<lambda>(_, s). length s)", goal_cases)
  case (2 m s a l r kv rest b k v c)
  then have "length r < length s" by (auto dest: read_line_slice_less)
  with 2 continued_length [of "trim_wsp l" r] show ?case by simp
qed simp

declare read_header.simps [simp del]

definition ReadMessage :: "string \<Rightarrow> (mime_header \<times> string) option" where
  "ReadMessage raw =
     (if raw \<noteq> [] \<and> is_wsp (hd raw) then None else
      case read_header [] raw of
        (BlankLine, h, body) \<Rightarrow> Some (h, body)
      | (EndOfInput, h, body) \<Rightarrow> if h = [] then None else Some (h, [])
      | (BadLine, _, _) \<Rightarrow> None)"

section \<open>Injecting fields\<close>

definition drop_haitatsu :: "mime_header \<Rightarrow> mime_header" where
  "drop_haitatsu h = filter (\<lambda>kv. \<not> has_prefix (to_lower (fst kv)) ''x-haitatsu-'') h"

text \<open>\<open>None\<close> is the error of the parser, \<open>Some None\<close> the panic of the folding.\<close>

definition InjectHeaders :: "string \<Rightarrow> (mime_header \<Rightarrow> mime_header) \<Rightarrow> string option option" where
  "InjectHeaders raw mutate = (case ReadMessage raw of
     None \<Rightarrow> None | Some (h, body) \<Rightarrow> Some (FormatRFC822 (mutate (drop_haitatsu h)) body))"

section \<open>Fields of a raw header\<close>

definition valid_name_line :: "bool \<Rightarrow> string \<Rightarrow> bool" where
  "valid_name_line first_line line0 =
     (let line = trim_cr line0 in
      if line = [] then True
      else if is_wsp (hd line) then \<not> first_line
      else case cut line '':'' of (name, _, ok) \<Rightarrow> ok \<and> name \<noteq> [] \<and> list_all (\<lambda>c. 33 \<le> code c \<and> code c \<le> 126) name)"

definition validHeaderFieldNames :: "string \<Rightarrow> bool" where
  "validHeaderFieldNames header = (case split_on LF header of
     [] \<Rightarrow> True | line # lines \<Rightarrow> valid_name_line True line \<and> list_all (valid_name_line False) lines)"

fun header_values_loop :: "string \<Rightarrow> bool \<Rightarrow> string list \<Rightarrow> string list \<Rightarrow> string list" where
  "header_values_loop key_colon current values [] = values"
| "header_values_loop key_colon current values (line0 # lines) =
     (let line = trim_cr line0 in
      if current \<and> line \<noteq> [] \<and> is_wsp (hd line)
      then header_values_loop key_colon True (butlast values @ [last values @ '' '' @ trim_space line]) lines
      else if has_prefix (to_lower line) key_colon
      then header_values_loop key_colon True (values @ [trim_space (drop (length key_colon) line)]) lines
      else header_values_loop key_colon False values lines)"

definition headerValues :: "string \<Rightarrow> string \<Rightarrow> string list" where
  "headerValues header key = header_values_loop (to_lower key @ '':'') False [] (split_on LF header)"

definition hasHeader :: "string \<Rightarrow> string \<Rightarrow> bool" where
  "hasHeader header key \<longleftrightarrow> headerValues header key \<noteq> []"

end
