(* ===== verification/Bounce.thy ===== *)
theory Bounce
  imports Headers Rules Clock Mime "HOL-Library.AList"
begin

text \<open>
  Bounces of the messages this server sent, \<^verbatim>\<open>internal/bounce/bounce.go\<close>: the recipient address that names a message, the
  bounce events of a delivery status notification, and what is read out of the notification.  The parser of ULIDs and
  \<^verbatim>\<open>mime.ParseMediaType\<close> are parameters, as is the multipart reader: the parts it opens before its end or its first error.
  Details are JSON objects, as association lists without repeated keys; metrics are left out.
\<close>

section \<open>State\<close>

definition verpPrefix :: string where "verpPrefix = ''bounces+''"
definition maxStatusBlocks :: nat where "maxStatusBlocks = 64"
definition maxStatusRecipients :: nat where "maxStatusRecipients = 32"
definition MaxStatusBytes :: nat where "MaxStatusBytes = 256 * 1024"

text \<open>A part: its Content-Type field, its body, and whether reading it ends in an error.\<close>

record status_part =
  sp_content_type :: string
  sp_body :: string
  sp_broken :: bool

record bounce_handler =
  bh_ulid :: "string \<Rightarrow> string option"
  bh_media_type :: "string \<Rightarrow> (string \<times> (string \<times> string) list) option"
  bh_parts :: "string \<Rightarrow> string \<Rightarrow> status_part list"
  bh_digest :: "string \<Rightarrow> string"
  bh_events :: bool

record bounce_recipient =
  bc_address :: string
  bc_message_id :: string

section \<open>Recipients\<close>

definition IsHosted :: "string \<Rightarrow> bool io" where
  "IsHosted domain = bindE (selectAll T_dkim_keys (\<lambda>k. dk_domain k = domain)) (\<lambda>ks. ret (ks \<noteq> []))"

definition HasOutboundJob :: "string \<Rightarrow> bool io" where
  "HasOutboundJob messageID = bindE (selectAll T_jobs (\<lambda>j. oj_message_id j = messageID)) (\<lambda>js. ret (js \<noteq> []))"

text \<open>\<open>None\<close> is an address of the ordinary name space, \<open>Some None\<close> an invalid bounce address.\<close>

definition ParseRecipient :: "bounce_handler \<Rightarrow> string \<Rightarrow> bounce_recipient option option io" where
  "ParseRecipient b address =
     (case cut (to_lower (trim_space address)) ''@'' of (local, domain, ok) \<Rightarrow>
      if \<not> ok then ret None
      else if \<not> has_prefix local verpPrefix then ret (if ReservedLocalPart local then Some None else None)
      else (case cut_prefix local verpPrefix of (messageID, _) \<Rightarrow>
        (case bh_ulid b messageID of
           None \<Rightarrow> ret (Some None)
         | Some parsed \<Rightarrow>
             bindE (tryE (IsHosted domain)) (\<lambda>hosted.
             if hosted \<noteq> Inr True then ret (Some None) else
             bindE (tryE (HasOutboundJob parsed)) (\<lambda>exists.
             if exists \<noteq> Inr True then ret (Some None)
             else ret (Some (Some \<lparr>bc_address = address, bc_message_id = parsed\<rparr>)))))))"

definition uniqueRecipients :: "bounce_recipient list \<Rightarrow> bounce_recipient list" where
  "uniqueRecipients recipients = dedup_on bc_message_id [] recipients"

section \<open>Delivery status notifications\<close>

definition setHeaderDetails :: "payload \<Rightarrow> mime_header \<Rightarrow> (string \<times> string) list \<Rightarrow> payload" where
  "setHeaderDetails target header names = foldl (\<lambda>d (headerName, detailName).
     let v = header_get header headerName in if v \<noteq> [] then AList.update detailName (JStr v) d else d) target names"

definition mergeDetails :: "payload \<Rightarrow> payload \<Rightarrow> payload" where
  "mergeDetails target vs = foldl (\<lambda>d (k, v). AList.update k v d) target vs"

definition is_angle :: "char \<Rightarrow> bool" where
  "is_angle c \<longleftrightarrow> c = CHR ''<'' \<or> c = CHR ''>''"

definition statusAddress :: "string \<Rightarrow> string" where
  "statusAddress v = (case cut v '';'' of (_, address, ok) \<Rightarrow>
     if \<not> ok then trim_space v else trim_right is_angle (trim_left is_angle (trim_space address)))"

definition valid_value_byte :: "char \<Rightarrow> bool" where
  "valid_value_byte c \<longleftrightarrow> c = TAB \<or> (32 \<le> code c \<and> code c \<noteq> 127)"

text \<open>\<^verbatim>\<open>textproto.ReadMIMEHeader\<close>: stricter than \<^verbatim>\<open>mail.ReadMessage\<close> about names and values, \<open>None\<close> on an error.\<close>

definition mime_key :: "string \<Rightarrow> string option" where
  "mime_key k = (if k = [] \<or> \<not> list_all (\<lambda>c. valid_token c \<or> c = SP) k then None
     else Some (CanonicalKey k))"

function read_mime_header :: "mime_header \<Rightarrow> string \<Rightarrow> mime_header option" where
  "read_mime_header m s =
     (case read_line_slice s of
        None \<Rightarrow> None
      | Some (l, r) \<Rightarrow>
          if l = [] then Some m
          else if CHR '':'' \<notin> set l then None else
          let kv = fst (continued (trim_wsp l) r); rest = snd (continued (trim_wsp l) r) in
          (case cut kv '':'' of (k, v, _) \<Rightarrow>
             (case mime_key k of
                None \<Rightarrow> None
              | Some key \<Rightarrow> if list_all valid_value_byte v then read_mime_header (header_add key (trim_left is_wsp v) m) rest else None)))"
  by pat_completeness auto
termination
proof (relation "measure (\<lambda>(_, s). length s)", goal_cases)
  case (2 m s a l r kv rest k b v c key)
  then have "length r < length s" by (auto dest: read_line_slice_less)
  with 2 continued_length [of "trim_wsp l" r] show ?case by simp
qed simp

declare read_mime_header.simps [simp del]

definition ReadMIMEHeader :: "string \<Rightarrow> mime_header option" where
  "ReadMIMEHeader s = (if s \<noteq> [] \<and> is_wsp (hd s) then None else read_mime_header [] s)"

lemma cut_rest_less: "s \<noteq> [] \<Longrightarrow> cut s [c, d] = (a, b, ok) \<Longrightarrow> length b < length s"
  by (auto simp: cut_def split: option.splits)

function status_blocks :: "mime_header list \<Rightarrow> string \<Rightarrow> mime_header list" where
  "status_blocks blocks normalized =
     (if normalized = [] \<or> maxStatusBlocks \<le> length blocks then blocks else
      (case cut normalized [LF, LF] of (block0, rest, _) \<Rightarrow>
        let block = trim_space block0 in
        if block = [] then status_blocks blocks rest else
        (case ReadMIMEHeader (block @ CRLF @ CRLF) of
           None \<Rightarrow> status_blocks blocks rest
         | Some header \<Rightarrow> status_blocks (if header = [] then blocks else blocks @ [header]) rest)))"
  by pat_completeness auto
termination
  by (relation "measure (\<lambda>(_, s). length s)") (auto dest: cut_rest_less [OF _ sym])

declare status_blocks.simps [simp del]

definition deliveryStatusBlocks :: "string \<Rightarrow> mime_header list" where
  "deliveryStatusBlocks data = status_blocks [] (crlf_to_lf data)"

definition recipient_details :: "mime_header \<Rightarrow> payload" where
  "recipient_details block =
     (let r = setHeaderDetails [] block
        [(''Original-Recipient'', ''original_recipient''), (''Final-Recipient'', ''final_recipient''), (''Action'', ''action''),
         (''Status'', ''status''), (''Remote-MTA'', ''remote_mta''), (''Diagnostic-Code'', ''diagnostic_code''),
         (''Last-Attempt-Date'', ''last_attempt_date''), (''Will-Retry-Until'', ''will_retry_until'')];
          finalRecipient = stringValue (map_of r ''final_recipient'')
      in if finalRecipient \<noteq> [] then AList.update ''final_recipient_address'' (JStr (statusAddress finalRecipient)) r else r)"

fun status_recipients :: "json list \<Rightarrow> mime_header list \<Rightarrow> json list" where
  "status_recipients recipients [] = recipients"
| "status_recipients recipients (block # blocks) =
     (if maxStatusRecipients \<le> length recipients then recipients else
      let r = recipient_details block in
      status_recipients (if r = [] then recipients else recipients @ [JObj r]) blocks)"

definition parseDeliveryStatus :: "string \<Rightarrow> payload" where
  "parseDeliveryStatus data =
     (case deliveryStatusBlocks data of
        [] \<Rightarrow> []
      | block # blocks \<Rightarrow>
          let details = setHeaderDetails [(''dsn'', JBool True)] block
                [(''Reporting-MTA'', ''reporting_mta''), (''Arrival-Date'', ''arrival_date''), (''Received-From-MTA'', ''received_from_mta'')];
              recipients = status_recipients [] blocks
          in if recipients = [] then details else AList.update ''recipients'' (JArr recipients) details)"

definition statusPartType :: "bounce_handler \<Rightarrow> status_part \<Rightarrow> string" where
  "statusPartType b p = (case bh_media_type b (sp_content_type p) of None \<Rightarrow> [] | Some (contentType, _) \<Rightarrow> to_lower contentType)"

text \<open>\<^verbatim>\<open>io.ReadAll(io.LimitReader(part, n))\<close>: an error after the limit is not reached.\<close>

definition read_limited :: "nat \<Rightarrow> status_part \<Rightarrow> string option" where
  "read_limited n p = (if sp_broken p \<and> length (sp_body p) < n then None else Some (take n (sp_body p)))"

definition status_details :: "bounce_handler \<Rightarrow> status_part list \<Rightarrow> payload" where
  "status_details b parts = (case find (\<lambda>p. statusPartType b p = ''message/delivery-status'') (take MaxParts parts) of
     None \<Rightarrow> []
   | Some p \<Rightarrow> (case read_limited MaxStatusBytes p of None \<Rightarrow> [] | Some status \<Rightarrow> parseDeliveryStatus status))"

definition bounceDetails :: "bounce_handler \<Rightarrow> time \<Rightarrow> string \<Rightarrow> payload" where
  "bounceDetails b t raw =
     (let details = [(''received_at'', JStr (format_rfc3339 t))] in
      case ReadMessage raw of
        None \<Rightarrow> details
      | Some (h, body) \<Rightarrow>
          (case bh_media_type b (header_get h ''Content-Type'') of
             None \<Rightarrow> details
           | Some (contentType, params) \<Rightarrow>
               let boundary = (case map_of params ''boundary'' of None \<Rightarrow> [] | Some x \<Rightarrow> x) in
               if \<not> has_prefix contentType ''multipart/'' \<or> boundary = [] then details
               else mergeDetails details (status_details b (bh_parts b body boundary))))"

section \<open>Recording\<close>

definition emitDomainBounce :: "bounce_handler \<Rightarrow> bounce_event \<Rightarrow> unit io" where
  "emitDomainBounce b e =
     (if \<not> bh_events b then ret () else
      bindE (tryE (selectFirst T_jobs (\<lambda>j. oj_message_id j = be_message_id e \<and> oj_sender_domain j \<noteq> []))) (\<lambda>r.
      case r of
        Inl _ \<Rightarrow> ret ()
      | Inr job \<Rightarrow>
          bindE (tryE (Emit ''message.bounced'' [] [(''event'', JStr ''message.bounced''), (''source'', JStr ''dsn''),
            (''message_id'', JStr (be_message_id e)), (''sender_domain'', JStr (oj_sender_domain job)),
            (''recipients'', JArr (map JStr (oj_recipients job))), (''bounce_event_id'', JStr (be_id e)),
            (''details'', JObj (be_details e))])) (\<lambda>_. ret ())))"

text \<open>\<^verbatim>\<open>CreateBulk\<close>: all rows in one statement or none.\<close>

definition insertRows :: "'r table \<Rightarrow> ('r \<Rightarrow> 'k) \<Rightarrow> 'r list \<Rightarrow> 'r list io" where
  "insertRows t key rows = dbcall (\<lambda>d.
     if distinct (map key rows) \<and> list_all (\<lambda>r. \<not> list_ex (\<lambda>x. key x = key r) (fst t d)) rows
     then (Inr rows, snd t (\<lambda>rs. rs @ rows) d) else (Inl ConstraintError, d))"

definition bounce_row :: "string \<Rightarrow> string \<Rightarrow> string \<Rightarrow> payload \<Rightarrow> time \<Rightarrow> string \<Rightarrow> bounce_recipient \<Rightarrow> bounce_event" where
  "bounce_row key sha raw details t i recipient = \<lparr>be_id = i, be_message_id = bc_message_id recipient,
     be_recipient = bc_address recipient, be_blob_key = key, be_sha256 = sha, be_size_bytes = int (length raw),
     be_details = details, be_created_at = t\<rparr>"

definition bounce_key :: "string \<Rightarrow> string" where
  "bounce_key sha = ''bounces/sha256/'' @ sha @ ''.eml''"

definition Record :: "bounce_handler \<Rightarrow> bounce_recipient list \<Rightarrow> string \<Rightarrow> unit io" where
  "Record b recipients0 raw =
     (let recipients = uniqueRecipients recipients0 in
      if recipients = [] then ret () else
      let sha = bh_digest b raw; key = bounce_key sha in
      bindE (putBlob key raw) (\<lambda>_.
      bindE now (\<lambda>t.
      let details = bounceDetails b t raw in
      bindE (mapE recipients (\<lambda>r. bindE newID (\<lambda>i. ret (bounce_row key sha raw details t i r)))) (\<lambda>rows.
      bindE (insertRows T_bounces be_id rows) (\<lambda>recorded.
      forE recorded (emitDomainBounce b))))))"

end
