(* ===== verification/Ratelimit.thy ===== *)
theory Ratelimit
  imports Prelude Complex_Main "HOL-Library.AList"
begin

text \<open>
  Rate and concurrency limits, \<^verbatim>\<open>internal/ratelimit/ratelimit.go\<close>.  A limiter is a token bucket per key;
  tokens are \<^verbatim>\<open>float64\<close> in the source and exact rationals here.  Buckets that were idle for ten
  minutes are dropped when there are many.  The map of buckets is an association list.
\<close>

section \<open>Token buckets\<close>

record bucket =
  bu_tokens :: rat
  bu_last :: time

record limiter =
  li_rate :: rat
  li_burst :: rat
  li_buckets :: "(string \<times> bucket) list"
  li_last_scan :: time

definition limiter_New :: "rat \<Rightarrow> int \<Rightarrow> time \<Rightarrow> limiter" where
  "limiter_New perSecond burst t = \<lparr>li_rate = perSecond, li_burst = of_int (if burst \<le> 0 then 1 else burst),
     li_buckets = [], li_last_scan = t\<rparr>"

definition seconds :: "duration \<Rightarrow> rat" where
  "seconds d = of_int d / of_int second"

definition sweep :: "time \<Rightarrow> limiter \<Rightarrow> limiter" where
  "sweep t l =
     (if t - li_last_scan l < minute \<or> length (li_buckets l) < 4096 then l
      else l\<lparr>li_last_scan := t, li_buckets := filter (\<lambda>kb. \<not> t - bu_last (snd kb) > 10 * minute) (li_buckets l)\<rparr>)"

definition Allow :: "string \<Rightarrow> time \<Rightarrow> limiter \<Rightarrow> bool \<times> limiter" where
  "Allow key t l =
     (if li_rate l \<le> 0 then (True, l) else
      let l1 = sweep t l;
          b = (case map_of (li_buckets l1) key of None \<Rightarrow> \<lparr>bu_tokens = li_burst l1, bu_last = t\<rparr> | Some b \<Rightarrow> b);
          tokens = min (li_burst l1) (bu_tokens b + seconds (t - bu_last b) * li_rate l1);
          put = (\<lambda>n. l1\<lparr>li_buckets := AList.update key \<lparr>bu_tokens = n, bu_last = t\<rparr> (li_buckets l1)\<rparr>)
      in if tokens < 1 then (False, put tokens) else (True, put (tokens - 1)))"

text \<open>The requests of one run: keys with their times; the answers in order.\<close>

fun allow_all :: "(string \<times> time) list \<Rightarrow> limiter \<Rightarrow> bool list \<times> limiter" where
  "allow_all [] l = ([], l)"
| "allow_all ((key, t) # rs) l =
     (case Allow key t l of (a, l1) \<Rightarrow> (case allow_all rs l1 of (as, l2) \<Rightarrow> (a # as, l2)))"

definition granted :: "string \<Rightarrow> (string \<times> time) list \<Rightarrow> bool list \<Rightarrow> nat" where
  "granted key rs as = length (filter (\<lambda>(r, a). fst r = key \<and> a) (zip rs as))"

section \<open>The level of a bucket\<close>

text \<open>What a request for the key at time \<open>t\<close> would find.\<close>

definition level :: "limiter \<Rightarrow> string \<Rightarrow> time \<Rightarrow> rat" where
  "level l key t = (case map_of (li_buckets l) key of None \<Rightarrow> li_burst l
     | Some b \<Rightarrow> min (li_burst l) (bu_tokens b + seconds (t - bu_last b) * li_rate l))"

text \<open>
  \<open>limiter_ok l t\<close>: the limiter is sound at time \<open>t\<close>, with enough refill in ten minutes
  that dropping an idle bucket gives nothing away.
\<close>

definition limiter_ok :: "limiter \<Rightarrow> time \<Rightarrow> bool" where
  "limiter_ok l t \<longleftrightarrow> 0 < li_rate l \<and> 1 \<le> li_burst l \<and> li_burst l \<le> 600 * li_rate l
     \<and> distinct (map fst (li_buckets l))
     \<and> (\<forall>kb \<in> set (li_buckets l). 0 \<le> bu_tokens (snd kb) \<and> bu_last (snd kb) \<le> t)"

lemma seconds_mono: "a \<le> b \<Longrightarrow> seconds a \<le> seconds b"
  by (simp add: seconds_def divide_right_mono)

lemma seconds_diff: "seconds (a - b) = seconds a - seconds b"
  by (simp add: seconds_def diff_divide_distrib)

lemma seconds_nonneg: "0 \<le> d \<Longrightarrow> 0 \<le> seconds d"
  by (simp add: seconds_def)

lemma level_le_burst: "level l key t \<le> li_burst l"
  by (simp add: level_def split: option.split)

lemma level_nonneg: "limiter_ok l s \<Longrightarrow> s \<le> t \<Longrightarrow> 0 \<le> level l key t"
  by (auto simp: level_def limiter_ok_def seconds_nonneg split: option.split dest!: map_of_SomeD)

text \<open>Time adds at most the rate.\<close>

lemma level_time:
  assumes "0 < li_rate l" and "s \<le> t"
  shows "level l key t \<le> level l key s + seconds (t - s) * li_rate l"
proof (cases "map_of (li_buckets l) key")
  case None
  with assms show ?thesis by (simp add: level_def seconds_nonneg)
next
  case (Some b)
  have "seconds (t - bu_last b) * li_rate l = seconds (s - bu_last b) * li_rate l + seconds (t - s) * li_rate l"
    by (simp add: seconds_diff algebra_simps)
  moreover have "0 \<le> seconds (t - s) * li_rate l" using assms by (simp add: seconds_nonneg)
  ultimately show ?thesis using Some by (simp add: level_def min_def)
qed

text \<open>Dropping idle buckets does not change any level.\<close>

lemma sweep_level:
  assumes ok: "limiter_ok l t" shows "level (sweep t l) key t = level l key t"
proof (cases "t - li_last_scan l < minute \<or> length (li_buckets l) < 4096")
  case True
  then show ?thesis by (simp add: sweep_def)
next
  case False
  let ?p = "\<lambda>kb. \<not> t - bu_last (snd kb) > 10 * minute"
  from False have sw: "li_buckets (sweep t l) = filter ?p (li_buckets l)" "li_burst (sweep t l) = li_burst l"
      "li_rate (sweep t l) = li_rate l" by (auto simp: sweep_def)
  show ?thesis
  proof (cases "map_of (li_buckets l) key")
    case None
    then have "map_of (filter ?p (li_buckets l)) key = None"
      by (auto simp: map_of_eq_None_iff)
    with None show ?thesis by (simp add: level_def sw)
  next
    case (Some b)
    then have b: "(key, b) \<in> set (li_buckets l)" by (rule map_of_SomeD)
    have dist: "distinct (map fst (li_buckets l))" "distinct (map fst (filter ?p (li_buckets l)))"
      using ok by (auto simp: limiter_ok_def distinct_map_filter)
    show ?thesis
    proof (cases "?p (key, b)")
      case True
      then have "map_of (filter ?p (li_buckets l)) key = Some b"
        using b dist(2) by (intro map_of_is_SomeI) auto
      with Some show ?thesis by (simp add: level_def sw)
    next
      case False
      then have idle: "600 * second \<le> t - bu_last b" by simp
      have "key \<notin> fst ` set (filter ?p (li_buckets l))"
        using False b dist(1) by (auto dest: eq_key_imp_eq_value)
      then have none: "map_of (filter ?p (li_buckets l)) key = None" by (simp add: map_of_eq_None_iff)
      have "600 \<le> seconds (t - bu_last b)" using seconds_mono [OF idle] by (simp add: seconds_def)
      then have "600 * li_rate l \<le> seconds (t - bu_last b) * li_rate l"
        using ok by (simp add: limiter_ok_def)
      moreover have "0 \<le> bu_tokens b" "li_burst l \<le> 600 * li_rate l" using ok b by (auto simp: limiter_ok_def)
      ultimately show ?thesis using Some none by (simp add: level_def sw)
    qed
  qed
qed

lemma sweep_ok: "limiter_ok l t \<Longrightarrow> limiter_ok (sweep t l) t"
  by (auto simp: limiter_ok_def sweep_def distinct_map_filter)


lemma Allow_step:
  assumes ok: "limiter_ok l t" and run: "Allow key t l = (a, l')"
  shows "limiter_ok l' t \<and> li_rate l' = li_rate l \<and> li_burst l' = li_burst l
    \<and> (\<forall>k. level l' k t = level l k t - (if k = key \<and> a then 1 else 0))"
proof -
  let ?s = "sweep t l"
  have s: "limiter_ok ?s t" "\<And>k. level ?s k t = level l k t" "li_rate ?s = li_rate l" "li_burst ?s = li_burst l"
    using sweep_ok [OF ok] sweep_level [OF ok] by (auto simp: sweep_def)
  define b where "b = (case map_of (li_buckets ?s) key of None \<Rightarrow> \<lparr>bu_tokens = li_burst ?s, bu_last = t\<rparr> | Some b \<Rightarrow> b)"
  define n where "n = min (li_burst ?s) (bu_tokens b + seconds (t - bu_last b) * li_rate ?s)"
  have n: "n = level ?s key t"
    using s(1) by (simp add: n_def b_def level_def limiter_ok_def seconds_def split: option.split)
  then have n0: "0 \<le> n" using level_nonneg [OF s(1)] by simp
  have run': "(a, l') = (if n < 1 then (False, ?s\<lparr>li_buckets := AList.update key \<lparr>bu_tokens = n, bu_last = t\<rparr> (li_buckets ?s)\<rparr>)
      else (True, ?s\<lparr>li_buckets := AList.update key \<lparr>bu_tokens = n - 1, bu_last = t\<rparr> (li_buckets ?s)\<rparr>))"
    using run ok unfolding Allow_def Let_def n_def b_def limiter_ok_def by (simp split: if_splits)
  have put: "limiter_ok (?s\<lparr>li_buckets := AList.update key \<lparr>bu_tokens = x, bu_last = t\<rparr> (li_buckets ?s)\<rparr>) t
      \<and> (\<forall>k. level (?s\<lparr>li_buckets := AList.update key \<lparr>bu_tokens = x, bu_last = t\<rparr> (li_buckets ?s)\<rparr>) k t
          = (if k = key then x else level ?s k t))" if "0 \<le> x" "x \<le> li_burst ?s" for x
  proof -
    have "set (AList.update key v al) \<subseteq> insert (key, v) (set al)" for v :: bucket and al
      by (induction al) auto
    then have "limiter_ok (?s\<lparr>li_buckets := AList.update key \<lparr>bu_tokens = x, bu_last = t\<rparr> (li_buckets ?s)\<rparr>) t"
      using s(1) that(1) unfolding limiter_ok_def by (fastforce simp: distinct_update)
    then show ?thesis using that(2)
      by (auto simp: level_def update_conv' seconds_def cong: option.case_cong)
  qed
  have "n \<le> li_burst ?s" by (simp add: n level_le_burst)
  with put [of n] put [of "n - 1"] n0 run' show ?thesis
    by (cases "n < 1") (auto simp: s(2-4) n)
qed

lemma limiter_ok_later: "limiter_ok l s \<Longrightarrow> s \<le> t \<Longrightarrow> limiter_ok l t"
  by (force simp: limiter_ok_def)

text \<open>A run of requests is granted what the bucket holds, plus the refill.\<close>

lemma granted_bound:
  assumes "limiter_ok l t0" and "sorted (t0 # map snd rs)" and "allow_all rs l = (as, l')"
    and "\<forall>r \<in> set rs. snd r \<le> t1" and "t0 \<le> t1"
  shows "of_nat (granted key rs as) \<le> level l key t0 + seconds (t1 - t0) * li_rate l"
  using assms
proof (induction rs arbitrary: l t0 as)
  case Nil
  have "0 \<le> seconds (t1 - t0) * li_rate l" using Nil.prems by (simp add: limiter_ok_def seconds_nonneg)
  with Nil level_nonneg [OF Nil.prems(1) order_refl, of key] show ?case by (simp add: granted_def)
next
  case (Cons r rs)
  obtain k t where r: "r = (k, t)" by (cases r)
  obtain a l1 where a: "Allow k t l = (a, l1)" by (cases "Allow k t l")
  obtain as' where as': "allow_all rs l1 = (as', l')" and as: "as = a # as'"
    using Cons.prems(3) by (auto simp: r a split: prod.splits)
  have tt: "t0 \<le> t" "t \<le> t1" using Cons.prems(2,4) by (auto simp: r)
  note ok = limiter_ok_later [OF Cons.prems(1) tt(1)]
  from Allow_step [OF ok a] have st: "limiter_ok l1 t" "li_rate l1 = li_rate l"
      "level l1 key t = level l key t - (if key = k \<and> a then 1 else 0)" by auto
  have "of_nat (granted key rs as') \<le> level l1 key t + seconds (t1 - t) * li_rate l1"
    using Cons.prems(2,4) by (intro Cons.IH [OF st(1) _ as']) (auto simp: r)
  moreover have "of_nat (granted key (r # rs) as) = of_nat (granted key rs as') + (if key = k \<and> a then 1 else (0 :: rat))"
    by (auto simp: granted_def as r)
  moreover have "level l key t \<le> level l key t0 + seconds (t - t0) * li_rate l"
    using Cons.prems(1) by (intro level_time [OF _ tt(1)]) (simp add: limiter_ok_def)
  moreover have "seconds (t1 - t0) * li_rate l = seconds (t1 - t) * li_rate l + seconds (t - t0) * li_rate l"
    by (simp add: seconds_diff algebra_simps)
  ultimately show ?case using st(2,3) by (simp split: if_splits)
qed

text \<open>Soundness lasts over a run, and the runs of a limiter can be cut anywhere.\<close>

lemma allow_all_ok:
  assumes "limiter_ok l t0" and "sorted (t0 # map snd rs)" and "allow_all rs l = (as, l')"
    and "\<forall>r \<in> set rs. snd r \<le> t1" and "t0 \<le> t1"
  shows "limiter_ok l' t1 \<and> li_rate l' = li_rate l \<and> li_burst l' = li_burst l"
  using assms
proof (induction rs arbitrary: l t0 as)
  case Nil
  then show ?case using limiter_ok_later by simp
next
  case (Cons r rs)
  obtain k t where r: "r = (k, t)" by (cases r)
  obtain a l1 where a: "Allow k t l = (a, l1)" by (cases "Allow k t l")
  obtain as' where as': "allow_all rs l1 = (as', l')"
    using Cons.prems(3) by (auto simp: r a split: prod.splits)
  have tt: "t0 \<le> t" "t \<le> t1" using Cons.prems(2,4) by (auto simp: r)
  from Allow_step [OF limiter_ok_later [OF Cons.prems(1) tt(1)] a]
  have "limiter_ok l1 t" "li_rate l1 = li_rate l" "li_burst l1 = li_burst l" by auto
  with Cons.IH [OF this(1) _ as'] Cons.prems(2,4) tt show ?case by (simp add: r)
qed

lemma allow_all_append: "allow_all (xs @ ys) l =
  (case allow_all xs l of (as, l1) \<Rightarrow> (case allow_all ys l1 of (bs, l2) \<Rightarrow> (as @ bs, l2)))"
  by (induction xs arbitrary: l) (auto split: prod.splits)

lemma length_allow_all: "allow_all rs l = (as, l') \<Longrightarrow> length as = length rs"
  by (induction rs arbitrary: l as) (auto split: prod.splits)

section \<open>Concurrency\<close>

record gate =
  ga_limit :: int
  ga_active :: "(string \<times> int) list"

definition NewConcurrencyGate :: "int \<Rightarrow> gate" where
  "NewConcurrencyGate limit = \<lparr>ga_limit = limit, ga_active = []\<rparr>"

text \<open>A missing key of the map reads as 0.\<close>

definition active_of :: "gate \<Rightarrow> string \<Rightarrow> int" where
  "active_of g key = (case map_of (ga_active g) key of None \<Rightarrow> 0 | Some n \<Rightarrow> n)"

definition Acquire :: "string \<Rightarrow> gate \<Rightarrow> bool \<times> gate" where
  "Acquire key g =
     (if ga_limit g \<le> 0 then (True, g)
      else if ga_limit g \<le> active_of g key then (False, g)
      else (True, g\<lparr>ga_active := AList.update key (active_of g key + 1) (ga_active g)\<rparr>))"

definition Release :: "string \<Rightarrow> gate \<Rightarrow> gate" where
  "Release key g =
     (if ga_limit g \<le> 0 then g
      else if active_of g key \<le> 1 then g\<lparr>ga_active := AList.delete key (ga_active g)\<rparr>
      else g\<lparr>ga_active := AList.update key (active_of g key - 1) (ga_active g)\<rparr>)"

text \<open>
  The contract of a gate, for the servers that hold a slot per session: \<open>count\<close> is the number of
  slots a key holds.
\<close>

locale slots =
  fixes acquire :: "'k \<Rightarrow> 'g \<Rightarrow> bool \<times> 'g" and release :: "'k \<Rightarrow> 'g \<Rightarrow> 'g"
    and count :: "'g \<Rightarrow> 'k \<Rightarrow> int" and limit :: int
    and valid :: "'g \<Rightarrow> bool"
  assumes acquire_ok: "valid g \<Longrightarrow> acquire k g = (True, g') \<Longrightarrow> valid g' \<and> count g k < limit
      \<and> (\<forall>j. count g' j = count g j + (if j = k then 1 else 0))"
    and acquire_full: "valid g \<Longrightarrow> acquire k g = (False, g') \<Longrightarrow> g' = g \<and> limit \<le> count g k"
    and release_ok: "valid g \<Longrightarrow> 0 < count g k \<Longrightarrow> valid (release k g)
      \<and> (\<forall>j. count (release k g) j = count g j - (if j = k then 1 else 0))"
begin

text \<open>
  The states a gate goes through when every release gives back a slot that was granted: \<open>held k\<close>
  counts the sessions of \<open>k\<close> that are open.
\<close>

inductive uses :: "'g \<Rightarrow> ('k \<Rightarrow> nat) \<Rightarrow> 'g \<Rightarrow> bool" for g0 where
  fresh: "uses g0 (\<lambda>_. 0) g0"
| enter: "uses g0 held g \<Longrightarrow> acquire k g = (True, g') \<Longrightarrow> uses g0 (held(k := Suc (held k))) g'"
| refused: "uses g0 held g \<Longrightarrow> acquire k g = (False, g') \<Longrightarrow> uses g0 held g'"
| leave: "uses g0 held g \<Longrightarrow> held k = Suc n \<Longrightarrow> uses g0 (held(k := n)) (release k g)"

lemma uses_count:
  assumes "uses g0 held g" and "valid g0" and "\<And>k. count g0 k = 0"
  shows "valid g \<and> (\<forall>k. count g k = int (held k))"
  using assms(1)
proof induction
  case (enter held g k g')
  with acquire_ok [of g k g'] show ?case by auto
next
  case (refused held g k g')
  with acquire_full [of g k g'] show ?case by auto
next
  case (leave held g k n)
  with release_ok [of g k] show ?case by auto
qed (use assms in auto)

lemma uses_bounded:
  assumes "uses g0 held g" and "valid g0" and "\<And>k. count g0 k = 0" and "0 \<le> limit"
  shows "int (held k) \<le> limit"
  using assms(1)
proof induction
  case fresh
  then show ?case using assms(4) by simp
next
  case (enter held g j g')
  have "valid g" "count g j = int (held j)" using uses_count [OF enter.hyps(1) assms(2,3)] by auto
  with acquire_ok [OF _ enter.hyps(2)] enter.IH show ?case by auto
next
  case (leave held g j n)
  then show ?case by (cases "k = j") auto
qed

text \<open>A key is refused only when all its slots are in use.\<close>

lemma refused_full:
  assumes "uses g0 held g" and "valid g0" and "\<And>k. count g0 k = 0" and "acquire k g = (False, g')"
  shows "limit \<le> int (held k)"
  using uses_count [OF assms(1-3)] acquire_full [OF _ assms(4)] by auto

end

definition gate_ok :: "int \<Rightarrow> gate \<Rightarrow> bool" where
  "gate_ok n g \<longleftrightarrow> ga_limit g = n \<and> 0 < n \<and> distinct (map fst (ga_active g)) \<and> (\<forall>kn \<in> set (ga_active g). 0 < snd kn)"

lemma active_update: "active_of (g\<lparr>ga_active := AList.update k n (ga_active g)\<rparr>) j = (if j = k then n else active_of g j)"
  by (simp add: active_of_def update_conv')

lemma active_delete: "active_of (g\<lparr>ga_active := AList.delete k (ga_active g)\<rparr>) j = (if j = k then 0 else active_of g j)"
  by (simp add: active_of_def delete_conv')

lemma gate_ok_update: "gate_ok n g \<Longrightarrow> 0 < m \<Longrightarrow> gate_ok n (g\<lparr>ga_active := AList.update k m (ga_active g)\<rparr>)"
proof -
  have "set (AList.update k m al) \<subseteq> insert (k, m) (set al)" for al :: "(string \<times> int) list"
    by (induction al) auto
  then show "gate_ok n g \<Longrightarrow> 0 < m \<Longrightarrow> ?thesis"
    unfolding gate_ok_def by (fastforce simp: distinct_update)
qed

lemma gate_ok_delete: "gate_ok n g \<Longrightarrow> gate_ok n (g\<lparr>ga_active := AList.delete k (ga_active g)\<rparr>)"
  by (auto simp: gate_ok_def AList.delete_eq distinct_map_filter)

lemma active_nonneg: "gate_ok n g \<Longrightarrow> 0 \<le> active_of g k"
  by (force simp: gate_ok_def active_of_def split: option.split dest: map_of_SomeD)

interpretation cg: slots Acquire Release active_of n "gate_ok n" for n
proof (unfold_locales, goal_cases)
  case (1 g k g')
  then show ?case
    using active_nonneg [OF 1(1), of k]
    by (auto simp: Acquire_def active_update intro: gate_ok_update split: if_splits) (auto simp: gate_ok_def)
next
  case (2 g k g')
  then show ?case by (auto simp: Acquire_def gate_ok_def split: if_splits)
next
  case (3 g k)
  then show ?case
    by (auto simp: Release_def active_update active_delete gate_ok_update gate_ok_delete) (auto simp: gate_ok_def)
qed

text \<open>The runs of one gate: \<open>held\<close> counts the open sessions of each key.\<close>

inductive gate_run :: "int \<Rightarrow> (string \<Rightarrow> nat) \<Rightarrow> gate \<Rightarrow> bool" for n where
  fresh: "gate_run n (\<lambda>_. 0) (NewConcurrencyGate n)"
| enter: "gate_run n held g \<Longrightarrow> Acquire k g = (True, g') \<Longrightarrow> gate_run n (held(k := Suc (held k))) g'"
| refused: "gate_run n held g \<Longrightarrow> Acquire k g = (False, g') \<Longrightarrow> gate_run n held g'"
| leave: "gate_run n held g \<Longrightarrow> held k = Suc m \<Longrightarrow> gate_run n (held(k := m)) (Release k g)"

lemma gate_run_uses: "gate_run n held g \<Longrightarrow> cg.uses (NewConcurrencyGate n) held g"
proof (induction rule: gate_run.induct)
  case fresh
  show ?case by (rule cg.uses.fresh)
next
  case (enter held g k g')
  show ?case by (rule cg.uses.enter [OF enter.IH enter.hyps(2)])
next
  case (refused held g k g')
  show ?case by (rule cg.uses.refused [OF refused.IH refused.hyps(2)])
next
  case (leave held g k m)
  show ?case by (rule cg.uses.leave [OF leave.IH leave.hyps(2)])
qed

section \<open>Properties\<close>

text \<open>
  C19.  The rate limit is a limit, in any period of a run: whatever the key and the others did \<open>before\<close>, since
  the limiter was made, at most \<open>burst + rate * (t1 - t0)\<close> of the requests of one key that arrive between
  \<open>t0\<close> and \<open>t1\<close> are allowed, however long the key was idle and however often idle buckets are dropped.
  It needs \<open>burst <= 600 * rate\<close>: a bucket refills within the ten minutes after which it may be
  dropped.  \<^verbatim>\<open>Allow\<close> runs under the limiter's mutex, so that the requests have an order.
\<close>

theorem rate_limited:
  assumes "0 < rate" and "of_int burst \<le> 600 * rate" and "0 < burst" and "sorted (s # map snd (before @ rs))"
    and "\<forall>r \<in> set before. snd r \<le> t0" and "\<forall>r \<in> set rs. t0 \<le> snd r \<and> snd r \<le> t1" and "s \<le> t0" and "t0 \<le> t1"
    and "allow_all (before @ rs) (limiter_New rate burst s) = (as, l')"
  shows "of_nat (granted key rs (drop (length before) as)) \<le> of_int burst + seconds (t1 - t0) * rate"
proof -
  let ?l = "limiter_New rate burst s"
  obtain as1 l1 as2 where one: "allow_all before ?l = (as1, l1)" and two: "allow_all rs l1 = (as2, l')"
    and as: "drop (length before) as = as2"
    using assms(9) by (auto simp: allow_all_append length_allow_all split: prod.splits)
  have "limiter_ok ?l s"
    using assms(1-3) by (simp add: limiter_ok_def limiter_New_def)
  then have l1: "limiter_ok l1 t0 \<and> li_rate l1 = rate \<and> li_burst l1 = of_int burst"
    using allow_all_ok [OF _ _ one assms(5,7)] assms(3,4) by (simp add: limiter_New_def sorted_wrt_append)
  have "of_nat (granted key rs as2) \<le> level l1 key t0 + seconds (t1 - t0) * li_rate l1"
    using assms(4,6,8) l1 by (intro granted_bound [OF _ _ two]) (auto simp: sorted_wrt_append)
  also have "\<dots> \<le> of_int burst + seconds (t1 - t0) * rate"
    using l1 level_le_burst [of l1 key t0] by simp
  finally show ?thesis by (simp add: as)
qed

theorem rate_limited_witness:
  "fst (allow_all [(''k'', 0), (''k'', minute), (''k'', minute), (''k'', minute), (''k'', 61 * second)] (limiter_New 1 2 0))
     = [True, True, True, False, True]
   \<and> (3 :: rat) \<le> 2 + seconds second * 1"
proof -
  let ?rs = "[(''k'', minute), (''k'', minute), (''k'', minute), (''k'', 61 * second)]"
  let ?run = "allow_all ([(''k'', 0)] @ ?rs) (limiter_New 1 2 0)"
  have run: "fst ?run = [True, True, True, False, True]" by code_simp
  have "of_nat (granted ''k'' ?rs (drop (length [(''k'', 0 :: time)]) (fst ?run))) \<le> (of_int 2 + seconds (61 * second - minute) * 1 :: rat)"
    by (rule rate_limited [of _ _ 0 _ _ _ _ _ "snd ?run"]) simp_all
  with run show ?thesis by (simp add: granted_def)
qed

text \<open>
  The concurrency gate: in every interleaving of acquires and of releases of granted slots, by any number of
  keys, no key holds more than \<open>limit\<close> slots, and a key is refused only when it holds \<open>limit\<close> of them.
\<close>

theorem gate_bounds_sessions:
  assumes "0 < n" and "gate_run n held g"
  shows "int (held k) \<le> n \<and> (Acquire k g = (False, g') \<longrightarrow> n \<le> int (held k))"
proof -
  have v: "gate_ok n (NewConcurrencyGate n)" "\<And>k. active_of (NewConcurrencyGate n) k = 0"
    using assms(1) by (simp_all add: gate_ok_def NewConcurrencyGate_def active_of_def)
  note u = gate_run_uses [OF assms(2)]
  from cg.uses_bounded [OF u v] cg.refused_full [OF u v] assms(1) show ?thesis by simp
qed

theorem gate_bounds_sessions_witness:
  "fst (Acquire ''a'' (snd (Acquire ''a'' (NewConcurrencyGate 1)))) = False \<and> (1 :: int) \<le> 1"
proof -
  let ?start = "NewConcurrencyGate 1" and ?g = "snd (Acquire ''a'' (NewConcurrencyGate 1))"
  have "fst (Acquire ''a'' ?start) = True" by code_simp
  then have a: "Acquire ''a'' ?start = (True, ?g)" by (metis prod.collapse)
  have "gate_run 1 ((\<lambda>_. 0)(''a'' := Suc 0)) ?g"
    using gate_run.enter [OF gate_run.fresh a] by simp
  from gate_bounds_sessions [OF zero_less_one this, of "''a''" ?g] have "int (Suc 0) \<le> (1 :: int)"
    unfolding fun_upd_same by (rule conjunct1)
  moreover have "fst (Acquire ''a'' ?g) = False" by code_simp
  ultimately show ?thesis by simp
qed

end
