(* ===== verification/Inbound.thy ===== *)
theory Inbound
  imports Bounce Delivery Ratelimit
begin

text \<open>
  The inbound SMTP server, \<^verbatim>\<open>internal/smtp/inbound\<close>: the listener with its two gates (\<^verbatim>\<open>listener.go\<close>) and the session the
  protocol library drives (\<^verbatim>\<open>server.go\<close>).  The limiter is shared by all sessions, so each handler takes and returns it with
  the session.  A handler ends with a reply: none is success.  Reading the DATA stream is an argument, \<open>None\<close> for a read
  error; metrics, log lines and time-outs of connections are left out.
\<close>

section \<open>Replies\<close>

record smtp_error =
  se_code :: int
  se_enhanced :: "int \<times> int \<times> int"
  se_message :: string

definition overQuotaSMTPError :: smtp_error where
  "overQuotaSMTPError = \<lparr>se_code = 452, se_enhanced = (4, 2, 2), se_message = ''mailbox over quota''\<rparr>"

definition temporarySMTPError :: "string \<Rightarrow> smtp_error" where
  "temporarySMTPError msg = \<lparr>se_code = 451, se_enhanced = (4, 3, 0), se_message = msg\<rparr>"

definition local_problem :: smtp_error where
  "local_problem = temporarySMTPError ''temporary local problem''"

definition rate_exceeded :: smtp_error where
  "rate_exceeded = \<lparr>se_code = 450, se_enhanced = (4, 7, 1), se_message = ''rate limit exceeded, try again later''\<rparr>"

section \<open>The listener\<close>

text \<open>
  What the standard library makes of a remote address: \<^verbatim>\<open>net.SplitHostPort\<close>, \<^verbatim>\<open>netip.ParseAddr\<close> (a zone is dropped by
  \<^verbatim>\<open>Prefix\<close>), and the text of an address.
\<close>

record net_lib =
  nl_split :: "string \<Rightarrow> (string \<times> string) option"
  nl_addr :: "string \<Rightarrow> ip option"
  nl_text :: "ip \<Rightarrow> string"

fun unmap :: "ip \<Rightarrow> ip" where
  "unmap (V4 a) = V4 a"
| "unmap (V6 a) = (if drop_bit 32 a = 0xFFFF then V4 (ucast a) else V6 a)"

definition mask64 :: "128 word \<Rightarrow> 128 word" where
  "mask64 a = push_bit 64 (drop_bit 64 a)"

definition connectionKey :: "net_lib \<Rightarrow> string \<Rightarrow> string" where
  "connectionKey lib addr =
     (let host = (case nl_split lib addr of None \<Rightarrow> addr | Some (h, _) \<Rightarrow> h) in
      case nl_addr lib host of
        None \<Rightarrow> host
      | Some i \<Rightarrow> (case unmap i of
           V6 a \<Rightarrow> nl_text lib (V6 (mask64 a)) @ ''/64''
         | V4 a \<Rightarrow> nl_text lib (V4 a)))"

record limited_listener =
  ll_per_ip :: gate
  ll_global :: gate

record limited_conn =
  lc_key :: string
  lc_released :: bool

definition new_listener :: "int \<Rightarrow> int \<Rightarrow> limited_listener" where
  "new_listener maxPerIP maxTotal = \<lparr>ll_per_ip = NewConcurrencyGate maxPerIP, ll_global = NewConcurrencyGate maxTotal\<rparr>"

text \<open>
  One call of \<^verbatim>\<open>Accept\<close> on the connections that arrive, given by their keys: the first one admitted and the replies to those
  refused before it, or none when the arrivals end, which is the error of the underlying listener.
\<close>

fun Accept :: "string list \<Rightarrow> limited_listener \<Rightarrow> limited_conn option \<times> string list \<times> limited_listener" where
  "Accept [] l = (None, [], l)"
| "Accept (key # incoming) l =
     (case Acquire [] (ll_global l) of
        (False, g) \<Rightarrow> (case Accept incoming (l\<lparr>ll_global := g\<rparr>) of
           (c, replies, l') \<Rightarrow> (c, (''421 4.7.0 too many connections'' @ CRLF) # replies, l'))
      | (True, g) \<Rightarrow> (case Acquire key (ll_per_ip l) of
           (False, p) \<Rightarrow> (case Accept incoming (l\<lparr>ll_global := Release [] g, ll_per_ip := p\<rparr>) of
              (c, replies, l') \<Rightarrow> (c, (''421 4.7.0 too many connections from your address'' @ CRLF) # replies, l'))
         | (True, p) \<Rightarrow> (Some \<lparr>lc_key = key, lc_released = False\<rparr>, [], l\<lparr>ll_global := g, ll_per_ip := p\<rparr>)))"

definition Close :: "limited_conn \<Rightarrow> limited_listener \<Rightarrow> limited_conn \<times> limited_listener" where
  "Close c l =
     (if lc_released c then (c, l)
      else (c\<lparr>lc_released := True\<rparr>, l\<lparr>ll_per_ip := Release (lc_key c) (ll_per_ip l), ll_global := Release [] (ll_global l)\<rparr>))"

section \<open>Sessions\<close>

record inbound_backend =
  ib_bounces :: bounce_handler
  ib_oracles :: oracles
  ib_spam :: spam_config
  ib_auth_id :: string
  ib_messages :: delivery_service

record inbound_session =
  is_smtp :: smtp_context
  is_limit_key :: string
  is_mail_from :: string
  is_size :: int
  is_recipients :: "result list"
  is_bounce_rcpt :: "bounce_recipient list"
  is_accepted :: int

definition maxBounceRecipients :: nat where "maxBounceRecipients = 10"

definition NewSession :: "net_lib \<Rightarrow> string \<Rightarrow> string \<Rightarrow> bool \<Rightarrow> inbound_session" where
  "NewSession lib addr hostname tlsUsed =
     \<lparr>is_smtp = \<lparr>sm_mail_from = [], sm_remote_ip = (case nl_split lib addr of None \<Rightarrow> [] | Some (h, _) \<Rightarrow> h),
        sm_helo = hostname, sm_tls = tlsUsed\<rparr>, is_limit_key = connectionKey lib addr, is_mail_from = [], is_size = 0,
      is_recipients = [], is_bounce_rcpt = [], is_accepted = 0\<rparr>"

text \<open>\<open>None\<close> as the size is a MAIL command without options.\<close>

definition Mail :: "string \<Rightarrow> int option \<Rightarrow> limiter \<Rightarrow> inbound_session \<Rightarrow> (smtp_error option \<times> limiter \<times> inbound_session) io" where
  "Mail sender opts l s =
     bindE now (\<lambda>t.
     case Allow (is_limit_key s) t l of
       (False, l') \<Rightarrow> ret (Some rate_exceeded, l', s)
     | (True, l') \<Rightarrow> ret (None, l', s\<lparr>is_mail_from := sender, is_smtp := (is_smtp s)\<lparr>sm_mail_from := sender\<rparr>,
         is_size := (case opts of None \<Rightarrow> 0 | Some n \<Rightarrow> n), is_recipients := [], is_bounce_rcpt := [], is_accepted := 0\<rparr>))"

definition chargeRecipient :: "time \<Rightarrow> limiter \<Rightarrow> inbound_session \<Rightarrow> smtp_error option \<times> limiter \<times> inbound_session" where
  "chargeRecipient t l s =
     (case (if 0 < is_accepted s then Allow (is_limit_key s) t l else (True, l)) of
        (False, l') \<Rightarrow> (Some rate_exceeded, l', s)
      | (True, l') \<Rightarrow> (None, l', s\<lparr>is_accepted := is_accepted s + 1\<rparr>))"

text \<open>\<^verbatim>\<open>if err := s.chargeRecipient(); err != nil { return err }\<close>, then the change \<open>f\<close> of the session.\<close>

definition charged :: "limiter \<Rightarrow> inbound_session \<Rightarrow> (inbound_session \<Rightarrow> inbound_session)
    \<Rightarrow> (smtp_error option \<times> limiter \<times> inbound_session) io" where
  "charged l s f = bindE now (\<lambda>t. case chargeRecipient t l s of
       (Some e, l', s') \<Rightarrow> ret (Some e, l', s')
     | (None, l', s') \<Rightarrow> ret (None, l', f s'))"

definition reply :: "int \<Rightarrow> int \<times> int \<times> int \<Rightarrow> string \<Rightarrow> smtp_error" where
  "reply n enhanced msg = \<lparr>se_code = n, se_enhanced = enhanced, se_message = msg\<rparr>"

definition bounce_rcpt :: "bounce_recipient \<Rightarrow> limiter \<Rightarrow> inbound_session \<Rightarrow> (smtp_error option \<times> limiter \<times> inbound_session) io" where
  "bounce_rcpt recipient l s =
     (if list_ex (\<lambda>existing. bc_message_id existing = bc_message_id recipient) (is_bounce_rcpt s) then ret (None, l, s)
      else if maxBounceRecipients \<le> length (is_bounce_rcpt s) then ret (Some (reply 452 (4, 5, 3) ''too many bounce recipients''), l, s)
      else charged l s (\<lambda>s'. s'\<lparr>is_bounce_rcpt := is_bounce_rcpt s @ [recipient]\<rparr>))"

definition deliverable :: "int \<Rightarrow> mailbox \<Rightarrow> bool" where
  "deliverable sz mbox \<longleftrightarrow> \<not> (OverQuota (Some mbox) \<or> OverQuotaWith (Some mbox) sz)"

definition mailbox_rcpt :: "string \<Rightarrow> limiter \<Rightarrow> inbound_session \<Rightarrow> (smtp_error option \<times> limiter \<times> inbound_session) io" where
  "mailbox_rcpt to l s =
     bindE (tryE (Resolve to)) (\<lambda>r.
     case r of
       Inl _ \<Rightarrow> ret (Some local_problem, l, s)
     | Inr None \<Rightarrow> ret (Some (reply 550 (5, 1, 1) ''unknown recipient''), l, s)
     | Inr (Some result) \<Rightarrow>
         let boxes = filter (deliverable (is_size s)) (re_mailboxes result) in
         if boxes = [] then ret (Some overQuotaSMTPError, l, s)
         else charged l s (\<lambda>s'. s'\<lparr>is_recipients := is_recipients s @ [result\<lparr>re_mailboxes := boxes\<rparr>]\<rparr>))"

definition Rcpt :: "inbound_backend \<Rightarrow> string \<Rightarrow> limiter \<Rightarrow> inbound_session \<Rightarrow> (smtp_error option \<times> limiter \<times> inbound_session) io" where
  "Rcpt b to l s =
     bindE (ParseRecipient (ib_bounces b) to) (\<lambda>parsed.
     case parsed of
       Some None \<Rightarrow> ret (Some (reply 550 (5, 1, 1) ''invalid bounce recipient''), l, s)
     | Some (Some recipient) \<Rightarrow> bounce_rcpt recipient l s
     | None \<Rightarrow> mailbox_rcpt to l s)"

definition deliver_data :: "inbound_backend \<Rightarrow> string \<Rightarrow> inbound_session \<Rightarrow> smtp_error option io" where
  "deliver_data b raw s =
     (let normalized = NormalizeMessage raw; md = Parse (ds_mime (ib_messages b)) normalized in
      bindE (tryE (CheckParsed (ib_oracles b) (ib_spam b) (ib_auth_id b) normalized md (is_smtp s) (is_recipients s))) (\<lambda>c.
      case c of
        Inl _ \<Rightarrow> ret (Some local_problem)
      | Inr a \<Rightarrow>
          if as_reject a then ret (Some (reply 550 (5, 7, 1) ''message rejected by policy'')) else
          bindE (tryE (DeliverParsed (ib_messages b) normalized md (is_recipients s) a)) (\<lambda>d.
          case d of
            Inl e \<Rightarrow> ret (Some (if e = ErrOverQuota then overQuotaSMTPError else local_problem))
          | Inr _ \<Rightarrow> ret None)))"

definition Data :: "inbound_backend \<Rightarrow> string option \<Rightarrow> inbound_session \<Rightarrow> smtp_error option io" where
  "Data b read s =
     (if is_recipients s = [] \<and> is_bounce_rcpt s = [] then ret (Some (reply 554 (5, 5, 1) ''no valid recipients'')) else
      case read of
        None \<Rightarrow> ret (Some local_problem)
      | Some raw \<Rightarrow>
          bindE (tryE (Record (ib_bounces b) (is_bounce_rcpt s) raw)) (\<lambda>recorded.
          case recorded of
            Inl _ \<Rightarrow> ret (Some local_problem)
          | Inr _ \<Rightarrow> if is_recipients s = [] then ret None else deliver_data b raw s))"

definition Reset :: "inbound_session \<Rightarrow> inbound_session" where
  "Reset s = s\<lparr>is_mail_from := [], is_size := 0, is_recipients := [], is_bounce_rcpt := [], is_accepted := 0\<rparr>"

end
