(* ===== verification/Submission.thy ===== *)
theory Submission
  imports Headers Delivery
begin

text \<open>
  Submission of outgoing mail, \<^verbatim>\<open>internal/outbound/submission.go\<close>: who may send as whom, the fields a submitted message gets,
  the limits on recipients, and the transaction that stores the message, files it in Sent and queues the job.  DKIM signing
  and the address parser of \<^verbatim>\<open>net/mail\<close> are parameters.
\<close>

section \<open>State\<close>

record limits =
  li_per_hour :: int
  li_per_day :: int
  li_recipients_per_message :: int

text \<open>
  The service: \<open>sv_parse\<close> and \<open>sv_parse_list\<close> are \<^verbatim>\<open>ParseAddress\<close> and \<^verbatim>\<open>ParseAddressList\<close>, the addresses found or the text of
  the error; \<open>sv_sign\<close> is \<^verbatim>\<open>signMessage\<close>.
\<close>

record submission =
  sv_public_hostname :: string
  sv_instance_name :: string
  sv_defaults :: limits
  sv_domain_defaults :: limits
  sv_parse :: "string \<Rightarrow> string + string"
  sv_parse_list :: "string \<Rightarrow> string + string list"
  sv_sign :: "string \<Rightarrow> dkim_key \<Rightarrow> err + string"
  sv_digest :: "string \<Rightarrow> string"
  sv_mime :: mime_lib

record send_scope =
  ss_limits :: limits
  ss_jobs :: "outbound_job \<Rightarrow> bool"

record prepared_message =
  pm_id :: string
  pm_trace_id :: string
  pm_domain :: string
  pm_object_key :: string
  pm_signed :: string
  pm_recipients :: "string list"

text \<open>An \<open>err + 'a\<close> as the end of a handler, and the panic of a slice expression: nothing after it runs.\<close>

definition lift_err :: "err + 'a \<Rightarrow> 'a io" where
  "lift_err r = (case r of Inl e \<Rightarrow> fail e | Inr x \<Rightarrow> ret x)"

definition slice_panic :: err where
  "slice_panic = ErrText ''runtime error: slice bounds out of range''"

section \<open>Senders\<close>

definition sender_domain :: "string \<Rightarrow> string" where
  "sender_domain address = fst (snd (cut (to_lower address) ''@''))"

definition inDomain :: "string \<Rightarrow> string \<Rightarrow> bool" where
  "inDomain address domain \<longleftrightarrow> domain \<noteq> [] \<and> sender_domain address = domain"

definition SenderAllowed :: "mailbox \<Rightarrow> string \<Rightarrow> bool io" where
  "SenderAllowed mbox address0 =
     (let address = to_lower (trim_space address0) in
      if equal_fold address (mb_primary_address mbox) then ret True else
      bindE (selectAll T_routes (\<lambda>r. equal_fold (ro_source_address r) address \<and> ro_status r = ''active'' \<and> ro_deleted_at r = None)) (\<lambda>routes.
      ret (list_ex (\<lambda>item. list_ex (\<lambda>destination. destination = mb_id mbox) (ro_destinations item)) routes)))"

definition check_addresses :: "(string \<Rightarrow> bool io) \<Rightarrow> string list \<Rightarrow> unit io" where
  "check_addresses fromAllowed list = forE list (\<lambda>address.
     bindE (fromAllowed address) (\<lambda>allowed. if \<not> allowed then fail ErrSenderNotAllowed else ret ()))"

definition checkFromHeader :: "submission \<Rightarrow> string list \<Rightarrow> (string \<Rightarrow> bool io) \<Rightarrow> unit io" where
  "checkFromHeader s values fromAllowed = forE values (\<lambda>value.
     case sv_parse_list s value of
       Inl _ \<Rightarrow> fail ErrSenderNotAllowed
     | Inr list \<Rightarrow> if list = [] then fail ErrSenderNotAllowed else check_addresses fromAllowed list)"

section \<open>The fields of a submitted message\<close>

definition message_id_field :: "string \<Rightarrow> string \<Rightarrow> string" where
  "message_id_field messageID hostname = ''<'' @ messageID @ ''@'' @ hostname @ ''>''"

definition submitted_fields :: "string \<Rightarrow> time \<Rightarrow> string \<Rightarrow> string \<Rightarrow> string \<Rightarrow> string \<Rightarrow> mime_header \<Rightarrow> mime_header" where
  "submitted_fields sender t messageID hostname traceID node h0 =
     (let h1 = (if header_get h0 ''From'' = [] then header_set ''From'' sender h0 else h0);
          h2 = (if header_get h1 ''Date'' = [] then header_set ''Date'' (format_rfc1123z t) h1 else h1);
          h3 = (if header_get h2 ''Message-ID'' = [] then header_set ''Message-ID'' (message_id_field messageID hostname) h2 else h2)
      in header_set ''X-Haitatsu-Node'' node (header_set ''X-Haitatsu-Trace-ID'' traceID (header_del ''Bcc'' h3)))"

definition submitted_from_error :: "submission \<Rightarrow> (string \<Rightarrow> bool io) \<Rightarrow> mime_header \<Rightarrow> (err + unit) io" where
  "submitted_from_error s fromAllowed h =
     (if header_get h ''From'' = [] then ret (Inr ()) else tryE (checkFromHeader s (header_values h ''From'') fromAllowed))"

definition normalizeSubmittedMessageFallback :: "submission \<Rightarrow> string \<Rightarrow> string \<Rightarrow> (string \<Rightarrow> bool io) \<Rightarrow> string \<Rightarrow> string \<Rightarrow> string \<Rightarrow> string \<Rightarrow> string io" where
  "normalizeSubmittedMessageFallback s raw sender fromAllowed messageID hostname traceID node =
     (let hb = SplitHeaderBody raw; header = RemoveHeaderField (StripHaitatsuHeaders (fst hb)) ''Bcc'';
          values = headerValues header ''From'' in
      bindE (if values = [] then ret [''From: '' @ sender]
             else bindE (checkFromHeader s values fromAllowed) (\<lambda>_. ret [])) (\<lambda>extra.
      bindE now (\<lambda>t.
      let extra1 = (if hasHeader header ''Date'' then extra else extra @ [''Date: '' @ format_rfc1123z t]);
          extra2 = (if hasHeader header ''Message-ID'' then extra1 else extra1 @ [''Message-ID: '' @ message_id_field messageID hostname])
      in ret (JoinHeaderBody (AppendHeaderFields header
           (extra2 @ [''X-Haitatsu-Trace-ID: '' @ traceID, ''X-Haitatsu-Node: '' @ node])) (snd hb)))))"

definition normalizeSubmittedMessage :: "submission \<Rightarrow> string \<Rightarrow> string \<Rightarrow> (string \<Rightarrow> bool io) \<Rightarrow> string \<Rightarrow> string \<Rightarrow> string \<Rightarrow> string \<Rightarrow> string io" where
  "normalizeSubmittedMessage s raw sender fromAllowed messageID hostname traceID node =
     (if \<not> validHeaderFieldNames (fst (SplitHeaderBody raw)) then fail ErrInvalidHeader else
      bindE (case ReadMessage raw of None \<Rightarrow> ret (Inr ()) | Some (h, _) \<Rightarrow> submitted_from_error s fromAllowed (drop_haitatsu h)) (\<lambda>fromErr.
      bindE now (\<lambda>t.
      case InjectHeaders raw (submitted_fields sender t messageID hostname traceID node) of
        Some (Some normalized) \<Rightarrow> bindE (lift_err fromErr) (\<lambda>_. ret normalized)
      | Some None \<Rightarrow> fail slice_panic
      | None \<Rightarrow> normalizeSubmittedMessageFallback s raw sender fromAllowed messageID hostname traceID node)))"

section \<open>Recipients and limits\<close>

definition parsed_address :: "submission \<Rightarrow> string \<Rightarrow> string" where
  "parsed_address s value = (case sv_parse s value of Inr address \<Rightarrow> address | Inl _ \<Rightarrow> value)"

definition dedupeAddresses :: "submission \<Rightarrow> string list \<Rightarrow> string list" where
  "dedupeAddresses s values =
     dedup_on (\<lambda>a. to_lower (trim_space a)) [] (filter (\<lambda>a. to_lower (trim_space a) \<noteq> []) (map (parsed_address s) values))"

definition outboundRecipients :: "submission \<Rightarrow> string list \<Rightarrow> metadata \<Rightarrow> string list" where
  "outboundRecipients s recipients md =
     (if recipients \<noteq> [] then dedupeAddresses s recipients else dedupeAddresses s (md_to md @ md_cc md @ md_bcc md))"

definition recipientsSince :: "(outbound_job \<Rightarrow> bool) \<Rightarrow> time \<Rightarrow> int io" where
  "recipientsSince jobs since =
     bindE (selectAll T_jobs (\<lambda>j. jobs j \<and> since \<le> oj_created_at j)) (\<lambda>found.
     ret (sum_list (map (\<lambda>j. int (length (oj_recipients j))) found)))"

definition under_limit :: "int \<Rightarrow> (outbound_job \<Rightarrow> bool) \<Rightarrow> time \<Rightarrow> int \<Rightarrow> unit io" where
  "under_limit limit jobs since recipientCount =
     (if 0 < limit then
        bindE (recipientsSince jobs since) (\<lambda>count. if limit < count + recipientCount then fail ErrRateLimited else ret ())
      else ret ())"

definition enforceLimits :: "send_scope \<Rightarrow> int \<Rightarrow> unit io" where
  "enforceLimits scope recipientCount =
     (let l = ss_limits scope in
      if 0 < li_recipients_per_message l \<and> li_recipients_per_message l < recipientCount then fail ErrTooManyRecipients else
      bindE now (\<lambda>t.
      bindE (under_limit (li_per_hour l) (ss_jobs scope) (t - hour) recipientCount) (\<lambda>_.
      under_limit (li_per_day l) (ss_jobs scope) (t - day) recipientCount)))"

definition override :: "(string \<times> int) list \<Rightarrow> string \<Rightarrow> int \<Rightarrow> int" where
  "override values key d = (case map_of values key of Some v \<Rightarrow> v | None \<Rightarrow> d)"

definition limitsFor :: "submission \<Rightarrow> mailbox \<Rightarrow> limits" where
  "limitsFor s mbox = (let l = sv_defaults s; o' = mb_outbound_limits mbox in
     \<lparr>li_per_hour = override o' ''per_hour'' (li_per_hour l), li_per_day = override o' ''per_day'' (li_per_day l),
      li_recipients_per_message = override o' ''recipients_per_message'' (li_recipients_per_message l)\<rparr>)"

definition mailboxScope :: "submission \<Rightarrow> mailbox \<Rightarrow> send_scope" where
  "mailboxScope s mbox = \<lparr>ss_limits = limitsFor s mbox, ss_jobs = (\<lambda>j. oj_mailbox_id j = mb_id mbox)\<rparr>"

definition domainScope :: "submission \<Rightarrow> string \<Rightarrow> send_scope" where
  "domainScope s domain = \<lparr>ss_limits = sv_domain_defaults s, ss_jobs = (\<lambda>j. oj_sender_domain j = domain)\<rparr>"

section \<open>Submission\<close>

definition ReturnPath :: "string \<Rightarrow> string \<Rightarrow> string" where
  "ReturnPath messageID domain = ''bounces+'' @ messageID @ ''@'' @ domain"

definition created_message :: "submission \<Rightarrow> prepared_message \<Rightarrow> metadata \<Rightarrow> time \<Rightarrow> message" where
  "created_message s p md t = \<lparr>me_id = pm_id p, me_trace_id = pm_trace_id p, me_rfc_message_id = md_rfc_message_id md,
     me_blob_key = pm_object_key p, me_sha256 = sv_digest s (pm_signed p), me_size_bytes = int (length (pm_signed p)),
     me_headers = md_headers md, me_from = md_from md, me_to = md_to md, me_cc = md_cc md, me_bcc = md_bcc md,
     me_subject = md_subject md, me_date = md_date md, me_text_extract = md_text md, me_html_extract = md_html md,
     me_attachments = map attachment_json (md_attachments md), me_spam_score = Fin 0, me_auth_results = [], me_created_at = t\<rparr>"

definition createMessage :: "submission \<Rightarrow> prepared_message \<Rightarrow> message io" where
  "createMessage s p =
     bindE now (\<lambda>t. insertRow T_messages message_clash (created_message s p (Parse (sv_mime s) (pm_signed p)) t))"

definition createJob :: "string \<Rightarrow> string \<Rightarrow> string \<Rightarrow> prepared_message \<Rightarrow> outbound_job io" where
  "createJob mailboxID senderDomain messageID p =
     bindE newID (\<lambda>i. bindE now (\<lambda>t.
     insertRow T_jobs (\<lambda>r x. oj_id r = oj_id x) \<lparr>oj_id = i, oj_mailbox_id = mailboxID, oj_sender_domain = senderDomain,
       oj_message_id = messageID, oj_return_path = ReturnPath messageID (pm_domain p), oj_recipients = pm_recipients p,
       oj_status = ''queued'', oj_attempts = 0, oj_locked_by = None, oj_locked_until = None, oj_next_attempt_at = None,
       oj_last_error = [], oj_created_at = t, oj_updated_at = t\<rparr>))"

text \<open>The newest key of the domain.\<close>

definition dkimKeyFor :: "string \<Rightarrow> dkim_key io" where
  "dkimKeyFor domain = dbcall (\<lambda>d.
     (first (rev (sort_key dk_created_at (sort_key dk_id (filter (\<lambda>k. dk_domain k = domain) (db_dkim_keys d))))), d))"

definition prepare_signed :: "submission \<Rightarrow> string \<Rightarrow> (string \<Rightarrow> bool io) \<Rightarrow> string \<Rightarrow> string list \<Rightarrow> (int \<Rightarrow> int \<Rightarrow> unit io) \<Rightarrow> dkim_key \<Rightarrow> string \<Rightarrow> string \<Rightarrow> prepared_message io" where
  "prepare_signed s sender fromAllowed raw to admit key i traceID =
     bindE (normalizeSubmittedMessage s raw sender fromAllowed i (sv_public_hostname s) traceID (sv_instance_name s)) (\<lambda>normalized.
     bindE (admit (int (length to)) (int (length normalized))) (\<lambda>_.
     bindE (lift_err (sv_sign s normalized key)) (\<lambda>signed.
     bindE now (\<lambda>t.
     bindE (putBlob (messageObjectKey t i) signed) (\<lambda>_.
     ret \<lparr>pm_id = i, pm_trace_id = traceID, pm_domain = sender_domain sender, pm_object_key = messageObjectKey t i,
       pm_signed = signed, pm_recipients = to\<rparr>)))))"

definition prepare :: "submission \<Rightarrow> string \<Rightarrow> (string \<Rightarrow> bool io) \<Rightarrow> string \<Rightarrow> string list \<Rightarrow> (int \<Rightarrow> int \<Rightarrow> unit io) \<Rightarrow> prepared_message io" where
  "prepare s sender fromAllowed raw recipients admit =
     bindE (tryE (dkimKeyFor (sender_domain sender))) (\<lambda>k.
     case k of
       Inl e \<Rightarrow> fail (if e = NotFound then ErrDKIMKeyNotFound else e)
     | Inr key \<Rightarrow>
         bindE newID (\<lambda>i.
         bindE newID (\<lambda>traceID.
         let to = (if recipients \<noteq> [] then dedupeAddresses s recipients
                   else outboundRecipients s [] (Parse (sv_mime s) (NormalizeMessage raw))) in
         prepare_signed s sender fromAllowed raw to admit key i traceID)))"

definition sent_attach :: "mailbox \<Rightarrow> string \<Rightarrow> message \<Rightarrow> prepared_message \<Rightarrow> attach" where
  "sent_attach mbox sentFolderID msg p = \<lparr>at_mailbox_id = mb_id mbox, at_message_id = me_id msg, at_folder_id = sentFolderID,
     at_size_bytes = int (length (pm_signed p)), at_original_rcpt = [], at_base_rcpt = [], at_plus_tag = [],
     at_resolved_route_id = [], at_flags = no_flags\<lparr>fl_seen := True\<rparr>, at_created_at = 0, at_enforce_quota = True\<rparr>"

definition enqueueInTx :: "submission \<Rightarrow> mailbox \<Rightarrow> string \<Rightarrow> prepared_message \<Rightarrow> (message \<times> attach \<times> mailbox_message) io" where
  "enqueueInTx s mbox sentFolderID p =
     bindE (LockMailbox (mb_id mbox)) (\<lambda>_.
     bindE (enforceLimits (mailboxScope s mbox) (int (length (pm_recipients p)))) (\<lambda>_.
     bindE (createMessage s p) (\<lambda>msg.
     bindE (attachInTx (sent_attach mbox sentFolderID msg p)) (\<lambda>item.
     bindE (createJob (mb_id mbox) [] (me_id msg) p) (\<lambda>_.
     ret (msg, sent_attach mbox sentFolderID msg p, item))))))"

definition lockSenderDomain :: "string \<Rightarrow> unit io" where
  "lockSenderDomain domain =
     bindE (updateWhere T_dkim_keys (\<lambda>k. dk_domain k = domain) (\<lambda>k. k\<lparr>dk_domain := domain\<rparr>)) (\<lambda>locked.
     if locked = 0 then fail ErrDKIMKeyNotFound else ret ())"

definition enqueueDomainInTx :: "submission \<Rightarrow> send_scope \<Rightarrow> prepared_message \<Rightarrow> message io" where
  "enqueueDomainInTx s scope p =
     bindE (lockSenderDomain (pm_domain p)) (\<lambda>_.
     bindE (enforceLimits scope (int (length (pm_recipients p)))) (\<lambda>_.
     bindE (createMessage s p) (\<lambda>msg.
     bindE (createJob [] (pm_domain p) (me_id msg) p) (\<lambda>_.
     ret msg))))"

definition admit_mailbox :: "submission \<Rightarrow> mailbox \<Rightarrow> int \<Rightarrow> int \<Rightarrow> unit io" where
  "admit_mailbox s mbox count sz =
     bindE (enforceLimits (mailboxScope s mbox) count) (\<lambda>_.
     if OverQuotaWith (Some mbox) sz then fail ErrOverQuota else ret ())"

definition Submit :: "submission \<Rightarrow> string \<Rightarrow> string \<Rightarrow> string \<Rightarrow> string list \<Rightarrow> message io" where
  "Submit s mailboxID from0 raw recipients =
     (case sv_parse s from0 of
        Inl text \<Rightarrow> fail (ErrText text)
      | Inr sender \<Rightarrow>
          bindE (selectOnly T_mailboxes (\<lambda>m. mb_id m = mailboxID \<and> mb_status m = ''active'' \<and> mb_deleted_at m = None)) (\<lambda>mbox.
          bindE (SenderAllowed mbox sender) (\<lambda>allowed.
          if \<not> allowed then fail ErrSenderNotAllowed else
          bindE (prepare s sender (SenderAllowed mbox) raw recipients (admit_mailbox s mbox)) (\<lambda>p.
          bindE (FolderByName mailboxID ''Sent'') (\<lambda>sent.
          bindE (in_tx (enqueueInTx s mbox (fo_id sent) p)) (\<lambda>(msg, a, item).
          bindE (NotifyAttached a item) (\<lambda>_. ret msg)))))))"

definition SubmitForDomain :: "submission \<Rightarrow> string \<Rightarrow> string \<Rightarrow> string \<Rightarrow> string list \<Rightarrow> message io" where
  "SubmitForDomain s domain0 from0 raw recipients =
     (let domain = to_lower (trim_space domain0) in
      case sv_parse s from0 of
        Inl text \<Rightarrow> fail (ErrText text)
      | Inr sender \<Rightarrow>
          if \<not> inDomain sender domain then fail ErrSenderNotAllowed else
          let scope = domainScope s domain in
          bindE (prepare s sender (\<lambda>address. ret (inDomain address domain)) raw recipients (\<lambda>count _. enforceLimits scope count)) (\<lambda>p.
          in_tx (enqueueDomainInTx s scope p)))"

end
