(* ===== verification/Submission_Props.thy ===== *)
theory Submission_Props
  imports Submission Samples
begin

text \<open>
  Submission: what it keeps, the bound on recipients in an hour, and who a submitted message can be from.
\<close>

section \<open>What the steps leave alone\<close>

definition mailbox_limits :: "db \<Rightarrow> (string \<times> (string \<times> int) list) list" where
  "mailbox_limits d = map (\<lambda>m. (mb_id m, mb_outbound_limits m)) (db_mailboxes d)"

definition unsent :: "outbound_job list \<Rightarrow> (string \<times> (string \<times> int) list) list \<Rightarrow> route list \<Rightarrow> time \<Rightarrow> world \<Rightarrow> bool" where
  "unsent J X R t w \<longleftrightarrow> db_jobs (w_db w) = J \<and> mailbox_limits (w_db w) = X \<and> db_routes (w_db w) = R \<and> w_clock w = t"

lemma limits_add_used [simp]:
  "map (\<lambda>m. (mb_id m, mb_outbound_limits m)) (update_where b (add_used n) ms) = map (\<lambda>m. (mb_id m, mb_outbound_limits m)) ms"
  by (rule map_update_where) (simp add: add_used_def)

lemma unsent_reads:
  "preserves (unsent J X R t) (selectAll tb p)" "preserves (unsent J X R t) (selectOnly tb p)" "preserves (unsent J X R t) now"
  "preserves (unsent J X R t) newID" "preserves (unsent J X R t) (publish ch)" "preserves (unsent J X R t) (dkimKeyFor domain)"
  by (simp_all add: preserves_def wp_simps unsent_def dkimKeyFor_def wp_dbcall)

lemma unsent_writes:
  "preserves (unsent J X R t) (insertRow T_messages c m)" "preserves (unsent J X R t) (insertRow T_mms c' r)"
  "preserves (unsent J X R t) (updateOne T_folders p f)" "preserves (unsent J X R t) (updateWhere T_dkim_keys q g)"
  "preserves (unsent J X R t) (updateWhere T_mailboxes b (add_used n))" "preserves (unsent J X R t) (updateOne T_mailboxes b (add_used n))"
  by (auto simp: preserves_def wp_simps unsent_def table_defs mailbox_limits_def split: list.split)

lemma unsent_putBlob: "preserves (unsent J X R t) (putBlob k b)"
  by (simp add: preserves_def wp_def putBlob_eq unsent_def)

lemma unsent_in_tx: "preserves (unsent J X R t) m \<Longrightarrow> preserves (unsent J X R t) (in_tx m)"
proof -
  assume "preserves (unsent J X R t) m"
  then have m: "wp m (\<lambda>_. unsent J X R t) (pop w)" if "unsent J X R t w" for w
    using that by (simp add: preserves_def unsent_def)
  show ?thesis
    unfolding preserves_def wp_in_tx
    by (auto simp: unsent_def intro!: wp_mono [OF m] split: sum.splits)
qed

lemmas unsent_intros = preserves_intros unsent_reads unsent_writes unsent_putBlob

lemma unsent_lift: "preserves (unsent J X R t) (lift_err r)"
  by (cases r) (simp_all add: lift_err_def preserves_ret preserves_fail)

lemma unsent_allowed: "preserves (unsent J X R t) (SenderAllowed mbox a)"
  unfolding SenderAllowed_def Let_def by (intro unsent_intros)

lemma unsent_check:
  assumes "\<And>a. preserves (unsent J X R t) (check a)"
  shows "preserves (unsent J X R t) (checkFromHeader s values check)"
  unfolding checkFromHeader_def check_addresses_def
  by (intro preserves_forE) (auto intro!: unsent_intros assms split: sum.split)

lemma unsent_from_error:
  assumes "\<And>a. preserves (unsent J X R t) (check a)"
  shows "preserves (unsent J X R t) (submitted_from_error s check h)"
  unfolding submitted_from_error_def by (intro unsent_intros unsent_check assms)

lemma unsent_normalize:
  assumes "\<And>a. preserves (unsent J X R t) (check a)"
  shows "preserves (unsent J X R t) (normalizeSubmittedMessage s raw sender check i hostname traceID node)"
proof -
  have "preserves (unsent J X R t) (normalizeSubmittedMessageFallback s raw sender check i hostname traceID node)"
    unfolding normalizeSubmittedMessageFallback_def Let_def by (intro unsent_intros unsent_check assms)
  then show ?thesis
    unfolding normalizeSubmittedMessage_def
    by (intro unsent_intros)
       (auto intro!: unsent_intros unsent_from_error unsent_lift assms split: option.split)
qed

lemma unsent_limits: "preserves (unsent J X R t) (enforceLimits scope n)"
  unfolding enforceLimits_def Let_def under_limit_def recipientsSince_def by (intro unsent_intros)

lemma unsent_prepare:
  assumes "\<And>a. preserves (unsent J X R t) (check a)" and "\<And>n z. preserves (unsent J X R t) (admit n z)"
  shows "preserves (unsent J X R t) (prepare s sender check raw recipients admit)"
  unfolding prepare_def prepare_signed_def Let_def
  by (intro unsent_intros) (auto intro!: unsent_intros unsent_lift unsent_normalize assms split: sum.split)

lemma unsent_attach: "preserves (unsent J X R t) (attachInTx p)"
  unfolding attachInTx_def allocateFolderUID_def addUsedBytes_def by (intro unsent_intros)

lemma unsent_lock: "preserves (unsent J X R t) (LockMailbox i)"
  unfolding LockMailbox_def by (intro unsent_intros)

lemma unsent_message: "preserves (unsent J X R t) (createMessage s p)"
  unfolding createMessage_def by (intro unsent_intros)

lemma unsent_admit: "preserves (unsent J X R t) (admit_mailbox s mbox n z)"
  unfolding admit_mailbox_def by (intro unsent_intros unsent_limits)

section \<open>Recipients in an hour\<close>

definition recipients_of :: "outbound_job list \<Rightarrow> int" where
  "recipients_of J = sum_list (map (\<lambda>j. int (length (oj_recipients j))) J)"

text \<open>The recipients of a sender, the jobs \<open>mine\<close>, in the hour from \<open>a\<close>.\<close>

definition sent_in_hour :: "(outbound_job \<Rightarrow> bool) \<Rightarrow> time \<Rightarrow> outbound_job list \<Rightarrow> int" where
  "sent_in_hour mine a J = recipients_of (filter (\<lambda>j. mine j \<and> a \<le> oj_created_at j \<and> oj_created_at j \<le> a + hour) J)"

lemma recipients_of_mono: "(\<And>j. j \<in> set J \<Longrightarrow> p j \<Longrightarrow> q j) \<Longrightarrow> recipients_of (filter p J) \<le> recipients_of (filter q J)"
  by (induction J) (auto simp: recipients_of_def)

lemma limits_bound:
  assumes "unsent J X R t w"
  shows "wp (enforceLimits scope n) (\<lambda>r w'. unsent J X R t w' \<and> (case r of Inl _ \<Rightarrow> True
     | Inr _ \<Rightarrow> 0 < li_per_hour (ss_limits scope)
         \<longrightarrow> recipients_of (filter (\<lambda>j. ss_jobs scope j \<and> t - hour \<le> oj_created_at j) J) + n \<le> li_per_hour (ss_limits scope))) w"
  using assms
  by (auto simp: enforceLimits_def Let_def under_limit_def recipientsSince_def wp_simps table_defs unsent_def recipients_of_def split: sum.split)

lemma unsent_apply: "preserves (unsent J X R t) m \<Longrightarrow> unsent J X R t w \<Longrightarrow> wp m (\<lambda>_. unsent J X R t) w"
  by (simp add: preserves_def)

lemma wp_preserved:
  assumes "preserves (unsent J X R t) m" and "unsent J X R t w"
    and "\<And>x w'. unsent J X R t w' \<Longrightarrow> wp (f x) Q w'" and "\<And>e w'. unsent J X R t w' \<Longrightarrow> Q (Inl e) w'"
  shows "wp (bindE m f) Q w"
  unfolding wp_bindE by (rule wp_mono [OF unsent_apply [OF assms(1,2)]]) (use assms(3,4) in \<open>auto split: sum.split\<close>)

lemma wp_limited:
  assumes "unsent J X R t w"
    and "\<And>w'. unsent J X R t w' \<Longrightarrow> 0 < li_per_hour (ss_limits scope)
         \<longrightarrow> recipients_of (filter (\<lambda>j. ss_jobs scope j \<and> t - hour \<le> oj_created_at j) J) + n \<le> li_per_hour (ss_limits scope) \<Longrightarrow> wp m Q w'"
    and "\<And>e w'. unsent J X R t w' \<Longrightarrow> Q (Inl e) w'"
  shows "wp (bindE (enforceLimits scope n) (\<lambda>_. m)) Q w"
  unfolding wp_bindE by (rule wp_mono [OF limits_bound [OF assms(1)]]) (use assms(2,3) in \<open>auto split: sum.splits\<close>)

text \<open>What a job transaction has done: nothing, or it has added one job within the limit.\<close>

definition job_added :: "limits \<Rightarrow> (outbound_job \<Rightarrow> bool) \<Rightarrow> (outbound_job \<Rightarrow> bool) \<Rightarrow> outbound_job list \<Rightarrow> time \<Rightarrow> outbound_job list \<Rightarrow> bool" where
  "job_added l mine new J t J' \<longleftrightarrow> (\<exists>j. J' = J @ [j] \<and> new j \<and> oj_created_at j = t \<and>
     (0 < li_per_hour l \<longrightarrow> recipients_of (filter (\<lambda>j. mine j \<and> t - hour \<le> oj_created_at j) J) + int (length (oj_recipients j)) \<le> li_per_hour l))"

lemma createJob_adds:
  assumes "unsent J X R t w"
    and "0 < li_per_hour l \<longrightarrow> recipients_of (filter (\<lambda>j. mine j \<and> t - hour \<le> oj_created_at j) J) + int (length (pm_recipients p)) \<le> li_per_hour l"
  shows "wp (createJob i d m p) (\<lambda>r w'. (case r of Inl _ \<Rightarrow> unsent J X R t w'
     | Inr _ \<Rightarrow> job_added l mine (\<lambda>j. oj_mailbox_id j = i \<and> oj_sender_domain j = d \<and> oj_message_id j = m \<and> oj_recipients j = pm_recipients p) J t (db_jobs (w_db w'))
         \<and> unsent (db_jobs (w_db w')) X R t w')) w"
  using assms
  by (auto simp: createJob_def wp_simps table_defs unsent_def job_added_def mailbox_limits_def)

lemma enqueue_adds:
  assumes w: "unsent J X R t w"
  shows "wp (enqueueInTx s mbox sent p) (\<lambda>r w'. case r of Inl _ \<Rightarrow> w_clock w' = t
     | Inr _ \<Rightarrow> job_added (limitsFor s mbox) (\<lambda>j. oj_mailbox_id j = mb_id mbox) (\<lambda>j. oj_mailbox_id j = mb_id mbox \<and> oj_sender_domain j = []) J t (db_jobs (w_db w'))
         \<and> unsent (db_jobs (w_db w')) X R t w') w"
  unfolding enqueueInTx_def
proof (rule wp_preserved [OF unsent_lock w])
  fix w1 :: world
  assume w1: "unsent J X R t w1"
  show "wp (bindE (enforceLimits (mailboxScope s mbox) (int (length (pm_recipients p)))) (\<lambda>_. bindE (createMessage s p) (\<lambda>msg.
      bindE (attachInTx (sent_attach mbox sent msg p)) (\<lambda>item. bindE (createJob (mb_id mbox) [] (me_id msg) p) (\<lambda>_.
      ret (msg, sent_attach mbox sent msg p, item))))))
    (\<lambda>r w'. case r of Inl _ \<Rightarrow> w_clock w' = t
     | Inr _ \<Rightarrow> job_added (limitsFor s mbox) (\<lambda>j. oj_mailbox_id j = mb_id mbox) (\<lambda>j. oj_mailbox_id j = mb_id mbox \<and> oj_sender_domain j = []) J t (db_jobs (w_db w'))
         \<and> unsent (db_jobs (w_db w')) X R t w') w1"
  proof (rule wp_limited [OF w1])
    fix w2 :: world
    assume w2: "unsent J X R t w2"
      and b: "0 < li_per_hour (ss_limits (mailboxScope s mbox)) \<longrightarrow> recipients_of (filter (\<lambda>j. ss_jobs (mailboxScope s mbox) j \<and> t - hour \<le> oj_created_at j) J)
        + int (length (pm_recipients p)) \<le> li_per_hour (ss_limits (mailboxScope s mbox))"
    show "wp (bindE (createMessage s p) (\<lambda>msg. bindE (attachInTx (sent_attach mbox sent msg p)) (\<lambda>item.
        bindE (createJob (mb_id mbox) [] (me_id msg) p) (\<lambda>_. ret (msg, sent_attach mbox sent msg p, item)))))
      (\<lambda>r w'. case r of Inl _ \<Rightarrow> w_clock w' = t
       | Inr _ \<Rightarrow> job_added (limitsFor s mbox) (\<lambda>j. oj_mailbox_id j = mb_id mbox) (\<lambda>j. oj_mailbox_id j = mb_id mbox \<and> oj_sender_domain j = []) J t (db_jobs (w_db w'))
           \<and> unsent (db_jobs (w_db w')) X R t w') w2"
    proof (rule wp_preserved [OF unsent_message w2], rule wp_preserved [OF unsent_attach], assumption)
      fix msg :: message and item :: mailbox_message and w3 :: world
      assume w3: "unsent J X R t w3"
      have "wp (createJob (mb_id mbox) [] (me_id msg) p) (\<lambda>r w'. (case r of Inl _ \<Rightarrow> unsent J X R t w'
         | Inr _ \<Rightarrow> job_added (limitsFor s mbox) (\<lambda>j. oj_mailbox_id j = mb_id mbox)
               (\<lambda>j. oj_mailbox_id j = mb_id mbox \<and> oj_sender_domain j = [] \<and> oj_message_id j = me_id msg \<and> oj_recipients j = pm_recipients p) J t (db_jobs (w_db w'))
             \<and> unsent (db_jobs (w_db w')) X R t w')) w3"
        by (rule createJob_adds [OF w3]) (use b in \<open>simp add: mailboxScope_def\<close>)
      then show "wp (bindE (createJob (mb_id mbox) [] (me_id msg) p) (\<lambda>_. ret (msg, sent_attach mbox sent msg p, item)))
        (\<lambda>r w'. case r of Inl _ \<Rightarrow> w_clock w' = t
         | Inr _ \<Rightarrow> job_added (limitsFor s mbox) (\<lambda>j. oj_mailbox_id j = mb_id mbox) (\<lambda>j. oj_mailbox_id j = mb_id mbox \<and> oj_sender_domain j = []) J t (db_jobs (w_db w'))
             \<and> unsent (db_jobs (w_db w')) X R t w') w3"
        unfolding wp_bindE wp_ret by (rule wp_mono) (auto simp: job_added_def unsent_def split: sum.splits)
    qed (simp_all add: unsent_def)
  qed (simp_all add: unsent_def)
qed (simp_all add: unsent_def)

lemma enqueue_domain_adds:
  assumes w: "unsent J X R t w"
  shows "wp (enqueueDomainInTx s scope p) (\<lambda>r w'. case r of Inl _ \<Rightarrow> w_clock w' = t
     | Inr _ \<Rightarrow> job_added (ss_limits scope) (ss_jobs scope) (\<lambda>j. oj_mailbox_id j = [] \<and> oj_sender_domain j = pm_domain p) J t (db_jobs (w_db w'))
         \<and> unsent (db_jobs (w_db w')) X R t w') w"
proof -
  have lock: "preserves (unsent J X R t) (lockSenderDomain d)" for d
    unfolding lockSenderDomain_def by (intro unsent_intros)
  show ?thesis
    unfolding enqueueDomainInTx_def
  proof (rule wp_preserved [OF lock w])
    fix w1 :: world
    assume w1: "unsent J X R t w1"
    show "wp (bindE (enforceLimits scope (int (length (pm_recipients p)))) (\<lambda>_. bindE (createMessage s p) (\<lambda>msg.
        bindE (createJob [] (pm_domain p) (me_id msg) p) (\<lambda>_. ret msg))))
      (\<lambda>r w'. case r of Inl _ \<Rightarrow> w_clock w' = t
       | Inr _ \<Rightarrow> job_added (ss_limits scope) (ss_jobs scope) (\<lambda>j. oj_mailbox_id j = [] \<and> oj_sender_domain j = pm_domain p) J t (db_jobs (w_db w'))
           \<and> unsent (db_jobs (w_db w')) X R t w') w1"
    proof (rule wp_limited [OF w1])
      fix w2 :: world
      assume w2: "unsent J X R t w2"
        and b: "0 < li_per_hour (ss_limits scope) \<longrightarrow> recipients_of (filter (\<lambda>j. ss_jobs scope j \<and> t - hour \<le> oj_created_at j) J)
          + int (length (pm_recipients p)) \<le> li_per_hour (ss_limits scope)"
      show "wp (bindE (createMessage s p) (\<lambda>msg. bindE (createJob [] (pm_domain p) (me_id msg) p) (\<lambda>_. ret msg)))
        (\<lambda>r w'. case r of Inl _ \<Rightarrow> w_clock w' = t
         | Inr _ \<Rightarrow> job_added (ss_limits scope) (ss_jobs scope) (\<lambda>j. oj_mailbox_id j = [] \<and> oj_sender_domain j = pm_domain p) J t (db_jobs (w_db w'))
             \<and> unsent (db_jobs (w_db w')) X R t w') w2"
      proof (rule wp_preserved [OF unsent_message w2])
        fix msg :: message and w3 :: world
        assume w3: "unsent J X R t w3"
        show "wp (bindE (createJob [] (pm_domain p) (me_id msg) p) (\<lambda>_. ret msg))
          (\<lambda>r w'. case r of Inl _ \<Rightarrow> w_clock w' = t
           | Inr _ \<Rightarrow> job_added (ss_limits scope) (ss_jobs scope) (\<lambda>j. oj_mailbox_id j = [] \<and> oj_sender_domain j = pm_domain p) J t (db_jobs (w_db w'))
               \<and> unsent (db_jobs (w_db w')) X R t w') w3"
          unfolding wp_bindE wp_ret
          by (rule wp_mono [OF createJob_adds [OF w3 b]]) (auto simp: job_added_def unsent_def split: sum.splits)
      qed (simp_all add: unsent_def)
    qed (simp_all add: unsent_def)
  qed (simp_all add: unsent_def)
qed

section \<open>A submission as one step\<close>

lemma prepare_domain:
  assumes "unsent J X R t w" and "\<And>a. preserves (unsent J X R t) (check a)" and "\<And>n z. preserves (unsent J X R t) (admit n z)"
  shows "wp (prepare s sender check raw recipients admit) (\<lambda>r w'. unsent J X R t w' \<and> (case r of Inl _ \<Rightarrow> True | Inr p \<Rightarrow> pm_domain p = sender_domain sender)) w"
proof -
  have u: "wp (prepare s sender check raw recipients admit) (\<lambda>_. unsent J X R t) w"
    by (rule unsent_apply [OF unsent_prepare assms(1)]) (use assms(2,3) in auto)
  have "wp (prepare s sender check raw recipients admit) (\<lambda>r w'. case r of Inl _ \<Rightarrow> True | Inr p \<Rightarrow> pm_domain p = sender_domain sender) w"
  proof (rule wpI)
    fix r w'
    assume "prepare s sender check raw recipients admit w = (r, w')"
    then show "case r of Inl _ \<Rightarrow> True | Inr p \<Rightarrow> pm_domain p = sender_domain sender"
      unfolding prepare_def prepare_signed_def Let_def
      by (auto elim!: bindE_ok simp: ret_def fail_def split: sum.splits)
  qed
  with u show ?thesis by (simp add: wp_conj)
qed

definition tx_effect :: "limits \<Rightarrow> (outbound_job \<Rightarrow> bool) \<Rightarrow> (outbound_job \<Rightarrow> bool) \<Rightarrow> outbound_job list \<Rightarrow> (string \<times> (string \<times> int) list) list \<Rightarrow> route list \<Rightarrow> time \<Rightarrow> world \<Rightarrow> bool" where
  "tx_effect l mine new J X R t w \<longleftrightarrow> unsent (db_jobs (w_db w)) X R t w \<and> (db_jobs (w_db w) = J \<or> job_added l mine new J t (db_jobs (w_db w)))"

lemma unsent_tx: "unsent J X R t w \<Longrightarrow> tx_effect l mine new J X R t w"
  by (auto simp: tx_effect_def unsent_def)

lemma tx_adds:
  assumes w: "unsent J X R t w"
    and body: "\<And>w1. unsent J X R t w1 \<Longrightarrow> wp body (\<lambda>r w'. case r of Inl _ \<Rightarrow> w_clock w' = t
      | Inr _ \<Rightarrow> job_added l mine new J t (db_jobs (w_db w')) \<and> unsent (db_jobs (w_db w')) X R t w') w1"
  shows "wp (in_tx body) (\<lambda>_. tx_effect l mine new J X R t) w"
proof -
  have p: "unsent J X R t (pop w)" using w by (simp add: unsent_def)
  show ?thesis
    unfolding wp_in_tx using w p
    by (auto simp: unsent_def tx_effect_def split: sum.splits intro!: wp_mono [OF body [OF p]])
qed

lemma tx_effect_publish: "tx_effect l mine new J X R t w \<Longrightarrow> wp (publish ch) (\<lambda>_. tx_effect l mine new J X R t) w"
  by (simp add: wp_simps tx_effect_def unsent_def)

text \<open>The mailbox a submission is for, as the table has it.\<close>

definition submitter :: "string \<Rightarrow> (string \<times> (string \<times> int) list) list \<Rightarrow> mailbox \<Rightarrow> bool" where
  "submitter i X m \<longleftrightarrow> mb_id m = i \<and> (i, mb_outbound_limits m) \<in> set X"

lemma submit_effect:
  assumes w: "unsent J X R t w"
  shows "wp (Submit s i sender raw recipients) (\<lambda>_ w'. unsent (db_jobs (w_db w')) X R t w' \<and> (db_jobs (w_db w') = J
     \<or> (\<exists>m. submitter i X m \<and> job_added (limitsFor s m) (\<lambda>j. oj_mailbox_id j = i) (\<lambda>j. oj_mailbox_id j = i \<and> oj_sender_domain j = []) J t (db_jobs (w_db w'))))) w"
    (is "wp _ ?Q w")
proof (cases "sv_parse s sender")
  case (Inl reason)
  then show ?thesis using w by (simp add: Submit_def wp_simps unsent_def)
next
  case (Inr address)
  have keep: "?Q r w'" if "unsent J X R t w'" for r w' using that by (simp add: unsent_def)
  show ?thesis
    unfolding Submit_def Inr sum.case wp_bindE [of "selectOnly _ _"]
  proof (rule wp_mono [of _ "\<lambda>r w'. unsent J X R t w' \<and> (case r of Inl _ \<Rightarrow> True | Inr m \<Rightarrow> submitter i X m)"])
    show "wp (selectOnly T_mailboxes (\<lambda>m. mb_id m = i \<and> mb_status m = ''active'' \<and> mb_deleted_at m = None))
      (\<lambda>r w'. unsent J X R t w' \<and> (case r of Inl _ \<Rightarrow> True | Inr m \<Rightarrow> submitter i X m)) w"
    proof (cases "only (filter (\<lambda>m. mb_id m = i \<and> mb_status m = ''active'' \<and> mb_deleted_at m = None) (db_mailboxes (w_db w)))")
      case (Inl e)
      then show ?thesis using w by (simp add: wp_simps table_defs unsent_def)
    next
      case (Inr m)
      then have "m \<in> set (db_mailboxes (w_db w))" "mb_id m = i" by (auto dest!: only_filter)
      then have "submitter i X m" using w by (force simp: submitter_def unsent_def mailbox_limits_def)
      then show ?thesis using w Inr by (simp add: wp_simps table_defs unsent_def)
    qed
    fix r :: "err + mailbox" and w1 :: world
    assume a: "unsent J X R t w1 \<and> (case r of Inl _ \<Rightarrow> True | Inr m \<Rightarrow> submitter i X m)"
    show "case r of Inl e \<Rightarrow> ?Q (Inl e) w1
      | Inr mbox \<Rightarrow> wp (bindE (SenderAllowed mbox address) (\<lambda>allowed. if \<not> allowed then fail ErrSenderNotAllowed else
          bindE (prepare s address (SenderAllowed mbox) raw recipients (admit_mailbox s mbox)) (\<lambda>p.
          bindE (FolderByName i ''Sent'') (\<lambda>sent.
          bindE (in_tx (enqueueInTx s mbox (fo_id sent) p)) (\<lambda>(msg, a, item).
          bindE (NotifyAttached a item) (\<lambda>_. ret msg)))))) ?Q w1"
    proof (cases r)
      case (Inl e)
      with a keep show ?thesis by simp
    next
      case (Inr mbox)
      with a have m: "submitter i X mbox" and w1: "unsent J X R t w1" by simp_all
      have i: "mb_id mbox = i" using m by (simp add: submitter_def)
      let ?E = "tx_effect (limitsFor s mbox) (\<lambda>j. oj_mailbox_id j = i) (\<lambda>j. oj_mailbox_id j = i \<and> oj_sender_domain j = []) J X R t"
      have E: "?Q r w'" if "?E w'" for r w' using that m unfolding tx_effect_def by blast
      have notify: "wp (bindE (NotifyAttached a item) (\<lambda>_. ret msg)) ?Q w'" if "?E w'" for a item msg w'
        unfolding NotifyAttached_def wp_bindE wp_ret by (rule wp_mono [OF tx_effect_publish [OF that]]) (use E in \<open>auto split: sum.split\<close>)
      have tx: "wp (bindE (in_tx (enqueueInTx s mbox f p)) (\<lambda>(msg, a, item). bindE (NotifyAttached a item) (\<lambda>_. ret msg))) ?Q w'"
        if "unsent J X R t w'" for f p w'
        unfolding wp_bindE [of "in_tx _"]
        by (rule wp_mono [OF tx_adds [OF that enqueue_adds [of J X R t _ s mbox f p, unfolded i]]])
           (use E notify in \<open>auto split: sum.split prod.split\<close>)
      show ?thesis
        unfolding Inr sum.case
      proof (rule wp_preserved [OF unsent_allowed w1])
        fix allowed and w2 :: world
        assume w2: "unsent J X R t w2"
        have "wp (bindE (prepare s address (SenderAllowed mbox) raw recipients (admit_mailbox s mbox)) (\<lambda>p.
            bindE (FolderByName i ''Sent'') (\<lambda>sent. bindE (in_tx (enqueueInTx s mbox (fo_id sent) p)) (\<lambda>(msg, a, item).
            bindE (NotifyAttached a item) (\<lambda>_. ret msg))))) ?Q w2"
        proof (rule wp_preserved [OF unsent_prepare w2])
          fix p and w3 :: world
          assume "unsent J X R t w3"
          then show "wp (bindE (FolderByName i ''Sent'') (\<lambda>sent. bindE (in_tx (enqueueInTx s mbox (fo_id sent) p)) (\<lambda>(msg, a, item).
            bindE (NotifyAttached a item) (\<lambda>_. ret msg)))) ?Q w3"
            unfolding FolderByName_def by (rule wp_preserved [OF unsent_reads(2)]) (use tx keep in auto)
        qed (use unsent_allowed unsent_admit keep in auto)
        then show "wp (if \<not> allowed then fail ErrSenderNotAllowed else
            bindE (prepare s address (SenderAllowed mbox) raw recipients (admit_mailbox s mbox)) (\<lambda>p.
            bindE (FolderByName i ''Sent'') (\<lambda>sent. bindE (in_tx (enqueueInTx s mbox (fo_id sent) p)) (\<lambda>(msg, a, item).
            bindE (NotifyAttached a item) (\<lambda>_. ret msg))))) ?Q w2"
          using keep [OF w2] by (simp add: wp_fail)
      qed (use keep in blast)
    qed
  qed
qed

lemma submit_domain_effect:
  assumes w: "unsent J X R t w"
  shows "wp (SubmitForDomain s d sender raw recipients) (\<lambda>_ w'. unsent (db_jobs (w_db w')) X R t w' \<and> (db_jobs (w_db w') = J
     \<or> (\<exists>e. e \<noteq> [] \<and> job_added (sv_domain_defaults s) (\<lambda>j. oj_sender_domain j = e) (\<lambda>j. oj_mailbox_id j = [] \<and> oj_sender_domain j = e) J t (db_jobs (w_db w'))))) w"
    (is "wp _ ?Q w")
proof -
  let ?d = "to_lower (trim_space d)"
  have keep: "?Q r w'" if "unsent J X R t w'" for r w' using that by (simp add: unsent_def)
  show ?thesis
  proof (cases "sv_parse s sender")
    case (Inl reason)
    then show ?thesis using keep [OF w] by (simp add: SubmitForDomain_def Let_def wp_fail)
  next
    case (Inr address)
    show ?thesis
    proof (cases "inDomain address ?d")
      case False
      then show ?thesis using keep [OF w] Inr by (simp add: SubmitForDomain_def Let_def wp_fail)
    next
      case True
      then have dom: "sender_domain address = ?d" "?d \<noteq> []" by (simp_all add: inDomain_def)
      have "wp (bindE (prepare s address (\<lambda>a. ret (inDomain a ?d)) raw recipients (\<lambda>count _. enforceLimits (domainScope s ?d) count))
          (\<lambda>p. in_tx (enqueueDomainInTx s (domainScope s ?d) p))) ?Q w"
        unfolding wp_bindE [of "prepare _ _ _ _ _ _"]
      proof (rule wp_mono [OF prepare_domain [OF w preserves_ret unsent_limits]])
        fix r :: "err + prepared_message" and w1 :: world
        assume a: "unsent J X R t w1 \<and> (case r of Inl _ \<Rightarrow> True | Inr p \<Rightarrow> pm_domain p = sender_domain address)"
        show "case r of Inl e \<Rightarrow> ?Q (Inl e) w1 | Inr p \<Rightarrow> wp (in_tx (enqueueDomainInTx s (domainScope s ?d) p)) ?Q w1"
        proof (cases r)
          case (Inl e)
          with a keep show ?thesis by simp
        next
          case (Inr p)
          with a dom have w1: "unsent J X R t w1" and p: "pm_domain p = ?d" by simp_all
          have E: "?Q x w'" if "tx_effect (ss_limits (domainScope s ?d)) (ss_jobs (domainScope s ?d))
              (\<lambda>j. oj_mailbox_id j = [] \<and> oj_sender_domain j = ?d) J X R t w'" for x w'
            using that dom(2) unfolding tx_effect_def domainScope_def send_scope.simps by blast
          show ?thesis
            unfolding Inr sum.case
            by (rule wp_mono [OF tx_adds [OF w1 enqueue_domain_adds [of J X R t _ s "domainScope s ?d" p, unfolded p]]])
               (assumption | erule E)+
        qed
      qed
      with True Inr show ?thesis by (simp add: SubmitForDomain_def Let_def)
    qed
  qed
qed

section \<open>Runs\<close>

definition hourly_limit :: "submission \<Rightarrow> (string \<times> int) list \<Rightarrow> int" where
  "hourly_limit s overrides = override overrides ''per_hour'' (li_per_hour (sv_defaults s))"

lemma hourly_limit [simp]: "li_per_hour (limitsFor s m) = hourly_limit s (mb_outbound_limits m)"
  by (simp add: limitsFor_def hourly_limit_def Let_def)

text \<open>The parts of a job the limits look at.\<close>

definition job_view :: "outbound_job \<Rightarrow> string \<times> string \<times> time \<times> nat" where
  "job_view j = (oj_mailbox_id j, oj_sender_domain j, oj_created_at j, length (oj_recipients j))"

text \<open>
  A run of submissions, by mailboxes and by domains.  Between them the relay changes other columns of the jobs, old jobs are
  deleted, mailboxes come and go, and time passes; the limits of a mailbox that has jobs stay.
\<close>

inductive send_run :: "submission \<Rightarrow> world \<Rightarrow> bool" for s :: submission where
  start: "db_jobs (w_db w) = [] \<Longrightarrow> distinct (map fst (mailbox_limits (w_db w))) \<Longrightarrow> send_run s w"
| mailbox: "send_run s w \<Longrightarrow> i \<noteq> [] \<Longrightarrow> Submit s i sender raw recipients w = (r, w') \<Longrightarrow> send_run s w'"
| domain: "send_run s w \<Longrightarrow> SubmitForDomain s d sender raw recipients w = (r', w') \<Longrightarrow> send_run s w'"
| other: "send_run s w \<Longrightarrow> w_clock w \<le> w_clock w' \<Longrightarrow> subseq (map job_view (db_jobs (w_db w'))) (map job_view (db_jobs (w_db w)))
    \<Longrightarrow> distinct (map fst (mailbox_limits (w_db w')))
    \<Longrightarrow> \<forall>x \<in> set (mailbox_limits (w_db w')). x \<in> set (mailbox_limits (w_db w)) \<or> (\<forall>j \<in> set (db_jobs (w_db w)). oj_mailbox_id j \<noteq> fst x)
    \<Longrightarrow> send_run s w'"

definition rates_kept :: "submission \<Rightarrow> outbound_job list \<Rightarrow> (string \<times> (string \<times> int) list) list \<Rightarrow> bool" where
  "rates_kept s J X \<longleftrightarrow>
     (\<forall>(i, l) \<in> set X. i \<noteq> [] \<longrightarrow> 0 < hourly_limit s l \<longrightarrow> (\<forall>a. sent_in_hour (\<lambda>j. oj_mailbox_id j = i) a J \<le> hourly_limit s l))
   \<and> (\<forall>d. d \<noteq> [] \<longrightarrow> 0 < li_per_hour (sv_domain_defaults s)
         \<longrightarrow> (\<forall>a. sent_in_hour (\<lambda>j. oj_sender_domain j = d) a J \<le> li_per_hour (sv_domain_defaults s)))"

lemma rates_keptI:
  assumes "\<And>i l a. (i, l) \<in> set X \<Longrightarrow> i \<noteq> [] \<Longrightarrow> 0 < hourly_limit s l \<Longrightarrow> sent_in_hour (\<lambda>j. oj_mailbox_id j = i) a J \<le> hourly_limit s l"
    and "\<And>d a. d \<noteq> [] \<Longrightarrow> 0 < li_per_hour (sv_domain_defaults s) \<Longrightarrow> sent_in_hour (\<lambda>j. oj_sender_domain j = d) a J \<le> li_per_hour (sv_domain_defaults s)"
  shows "rates_kept s J X"
  using assms unfolding rates_kept_def by fast

lemma rates_keptD:
  assumes "rates_kept s J X"
  shows "(i, l) \<in> set X \<Longrightarrow> i \<noteq> [] \<Longrightarrow> 0 < hourly_limit s l \<Longrightarrow> sent_in_hour (\<lambda>j. oj_mailbox_id j = i) a J \<le> hourly_limit s l"
    and "d \<noteq> [] \<Longrightarrow> 0 < li_per_hour (sv_domain_defaults s) \<Longrightarrow> sent_in_hour (\<lambda>j. oj_sender_domain j = d) a J \<le> li_per_hour (sv_domain_defaults s)"
  using assms unfolding rates_kept_def by fast+

lemma sent_in_hour_mono:
  assumes "subseq (map job_view J') (map job_view J)" and "\<And>j. mine j = p (job_view j)"
  shows "sent_in_hour mine a J' \<le> sent_in_hour mine a J"
proof -
  let ?f = "\<lambda>v. case v of (i, d, c, n) \<Rightarrow> if p v \<and> a \<le> c \<and> c \<le> a + hour then int n else 0"
  have e: "sent_in_hour mine a K = sum_list (map ?f (map job_view K))" for K
    by (induction K) (auto simp: sent_in_hour_def recipients_of_def assms(2) job_view_def)
  have "sum_list (map ?f xs) \<le> sum_list (map ?f ys)" if "subseq xs ys" for xs ys
    using that by (induction rule: list_emb.induct) (auto intro!: sum_list_nonneg split: prod.splits)
  with assms(1) show ?thesis unfolding e by blast
qed

lemma added_within:
  assumes "job_added l mine new J t J'" and "\<forall>j \<in> set J. oj_created_at j \<le> t" and "0 < li_per_hour l"
    and "\<And>a. sent_in_hour mine a J \<le> li_per_hour l"
  shows "sent_in_hour mine a J' \<le> li_per_hour l"
proof -
  from assms(1,3) obtain j where j: "J' = J @ [j]" "oj_created_at j = t"
    "recipients_of (filter (\<lambda>j. mine j \<and> t - hour \<le> oj_created_at j) J) + int (length (oj_recipients j)) \<le> li_per_hour l"
    by (auto simp: job_added_def)
  show ?thesis
  proof (cases "mine j \<and> a \<le> t \<and> t \<le> a + hour")
    case True
    have "sent_in_hour mine a J \<le> recipients_of (filter (\<lambda>j. mine j \<and> t - hour \<le> oj_created_at j) J)"
      unfolding sent_in_hour_def by (rule recipients_of_mono) (use True in auto)
    with j True show ?thesis by (simp add: sent_in_hour_def recipients_of_def)
  next
    case False
    with j assms(4) show ?thesis by (auto simp: sent_in_hour_def recipients_of_def)
  qed
qed

lemma added_elsewhere:
  assumes "job_added l mine new J t J'" and "\<And>j. new j \<Longrightarrow> \<not> other j"
  shows "sent_in_hour other a J' = sent_in_hour other a J"
  using assms by (auto simp: job_added_def sent_in_hour_def recipients_of_def)

definition run_kept :: "submission \<Rightarrow> world \<Rightarrow> bool" where
  "run_kept s w \<longleftrightarrow> rates_kept s (db_jobs (w_db w)) (mailbox_limits (w_db w)) \<and> distinct (map fst (mailbox_limits (w_db w)))
     \<and> (\<forall>j \<in> set (db_jobs (w_db w)). oj_created_at j \<le> w_clock w)"

lemma run_kept_step:
  assumes k: "run_kept s w" and u: "unsent (db_jobs (w_db w')) (mailbox_limits (w_db w)) (db_routes (w_db w)) (w_clock w) w'"
    and a: "db_jobs (w_db w') = db_jobs (w_db w) \<or>
      (\<exists>m. submitter i (mailbox_limits (w_db w)) m \<and> i \<noteq> [] \<and> job_added (limitsFor s m) (\<lambda>j. oj_mailbox_id j = i)
         (\<lambda>j. oj_mailbox_id j = i \<and> oj_sender_domain j = []) (db_jobs (w_db w)) (w_clock w) (db_jobs (w_db w'))) \<or>
      (\<exists>e. e \<noteq> [] \<and> job_added (sv_domain_defaults s) (\<lambda>j. oj_sender_domain j = e) (\<lambda>j. oj_mailbox_id j = [] \<and> oj_sender_domain j = e)
         (db_jobs (w_db w)) (w_clock w) (db_jobs (w_db w')))"
  shows "run_kept s w'"
proof -
  let ?J = "db_jobs (w_db w)" and ?X = "mailbox_limits (w_db w)"
  have r: "rates_kept s ?J ?X" "distinct (map fst ?X)" "\<forall>j \<in> set ?J. oj_created_at j \<le> w_clock w" using k by (simp_all add: run_kept_def)
  have c: "\<forall>j \<in> set (db_jobs (w_db w')). oj_created_at j \<le> w_clock w" using a r(3) by (auto simp: job_added_def)
  have "rates_kept s (db_jobs (w_db w')) ?X"
    using a
  proof (elim disjE exE conjE)
    assume "db_jobs (w_db w') = ?J"
    with r(1) show ?thesis by simp
  next
    fix m
    assume m: "submitter i ?X m" and i: "i \<noteq> []"
      and j: "job_added (limitsFor s m) (\<lambda>j. oj_mailbox_id j = i) (\<lambda>j. oj_mailbox_id j = i \<and> oj_sender_domain j = []) ?J (w_clock w) (db_jobs (w_db w'))"
    have own: "sent_in_hour (\<lambda>j. oj_mailbox_id j = i) b (db_jobs (w_db w')) \<le> hourly_limit s l" if "(i, l) \<in> set ?X" "0 < hourly_limit s l" for l b
    proof -
      have "l = mb_outbound_limits m" using m that(1) eq_key_imp_eq_value [OF r(2)] by (auto simp: submitter_def)
      then have h: "li_per_hour (limitsFor s m) = hourly_limit s l" by simp
      show ?thesis
        using added_within [OF j r(3), unfolded h, OF that(2)] rates_keptD(1) [OF r(1) that(1) i that(2)] by blast
    qed
    have box: "sent_in_hour (\<lambda>j. oj_mailbox_id j = k) b (db_jobs (w_db w')) = sent_in_hour (\<lambda>j. oj_mailbox_id j = k) b ?J" if "k \<noteq> i" for k b
      using that by (intro added_elsewhere [OF j]) auto
    have dom: "sent_in_hour (\<lambda>j. oj_sender_domain j = d) b (db_jobs (w_db w')) = sent_in_hour (\<lambda>j. oj_sender_domain j = d) b ?J" if "d \<noteq> []" for d b
      using that by (intro added_elsewhere [OF j]) auto
    show ?thesis
    proof (rule rates_keptI)
      fix k :: string and l b
      assume x: "(k, l) \<in> set ?X" "k \<noteq> []" "0 < hourly_limit s l"
      show "sent_in_hour (\<lambda>j. oj_mailbox_id j = k) b (db_jobs (w_db w')) \<le> hourly_limit s l"
      proof (cases "k = i")
        case True
        with own x show ?thesis by blast
      next
        case False
        with box rates_keptD(1) [OF r(1) x] show ?thesis by simp
      qed
    qed (use dom rates_keptD(2) [OF r(1)] in simp)
  next
    fix e
    assume e: "e \<noteq> []" and j: "job_added (sv_domain_defaults s) (\<lambda>j. oj_sender_domain j = e)
      (\<lambda>j. oj_mailbox_id j = [] \<and> oj_sender_domain j = e) ?J (w_clock w) (db_jobs (w_db w'))"
    have own: "sent_in_hour (\<lambda>j. oj_sender_domain j = e) b (db_jobs (w_db w')) \<le> li_per_hour (sv_domain_defaults s)"
      if "0 < li_per_hour (sv_domain_defaults s)" for b
      using added_within [OF j r(3) that] rates_keptD(2) [OF r(1) e that] by blast
    have box: "sent_in_hour (\<lambda>j. oj_mailbox_id j = k) b (db_jobs (w_db w')) = sent_in_hour (\<lambda>j. oj_mailbox_id j = k) b ?J" if "k \<noteq> []" for k b
      using that by (intro added_elsewhere [OF j]) auto
    have dom: "sent_in_hour (\<lambda>j. oj_sender_domain j = d) b (db_jobs (w_db w')) = sent_in_hour (\<lambda>j. oj_sender_domain j = d) b ?J" if "d \<noteq> e" for d b
      using that by (intro added_elsewhere [OF j]) auto
    show ?thesis
    proof (rule rates_keptI)
      fix d :: string and b
      assume x: "d \<noteq> []" "0 < li_per_hour (sv_domain_defaults s)"
      show "sent_in_hour (\<lambda>j. oj_sender_domain j = d) b (db_jobs (w_db w')) \<le> li_per_hour (sv_domain_defaults s)"
      proof (cases "d = e")
        case True
        with own x show ?thesis by blast
      next
        case False
        with dom rates_keptD(2) [OF r(1) x] show ?thesis by simp
      qed
    qed (use box rates_keptD(1) [OF r(1)] in simp)
  qed
  with u c r(2) show ?thesis by (simp add: run_kept_def unsent_def)
qed

lemma subseq_subset: "subseq xs ys \<Longrightarrow> set xs \<subseteq> set ys"
  by (induction rule: list_emb.induct) auto

lemma send_run_kept: "send_run s w \<Longrightarrow> run_kept s w"
proof (induction rule: send_run.induct)
  case (start w)
  then show ?case by (auto simp: run_kept_def rates_kept_def sent_in_hour_def recipients_of_def)
next
  case (mailbox w i sender raw recipients r w')
  have "unsent (db_jobs (w_db w)) (mailbox_limits (w_db w)) (db_routes (w_db w)) (w_clock w) w" by (simp add: unsent_def)
  note e = wpD [OF submit_effect [OF this] mailbox(3)]
  show ?case by (rule run_kept_step [OF mailbox(4) conjunct1 [OF e]]) (use conjunct2 [OF e] mailbox(2) in blast)
next
  case (domain w d sender raw recipients r' w')
  have "unsent (db_jobs (w_db w)) (mailbox_limits (w_db w)) (db_routes (w_db w)) (w_clock w) w" by (simp add: unsent_def)
  note e = wpD [OF submit_domain_effect [OF this] domain(2)]
  show ?case by (rule run_kept_step [OF domain(3) conjunct1 [OF e]]) (use conjunct2 [OF e] in blast)
next
  case (other w w')
  let ?J = "db_jobs (w_db w)" and ?J' = "db_jobs (w_db w')"
  have k: "rates_kept s ?J (mailbox_limits (w_db w))" "\<forall>j \<in> set ?J. oj_created_at j \<le> w_clock w"
    using other(6) by (simp_all add: run_kept_def)
  have v: "\<exists>j \<in> set ?J. job_view j = job_view j'" if "j' \<in> set ?J'" for j'
  proof -
    have "job_view j' \<in> job_view ` set ?J" using subseq_subset [OF other(3)] that by auto
    then show ?thesis by auto
  qed
  have box: "sent_in_hour (\<lambda>j. oj_mailbox_id j = i) a ?J' \<le> sent_in_hour (\<lambda>j. oj_mailbox_id j = i) a ?J" for i a
    by (rule sent_in_hour_mono [OF other(3), of _ "\<lambda>v. fst v = i"]) (simp add: job_view_def)
  have dom: "sent_in_hour (\<lambda>j. oj_sender_domain j = d) a ?J' \<le> sent_in_hour (\<lambda>j. oj_sender_domain j = d) a ?J" for d a
    by (rule sent_in_hour_mono [OF other(3), of _ "\<lambda>v. fst (snd v) = d"]) (simp add: job_view_def)
  have none: "sent_in_hour (\<lambda>j. oj_mailbox_id j = i) a ?J = 0" if "\<forall>j \<in> set ?J. oj_mailbox_id j \<noteq> i" for i a
    using that by (simp add: sent_in_hour_def recipients_of_def filter_False)
  have "rates_kept s ?J' (mailbox_limits (w_db w'))"
  proof (rule rates_keptI)
    fix i :: string and l a
    assume x: "(i, l) \<in> set (mailbox_limits (w_db w'))" "i \<noteq> []" "0 < hourly_limit s l"
    with other(5) consider "(i, l) \<in> set (mailbox_limits (w_db w))" | "\<forall>j \<in> set ?J. oj_mailbox_id j \<noteq> i" by fastforce
    then show "sent_in_hour (\<lambda>j. oj_mailbox_id j = i) a ?J' \<le> hourly_limit s l"
    proof cases
      case 1
      from box [of i a] rates_keptD(1) [OF k(1) this x(2,3)] show ?thesis by (rule order_trans)
    next
      case 2
      with box [of i a] none x(3) show ?thesis by force
    qed
  next
    fix d :: string and a
    assume "d \<noteq> []" "0 < li_per_hour (sv_domain_defaults s)"
    from dom [of d a] rates_keptD(2) [OF k(1) this]
    show "sent_in_hour (\<lambda>j. oj_sender_domain j = d) a ?J' \<le> li_per_hour (sv_domain_defaults s)" by (rule order_trans)
  qed
  moreover have "\<forall>j \<in> set ?J'. oj_created_at j \<le> w_clock w'"
  proof
    fix j'
    assume "j' \<in> set ?J'"
    from v [OF this] obtain j where "j \<in> set ?J" "job_view j = job_view j'" by blast
    with k(2) other(2) show "oj_created_at j' \<le> w_clock w'" by (auto simp: job_view_def)
  qed
  ultimately show ?case using other(4) by (simp add: run_kept_def)
qed

text \<open>
  C8.  The hourly limits hold over any hour.  In every run of submissions, whatever calls fail, the jobs of a mailbox in any
  period of one hour have at most as many recipients as the hourly limit of the mailbox, and those of a domain as many as the
  hourly limit of domains.
\<close>

theorem hourly_rate_kept:
  assumes "send_run s w"
  shows "(\<forall>m \<in> set (db_mailboxes (w_db w)). mb_id m \<noteq> [] \<and> 0 < li_per_hour (limitsFor s m)
       \<longrightarrow> (\<forall>a. sent_in_hour (\<lambda>j. oj_mailbox_id j = mb_id m) a (db_jobs (w_db w)) \<le> li_per_hour (limitsFor s m)))
    \<and> (\<forall>d. d \<noteq> [] \<and> 0 < li_per_hour (sv_domain_defaults s)
       \<longrightarrow> (\<forall>a. sent_in_hour (\<lambda>j. oj_sender_domain j = d) a (db_jobs (w_db w)) \<le> li_per_hour (sv_domain_defaults s)))"
proof -
  have k: "rates_kept s (db_jobs (w_db w)) (mailbox_limits (w_db w))" using send_run_kept [OF assms] by (simp add: run_kept_def)
  have "sent_in_hour (\<lambda>j. oj_mailbox_id j = mb_id m) a (db_jobs (w_db w)) \<le> li_per_hour (limitsFor s m)"
    if "m \<in> set (db_mailboxes (w_db w))" "mb_id m \<noteq> []" "0 < li_per_hour (limitsFor s m)" for m a
    using rates_keptD(1) [OF k _ that(2), of "mb_outbound_limits m"] that by (auto simp: mailbox_limits_def)
  with rates_keptD(2) [OF k] show ?thesis by blast
qed

definition sample_submission :: submission where
  "sample_submission = \<lparr>sv_public_hostname = ''mx'', sv_instance_name = ''n1'',
     sv_defaults = \<lparr>li_per_hour = 1, li_per_day = 0, li_recipients_per_message = 0\<rparr>,
     sv_domain_defaults = \<lparr>li_per_hour = 1, li_per_day = 0, li_recipients_per_message = 0\<rparr>,
     sv_parse = Inr, sv_parse_list = (\<lambda>v. Inr [v]), sv_sign = (\<lambda>raw key. Inr (''S'' @ raw)), sv_digest = (\<lambda>_. []), sv_mime = (\<lambda>_. None)\<rparr>"

definition submission_world :: world where
  "submission_world = world_of (sample_db\<lparr>db_mailboxes := [sample_mailbox\<lparr>mb_quota_bytes := 0\<rparr>],
     db_folders := [sample_folder ''sent'' ''Sent'' 1], db_mms := [], db_messages := [],
     db_dkim_keys := [\<lparr>dk_id = ''k'', dk_domain = ''example.org'', dk_selector = ''s'', dk_private_key_pem = [], dk_created_at = 0\<rparr>]\<rparr>)"

abbreviation sample_submit :: "world \<Rightarrow> (err + message) \<times> world" where
  "sample_submit \<equiv> Submit sample_submission ''box'' ''ann@example.org'' ([LF] @ ''hi'') [''bob@example.net'']"

definition submitted_world :: world where
  "submitted_world = snd (sample_submit submission_world)"

text \<open>The message is normalised by evaluation; the run around it does not depend on the bytes of the result.\<close>

lemma sample_normalized:
  obtains n where "\<And>check w. w_clock w = 1000 \<Longrightarrow>
    normalizeSubmittedMessage sample_submission ([LF] @ ''hi'') ''ann@example.org'' check ''i'' ''mx'' ''ii'' ''n1'' w = (Inr n, w)"
proof -
  have "case InjectHeaders ([LF] @ ''hi'') (submitted_fields ''ann@example.org'' 1000 ''i'' ''mx'' ''ii'' ''n1'') of Some (Some n) \<Rightarrow> True | _ \<Rightarrow> False"
    by code_simp
  then obtain n where n: "InjectHeaders ([LF] @ ''hi'') (submitted_fields ''ann@example.org'' 1000 ''i'' ''mx'' ''ii'' ''n1'') = Some (Some n)"
    by (auto split: option.splits)
  have h: "validHeaderFieldNames (fst (SplitHeaderBody ([LF] @ ''hi''))) = True" "ReadMessage ([LF] @ ''hi'') = Some ([], ''hi'')" by code_simp+
  have "header_get (drop_haitatsu []) ''From'' = []" by (simp add: drop_haitatsu_def header_get_def header_values_def)
  then have "normalizeSubmittedMessage sample_submission ([LF] @ ''hi'') ''ann@example.org'' check ''i'' ''mx'' ''ii'' ''n1'' w = (Inr n, w)"
    if "w_clock w = 1000" for check and w :: world
    unfolding normalizeSubmittedMessage_def h using that
    by (simp only: simp_thms if_False if_True option.case prod.case submitted_from_error_def bindE_ret)
       (simp only: bindE_def now_def prod.case sum.case n option.case lift_err_def ret_def)
  then show thesis by (rule that)
qed

lemmas submit_run_simps = Submit_def SenderAllowed_def prepare_def prepare_signed_def Let_def bindE_def tryE_def newID_def now_def ret_def fail_def lift_err_def
  dkimKeyFor_def admit_mailbox_def enforceLimits_def under_limit_def recipientsSince_def OverQuotaWith_def FolderByName_def putBlob_eq
  in_tx_def dbcall_eq enqueueInTx_def LockMailbox_def createMessage_def createJob_def attachInTx_def allocateFolderUID_def addUsedBytes_def
  selectAll_def selectOnly_def updateOne_def updateWhere_def insertRow_def table_defs NotifyAttached_def publish_def message_clash_def
  mm_clash_def new_mm_def bump_folder_def add_used_def faulty_def pop_def sent_attach_def mailboxScope_def limitsFor_def override_def

lemmas submission_sample_simps = sample_submission_def submission_world_def world_of_def sample_db_def empty_db_def sample_mailbox_def
  sample_folder_def sample_message_def sample_row_def

definition submitted_db :: "db \<Rightarrow> bool" where
  "submitted_db d \<longleftrightarrow> map oj_recipients (db_jobs d) = [[''bob@example.net'']] \<and> map mb_id (db_mailboxes d) = [''box'']
    \<and> map mb_outbound_limits (db_mailboxes d) = [[]]"

lemma created_id: "me_id (created_message s p md t) = pm_id p"
  by (simp add: created_message_def)

lemma submitted_run:
  "case sample_submit submission_world of (r, w) \<Rightarrow> (\<exists>msg. r = Inr msg \<and> me_id msg = ''i'') \<and> submitted_db (w_db w) \<and> w_faults w = []"
proof -
  have dom: "sender_domain ''ann@example.org'' = ''example.org''" and to: "dedupeAddresses sample_submission [''bob@example.net''] = [''bob@example.net'']"
    and own: "equal_fold (trim_space ''ann@example.org'') ''ann@example.org''" by code_simp+
  obtain n where n: "\<And>check w. w_clock w = 1000 \<Longrightarrow>
    normalizeSubmittedMessage sample_submission ([LF] @ ''hi'') ''ann@example.org'' check ''i'' ''mx'' ''ii'' ''n1'' w = (Inr n, w)"
    using sample_normalized by metis
  have n': "w_clock w = 1000 \<Longrightarrow>
    normalizeSubmittedMessage sample_submission [LF, CHR ''h'', CHR ''i''] ''ann@example.org'' check ''i'' ''mx'' ''ii'' ''n1'' w = (Inr n, w)" for check w
    using n [of w check] by simp
  have env: "sv_public_hostname sample_submission = ''mx''" "sv_instance_name sample_submission = ''n1''" "sv_parse sample_submission = Inr"
    "sv_sign sample_submission = (\<lambda>raw key. Inr (''S'' @ raw))" "sv_defaults sample_submission = \<lparr>li_per_hour = 1, li_per_day = 0, li_recipients_per_message = 0\<rparr>"
    by (simp_all add: sample_submission_def)
  show ?thesis
    unfolding submission_world_def world_of_def sample_db_def empty_db_def sample_mailbox_def sample_folder_def
    by (simp add: submit_run_simps dom to own n' env submitted_db_def created_id)
qed

theorem hourly_rate_kept_witness:
  "sent_in_hour (\<lambda>j. oj_mailbox_id j = ''box'') 0 (db_jobs (w_db submitted_world)) \<le> 1
   \<and> map oj_recipients (db_jobs (w_db submitted_world)) = [[''bob@example.net'']]"
proof -
  have "db_jobs (w_db submission_world) = []" "distinct (map fst (mailbox_limits (w_db submission_world)))" by code_simp+
  then have run: "send_run sample_submission submitted_world"
    unfolding submitted_world_def by (rule send_run.mailbox [OF send_run.start _ prod.collapse [symmetric]]) simp
  have d: "map oj_recipients (db_jobs (w_db submitted_world)) = [[''bob@example.net'']]"
    and box: "map mb_id (db_mailboxes (w_db submitted_world)) = [''box'']"
    and lim: "map mb_outbound_limits (db_mailboxes (w_db submitted_world)) = [[]]"
    using submitted_run by (auto simp: submitted_db_def submitted_world_def split: prod.splits)
  have "li_per_hour (limitsFor sample_submission m) = 1" if "mb_outbound_limits m = []" for m
    using that by (simp add: sample_submission_def limitsFor_def override_def Let_def del: hourly_limit)
  with box lim obtain m where m: "m \<in> set (db_mailboxes (w_db submitted_world))" "mb_id m = ''box''"
    "li_per_hour (limitsFor sample_submission m) = 1" by (auto simp del: hourly_limit)
  have "sent_in_hour (\<lambda>j. oj_mailbox_id j = mb_id m) 0 (db_jobs (w_db submitted_world)) \<le> li_per_hour (limitsFor sample_submission m)"
    using hourly_rate_kept [OF run] m by (auto simp del: hourly_limit)
  with m(2,3) d show ?thesis by (simp del: hourly_limit)
qed

end
