(* ===== verification/Submission_Auth.thy ===== *)
theory Submission_Auth
  imports Submission_Props
begin

text \<open>
  Who a submitted message can be from: the checks on the envelope sender and on every address of the From field, followed
  from the raw message to the signed object in the store.
\<close>

section \<open>Who a message is from\<close>

definition owns :: "route list \<Rightarrow> mailbox \<Rightarrow> string \<Rightarrow> bool" where
  "owns R m address \<longleftrightarrow> equal_fold (trim_space address) (mb_primary_address m)
     \<or> (\<exists>r \<in> set R. equal_fold (ro_source_address r) (trim_space address) \<and> ro_status r = ''active'' \<and> ro_deleted_at r = None
           \<and> mb_id m \<in> set (ro_destinations r))"

lemma allowed_owns:
  assumes "unsent J X R t w"
  shows "wp (SenderAllowed m address) (\<lambda>r w'. unsent J X R t w' \<and> (r = Inr True \<longrightarrow> owns R m address)) w"
  using assms by (auto simp: SenderAllowed_def Let_def wp_simps table_defs unsent_def owns_def list_ex_iff)

text \<open>The values of the From field of a submitted message, as the two ways of reading it find them.\<close>

definition from_values :: "string \<Rightarrow> string list" where
  "from_values raw = (case ReadMessage raw of
     Some (h, _) \<Rightarrow> if header_get (drop_haitatsu h) ''From'' = [] then [] else header_values (drop_haitatsu h) ''From''
   | None \<Rightarrow> headerValues (RemoveHeaderField (StripHaitatsuHeaders (fst (SplitHeaderBody raw))) ''Bcc'') ''From'')"

definition from_ok :: "submission \<Rightarrow> (string \<Rightarrow> bool) \<Rightarrow> string list \<Rightarrow> bool" where
  "from_ok s ok values \<longleftrightarrow> (\<forall>v \<in> set values. \<exists>addresses. sv_parse_list s v = Inr addresses \<and> addresses \<noteq> [] \<and> (\<forall>a \<in> set addresses. ok a))"

lemma check_from_ok:
  assumes w: "unsent J X R t w"
    and check: "\<And>a w1. unsent J X R t w1 \<Longrightarrow> wp (check a) (\<lambda>r w'. unsent J X R t w' \<and> (r = Inr True \<longrightarrow> ok a)) w1"
  shows "wp (checkFromHeader s values check) (\<lambda>r w'. unsent J X R t w' \<and> (r = Inr () \<longrightarrow> from_ok s ok values)) w"
proof -
  have addresses: "wp (check_addresses check as) (\<lambda>r w'. unsent J X R t w' \<and> (r = Inr () \<longrightarrow> (\<forall>a \<in> set as. ok a))) w1"
    if w1: "unsent J X R t w1" for as w1
  proof -
    have "wp (forE as (\<lambda>a. bindE (check a) (\<lambda>allowed. if \<not> allowed then fail ErrSenderNotAllowed else ret ())))
        (\<lambda>r w'. case r of Inl _ \<Rightarrow> unsent J X R t w' | Inr _ \<Rightarrow> unsent J X R t w' \<and> (\<forall>a \<in> set as. ok a)) w1"
    proof (rule wp_forE [where I = "\<lambda>ys w'. unsent J X R t w' \<and> (\<forall>a \<in> set ys. ok a)"])
      show "unsent J X R t w1 \<and> (\<forall>a \<in> set []. ok a)" using w1 by simp
      fix ys a w2
      assume i: "unsent J X R t w2 \<and> (\<forall>a \<in> set ys. ok a)"
      show "wp (bindE (check a) (\<lambda>allowed. if \<not> allowed then fail ErrSenderNotAllowed else ret ()))
        (\<lambda>r w'. case r of Inl _ \<Rightarrow> unsent J X R t w' | Inr _ \<Rightarrow> unsent J X R t w' \<and> (\<forall>a \<in> set (ys @ [a]). ok a)) w2"
        unfolding wp_bindE
        by (rule wp_mono [OF check [OF conjunct1 [OF i]]]) (use i in \<open>auto simp: wp_simps split: sum.split\<close>)
    qed
    then show ?thesis unfolding check_addresses_def by (rule wp_mono) (auto split: sum.splits)
  qed
  have "wp (checkFromHeader s values check) (\<lambda>r w'. case r of Inl _ \<Rightarrow> unsent J X R t w' | Inr _ \<Rightarrow> unsent J X R t w' \<and> from_ok s ok values) w"
    unfolding checkFromHeader_def
  proof (rule wp_forE [where I = "\<lambda>ys w'. unsent J X R t w' \<and> from_ok s ok ys"])
    show "unsent J X R t w \<and> from_ok s ok []" using w by (simp add: from_ok_def)
    fix ys v w1
    assume i: "unsent J X R t w1 \<and> from_ok s ok ys"
    show "wp (case sv_parse_list s v of Inl _ \<Rightarrow> fail ErrSenderNotAllowed
        | Inr list \<Rightarrow> if list = [] then fail ErrSenderNotAllowed else check_addresses check list)
      (\<lambda>r w'. case r of Inl _ \<Rightarrow> unsent J X R t w' | Inr _ \<Rightarrow> unsent J X R t w' \<and> from_ok s ok (ys @ [v])) w1"
    proof (cases "sv_parse_list s v")
      case (Inl e)
      with i show ?thesis by (simp add: wp_fail)
    next
      case (Inr as)
      show ?thesis
      proof (cases "as = []")
        case True
        with Inr i show ?thesis by (simp add: wp_fail)
      next
        case False
        have "wp (check_addresses check as) (\<lambda>r w'. case r of Inl _ \<Rightarrow> unsent J X R t w' | Inr _ \<Rightarrow> unsent J X R t w' \<and> from_ok s ok (ys @ [v])) w1"
          by (rule wp_mono [OF addresses [OF conjunct1 [OF i]]]) (use i Inr False in \<open>auto simp: from_ok_def split: sum.split\<close>)
        with Inr False show ?thesis by simp
      qed
    qed
  qed
  then show ?thesis by (rule wp_mono) (auto split: sum.splits)
qed

section \<open>From the raw message to the signed object\<close>

lemma wp_knowing:
  assumes "wp m (\<lambda>r w'. unsent J X R t w' \<and> (\<forall>x. r = Inr x \<longrightarrow> A x)) w"
    and "\<And>x w'. unsent J X R t w' \<Longrightarrow> A x \<Longrightarrow> wp (f x) Q w'" and "\<And>e w'. unsent J X R t w' \<Longrightarrow> Q (Inl e) w'"
  shows "wp (bindE m f) Q w"
  unfolding wp_bindE by (rule wp_mono [OF assms(1)]) (use assms(2,3) in \<open>auto split: sum.split\<close>)

lemma map_of_del: "map_of (header_del k h) x = (if x = CanonicalKey k then None else map_of h x)"
  unfolding header_del_def by (induction h) auto

lemma values_del: "header_values (header_del k h) k' = (if CanonicalKey k = CanonicalKey k' then [] else header_values h k')"
  by (simp add: header_values_def map_of_del)

lemma values_set: "header_values (header_set k v h) k' = (if CanonicalKey k = CanonicalKey k' then [v] else header_values h k')"
  by (auto simp: header_values_def header_set_def map_add_def map_of_del split: option.splits)

lemma submitted_from:
  "header_values (submitted_fields sender t i hostname traceID node h) ''From'' = (if header_get h ''From'' = [] then [sender] else header_values h ''From'')"
proof -
  have k: "CanonicalKey ''From'' = ''From''" "CanonicalKey ''Date'' = ''Date''" "CanonicalKey ''Message-ID'' = ''Message-Id''"
    "CanonicalKey ''Bcc'' = ''Bcc''" "CanonicalKey ''X-Haitatsu-Trace-ID'' = ''X-Haitatsu-Trace-Id''" "CanonicalKey ''X-Haitatsu-Node'' = ''X-Haitatsu-Node''"
    by code_simp+
  show ?thesis by (simp add: submitted_fields_def Let_def values_set values_del k)
qed

text \<open>
  What the signed message carries.  When the message was parsed: a header whose From values are the checked ones, or the sender
  where there were none.  When it was not: the header the values were read from, as it was, with lines added to it, among which
  there is a From line, of the sender, only if there was none.
\<close>

definition checked_header :: "string \<Rightarrow> string" where
  "checked_header raw = RemoveHeaderField (StripHaitatsuHeaders (fst (SplitHeaderBody raw))) ''Bcc''"

definition from_line :: "string \<Rightarrow> bool" where
  "from_line l \<longleftrightarrow> has_prefix (to_lower l) ''from:''"

definition carries :: "string \<Rightarrow> string \<Rightarrow> string \<Rightarrow> bool" where
  "carries raw sender normalized \<longleftrightarrow> (case ReadMessage raw of
     Some (h0, body) \<Rightarrow> \<exists>h. FormatRFC822 h body = Some normalized
       \<and> header_values h ''From'' = (if from_values raw = [] then [sender] else from_values raw)
   | None \<Rightarrow> \<exists>extra. normalized = JoinHeaderBody (AppendHeaderFields (checked_header raw) extra) (snd (SplitHeaderBody raw))
       \<and> headerValues (checked_header raw) ''From'' = from_values raw
       \<and> filter from_line extra = (if from_values raw = [] then [''From: '' @ sender] else []))"

lemma from_line_added:
  "from_line (''From: '' @ x)" "\<not> from_line (''Date: '' @ x)" "\<not> from_line (''Message-ID: '' @ x)"
  "\<not> from_line (''X-Haitatsu-Trace-ID: '' @ x)" "\<not> from_line (''X-Haitatsu-Node: '' @ x)"
proof -
  have l: "to_lower ''From: '' = ''from: ''" "to_lower ''Date: '' = ''date: ''" "to_lower ''Message-ID: '' = ''message-id: ''"
    "to_lower ''X-Haitatsu-Trace-ID: '' = ''x-haitatsu-trace-id: ''" "to_lower ''X-Haitatsu-Node: '' = ''x-haitatsu-node: ''"
    by code_simp+
  show "from_line (''From: '' @ x)" "\<not> from_line (''Date: '' @ x)" "\<not> from_line (''Message-ID: '' @ x)"
    "\<not> from_line (''X-Haitatsu-Trace-ID: '' @ x)" "\<not> from_line (''X-Haitatsu-Node: '' @ x)"
    unfolding from_line_def to_lower_append l by (simp_all add: has_prefix_def)
qed

lemma fallback_from:
  assumes w: "unsent J X R t w"
    and check: "\<And>a w1. unsent J X R t w1 \<Longrightarrow> wp (check a) (\<lambda>r w'. unsent J X R t w' \<and> (r = Inr True \<longrightarrow> ok a)) w1"
    and none: "ReadMessage raw = None"
  shows "wp (normalizeSubmittedMessageFallback s raw sender check i hostname traceID node)
    (\<lambda>r w'. unsent J X R t w' \<and> (\<forall>n. r = Inr n \<longrightarrow> from_ok s ok (from_values raw) \<and> carries raw sender n)) w"
proof -
  let ?from = "if from_values raw = [] then [''From: '' @ sender] else []"
  have v: "headerValues (checked_header raw) ''From'' = from_values raw"
    by (simp add: from_values_def none checked_header_def)
  have start: "wp (if from_values raw = [] then ret [''From: '' @ sender] else bindE (checkFromHeader s (from_values raw) check) (\<lambda>_. ret []))
    (\<lambda>r w'. unsent J X R t w' \<and> (\<forall>x. r = Inr x \<longrightarrow> from_ok s ok (from_values raw) \<and> x = ?from)) w"
  proof (cases "from_values raw = []")
    case True
    with w show ?thesis by (simp add: wp_ret from_ok_def)
  next
    case False
    show ?thesis
      unfolding if_not_P [OF False] wp_bindE wp_ret
      by (rule wp_mono [OF check_from_ok [where check = check and ok = ok and s = s, OF w check]]) (auto split: sum.splits)
  qed
  have c: "carries raw sender (JoinHeaderBody (AppendHeaderFields (checked_header raw) extra) (snd (SplitHeaderBody raw)))"
    if "filter from_line extra = ?from" for extra
    unfolding carries_def none option.case using v that by blast
  show ?thesis
    unfolding normalizeSubmittedMessageFallback_def Let_def checked_header_def [symmetric] v
  proof (rule wp_knowing [OF start])
    fix x and w' :: world
    assume u: "unsent J X R t w'" and x: "from_ok s ok (from_values raw) \<and> x = ?from"
    from x have "filter from_line x = ?from" using from_line_added(1) [of sender] by simp
    then have "filter from_line ((if hasHeader (checked_header raw) ''Message-ID'' then y else y @ [''Message-ID: '' @ m])
        @ [''X-Haitatsu-Trace-ID: '' @ traceID, ''X-Haitatsu-Node: '' @ node]) = ?from"
      if "y = (if hasHeader (checked_header raw) ''Date'' then x else x @ [''Date: '' @ d])" for y m d
      using that from_line_added by simp
    from c [OF this [OF refl]] u x
    show "wp (bindE now (\<lambda>t. ret (JoinHeaderBody (AppendHeaderFields (checked_header raw)
         ((if hasHeader (checked_header raw) ''Message-ID'' then if hasHeader (checked_header raw) ''Date'' then x else x @ [''Date: '' @ format_rfc1123z t]
           else (if hasHeader (checked_header raw) ''Date'' then x else x @ [''Date: '' @ format_rfc1123z t]) @ [''Message-ID: '' @ message_id_field i hostname])
          @ [''X-Haitatsu-Trace-ID: '' @ traceID, ''X-Haitatsu-Node: '' @ node])) (snd (SplitHeaderBody raw)))))
       (\<lambda>r w'. unsent J X R t w' \<and> (\<forall>n. r = Inr n \<longrightarrow> from_ok s ok (from_values raw) \<and> carries raw sender n)) w'"
      unfolding wp_bindE wp_now wp_ret sum.case by blast
  qed simp
qed

lemma parsed_from:
  assumes w: "unsent J X R t w"
    and check: "\<And>a w1. unsent J X R t w1 \<Longrightarrow> wp (check a) (\<lambda>r w'. unsent J X R t w' \<and> (r = Inr True \<longrightarrow> ok a)) w1"
  shows "wp (submitted_from_error s check h) (\<lambda>r w'. unsent J X R t w' \<and>
     (\<forall>x. r = Inr x \<longrightarrow> x = Inr () \<longrightarrow> from_ok s ok (if header_get h ''From'' = [] then [] else header_values h ''From''))) w"
proof (cases "header_get h ''From'' = []")
  case True
  with w show ?thesis by (simp add: submitted_from_error_def wp_ret from_ok_def)
next
  case False
  show ?thesis
    unfolding submitted_from_error_def if_not_P [OF False] wp_tryE
    by (rule wp_mono [OF check_from_ok [where check = check and ok = ok and s = s, OF w check]]) simp_all
qed

lemma normalize_from:
  assumes w: "unsent J X R t w"
    and check: "\<And>a w1. unsent J X R t w1 \<Longrightarrow> wp (check a) (\<lambda>r w'. unsent J X R t w' \<and> (r = Inr True \<longrightarrow> ok a)) w1"
  shows "wp (normalizeSubmittedMessage s raw sender check i hostname traceID node)
    (\<lambda>r w'. unsent J X R t w' \<and> (\<forall>n. r = Inr n \<longrightarrow> from_ok s ok (from_values raw) \<and> carries raw sender n)) w" (is "wp _ ?Q w")
proof (cases "validHeaderFieldNames (fst (SplitHeaderBody raw))")
  case False
  with w show ?thesis by (simp add: normalizeSubmittedMessage_def wp_fail)
next
  case True
  then have valid: "\<not> \<not> validHeaderFieldNames (fst (SplitHeaderBody raw))" by simp
  show ?thesis
  proof (cases "ReadMessage raw")
    case None
    have "wp (normalizeSubmittedMessageFallback s raw sender check i hostname traceID node) ?Q w"
      by (rule wp_mono [OF fallback_from [OF w check None]]) simp_all
    then show ?thesis
      unfolding normalizeSubmittedMessage_def InjectHeaders_def None option.case if_not_P [OF valid] bindE_ret(1) wp_bindE wp_now sum.case .
  next
    case (Some hb)
    obtain h0 body where hb: "hb = (h0, body)" by (cases hb)
    define h where "h = drop_haitatsu h0"
    have v: "from_values raw = (if header_get h ''From'' = [] then [] else header_values h ''From'')" by (simp add: from_values_def Some hb h_def)
    have e: "wp (submitted_from_error s check h) (\<lambda>r w'. unsent J X R t w' \<and> (\<forall>x. r = Inr x \<longrightarrow> x = Inr () \<longrightarrow> from_ok s ok (from_values raw))) w"
      unfolding v by (rule parsed_from [OF w check])
    have none: "header_get h ''From'' = [] \<longleftrightarrow> from_values raw = []" by (auto simp: v header_get_def split: list.splits)
    have c: "carries raw sender n" if "FormatRFC822 (submitted_fields sender x i hostname traceID node h) body = Some n" for x n
    proof -
      have "header_values (submitted_fields sender x i hostname traceID node h) ''From'' = (if from_values raw = [] then [sender] else from_values raw)"
        unfolding submitted_from none using v none by (simp split: if_splits)
      with that show ?thesis unfolding carries_def Some hb option.case prod.case by blast
    qed
    have last: "wp (bindE now (\<lambda>x1. case FormatRFC822 (submitted_fields sender x1 i hostname traceID node h) body of
          None \<Rightarrow> fail slice_panic | Some normalized \<Rightarrow> bindE (lift_err x) (\<lambda>_. ret normalized))) ?Q w1"
      if w1: "unsent J X R t w1" and x: "x = Inr () \<longrightarrow> from_ok s ok (from_values raw)" for x w1
    proof (cases "FormatRFC822 (submitted_fields sender (w_clock w1) i hostname traceID node h) body")
      case None
      with w1 show ?thesis by (simp add: wp_bindE wp_now wp_fail)
    next
      case (Some n)
      from c [OF Some] w1 x Some show ?thesis by (cases x) (simp_all add: wp_bindE wp_now wp_fail wp_ret lift_err_def)
    qed
    have "normalizeSubmittedMessage s raw sender check i hostname traceID node = bindE (submitted_from_error s check h)
        (\<lambda>x. bindE now (\<lambda>x1. case FormatRFC822 (submitted_fields sender x1 i hostname traceID node h) body of
          None \<Rightarrow> fail slice_panic | Some normalized \<Rightarrow> bindE (lift_err x) (\<lambda>_. ret normalized)))"
      unfolding normalizeSubmittedMessage_def InjectHeaders_def Some hb h_def option.case prod.case if_not_P [OF valid] ..
    moreover have "wp (bindE (submitted_from_error s check h) (\<lambda>x. bindE now (\<lambda>x1. case FormatRFC822 (submitted_fields sender x1 i hostname traceID node h) body of
          None \<Rightarrow> fail slice_panic | Some normalized \<Rightarrow> bindE (lift_err x) (\<lambda>_. ret normalized)))) ?Q w"
      by (rule wp_knowing [OF e], rule last, assumption, assumption) (simp only: sum.simps simp_thms)
    ultimately show ?thesis by (simp only:)
  qed
qed

text \<open>What \<^verbatim>\<open>prepare\<close> has established when it returns.\<close>

definition prepared_ok :: "submission \<Rightarrow> (string \<Rightarrow> bool) \<Rightarrow> string \<Rightarrow> string \<Rightarrow> prepared_message \<Rightarrow> bool" where
  "prepared_ok s ok raw sender p \<longleftrightarrow> from_ok s ok (from_values raw) \<and>
     (\<exists>key normalized. dk_domain key = sender_domain sender \<and> carries raw sender normalized \<and> sv_sign s normalized key = Inr (pm_signed p))"

definition stored_at :: "string \<Rightarrow> string \<Rightarrow> world \<Rightarrow> bool" where
  "stored_at key data w \<longleftrightarrow> map_of (w_blobs w) key = Some data"

lemma first_rev_sort:
  "first (rev (sort_key f (sort_key g (filter p ks)))) = Inr k \<Longrightarrow> p k"
proof -
  assume "first (rev (sort_key f (sort_key g (filter p ks)))) = Inr k"
  then have "k \<in> set (rev (sort_key f (sort_key g (filter p ks))))"
    by (cases "rev (sort_key f (sort_key g (filter p ks)))") auto
  then show "p k" by simp
qed

lemma key_domain:
  assumes "unsent J X R t w"
  shows "wp (dkimKeyFor domain) (\<lambda>r w'. unsent J X R t w' \<and> (\<forall>k. r = Inr k \<longrightarrow> dk_domain k = domain)) w"
  using assms by (auto simp: dkimKeyFor_def wp_dbcall unsent_def dest: first_rev_sort)

lemma put_from:
  assumes "unsent J X R t w" and "from_ok s ok (from_values raw)" and "carries raw sender normalized"
    and "sv_sign s normalized key = Inr sealed" and "dk_domain key = sender_domain sender"
  shows "wp (bindE now (\<lambda>t. bindE (putBlob (messageObjectKey t i) sealed) (\<lambda>_.
       ret \<lparr>pm_id = i, pm_trace_id = traceID, pm_domain = sender_domain sender, pm_object_key = messageObjectKey t i, pm_signed = sealed,
         pm_recipients = to\<rparr>)))
    (\<lambda>r w'. unsent J X R t w' \<and> (\<forall>p. r = Inr p \<longrightarrow> prepared_ok s ok raw sender p \<and> stored_at (pm_object_key p) (pm_signed p) w')) w"
  using assms unfolding wp_bindE wp_now wp_ret sum.case
  by (auto simp: wp_def putBlob_eq unsent_def prepared_ok_def stored_at_def)

lemma prepare_signed_from:
  assumes w: "unsent J X R t w"
    and check: "\<And>a w1. unsent J X R t w1 \<Longrightarrow> wp (check a) (\<lambda>r w'. unsent J X R t w' \<and> (r = Inr True \<longrightarrow> ok a)) w1"
    and admit: "\<And>n z. preserves (unsent J X R t) (admit n z)" and key: "dk_domain key = sender_domain sender"
  shows "wp (prepare_signed s sender check raw to admit key i traceID)
    (\<lambda>r w'. unsent J X R t w' \<and> (\<forall>p. r = Inr p \<longrightarrow> prepared_ok s ok raw sender p \<and> stored_at (pm_object_key p) (pm_signed p) w')) w" (is "wp _ ?Q w")
  unfolding prepare_signed_def
proof (rule wp_knowing [OF normalize_from [OF w check]], assumption, rule wp_preserved [OF admit], assumption)
  fix normalized x and w1 :: world
  assume n: "from_ok s ok (from_values raw) \<and> carries raw sender normalized" and w1: "unsent J X R t w1"
  show "wp (bindE (lift_err (sv_sign s normalized key)) (\<lambda>sealed. bindE now (\<lambda>t. bindE (putBlob (messageObjectKey t i) sealed) (\<lambda>_.
      ret \<lparr>pm_id = i, pm_trace_id = traceID, pm_domain = sender_domain sender, pm_object_key = messageObjectKey t i, pm_signed = sealed,
        pm_recipients = to\<rparr>)))) ?Q w1"
  proof (cases "sv_sign s normalized key")
    case (Inl e)
    with w1 show ?thesis by (simp add: lift_err_def wp_bindE wp_fail)
  next
    case (Inr sealed)
    show ?thesis
      unfolding Inr lift_err_def sum.case bindE_ret
      by (rule put_from [OF w1 conjunct1 [OF n] conjunct2 [OF n] Inr key])
  qed
qed simp_all

lemma prepare_from:
  assumes w: "unsent J X R t w"
    and check: "\<And>a w1. unsent J X R t w1 \<Longrightarrow> wp (check a) (\<lambda>r w'. unsent J X R t w' \<and> (r = Inr True \<longrightarrow> ok a)) w1"
    and admit: "\<And>n z. preserves (unsent J X R t) (admit n z)"
  shows "wp (prepare s sender check raw recipients admit)
    (\<lambda>r w'. unsent J X R t w' \<and> (\<forall>p. r = Inr p \<longrightarrow> prepared_ok s ok raw sender p \<and> stored_at (pm_object_key p) (pm_signed p) w')) w" (is "wp _ ?Q w")
proof -
  define to where "to = (if recipients \<noteq> [] then dedupeAddresses s recipients else outboundRecipients s [] (Parse (sv_mime s) (NormalizeMessage raw)))"
  have key: "wp (tryE (dkimKeyFor (sender_domain sender)))
    (\<lambda>r w'. unsent J X R t w' \<and> (\<forall>x. r = Inr x \<longrightarrow> (\<forall>key. x = Inr key \<longrightarrow> dk_domain key = sender_domain sender))) w"
    unfolding wp_tryE by (rule wp_mono [OF key_domain [OF w]]) simp
  show ?thesis
    unfolding prepare_def Let_def to_def [symmetric]
  proof (rule wp_knowing [OF key])
    fix k :: "err + dkim_key" and w1 :: world
    assume w1: "unsent J X R t w1" and k: "\<forall>key. k = Inr key \<longrightarrow> dk_domain key = sender_domain sender"
    show "wp (case k of Inl e \<Rightarrow> fail (if e = NotFound then ErrDKIMKeyNotFound else e)
       | Inr key \<Rightarrow> bindE newID (\<lambda>i. bindE newID (\<lambda>traceID. prepare_signed s sender check raw to admit key i traceID))) ?Q w1"
    proof (cases k)
      case (Inl e)
      with w1 show ?thesis by (simp add: wp_fail)
    next
      case (Inr key)
      with k have key: "dk_domain key = sender_domain sender" by simp
      show ?thesis
        unfolding Inr sum.case
        by (rule wp_preserved [OF unsent_reads(4) w1], rule wp_preserved [OF unsent_reads(4)], assumption,
            rule prepare_signed_from [OF _ check admit key]) simp_all
    qed
  qed simp
qed

lemma enqueue_message:
  assumes "in_tx (enqueueInTx s m f p) w = (Inr (msg, a, item), w')"
  shows "me_blob_key msg = pm_object_key p" and "w_blobs w' = w_blobs w"
proof -
  show "me_blob_key msg = pm_object_key p"
    using assms
    by (elim in_tx_ok) (auto simp: enqueueInTx_def createMessage_def insertRow_def dbcall_eq now_def ret_def created_message_def
      elim!: bindE_ok split: if_splits)
  have "preserves (\<lambda>w. w_blobs w = b) (in_tx (enqueueInTx s m f p))" for b
    unfolding enqueueInTx_def LockMailbox_def enforceLimits_def under_limit_def recipientsSince_def createMessage_def attachInTx_def
      allocateFolderUID_def addUsedBytes_def createJob_def Let_def
    by (intro preserves_blobs_in_tx preserves_intros preserves_blobs)
  from preservesD [OF this refl assms] show "w_blobs w' = w_blobs w" .
qed

lemma unsent_now: "unsent (db_jobs (w_db w)) (mailbox_limits (w_db w)) (db_routes (w_db w)) (w_clock w) w"
  by (simp add: unsent_def)

lemma unsent_runs:
  "preserves (unsent J X R t) f \<Longrightarrow> unsent J X R t w \<Longrightarrow> f w = (r, w') \<Longrightarrow> unsent J X R t w'"
  by (rule preservesD)

text \<open>A submission that succeeds, for a mailbox.\<close>

lemma submit_run:
  assumes "Submit s i sender raw recipients w = (Inr msg, w')"
  shows "\<exists>m address p. m \<in> set (db_mailboxes (w_db w)) \<and> mb_id m = i \<and> mb_status m = ''active'' \<and> mb_deleted_at m = None
     \<and> sv_parse s sender = Inr address \<and> owns (db_routes (w_db w)) m address
     \<and> prepared_ok s (owns (db_routes (w_db w)) m) raw address p \<and> map_of (w_blobs w') (me_blob_key msg) = Some (pm_signed p)"
proof (cases "sv_parse s sender")
  case (Inl e)
  with assms show ?thesis by (simp add: Submit_def fail_def)
next
  case (Inr address)
  let ?R = "db_routes (w_db w)"
  from assms [unfolded Submit_def Inr sum.case] obtain m w1 allowed w2 p w3 sent w4 a item w5
    where m: "selectOnly T_mailboxes (\<lambda>m. mb_id m = i \<and> mb_status m = ''active'' \<and> mb_deleted_at m = None) w = (Inr m, w1)"
      and al: "SenderAllowed m address w1 = (Inr allowed, w2)" and ok: "allowed"
      and p: "prepare s address (SenderAllowed m) raw recipients (admit_mailbox s m) w2 = (Inr p, w3)"
      and f: "FolderByName i ''Sent'' w3 = (Inr sent, w4)"
      and tx: "in_tx (enqueueInTx s m (fo_id sent) p) w4 = (Inr (msg, a, item), w5)"
      and n: "w_blobs w' = w_blobs w5"
    by (auto simp: fail_def ret_def NotifyAttached_def publish_def elim!: bindE_ok split: if_splits)
  have m': "m \<in> set (db_mailboxes (w_db w))" "mb_id m = i \<and> mb_status m = ''active'' \<and> mb_deleted_at m = None"
    using m by (auto simp: selectOnly_def dbcall_eq table_defs dest!: only_filter split: if_splits)
  note u1 = unsent_runs [OF unsent_reads(2) unsent_now m]
  from wpD [OF allowed_owns [OF u1] al] ok have u2: "unsent (db_jobs (w_db w)) (mailbox_limits (w_db w)) ?R (w_clock w) w2" and own: "owns ?R m address"
    by auto
  have check: "wp (SenderAllowed m b) (\<lambda>r w'. unsent (db_jobs (w_db w)) (mailbox_limits (w_db w)) ?R (w_clock w) w' \<and> (r = Inr True \<longrightarrow> owns ?R m b)) x"
    if "unsent (db_jobs (w_db w)) (mailbox_limits (w_db w)) ?R (w_clock w) x" for b x
    by (rule allowed_owns [OF that])
  from wpD [OF prepare_from [where ok = "owns ?R m" and check = "SenderAllowed m", OF u2 check unsent_admit] p]
  have p': "prepared_ok s (owns ?R m) raw address p" "stored_at (pm_object_key p) (pm_signed p) w3" by blast+
  have "w_blobs w4 = w_blobs w3"
    using preservesD [OF preserves_blobs(3) refl f [unfolded FolderByName_def]] .
  with p'(2) enqueue_message [OF tx] n have "map_of (w_blobs w') (me_blob_key msg) = Some (pm_signed p)" by (simp add: stored_at_def)
  with m' Inr own p'(1) show ?thesis by blast
qed

text \<open>The same for the domains of a credential.\<close>

lemma enqueue_domain_message:
  assumes "in_tx (enqueueDomainInTx s scope p) w = (Inr msg, w')"
  shows "me_blob_key msg = pm_object_key p" and "w_blobs w' = w_blobs w"
proof -
  show "me_blob_key msg = pm_object_key p"
    using assms
    by (elim in_tx_ok) (auto simp: enqueueDomainInTx_def createMessage_def insertRow_def dbcall_eq now_def ret_def created_message_def
      elim!: bindE_ok split: if_splits)
  have "preserves (\<lambda>w. w_blobs w = b) (in_tx (enqueueDomainInTx s scope p))" for b
    unfolding enqueueDomainInTx_def lockSenderDomain_def enforceLimits_def under_limit_def recipientsSince_def createMessage_def createJob_def Let_def
    by (intro preserves_blobs_in_tx preserves_intros preserves_blobs)
  from preservesD [OF this refl assms] show "w_blobs w' = w_blobs w" .
qed

lemma submit_domain_run:
  assumes "SubmitForDomain s d sender raw recipients w = (Inr msg, w')"
  shows "\<exists>address p. sv_parse s sender = Inr address \<and> inDomain address (to_lower (trim_space d))
     \<and> prepared_ok s (\<lambda>a. inDomain a (to_lower (trim_space d))) raw address p \<and> map_of (w_blobs w') (me_blob_key msg) = Some (pm_signed p)"
proof (cases "sv_parse s sender")
  case (Inl e)
  with assms show ?thesis by (simp add: SubmitForDomain_def fail_def)
next
  case (Inr address)
  let ?d = "to_lower (trim_space d)"
  let ?U = "unsent (db_jobs (w_db w)) (mailbox_limits (w_db w)) (db_routes (w_db w)) (w_clock w)"
  from assms [unfolded SubmitForDomain_def Let_def Inr sum.case] obtain p w1
    where own: "inDomain address ?d"
      and p: "prepare s address (\<lambda>a. ret (inDomain a ?d)) raw recipients (\<lambda>count _. enforceLimits (domainScope s ?d) count) w = (Inr p, w1)"
      and tx: "in_tx (enqueueDomainInTx s (domainScope s ?d) p) w1 = (Inr msg, w')"
    by (auto simp: fail_def elim!: bindE_ok split: if_splits)
  have check: "wp (ret (inDomain b ?d)) (\<lambda>r w'. ?U w' \<and> (r = Inr True \<longrightarrow> inDomain b ?d)) x" if "?U x" for b x
    using that by (simp add: wp_ret)
  from wpD [OF prepare_from [where ok = "\<lambda>a. inDomain a ?d" and check = "\<lambda>a. ret (inDomain a ?d)", OF unsent_now check unsent_limits] p]
  have p': "prepared_ok s (\<lambda>a. inDomain a ?d) raw address p" "stored_at (pm_object_key p) (pm_signed p) w1" by blast+
  from p'(2) enqueue_domain_message [OF tx] have "map_of (w_blobs w') (me_blob_key msg) = Some (pm_signed p)" by (simp add: stored_at_def)
  with Inr own p'(1) show ?thesis by blast
qed

text \<open>
  C10.  Who a submitted message is from, as far as the check reads it.  When a submission succeeds, the mailbox is live, and the
  envelope sender and every address of every From value that the check reads belong to it: they are its primary address, or the
  source of an active route that leads to it.  The stored object is the signature, with a key of the sender's domain, of this
  message: if \<^verbatim>\<open>mail.ReadMessage\<close> parses the input, one whose header has exactly the From values that were checked, or the sender
  where there were none; if it does not, one made of the very header in which the values were read, with lines added that have a
  From line, of the sender, only where there was none.  In that second case the check reads lines that end in LF, so a From field
  after a lone CR is not among the values: \<open>smuggled_signed\<close> below.
\<close>

theorem submit_authorised:
  assumes "Submit s i sender raw recipients w = (Inr msg, w')"
  shows "\<exists>m address p. m \<in> set (db_mailboxes (w_db w)) \<and> mb_id m = i \<and> mb_status m = ''active'' \<and> mb_deleted_at m = None
     \<and> sv_parse s sender = Inr address \<and> owns (db_routes (w_db w)) m address
     \<and> prepared_ok s (owns (db_routes (w_db w)) m) raw address p \<and> map_of (w_blobs w') (me_blob_key msg) = Some (pm_signed p)"
  using assms by (rule submit_run)

theorem submit_authorised_witness:
  "\<exists>msg m p. fst (sample_submit submission_world) = Inr msg \<and> mb_id m = ''box'' \<and> prepared_ok sample_submission (owns [] m) ([LF] @ ''hi'') ''ann@example.org'' p
     \<and> map_of (w_blobs submitted_world) (me_blob_key msg) = Some (pm_signed p)"
proof -
  from submitted_run obtain msg where msg: "sample_submit submission_world = (Inr msg, submitted_world)"
    by (auto simp: submitted_world_def split: prod.splits)
  have e: "db_routes (w_db submission_world) = []" "sv_parse sample_submission ''ann@example.org'' = Inr ''ann@example.org''"
    by (simp_all add: submission_world_def world_of_def sample_db_def empty_db_def sample_submission_def)
  from submit_authorised [OF msg] e msg show ?thesis by fastforce
qed

section \<open>What the checks do not see\<close>

text \<open>
  A line of two CRs makes \<^verbatim>\<open>mail.ReadMessage\<close> fail, and the fallback checks the From fields of the raw header, where a lone CR
  does not end a line; when the header is then joined to the body every CR becomes a line end.  So a From field after a lone
  CR passes unchecked, and is a field of the message that is signed.
\<close>

definition smuggled :: string where
  "smuggled = ''From: a@b'' @ CRLF @ ''S: x'' @ [CR] @ ''From: c@d'' @ CRLF @ [CR] @ CRLF @ CRLF"

lemma smuggled_from:
  "validHeaderFieldNames (fst (SplitHeaderBody smuggled))" "ReadMessage smuggled = None" "from_values smuggled = [''a@b'']"
  by code_simp+

lemma smuggled_signed:
  "case fst (normalizeSubmittedMessage sample_submission smuggled ''a@b'' (\<lambda>a. ret (a = ''a@b'')) ''i'' ''mx'' ''t'' ''n1'' submission_world) of
     Inr n \<Rightarrow> headerValues (fst (SplitHeaderBody n)) ''From'' = [''a@b'', ''c@d''] | Inl _ \<Rightarrow> False"
  by code_simp

text \<open>A field that ends in many empty continuation lines makes the folding of the header panic.\<close>

lemma submission_panics:
  "InjectHeaders (''S: a'' @ concat (replicate 170 [LF, SP]) @ [LF, LF]) (\<lambda>h. h) = Some None"
  "validHeaderFieldNames (''S: a'' @ concat (replicate 170 [LF, SP]) @ [LF])"
  by code_simp+

end
