(* ===== verification/Bounce_Props.thy ===== *)
theory Bounce_Props
  imports Bounce Submission_Auth
begin

text \<open>
  The way of a bounce: the return path that a submission puts on a message is the address that names the message when a
  notification comes back, and what is recorded then.
\<close>

section \<open>The keys of the hosted domains\<close>

definition hosts :: "string list \<Rightarrow> db \<Rightarrow> bool" where
  "hosts K d \<longleftrightarrow> map dk_domain (db_dkim_keys d) = K"

lemma hosts_writes:
  "preserves (\<lambda>w. hosts K (w_db w)) (insertRow T_messages c m)" "preserves (\<lambda>w. hosts K (w_db w)) (insertRow T_mms c' r)"
  "preserves (\<lambda>w. hosts K (w_db w)) (insertRow T_jobs c'' j)" "preserves (\<lambda>w. hosts K (w_db w)) (updateOne T_folders p f)"
  "preserves (\<lambda>w. hosts K (w_db w)) (updateWhere T_mailboxes b g)" "preserves (\<lambda>w. hosts K (w_db w)) (updateOne T_mailboxes b g)"
  by (auto simp: preserves_def wp_simps hosts_def table_defs split: list.split)

lemma hosts_putBlob: "preserves (\<lambda>w. hosts K (w_db w)) (putBlob k b)"
  by (simp add: preserves_def wp_def putBlob_eq)

lemma hosts_lift: "preserves (\<lambda>w. hosts K (w_db w)) (lift_err r)"
  by (cases r) (simp_all add: lift_err_def preserves_ret preserves_fail)

lemmas hosts_intros = preserves_intros preserves_read hosts_writes hosts_putBlob hosts_lift

lemma hosts_check:
  assumes "\<And>a. preserves (\<lambda>w. hosts K (w_db w)) (check a)"
  shows "preserves (\<lambda>w. hosts K (w_db w)) (checkFromHeader s values check)"
  unfolding checkFromHeader_def check_addresses_def
  by (intro preserves_forE) (auto intro!: hosts_intros assms split: sum.split)

lemma hosts_normalize:
  assumes "\<And>a. preserves (\<lambda>w. hosts K (w_db w)) (check a)"
  shows "preserves (\<lambda>w. hosts K (w_db w)) (normalizeSubmittedMessage s raw sender check i hostname traceID node)"
proof -
  have "preserves (\<lambda>w. hosts K (w_db w)) (normalizeSubmittedMessageFallback s raw sender check i hostname traceID node)"
    unfolding normalizeSubmittedMessageFallback_def Let_def by (intro hosts_intros hosts_check assms)
  then show ?thesis
    unfolding normalizeSubmittedMessage_def submitted_from_error_def
    by (intro hosts_intros) (auto intro!: hosts_intros hosts_check assms split: option.split)
qed

lemma hosts_limits: "preserves (\<lambda>w. hosts K (w_db w)) (enforceLimits scope n)"
  unfolding enforceLimits_def Let_def under_limit_def recipientsSince_def by (intro hosts_intros)

lemma hosts_admit: "preserves (\<lambda>w. hosts K (w_db w)) (admit_mailbox s mbox n z)"
  unfolding admit_mailbox_def by (intro hosts_intros hosts_limits)

lemma hosts_allowed: "preserves (\<lambda>w. hosts K (w_db w)) (SenderAllowed mbox a)"
  unfolding SenderAllowed_def Let_def by (intro hosts_intros)

lemma hosts_enqueue: "preserves (\<lambda>w. hosts K (w_db w)) (in_tx (enqueueInTx s mbox f p))"
  unfolding enqueueInTx_def LockMailbox_def createMessage_def attachInTx_def allocateFolderUID_def addUsedBytes_def createJob_def
  by (intro preserves_in_tx hosts_intros hosts_limits)

lemma first_in: "first xs = Inr x \<Longrightarrow> x \<in> set xs"
  by (cases xs) auto

text \<open>\<^verbatim>\<open>prepare\<close> succeeds only for a hosted domain, which stays hosted.\<close>

lemma prepared_hosted:
  assumes check: "\<And>K a. preserves (\<lambda>w. hosts K (w_db w)) (check a)" and admit: "\<And>K n z. preserves (\<lambda>w. hosts K (w_db w)) (admit n z)"
    and run: "prepare s sender check raw recipients admit w = (Inr p, w')"
  shows "pm_domain p = sender_domain sender" and "sender_domain sender \<in> dk_domain ` set (db_dkim_keys (w_db w'))"
proof -
  from run [unfolded prepare_def] obtain r w1 where r: "tryE (dkimKeyFor (sender_domain sender)) w = (Inr r, w1)"
    and rest: "(case r of Inl e \<Rightarrow> fail (if e = NotFound then ErrDKIMKeyNotFound else e)
       | Inr key \<Rightarrow> bindE newID (\<lambda>i. bindE newID (\<lambda>traceID.
           let to = (if recipients \<noteq> [] then dedupeAddresses s recipients else outboundRecipients s [] (Parse (sv_mime s) (NormalizeMessage raw))) in
           prepare_signed s sender check raw to admit key i traceID))) w1 = (Inr p, w')"
    by (elim bindE_ok)
  from rest obtain k where k: "r = Inr k" by (cases r) (auto simp: fail_def)
  with r have "first (rev (sort_key dk_created_at (sort_key dk_id (filter (\<lambda>k. dk_domain k = sender_domain sender) (db_dkim_keys (w_db w)))))) = Inr k"
    and w1: "w_db w1 = w_db w"
    by (auto simp: tryE_def dkimKeyFor_def dbcall_eq split: if_splits)
  then have key: "k \<in> set (db_dkim_keys (w_db w))" "dk_domain k = sender_domain sender"
    by (auto dest!: first_in)
  define to where "to = (if recipients \<noteq> [] then dedupeAddresses s recipients else outboundRecipients s [] (Parse (sv_mime s) (NormalizeMessage raw)))"
  from rest [unfolded k sum.case Let_def, folded to_def] obtain i w2 t w3 where n: "newID w1 = (Inr i, w2)" "newID w2 = (Inr t, w3)"
    and run3: "prepare_signed s sender check raw to admit k i t w3 = (Inr p, w')"
    by (elim bindE_ok)
  from n w1 have w3: "w_db w3 = w_db w" by (auto simp: newID_def)
  from key have "sender_domain sender \<in> dk_domain ` set (db_dkim_keys (w_db w))" by force
  moreover have "preserves (\<lambda>w. hosts K (w_db w)) (prepare_signed s sender check raw to admit k i t)" for K
    unfolding prepare_signed_def by (intro hosts_intros hosts_normalize check admit)
  from preservesD [OF this _ run3, of "map dk_domain (db_dkim_keys (w_db w))"] w3
  have "map dk_domain (db_dkim_keys (w_db w')) = map dk_domain (db_dkim_keys (w_db w))" by (simp add: hosts_def)
  then have "dk_domain ` set (db_dkim_keys (w_db w')) = dk_domain ` set (db_dkim_keys (w_db w))" by (metis set_map)
  ultimately show "sender_domain sender \<in> dk_domain ` set (db_dkim_keys (w_db w'))" by simp
  show "pm_domain p = sender_domain sender"
    using run3 by (auto simp: prepare_signed_def ret_def elim!: bindE_ok)
qed

text \<open>The transaction queues the job under the identifier of the message, with its return path.\<close>

lemma enqueued_job:
  assumes "in_tx (enqueueInTx s m f p) w = (Inr (msg, a, item), w')"
  shows "\<exists>job \<in> set (db_jobs (w_db w')). oj_message_id job = me_id msg \<and> oj_return_path job = ReturnPath (me_id msg) (pm_domain p)"
proof -
  from assms obtain w1 w2 w3 j where "w_db w' = w_db w3" and "createJob (mb_id m) [] (me_id msg) p w1 = (Inr j, w3)"
    by (elim in_tx_ok) (auto simp: enqueueInTx_def ret_def elim!: bindE_ok)
  then show ?thesis
    by (auto simp: createJob_def newID_def now_def insertRow_def dbcall_eq table_defs elim!: bindE_ok split: if_splits)
qed

section \<open>The address of a bounce\<close>

lemma lower_no_at: "CHR ''@'' \<notin> set i \<Longrightarrow> CHR ''@'' \<notin> set (to_lower i)"
proof -
  have "c = CHR ''@''" if "lower_char c = CHR ''@''" for c
  proof (rule ccontr)
    assume "c \<noteq> CHR ''@''"
    with that have u: "65 \<le> code c \<and> code c \<le> 90" "char_of (code c + 32) = CHR ''@''" by (auto simp: lower_char_def split: if_splits)
    then have "code (char_of (code c + 32)) = code c + 32" by (intro code_char_of) simp
    moreover have "code (CHR ''@'') = 64" by (simp add: code_def)
    ultimately show False using u by simp
  qed
  then show "CHR ''@'' \<notin> set i \<Longrightarrow> ?thesis" unfolding to_lower_def set_map by (metis imageE)
qed

lemma space_lower: "is_space (lower_char c) = is_space c"
  by (auto simp: lower_char_def is_space_def)

lemma return_path_trim:
  assumes "domain = [] \<or> \<not> is_space (last domain)"
  shows "trim_space (ReturnPath i domain) = ReturnPath i domain"
proof -
  have "trim_left is_space (ReturnPath i domain) = ReturnPath i domain"
    by (rule trim_left_id) (simp add: ReturnPath_def is_space_def code_def)
  moreover have "trim_right is_space (ReturnPath i domain) = ReturnPath i domain"
    by (rule trim_right_id) (use assms in \<open>auto simp: ReturnPath_def is_space_def code_def\<close>)
  ultimately show ?thesis by (simp add: trim_space_def)
qed

text \<open>The domain of a sender is in lower case, and ends as the address does.\<close>

lemma lower_cut: "to_lower (fst (snd (cut (to_lower a) sep))) = fst (snd (cut (to_lower a) sep))"
  by (auto simp: cut_def to_lower_def take_map drop_map split: option.split)

lemma sender_domain_end:
  assumes "address = [] \<or> \<not> is_space (last address)"
  shows "sender_domain address = [] \<or> \<not> is_space (last (sender_domain address))"
proof (cases "sender_domain address = []")
  case False
  obtain a d ok where c: "cut (to_lower address) ''@'' = (a, d, ok)" by (cases "cut (to_lower address) ''@''")
  with False have d: "sender_domain address = d" "d \<noteq> []" by (auto simp: sender_domain_def)
  with c have ok by (cases ok) (auto dest: cut_not_found)
  with c have "to_lower address = a @ ''@'' @ d" by (auto dest: cut_found)
  with d(2) have "last d = last (to_lower address)" "address \<noteq> []" by auto
  then have "last d = lower_char (last address)" by (simp add: to_lower_def last_map)
  with assms \<open>address \<noteq> []\<close> d show ?thesis by (simp add: space_lower)
qed simp

lemma return_path_parts:
  assumes "domain = [] \<or> \<not> is_space (last domain)" and "CHR ''@'' \<notin> set i"
  shows "cut (to_lower (trim_space (ReturnPath i domain))) ''@'' = (''bounces+'' @ to_lower i, to_lower domain, True)"
proof -
  have "to_lower (ReturnPath i domain) = (''bounces+'' @ to_lower i) @ CHR ''@'' # to_lower domain"
    by (simp add: ReturnPath_def to_lower_def lower_char_def code_def)
  moreover have "CHR ''@'' \<notin> set (''bounces+'' @ to_lower i)" using lower_no_at [OF assms(2)] by simp
  ultimately show ?thesis
    unfolding return_path_trim [OF assms(1)] using cut_char [of "CHR ''@''" "''bounces+'' @ to_lower i" "to_lower domain"] by simp
qed

text \<open>
  An address is accepted as the address of a bounce only when it names, in the domain of a key of this server, a message that
  was queued here.
\<close>

lemma parsed_recipient:
  assumes "fst (ParseRecipient b address w) = Inr (Some (Some r))"
  shows "bc_address r = address" and "\<exists>k \<in> set (db_dkim_keys (w_db w)). cut (to_lower (trim_space address)) ''@'' = (fst (cut (to_lower (trim_space address)) ''@''), dk_domain k, True)"
    and "\<exists>j \<in> set (db_jobs (w_db w)). oj_message_id j = bc_message_id r"
  using assms
  by (auto simp: ParseRecipient_def IsHosted_def HasOutboundJob_def bindE_def tryE_def ret_def selectAll_def dbcall_eq table_defs cut_prefix_def
      filter_empty_conv split: prod.splits if_splits option.splits) blast+

text \<open>
  C39.  A bounce finds its message.  When a submission succeeds, a job with the identifier of its message is queued whose return
  path, as a recipient address, names this message: for a parser of identifiers that reads them without regard to case and a
  parser of addresses that leaves no white space at the end.
\<close>

theorem bounce_round_trip:
  assumes "Submit s i sender raw recipients w = (Inr msg, w')"
    and "bh_ulid b (to_lower (me_id msg)) = Some (me_id msg)" and "CHR ''@'' \<notin> set (me_id msg)"
    and "\<And>address. sv_parse s sender = Inr address \<Longrightarrow> address = [] \<or> \<not> is_space (last address)"
    and "w_faults w' = []"
  shows "\<exists>job \<in> set (db_jobs (w_db w')). oj_message_id job = me_id msg \<and>
     fst (ParseRecipient b (oj_return_path job) w') = Inr (Some (Some \<lparr>bc_address = oj_return_path job, bc_message_id = me_id msg\<rparr>))"
proof (cases "sv_parse s sender")
  case (Inl e)
  with assms(1) show ?thesis by (simp add: Submit_def fail_def)
next
  case (Inr address)
  from assms(1) [unfolded Submit_def Inr sum.case] obtain m w2 p w3 sent w4 a item w5
    where p: "prepare s address (SenderAllowed m) raw recipients (admit_mailbox s m) w2 = (Inr p, w3)"
      and f: "FolderByName i ''Sent'' w3 = (Inr sent, w4)"
      and tx: "in_tx (enqueueInTx s m (fo_id sent) p) w4 = (Inr (msg, a, item), w5)"
      and n: "w_db w' = w_db w5"
    by (auto simp: fail_def ret_def NotifyAttached_def publish_def elim!: bindE_ok split: if_splits)
  note d = prepared_hosted [OF hosts_allowed hosts_admit p]
  let ?domain = "sender_domain address"
  have "w_db w4 = w_db w3" using f by (auto simp: FolderByName_def selectOnly_def dbcall_eq split: if_splits)
  with preservesD [OF hosts_enqueue _ tx, of "map dk_domain (db_dkim_keys (w_db w4))"] n
  have "map dk_domain (db_dkim_keys (w_db w')) = map dk_domain (db_dkim_keys (w_db w3))" by (simp add: hosts_def)
  then have "dk_domain ` set (db_dkim_keys (w_db w')) = dk_domain ` set (db_dkim_keys (w_db w3))" by (metis set_map)
  with d have hosted: "?domain \<in> dk_domain ` set (db_dkim_keys (w_db w'))" by simp
  have lower: "to_lower ?domain = ?domain" by (simp add: sender_domain_def lower_cut)
  have "?domain = [] \<or> \<not> is_space (last ?domain)" using assms(4) [OF Inr] by (rule sender_domain_end)
  note parts = return_path_parts [OF this assms(3), unfolded lower]
  from enqueued_job [OF tx] n d(1) obtain job where job: "job \<in> set (db_jobs (w_db w'))" "oj_message_id job = me_id msg"
    "oj_return_path job = ReturnPath (me_id msg) ?domain" by auto
  have "fst (ParseRecipient b (ReturnPath (me_id msg) ?domain) w') = Inr (Some (Some \<lparr>bc_address = ReturnPath (me_id msg) ?domain, bc_message_id = me_id msg\<rparr>))"
    using assms(2,5) hosted job(1,2)
    by (auto simp: ParseRecipient_def parts verpPrefix_def cut_prefix_def IsHosted_def HasOutboundJob_def bindE_def tryE_def ret_def
        table_defs filter_empty_conv has_prefix_def)
  with job show ?thesis by auto
qed

definition sample_bounces :: bounce_handler where
  "sample_bounces = \<lparr>bh_ulid = (\<lambda>s. if s = ''i'' then Some s else None), bh_media_type = (\<lambda>s. Some (s, [(''boundary'', ''b'')])),
     bh_parts = (\<lambda>body boundary. [\<lparr>sp_content_type = ''message/delivery-status'', sp_body = body, sp_broken = False\<rparr>]),
     bh_digest = (\<lambda>_. ''d''), bh_events = False\<rparr>"

theorem bounce_round_trip_witness:
  "\<exists>job. job \<in> set (db_jobs (w_db submitted_world)) \<and> (\<exists>r. fst (ParseRecipient sample_bounces (oj_return_path job) submitted_world) = Inr (Some (Some r))
     \<and> bc_message_id r = ''i'')"
proof -
  from submitted_run obtain msg where msg: "sample_submit submission_world = (Inr msg, submitted_world)" "me_id msg = ''i''" "w_faults submitted_world = []"
    by (auto simp: submitted_world_def split: prod.splits)
  have "\<exists>job \<in> set (db_jobs (w_db submitted_world)). oj_message_id job = me_id msg \<and>
     fst (ParseRecipient sample_bounces (oj_return_path job) submitted_world) = Inr (Some (Some \<lparr>bc_address = oj_return_path job, bc_message_id = me_id msg\<rparr>))"
  proof (rule bounce_round_trip [OF msg(1)])
    fix a
    assume "sv_parse sample_submission ''ann@example.org'' = Inr a"
    then show "a = [] \<or> \<not> is_space (last a)" by (auto simp: sample_submission_def is_space_def code_def)
  qed (simp_all add: msg sample_bounces_def to_lower_def lower_char_def code_def)
  with msg(2) show ?thesis by auto
qed

section \<open>What is recorded\<close>

text \<open>The tables and objects a bounce does not touch, with the bounce events so far.\<close>

definition bounced :: "db \<Rightarrow> (string \<times> string) list \<Rightarrow> bounce_event list \<Rightarrow> world \<Rightarrow> bool" where
  "bounced d blobs B w \<longleftrightarrow> db_bounces (w_db w) = B \<and> w_blobs w = blobs
     \<and> (w_db w)\<lparr>db_bounces := [], db_events := []\<rparr> = d\<lparr>db_bounces := [], db_events := []\<rparr>"

lemma wp_emit_bounce:
  assumes "bounced d blobs B w"
  shows "wp (emitDomainBounce b e) (\<lambda>r w'. r = Inr () \<and> bounced d blobs B w') w"
  using assms
  by (auto simp: emitDomainBounce_def Emit_def insert_event_def wp_simps table_defs bounced_def split: sum.split)

lemma wp_emit_bounces:
  assumes "bounced d blobs B w"
  shows "wp (forE es (emitDomainBounce b)) (\<lambda>r w'. r = Inr () \<and> bounced d blobs B w') w"
proof -
  have "wp (forE es (emitDomainBounce b)) (\<lambda>r w'. case r of Inl _ \<Rightarrow> False | Inr _ \<Rightarrow> bounced d blobs B w') w"
    by (rule wp_forE [where I = "\<lambda>_. bounced d blobs B"]) (use assms in \<open>auto intro: wp_mono [OF wp_emit_bounce]\<close>)
  then show ?thesis by (rule wp_mono) (auto split: sum.splits)
qed

lemma wp_rows:
  "wp (mapE rs (\<lambda>r. bindE newID (\<lambda>i. ret (f i r)))) (\<lambda>x w'. \<exists>is. x = Inr (map2 f is rs) \<and> length is = length rs \<and> w' = w\<lparr>w_idc := w_idc w + length rs\<rparr>) w"
proof (induction rs arbitrary: w)
  case (Cons r rs)
  show ?case
    unfolding mapE.simps bindE_assoc bindE_ret wp_bindE wp_newID sum.case
    by (rule wp_mono [OF Cons.IH]) (auto simp: wp_ret intro!: exI [of _ "w_ids w (w_idc w) # _"])
qed (simp add: wp_ret)

lemma map2_rows: "length is = length rs \<Longrightarrow> map be_message_id (map2 (bounce_row key sha raw details t) is rs) = map bc_message_id rs"
  by (induction "is" rs rule: list_induct2) (simp_all add: bounce_row_def)

text \<open>An event of the notification \<open>raw\<close>, as it is stored for one of the messages it bounces.\<close>

definition event_of :: "bounce_handler \<Rightarrow> string \<Rightarrow> time \<Rightarrow> bounce_event \<Rightarrow> bool" where
  "event_of b raw t e \<longleftrightarrow> be_blob_key e = bounce_key (bh_digest b raw) \<and> be_sha256 e = bh_digest b raw
     \<and> be_size_bytes e = int (length raw) \<and> be_details e = bounceDetails b t raw"

lemma rows_events: "e \<in> set (map2 (bounce_row (bounce_key (bh_digest b raw)) (bh_digest b raw) raw (bounceDetails b t raw) t) is rs) \<Longrightarrow> event_of b raw t e"
  by (auto simp: event_of_def bounce_row_def)

lemma map_of_others: "k \<noteq> key \<Longrightarrow> map_of (filter (\<lambda>kv. fst kv \<noteq> key) bs) k = map_of bs k"
  by (induction bs) auto

text \<open>The outcome of a recording: the events \<open>new\<close> are added, all or none, and no other object is touched.\<close>

definition recorded :: "bounce_handler \<Rightarrow> string \<Rightarrow> bounce_recipient list \<Rightarrow> world \<Rightarrow> err + unit \<Rightarrow> world \<Rightarrow> bounce_event list \<Rightarrow> bool" where
  "recorded b raw rs w r w' new \<longleftrightarrow> bounced (w_db w) (w_blobs w') (db_bounces (w_db w) @ new) w'
     \<and> (\<forall>k. k \<noteq> bounce_key (bh_digest b raw) \<longrightarrow> map_of (w_blobs w') k = map_of (w_blobs w) k)
     \<and> (case r of Inl _ \<Rightarrow> new = [] | Inr _ \<Rightarrow> map be_message_id new = map bc_message_id rs \<and> (\<forall>e \<in> set new. event_of b raw (w_clock w) e)
          \<and> map_of (w_blobs w') (bounce_key (bh_digest b raw)) = Some raw)"

definition put_blob :: "string \<Rightarrow> string \<Rightarrow> world \<Rightarrow> (string \<times> string) list" where
  "put_blob key raw w = (key, raw) # filter (\<lambda>kv. fst kv \<noteq> key) (w_blobs w)"

lemma put_blob: "map_of (put_blob key raw w) key = Some raw" "k \<noteq> key \<Longrightarrow> map_of (put_blob key raw w) k = map_of (w_blobs w) k"
  by (simp_all add: put_blob_def map_of_others)

lemma recorded_ok:
  assumes "bounced (w_db w) (put_blob (bounce_key (bh_digest b raw)) raw w) (db_bounces (w_db w) @ new) w'"
    and "map be_message_id new = map bc_message_id rs" and "\<And>e. e \<in> set new \<Longrightarrow> event_of b raw (w_clock w) e"
  shows "recorded b raw rs w (Inr ()) w' new"
proof -
  from assms(1) have "w_blobs w' = put_blob (bounce_key (bh_digest b raw)) raw w" by (simp add: bounced_def)
  with assms put_blob show ?thesis unfolding recorded_def sum.case by simp
qed

lemma recorded_failed:
  assumes "bounced (w_db w) (put_blob (bounce_key (bh_digest b raw)) raw w) (db_bounces (w_db w)) w'"
  shows "recorded b raw rs w (Inl e) w' []"
proof -
  from assms have "w_blobs w' = put_blob (bounce_key (bh_digest b raw)) raw w" by (simp add: bounced_def)
  with assms put_blob show ?thesis unfolding recorded_def sum.case append_Nil2 by simp
qed

lemma bounced_insert:
  assumes "bounced d blobs B w"
  shows "wp (insertRows T_bounces be_id new) (\<lambda>r w'. case r of Inl _ \<Rightarrow> bounced d blobs B w' | Inr x \<Rightarrow> x = new \<and> bounced d blobs (B @ new) w') w"
  using assms by (simp add: insertRows_def wp_dbcall table_defs bounced_def)

lemma record_stored:
  assumes "uniqueRecipients recipients = rs" and "rs \<noteq> []"
  shows "wp (Record b recipients raw) (\<lambda>r w'. \<exists>new. recorded b raw rs w r w' new) w" (is "wp _ ?Q w")
proof (cases "faulty w")
  case True
  then have "putBlob (bounce_key (bh_digest b raw)) raw w = (Inl BlobError, pop w)" by (simp add: putBlob_eq)
  then show ?thesis
    unfolding Record_def Let_def assms(1) if_not_P [OF assms(2)] wp_bindE [of "putBlob _ _"] wp_def [of "putBlob _ _"]
    by (auto simp: recorded_def bounced_def intro!: exI [of _ "[]"])
next
  case False
  let ?key = "bounce_key (bh_digest b raw)"
  let ?row = "bounce_row ?key (bh_digest b raw) raw (bounceDetails b (w_clock w) raw) (w_clock w)"
  define w1 where "w1 = (pop w)\<lparr>w_blobs := put_blob ?key raw w\<rparr>"
  have w1: "bounced (w_db w) (put_blob ?key raw w) (db_bounces (w_db w)) w1" "w_clock w1 = w_clock w"
    by (simp_all add: w1_def bounced_def)
  have last: "wp (bindE (insertRows T_bounces be_id new) (\<lambda>added. forE added (emitDomainBounce b))) ?Q w2"
    if w2: "bounced (w_db w) (put_blob ?key raw w) (db_bounces (w_db w)) w2" and new: "map be_message_id new = map bc_message_id rs"
      "\<And>e. e \<in> set new \<Longrightarrow> event_of b raw (w_clock w) e" for new w2
    unfolding wp_bindE
  proof (rule wp_mono [OF bounced_insert [OF w2]])
    fix x :: "err + bounce_event list" and w3 :: world
    assume x: "case x of Inl _ \<Rightarrow> bounced (w_db w) (put_blob ?key raw w) (db_bounces (w_db w)) w3
      | Inr x \<Rightarrow> x = new \<and> bounced (w_db w) (put_blob ?key raw w) (db_bounces (w_db w) @ new) w3"
    show "case x of Inl e \<Rightarrow> ?Q (Inl e) w3 | Inr added \<Rightarrow> wp (forE added (emitDomainBounce b)) ?Q w3"
    proof (cases x)
      case (Inl e)
      with x have "bounced (w_db w) (put_blob ?key raw w) (db_bounces (w_db w)) w3" by simp
      from recorded_failed [OF this] show ?thesis unfolding Inl sum.case by blast
    next
      case (Inr added)
      with x have a: "added = new" "bounced (w_db w) (put_blob ?key raw w) (db_bounces (w_db w) @ new) w3" by simp_all
      show ?thesis
        unfolding Inr sum.case a(1) by (rule wp_mono [OF wp_emit_bounces [OF a(2)]]) (use recorded_ok new in blast)
    qed
  qed
  have "wp (bindE (mapE rs (\<lambda>r. bindE newID (\<lambda>i. ret (?row i r)))) (\<lambda>rows. bindE (insertRows T_bounces be_id rows) (\<lambda>added.
      forE added (emitDomainBounce b)))) ?Q w1"
    unfolding wp_bindE [of "mapE _ _"]
  proof (rule wp_mono [OF wp_rows])
    fix x :: "err + bounce_event list" and w2 :: world
    assume "\<exists>is. x = Inr (map2 ?row is rs) \<and> length is = length rs \<and> w2 = w1\<lparr>w_idc := w_idc w1 + length rs\<rparr>"
    then obtain "is" where x: "x = Inr (map2 ?row is rs)" "length is = length rs" and w2: "w2 = w1\<lparr>w_idc := w_idc w1 + length rs\<rparr>" by blast
    from w1(1) w2 have "bounced (w_db w) (put_blob ?key raw w) (db_bounces (w_db w)) w2" by (simp add: bounced_def)
    from last [OF this map2_rows [OF x(2)] rows_events]
    show "case x of Inl e \<Rightarrow> ?Q (Inl e) w2 | Inr rows \<Rightarrow> wp (bindE (insertRows T_bounces be_id rows) (\<lambda>added. forE added (emitDomainBounce b))) ?Q w2"
      unfolding x sum.case .
  qed
  moreover have "putBlob ?key raw w = (Inr (), w1)" using False by (simp add: putBlob_eq w1_def put_blob_def)
  ultimately show ?thesis
    unfolding Record_def Let_def assms(1) if_not_P [OF assms(2)] wp_bindE [of "putBlob _ _"] wp_bindE [of now] wp_now wp_def [of "putBlob _ _"]
    by (simp add: w1(2))
qed

lemma bounces_recorded_new:
  assumes "Record b recipients raw w = (r, w')" and "recipients \<noteq> []"
  shows "(\<exists>new. recorded b raw (uniqueRecipients recipients) w r w' new)
    \<and> distinct (map bc_message_id (uniqueRecipients recipients)) \<and> bc_message_id ` set (uniqueRecipients recipients) = bc_message_id ` set recipients"
proof (intro conjI)
  show "distinct (map bc_message_id (uniqueRecipients recipients))" unfolding uniqueRecipients_def by (rule dedup_on_distinct)
  show s: "bc_message_id ` set (uniqueRecipients recipients) = bc_message_id ` set recipients"
    by (simp add: uniqueRecipients_def dedup_on_set)
  with assms(2) have "uniqueRecipients recipients \<noteq> []" by auto
  from wpD [OF record_stored [OF refl this] assms(1)] show "\<exists>new. recorded b raw (uniqueRecipients recipients) w r w' new" .
qed

text \<open>
  C40.  A notification is recorded as a whole or not at all: when \<^verbatim>\<open>Record\<close> succeeds the object is stored and each message it
  names has one new event, with what was read out of it; when it fails the tables are as they were.  Nothing but the events
  and the event log changes in either case.
\<close>

theorem bounces_recorded:
  assumes "Record b recipients raw w = (r, w')" and "recipients \<noteq> []"
  shows "(\<exists>new. recorded b raw (uniqueRecipients recipients) w r w' new)
    \<and> distinct (map bc_message_id (uniqueRecipients recipients)) \<and> bc_message_id ` set (uniqueRecipients recipients) = bc_message_id ` set recipients"
  by (rule bounces_recorded_new [OF assms])

theorem bounces_recorded_witness:
  "fst (Record sample_bounces [\<lparr>bc_address = ''bounces+i@b'', bc_message_id = ''i''\<rparr>, \<lparr>bc_address = ''Bounces+i@b'', bc_message_id = ''i''\<rparr>] ''hi'' sample_world) = Inr ()
   \<and> (\<exists>e. db_bounces (w_db (snd (Record sample_bounces [\<lparr>bc_address = ''bounces+i@b'', bc_message_id = ''i''\<rparr>, \<lparr>bc_address = ''Bounces+i@b'', bc_message_id = ''i''\<rparr>] ''hi'' sample_world))) = [e]
        \<and> be_message_id e = ''i'')"
proof -
  let ?rs = "[\<lparr>bc_address = ''bounces+i@b'', bc_message_id = ''i''\<rparr>, \<lparr>bc_address = ''Bounces+i@b'', bc_message_id = ''i''\<rparr>]"
  let ?run = "Record sample_bounces ?rs ''hi'' sample_world"
  have u: "uniqueRecipients ?rs = [\<lparr>bc_address = ''bounces+i@b'', bc_message_id = ''i''\<rparr>]" by (simp add: uniqueRecipients_def)
  have start: "db_bounces (w_db sample_world) = []" "w_faults sample_world = []"
    by (simp_all add: sample_world_def world_of_def sample_db_def empty_db_def)
  then have ok: "fst ?run = Inr ()"
    by (simp add: Record_def u Let_def bindE_def putBlob_eq now_def newID_def ret_def insertRows_def dbcall_eq emitDomainBounce_def
        sample_bounces_def table_defs faulty_def pop_def bounce_row_def)
  then have run: "?run = (Inr (), snd ?run)" by (metis prod.collapse)
  from bounces_recorded [OF run list.distinct(2)] obtain new where "recorded sample_bounces ''hi'' (uniqueRecipients ?rs) sample_world (Inr ()) (snd ?run) new" by blast
  then have "db_bounces (w_db (snd ?run)) = new" and "map be_message_id new = [''i'']" by (simp_all add: recorded_def bounced_def start u)
  with ok show ?thesis by (cases new) auto
qed

end
