(* ===== verification/Delivery_Props.thy ===== *)
theory Delivery_Props
  imports Delivery Samples
begin

text \<open>
  Delivery is all or nothing: the specification of the pending rows, of the transaction that stores the message, and of the
  handler as a whole.
\<close>

section \<open>Pending rows\<close>

definition folder_name_for :: "assessment \<Rightarrow> string \<Rightarrow> string" where
  "folder_name_for a mailboxID = (if JunkForMailbox a mailboxID then ''Junk'' else ''INBOX'')"

definition pending_ok :: "db \<Rightarrow> string \<Rightarrow> int \<Rightarrow> assessment \<Rightarrow> pending_delivery \<Rightarrow> bool" where
  "pending_ok d messageID sz a p \<longleftrightarrow> at_message_id (pd_attach p) = messageID \<and> at_size_bytes (pd_attach p) = sz
     \<and> at_enforce_quota (pd_attach p)
     \<and> (\<exists>f \<in> set (db_folders d). fo_id f = at_folder_id (pd_attach p) \<and> fo_mailbox_id f = at_mailbox_id (pd_attach p)
          \<and> fo_name f = folder_name_for a (at_mailbox_id (pd_attach p)))"

definition pending_inv :: "world \<Rightarrow> string \<Rightarrow> int \<Rightarrow> assessment \<Rightarrow> mailbox list \<Rightarrow> string list \<times> pending_delivery list \<Rightarrow> world \<Rightarrow> bool" where
  "pending_inv w messageID sz a boxes st w' \<longleftrightarrow> w_db w' = w_db w \<and> w_notifier w' = w_notifier w
     \<and> set (fst st) = mb_id ` set boxes
     \<and> map (\<lambda>p. at_mailbox_id (pd_attach p)) (snd st) = map mb_id (dedup_on mb_id [] boxes)
     \<and> (\<forall>p \<in> set (snd st). pending_ok (w_db w) messageID sz a p)"

lemma only_ok: "only xs = Inr x \<Longrightarrow> xs = [x]"
  by (cases xs rule: only.cases) auto

lemma pending_one_spec:
  assumes "pending_inv w messageID sz a boxes st w1"
  shows "wp (pending_one messageID sz a recipient st x) (\<lambda>r w'. case r of Inl _ \<Rightarrow> w_db w' = w_db w \<and> w_notifier w' = w_notifier w
    | Inr st' \<Rightarrow> pending_inv w messageID sz a (boxes @ [x]) st' w') w1"
proof (cases st)
  case (Pair seen pending)
  show ?thesis
  proof (cases "mb_id x \<in> set seen")
    case True
    then show ?thesis using assms Pair
      by (auto simp: pending_one_def wp_simps pending_inv_def dedup_on_snoc)
  next
    case False
    let ?p = "\<lambda>f. fo_mailbox_id f = mb_id x \<and> fo_name f = folder_name_for a (mb_id x)"
    note inv = assms [unfolded pending_inv_def Pair fst_conv snd_conv]
    show ?thesis
    proof (cases "faulty w1")
      case True
      with False inv show ?thesis
        by (simp add: Pair pending_one_def FolderByName_def wp_bindE wp_selectOnly Let_def)
    next
      case ok: False
      show ?thesis
      proof (cases "only (filter ?p (db_folders (w_db w)))")
        case (Inl e)
        with False ok inv show ?thesis
          by (simp add: Pair pending_one_def FolderByName_def wp_bindE wp_selectOnly Let_def T_folders_def folder_name_for_def)
      next
        case (Inr f)
        then have "filter ?p (db_folders (w_db w)) = [f]" by (rule only_ok)
        then have f: "f \<in> set (db_folders (w_db w))" "?p f" by (auto simp: filter_eq_Cons_iff)
        with False ok inv Inr show ?thesis
          by (simp add: Pair pending_one_def FolderByName_def wp_bindE wp_selectOnly wp_ret Let_def T_folders_def
              folder_name_for_def [symmetric])
             (auto simp: pending_inv_def dedup_on_snoc pending_ok_def)
      qed
    qed
  qed
qed

lemma pendingDeliveries_spec:
  "wp (pendingDeliveries messageID sz recipients a) (\<lambda>r w'. w_db w' = w_db w \<and> w_notifier w' = w_notifier w
     \<and> (case r of Inl _ \<Rightarrow> True | Inr pending \<Rightarrow>
         map (\<lambda>p. at_mailbox_id (pd_attach p)) pending = map mb_id (destinations recipients)
         \<and> (\<forall>p \<in> set pending. pending_ok (w_db w) messageID sz a p))) w"
proof -
  let ?pairs = "concat (map (\<lambda>r. map (Pair r) (re_mailboxes r)) recipients)"
  have boxes: "map snd ?pairs = concat (map re_mailboxes recipients)" by (induction recipients) (simp_all add: o_def)
  have step: "wp (pending_one messageID sz a r st x) (\<lambda>r' w'. case r' of Inl _ \<Rightarrow> w_db w' = w_db w \<and> w_notifier w' = w_notifier w
      | Inr st' \<Rightarrow> pending_inv w messageID sz a (map snd (ys @ [(r, x)])) st' w') w1"
    if "pending_inv w messageID sz a (map snd ys) st w1" for ys r x st w1
    unfolding map_append list.map snd_conv by (rule pending_one_spec [OF that])
  have "wp (foldE (\<lambda>st (r, x). pending_one messageID sz a r st x) ([], []) ?pairs)
    (\<lambda>r w'. case r of Inl _ \<Rightarrow> w_db w' = w_db w \<and> w_notifier w' = w_notifier w
      | Inr st \<Rightarrow> pending_inv w messageID sz a (map snd ?pairs) st w') w"
    by (rule wp_foldE [where I = "\<lambda>ys. pending_inv w messageID sz a (map snd ys)"])
       (auto simp: pending_inv_def [of w messageID sz a "[]"] intro: step)
  then show ?thesis
    unfolding pendingDeliveries_def foldE_nested wp_bindE boxes
    by (rule wp_mono) (auto simp: wp_simps pending_inv_def destinations_def split: sum.splits)
qed

section \<open>The transaction\<close>

definition deliveries_db :: "(pending_delivery \<times> delivery) list \<Rightarrow> db \<Rightarrow> db" where
  "deliveries_db pds d = foldl (\<lambda>d pd. attach_db (pd_attach (fst pd)) (de_message (snd pd)) d) d pds"

definition row_of :: "attach \<Rightarrow> mailbox_message \<Rightarrow> bool" where
  "row_of p item \<longleftrightarrow> mm_mailbox_id item = at_mailbox_id p \<and> mm_message_id item = at_message_id p
     \<and> mm_folder_id item = at_folder_id p \<and> mm_deleted_at item = None"

lemma attached_row: "attached p w item \<Longrightarrow> row_of p item"
  by (auto simp: attached_def new_mm_def row_of_def)

lemma deliveriesInTx_spec:
  "wp (deliveriesInTx pending) (\<lambda>r w'. w_notifier w' = w_notifier w \<and> (case r of Inl _ \<Rightarrow> True | Inr ds \<Rightarrow>
      list_all2 (\<lambda>p d. row_of (pd_attach p) (de_message d) \<and> de_route d = pd_route p) pending ds
      \<and> w_db w' = deliveries_db (zip pending ds) (w_db w))) w"
proof (induction pending arbitrary: w)
  case Nil
  then show ?case by (simp add: deliveriesInTx_def wp_simps deliveries_db_def)
next
  case (Cons p ps)
  have "wp (deliveriesInTx ps) (\<lambda>r w'. w_notifier w' = n \<and> (case r of Inl _ \<Rightarrow> True | Inr ds \<Rightarrow>
      list_all2 (\<lambda>p d. row_of (pd_attach p) (de_message d) \<and> de_route d = pd_route p) ps ds
      \<and> w_db w' = deliveries_db (zip ps ds) (attach_db (pd_attach p) item d))) w1"
    if "w_notifier w1 = n" "w_db w1 = attach_db (pd_attach p) item d" for w1 n item d
    using Cons [of w1] unfolding that .
  note rest = this [unfolded deliveriesInTx_def]
  show ?case
    unfolding deliveriesInTx_def mapE.simps bindE_assoc wp_bindE [of "attachInTx (pd_attach p)"]
  proof (rule wp_mono [OF attachInTx_spec])
    fix r :: "err + mailbox_message" and w' :: world
    assume r: "case r of Inl _ \<Rightarrow> w_notifier w' = w_notifier w
      | Inr item \<Rightarrow> attached (pd_attach p) w item \<and> w_db w' = attach_db (pd_attach p) item (w_db w) \<and> w_notifier w' = w_notifier w"
    let ?Q = "\<lambda>r (w' :: world). w_notifier w' = w_notifier w \<and> (case r of Inl _ \<Rightarrow> True | Inr ds \<Rightarrow>
      list_all2 (\<lambda>p d. row_of (pd_attach p) (de_message d) \<and> de_route d = pd_route p) (p # ps) ds
      \<and> w_db w' = deliveries_db (zip (p # ps) ds) (w_db w))"
    show "case r of Inl e \<Rightarrow> ?Q (Inl e) w'
      | Inr x \<Rightarrow> wp (bindE (ret \<lparr>de_message = x, de_route = pd_route p\<rparr>) (\<lambda>y. bindE (mapE ps (\<lambda>p. bindE (attachInTx (pd_attach p))
           (\<lambda>item. ret \<lparr>de_message = item, de_route = pd_route p\<rparr>))) (\<lambda>ys. ret (y # ys)))) ?Q w'"
    proof (cases r)
      case (Inl e)
      with r show ?thesis by simp
    next
      case (Inr item)
      with r have i: "row_of (pd_attach p) item" "w_db w' = attach_db (pd_attach p) item (w_db w)" "w_notifier w' = w_notifier w"
        by (auto dest: attached_row)
      show ?thesis
        unfolding Inr sum.case bindE_ret wp_bindE
        by (rule wp_mono [OF rest [OF i(3,2)]]) (use i in \<open>auto simp: wp_simps deliveries_db_def split: sum.splits\<close>)
    qed
  qed
qed

lemma deliveries_db_rows:
  "length pending = length ds \<Longrightarrow>
     db_mms (deliveries_db (zip pending ds) d) = db_mms d @ map de_message ds
   \<and> db_messages (deliveries_db (zip pending ds) d) = db_messages d"
  by (induction pending ds arbitrary: d rule: list_induct2) (simp_all add: deliveries_db_def attach_db_def)

lemma storeInTx_spec:
  "wp (storeInTx msg pending) (\<lambda>r w'. w_notifier w' = w_notifier w \<and> (case r of Inl _ \<Rightarrow> True | Inr ds \<Rightarrow>
      list_all2 (\<lambda>p d. row_of (pd_attach p) (de_message d) \<and> de_route d = pd_route p) pending ds
      \<and> db_mms (w_db w') = db_mms (w_db w) @ map de_message ds
      \<and> db_messages (w_db w') = db_messages (w_db w) @ [msg])) w"
proof -
  have "wp (deliveriesInTx pending) (\<lambda>r w'. w_notifier w' = w_notifier w \<and> (case r of Inl _ \<Rightarrow> True | Inr ds \<Rightarrow>
      list_all2 (\<lambda>p d. row_of (pd_attach p) (de_message d) \<and> de_route d = pd_route p) pending ds
      \<and> db_mms (w_db w') = db_mms (w_db w) @ map de_message ds
      \<and> db_messages (w_db w') = db_messages (w_db w) @ [msg])) ((pop w)\<lparr>w_db := (w_db w)\<lparr>db_messages := db_messages (w_db w) @ [msg]\<rparr>\<rparr>)"
    by (rule wp_mono [OF deliveriesInTx_spec])
       (auto simp: deliveries_db_rows dest: list_all2_lengthD split: sum.splits)
  then show ?thesis
    by (simp add: storeInTx_def wp_simps T_messages_def)
qed

lemma storeInTx_blobs: "preserves (\<lambda>w. w_blobs w = b) (storeInTx msg pending)"
  unfolding storeInTx_def deliveriesInTx_def attachInTx_def allocateFolderUID_def addUsedBytes_def
  by (intro preserves_intros preserves_blobs)

section \<open>The handler\<close>

definition arrival :: "delivery \<Rightarrow> change" where
  "arrival d = mk_change (mm_mailbox_id (de_message d)) (FolderContainer (mm_folder_id (de_message d))) ChangeExists (mm_uid (de_message d)) []"

definition arrivals :: "delivery list \<Rightarrow> notifier \<Rightarrow> notifier" where
  "arrivals ds n = foldl (\<lambda>n d. Publish (arrival d) n) n ds"

lemma notify_all_run:
  "list_all2 (\<lambda>p d. row_of (pd_attach p) (de_message d) \<and> P p d) pending ds \<Longrightarrow>
     notify_all pending ds w = (Inr (), w\<lparr>w_notifier := arrivals ds (w_notifier w)\<rparr>)"
proof (induction arbitrary: w rule: list_all2_induct)
  case Nil
  then show ?case by (simp add: notify_all_def arrivals_def ret_def)
next
  case (Cons p ps d ds)
  then show ?case
    by (simp add: notify_all_def NotifyAttached_def bindE_def publish_def row_of_def arrivals_def arrival_def)
qed

lemma after_commit_returns: "fst (after_commit s msg ds recipients w) = Inr ()"
  by (simp add: after_commit_def bindE_def tryE_def ret_def split: prod.split)

text \<open>
  The state \<open>w1\<close> is \<open>w\<close> with the message stored and delivered: its object is under its key, one row for it is added for each
  destination mailbox, in the mailbox's folder for its verdict, and the arrival of each row is published.
\<close>

definition delivered :: "assessment \<Rightarrow> string \<Rightarrow> result list \<Rightarrow> world \<Rightarrow> message \<Rightarrow> delivery list \<Rightarrow> world \<Rightarrow> bool" where
  "delivered a stored recipients w msg ds w1 \<longleftrightarrow>
     map_of (w_blobs w1) (me_blob_key msg) = Some stored \<and> me_size_bytes msg = int (length stored)
     \<and> db_messages (w_db w1) = db_messages (w_db w) @ [msg]
     \<and> db_mms (w_db w1) = db_mms (w_db w) @ map de_message ds
     \<and> map (\<lambda>d. mm_mailbox_id (de_message d)) ds = map mb_id (destinations recipients)
     \<and> (\<forall>d \<in> set ds. mm_message_id (de_message d) = me_id msg \<and> mm_deleted_at (de_message d) = None
         \<and> (\<exists>f \<in> set (db_folders (w_db w)). fo_id f = mm_folder_id (de_message d) \<and> fo_mailbox_id f = mm_mailbox_id (de_message d)
              \<and> fo_name f = (if JunkForMailbox a (mm_mailbox_id (de_message d)) then ''Junk'' else ''INBOX'')))
     \<and> w_notifier w1 = arrivals ds (w_notifier w)"

lemma rows_of_pending:
  assumes "list_all2 (\<lambda>p d. row_of (pd_attach p) (de_message d) \<and> P p d) pending ds"
  shows "map (\<lambda>d. mm_mailbox_id (de_message d)) ds = map (\<lambda>p. at_mailbox_id (pd_attach p)) pending"
    and "(\<forall>p \<in> set pending. pending_ok db messageID sz a p) \<Longrightarrow> d \<in> set ds \<Longrightarrow>
      mm_message_id (de_message d) = messageID \<and> mm_deleted_at (de_message d) = None
         \<and> (\<exists>f \<in> set (db_folders db). fo_id f = mm_folder_id (de_message d) \<and> fo_mailbox_id f = mm_mailbox_id (de_message d)
              \<and> fo_name f = (if JunkForMailbox a (mm_mailbox_id (de_message d)) then ''Junk'' else ''INBOX''))"
  using assms
  by (induction rule: list_all2_induct) (auto simp: row_of_def pending_ok_def folder_name_for_def)

lemma deliver_run:
  assumes "deliver s messageID traceID stored md recipients a w = (r, w')"
  shows "(\<exists>e. r = Inl e \<and> w_db w' = w_db w \<and> w_notifier w' = w_notifier w)
    \<or> (\<exists>msg ds w1. r = Inr msg \<and> me_id msg = messageID \<and> delivered a stored recipients w msg ds w1
         \<and> w' = snd (after_commit s msg ds recipients w1))"
proof -
  let ?key = "messageObjectKey (w_clock w) messageID"
  let ?msg = "new_message s messageID traceID ?key stored md a (w_clock w)"
  let ?pend = "pendingDeliveries messageID (int (length stored)) recipients a"
  obtain r1 w1 where p: "?pend w = (r1, w1)" by (cases "?pend w")
  note spec1 = wpD [OF pendingDeliveries_spec p]
  note run = assms [unfolded deliver_def Let_def bindE_def [of now] now_def prod.case sum.case]
  show ?thesis
  proof (cases r1)
    case (Inl e)
    with run p spec1 show ?thesis by (auto simp: bindE_def)
  next
    case (Inr pending)
    obtain r2 w2 where b: "putBlob ?key stored w1 = (r2, w2)" by (cases "putBlob ?key stored w1")
    have b2: "w_db w2 = w_db w1" "w_notifier w2 = w_notifier w1" "r2 = Inr () \<Longrightarrow> map_of (w_blobs w2) ?key = Some stored"
      using b by (auto simp: putBlob_eq split: if_splits)
    show ?thesis
    proof (cases r2)
      case (Inl e)
      with run p b b2 spec1 \<open>r1 = Inr pending\<close> show ?thesis by (auto simp: bindE_def)
    next
      case blob: (Inr u)
      obtain r3 w3 where t: "in_tx (storeInTx ?msg pending) w2 = (r3, w3)" by (cases "in_tx (storeInTx ?msg pending) w2")
      have "wp (in_tx (storeInTx ?msg pending)) (\<lambda>r w'. w_notifier w' = w_notifier w2 \<and> (case r of Inl _ \<Rightarrow> w_db w' = w_db w2
        | Inr ds \<Rightarrow> list_all2 (\<lambda>p d. row_of (pd_attach p) (de_message d) \<and> de_route d = pd_route p) pending ds
            \<and> db_mms (w_db w') = db_mms (w_db w2) @ map de_message ds
            \<and> db_messages (w_db w') = db_messages (w_db w2) @ [?msg])) w2"
        by (intro in_tx_spec wp_mono [OF storeInTx_spec]) (auto split: sum.splits)
      from wpD [OF this t] have t1: "w_notifier w3 = w_notifier w2" "case r3 of Inl _ \<Rightarrow> w_db w3 = w_db w2
        | Inr ds \<Rightarrow> list_all2 (\<lambda>p d. row_of (pd_attach p) (de_message d) \<and> de_route d = pd_route p) pending ds
            \<and> db_mms (w_db w3) = db_mms (w_db w2) @ map de_message ds
            \<and> db_messages (w_db w3) = db_messages (w_db w2) @ [?msg]" by simp_all
      have blobs: "w_blobs w3 = w_blobs w2"
        by (rule preservesD [OF preserves_blobs_in_tx [OF storeInTx_blobs] refl t])
      show ?thesis
      proof (cases r3)
        case (Inl e)
        with run p b b2 t t1 spec1 \<open>r1 = Inr pending\<close> blob show ?thesis by (auto simp: bindE_def)
      next
        case (Inr ds)
        with t1 have l: "list_all2 (\<lambda>p d. row_of (pd_attach p) (de_message d) \<and> de_route d = pd_route p) pending ds" by simp
        let ?w4 = "w3\<lparr>w_notifier := arrivals ds (w_notifier w3)\<rparr>"
        have "delivered a stored recipients w ?msg ds ?w4"
          using spec1 b2 blob t1 Inr blobs \<open>r1 = Inr pending\<close> rows_of_pending(1) [OF l]
            rows_of_pending(2) [OF l, of "w_db w" messageID "int (length stored)" a]
          by (simp add: delivered_def new_message_def)
        moreover have "r = Inr ?msg \<and> w' = snd (after_commit s ?msg ds recipients ?w4)"
          using run p b t Inr blob \<open>r1 = Inr pending\<close> notify_all_run [OF l, of w3] after_commit_returns [of s ?msg ds recipients ?w4]
          by (cases "after_commit s ?msg ds recipients ?w4") (simp add: bindE_def ret_def)
        ultimately show ?thesis by (intro disjI2 exI [of _ ?msg] exI [of _ ds] exI [of _ ?w4]) (simp add: new_message_def)
      qed
    qed
  qed
qed

section \<open>Properties\<close>

text \<open>
  C3.  Delivery is all or nothing, whatever calls fail.  If \<^verbatim>\<open>Deliver\<close> returns an error, the tables and the subscribers are as
  before.  If it returns a message, the message's object is stored under its key, and every destination mailbox, each once
  however many recipients lead to it, has one new row for it, in \<^verbatim>\<open>Junk\<close> or in \<^verbatim>\<open>INBOX\<close> as the mailbox's own verdict says, whose
  arrival is published; what then happens to the rows is only what the routing rules and the event log do, whose errors
  do not reach the caller.
\<close>

theorem deliver_atomic:
  assumes "Deliver s raw recipients a w = (r, w')"
  shows "(\<exists>e. r = Inl e \<and> w_db w' = w_db w \<and> w_notifier w' = w_notifier w)
    \<or> (\<exists>msg ds w1 traceID. r = Inr msg
         \<and> delivered a (withTraceHeaders s (w_clock w) (NormalizeMessage raw) traceID (as_header a)) recipients w msg ds w1
         \<and> w' = snd (after_commit s msg ds recipients w1))"
proof -
  let ?w = "w\<lparr>w_idc := Suc (Suc (w_idc w))\<rparr>" and ?traceID = "w_ids w (Suc (w_idc w))"
  let ?stored = "withTraceHeaders s (w_clock w) (NormalizeMessage raw) ?traceID (as_header a)"
  have d: "delivered a st rs ?w msg ds w1 = delivered a st rs w msg ds w1" for st rs msg ds w1
    by (simp add: delivered_def)
  have "deliver s (w_ids w (w_idc w)) ?traceID ?stored (Parse (ds_mime s) ?stored) recipients a ?w = (r, w')"
    using assms by (simp add: Deliver_def bindE_def newID_def now_def Let_def)
  from deliver_run [OF this] show ?thesis unfolding d by simp blast
qed

definition delivery_world :: world where
  "delivery_world = world_of (sample_db\<lparr>db_folders := sample_folder ''junk'' ''Junk'' 1 # db_folders sample_db\<rparr>)"

definition sample_service :: delivery_service where
  "sample_service = \<lparr>ds_public_hostname = ''mx'', ds_instance_name = ''n1'', ds_rules = False, ds_events = False,
     ds_digest = (\<lambda>_. ''hash''), ds_mime = (\<lambda>_. None)\<rparr>"

definition sample_route_result :: result where
  "sample_route_result = \<lparr>re_original_recipient = ''ann@example.org'', re_base_recipient = ''ann@example.org'', re_plus_tag = [],
     re_route_id = [], re_mailboxes = [sample_mailbox]\<rparr>"

definition sample_verdict :: assessment where
  "sample_verdict = \<lparr>as_score = Fin 0, as_reasons = [], as_auth_results = [], as_auth_reasons = [], as_typesafe = None, as_header = [],
     as_junk = False, as_reject = False, as_mailboxes = []\<rparr>"

text \<open>A world whose mailbox has the quota \<open>q\<close>; a run of the handler in it does not depend on the bytes of the message.\<close>

definition quota_world :: "int \<Rightarrow> world" where
  "quota_world q = delivery_world\<lparr>w_db := (w_db delivery_world)\<lparr>db_mailboxes := [sample_mailbox\<lparr>mb_quota_bytes := q\<rparr>]\<rparr>\<rparr>"

lemmas deliver_run_simps = Deliver_def deliver_def Let_def bindE_def newID_def now_def ret_def fail_def pendingDeliveries_def
  pending_one_def FolderByName_def JunkForMailbox_def putBlob_eq in_tx_def dbcall_eq storeInTx_def deliveriesInTx_def attachInTx_def
  allocateFolderUID_def addUsedBytes_def selectOnly_def updateOne_def updateWhere_def insertRow_def table_defs notify_all_def
  NotifyAttached_def publish_def after_commit_def message_clash_def mm_clash_def new_message_def new_mm_def bump_folder_def
  add_used_def faulty_def pop_def

lemmas sample_simps = sample_service_def sample_verdict_def sample_route_result_def delivery_world_def world_of_def sample_db_def
  empty_db_def sample_mailbox_def sample_folder_def sample_message_def sample_row_def quota_world_def

theorem deliver_atomic_witness:
  "w_db (snd (Deliver sample_service ''A: b'' [sample_route_result, sample_route_result] sample_verdict (quota_world 1))) = w_db (quota_world 1)
   \<and> (\<exists>msg ds w1 traceID. delivered sample_verdict (withTraceHeaders sample_service 1000 (NormalizeMessage ''A: b'') traceID [])
        [sample_route_result, sample_route_result] (quota_world 0) msg ds w1 \<and> length ds = 1)"
proof -
  let ?full = "Deliver sample_service ''A: b'' [sample_route_result, sample_route_result] sample_verdict (quota_world 1)"
    and ?ok = "Deliver sample_service ''A: b'' [sample_route_result, sample_route_result] sample_verdict (quota_world 0)"
  have r: "\<not> returns ?full" "returns ?ok" by (simp_all add: deliver_run_simps sample_simps returns_def)
  have w: "w_clock (quota_world 0) = 1000" "as_header sample_verdict = []" "length (destinations [sample_route_result, sample_route_result]) = 1"
    by (simp_all add: sample_simps destinations_def)
  have "w_db (snd ?full) = w_db (quota_world 1)"
    using r(1) deliver_atomic [OF prod.collapse [symmetric], of sample_service "''A: b''" "[sample_route_result, sample_route_result]" sample_verdict "quota_world 1"]
    by (auto simp: returns_def)
  moreover obtain msg ds w1 traceID where d: "delivered sample_verdict (withTraceHeaders sample_service 1000 (NormalizeMessage ''A: b'') traceID [])
        [sample_route_result, sample_route_result] (quota_world 0) msg ds w1"
    using r(2) w deliver_atomic [OF prod.collapse [symmetric], of sample_service "''A: b''" "[sample_route_result, sample_route_result]" sample_verdict "quota_world 0"]
    by (auto simp: returns_def)
  moreover from d have "length ds = length (destinations [sample_route_result, sample_route_result])"
    unfolding delivered_def by (metis length_map)
  ultimately show ?thesis using w(3) by metis
qed

text \<open>
  The trace fields are only removed from a header that keeps a field: when every field is removed the body follows the
  trace block without an empty line between them, and its first line is read as a field of the stored message.
\<close>

lemma forged_trace_field:
  "\<exists>block. withTraceHeaders sample_service 0
     (''X-Haitatsu-Node: x'' @ CRLF @ CRLF @ ''Authentication-Results: mx; dkim=pass'' @ CRLF) ''t'' ''mx; dkim=fail''
   = trace_block sample_service block ''mx; dkim=fail'' ''t'' @ ''Authentication-Results: mx; dkim=pass'' @ CRLF @ CRLF"
proof (rule exI [of _ "format_rfc1123z 0"])
  have "JoinHeaderBody (foldl RemoveHeaderField (fst (SplitHeaderBody (''X-Haitatsu-Node: x'' @ CRLF @ CRLF @ ''Authentication-Results: mx; dkim=pass'' @ CRLF))) trace_fields)
     (snd (SplitHeaderBody (''X-Haitatsu-Node: x'' @ CRLF @ CRLF @ ''Authentication-Results: mx; dkim=pass'' @ CRLF)))
   = ''Authentication-Results: mx; dkim=pass'' @ CRLF @ CRLF" by code_simp
  then show "withTraceHeaders sample_service 0
     (''X-Haitatsu-Node: x'' @ CRLF @ CRLF @ ''Authentication-Results: mx; dkim=pass'' @ CRLF) ''t'' ''mx; dkim=fail''
   = trace_block sample_service (format_rfc1123z 0) ''mx; dkim=fail'' ''t'' @ ''Authentication-Results: mx; dkim=pass'' @ CRLF @ CRLF"
    by (simp add: withTraceHeaders_def Let_def)
qed

end
