(* ===== verification/Spam_Props.thy ===== *)
theory Spam_Props
  imports Spam Io_Logic Samples
begin

text \<open>
  What the spam policy guarantees: an allow rule for a sender cannot be used without authentication, a DMARC policy is
  enforced, and a message is placed in each mailbox by that mailbox's own thresholds.
\<close>

section \<open>Sender rules\<close>

lemma find_SomeD: "find p xs = Some x \<Longrightarrow> x \<in> set xs \<and> p x"
  by (auto simp: find_Some_iff)

lemma wp_entries:
  "wp (sender_rule_entries orc recipients) (\<lambda>r w'. case r of Inl _ \<Rightarrow> True | Inr es \<Rightarrow> set es \<subseteq> set (db_sender_rules (w_db w))) w"
  by (auto simp: sender_rule_entries_def wp_simps Let_def T_sender_rules_def)

lemma senderRuleMatch_found:
  assumes "senderRuleMatch orc md smtp recipients auth w = (Inr (kind, action), w')" and "kind \<noteq> []"
  shows "\<exists>e \<in> set (db_sender_rules (w_db w)). matches orc e md smtp auth \<and> sr_kind e = kind \<and> sr_action e = action"
proof -
  from assms(1) obtain es w1 where e: "sender_rule_entries orc recipients w = (Inr es, w1)"
      and k: "(kind, action) = (case find (\<lambda>e. matches orc e md smtp auth) es of Some e \<Rightarrow> (sr_kind e, sr_action e) | None \<Rightarrow> ([], []))"
    unfolding senderRuleMatch_def by (auto elim!: bindE_ok simp: ret_def)
  from k assms(2) obtain x where "find (\<lambda>e. matches orc e md smtp auth) es = Some x" "kind = sr_kind x" "action = sr_action x"
    by (auto split: option.splits)
  with wpD [OF wp_entries e] show ?thesis by (auto dest: find_SomeD)
qed

lemma allow_by_ip:
  assumes "matches orc e md smtp False" and "sr_kind e = ''allow''"
  shows "sr_match_type e \<in> {''ip'', ''cidr''} \<and> ipMatches orc (sm_remote_ip smtp) (to_lower (sr_value e))"
  using assms by (auto simp: matches_def Let_def split: if_splits)

section \<open>Authentication\<close>

lemma verifyDKIM_none:
  assumes "verifyDKIM orc raw = (r, d, passing)" and "\<forall>v \<in> set (or_dkim orc raw). \<not> snd v"
  shows "passing = []"
  using assms by (auto simp: verifyDKIM_def Let_def filter_empty_conv split: if_splits)

lemma checkDMARC_pass:
  "fst (checkDMARC orc f ds s sd) = ResultPass \<Longrightarrow> (\<exists>m. \<exists>d \<in> set ds. aligned orc m f d) \<or> (s = SpfPass \<and> (\<exists>m. aligned orc m f sd))"
  by (auto simp: checkDMARC_def Let_def list_ex_iff split: dmarc_answer.splits if_splits)

lemma aligned_same_org:
  "aligned orc m f d \<Longrightarrow> to_lower (trim_space f) \<noteq> [] \<and>
    (to_lower (trim_space f) = to_lower (trim_space d)
     \<or> organizationalDomain orc (to_lower (trim_space f)) = organizationalDomain orc (to_lower (trim_space d)))"
  by (auto simp: aligned_def Let_def split: if_splits)

lemma authenticated_aligned:
  assumes "ao_authenticated (authenticate orc raw smtp)"
  shows "\<exists>m. (\<exists>d. (d, True) \<in> set (or_dkim orc raw) \<and> aligned orc m (ao_from_domain (authenticate orc raw smtp)) d)
    \<or> (ao_spf (authenticate orc raw smtp) = SpfPass
       \<and> aligned orc m (ao_from_domain (authenticate orc raw smtp)) (ao_spf_domain (authenticate orc raw smtp)))"
proof -
  obtain dr dd passing where k: "verifyDKIM orc raw = (dr, dd, passing)" by (cases "verifyDKIM orc raw")
  obtain sr sd why where s: "fst (checkSPF (or_dns orc) (mail_domain orc (sm_mail_from smtp)) smtp) = (sr, sd, why)"
    by (cases "fst (checkSPF (or_dns orc) (mail_domain orc (sm_mail_from smtp)) smtp)")
  have p: "d \<in> set passing \<Longrightarrow> (d, True) \<in> set (or_dkim orc raw)" for d
    using k by (fastforce simp: verifyDKIM_def Let_def split: if_splits)
  let ?ao = "authenticate orc raw smtp"
  have f: "ao_spf ?ao = sr" "ao_spf_domain ?ao = sd"
    by (simp_all add: authenticate_def k s Let_def)
  have "(\<exists>m. \<exists>d \<in> set passing. aligned orc m (ao_from_domain ?ao) d) \<or> (sr = SpfPass \<and> (\<exists>m. aligned orc m (ao_from_domain ?ao) sd))"
    using assms by (auto simp: authenticate_def k s Let_def fromAligned_def list_ex_iff dest!: checkDMARC_pass split: if_splits)
  with p f show ?thesis by metis
qed

section \<open>Placement\<close>

text \<open>What the evaluator says of a message at the thresholds of a mailbox.\<close>

definition evaluator_junks :: "oracles \<Rightarrow> string \<Rightarrow> typesafe_config \<Rightarrow> bool" where
  "evaluator_junks orc raw cfg \<longleftrightarrow> cy_mode cfg = ''junk'' \<and> (case or_evaluate orc of None \<Rightarrow> False
     | Some evaluate \<Rightarrow> or_input_status orc raw \<in> {''ok'', ''partial''} \<and> vl_status (evaluate raw) = ''ok''
         \<and> validTypeSafeProbability (vl_spam (evaluate raw)) \<and> validTypeSafeProbability (vl_phishing (evaluate raw))
         \<and> (reaches (vl_spam (evaluate raw)) (cy_spam_threshold cfg) \<or> reaches (vl_phishing (evaluate raw)) (cy_phishing_threshold cfg)))"

definition score_junks :: "spam_config \<Rightarrow> bool \<Rightarrow> assessment \<Rightarrow> mailbox \<Rightarrow> bool" where
  "score_junks cfg forced a m \<longleftrightarrow> forced \<or> f64_ge (as_score a) (mailbox_threshold cfg m)"

lemma local_mode [simp]: "cy_mode (local_config cfg m) = cy_mode cfg"
  by (simp add: local_config_def)

lemma typesafe_recorded:
  "as_typesafe (applyRecipientTypeSafe r a) = Some r" "as_mailboxes (applyRecipientTypeSafe r a) = as_mailboxes a"
  by (simp_all add: applyRecipientTypeSafe_def Let_def)

lemma judge_applied: "ts_applied_junk (judge cfg r) \<longleftrightarrow> cy_mode cfg = ''junk''
    \<and> (reaches (ts_spam_probability r) (cy_spam_threshold cfg) \<or> reaches (ts_phishing_probability r) (cy_phishing_threshold cfg))"
  by (simp add: judge_def Let_def)

lemma evaluated_shared:
  assumes "cy_mode cfg' = cy_mode cfg"
  shows "ts_applied_junk (recipientTypeSafeResult (typesafe_evaluated orc raw cfg evaluate) cfg' False False)
    \<longleftrightarrow> cy_mode cfg = ''junk'' \<and> or_input_status orc raw \<in> {''ok'', ''partial''} \<and> vl_status (evaluate raw) = ''ok''
         \<and> validTypeSafeProbability (vl_spam (evaluate raw)) \<and> validTypeSafeProbability (vl_phishing (evaluate raw))
         \<and> (reaches (vl_spam (evaluate raw)) (cy_spam_threshold cfg') \<or> reaches (vl_phishing (evaluate raw)) (cy_phishing_threshold cfg'))"
proof -
  let ?st = "or_input_status orc raw" and ?e = "evaluate raw"
  consider "?st \<noteq> ''ok'' \<and> ?st \<noteq> ''partial''" | "?st \<in> {''ok'', ''partial''}" "vl_status ?e \<noteq> ''ok''"
    | "?st \<in> {''ok'', ''partial''}" "vl_status ?e = ''ok''" "\<not> validTypeSafeProbability (vl_spam ?e) \<or> \<not> validTypeSafeProbability (vl_phishing ?e)"
    | "?st \<in> {''ok'', ''partial''}" "vl_status ?e = ''ok''" "validTypeSafeProbability (vl_spam ?e)" "validTypeSafeProbability (vl_phishing ?e)"
    by blast
  then show ?thesis
  proof cases
    case 1
    then have "typesafe_evaluated orc raw cfg evaluate = (typesafe_base cfg)\<lparr>ts_input_status := ?st, ts_status := ?st\<rparr>"
      by (simp add: typesafe_evaluated_def Let_def)
    with 1 show ?thesis by (simp add: recipientTypeSafeResult_def Let_def typesafe_base_def)
  next
    case 2
    then have "typesafe_evaluated orc raw cfg evaluate = (typesafe_base cfg)\<lparr>ts_input_status := ?st, ts_status := vl_status ?e\<rparr>"
      by (auto simp: typesafe_evaluated_def Let_def)
    with 2 show ?thesis by (simp add: recipientTypeSafeResult_def Let_def typesafe_base_def)
  next
    case 3
    then have "ts_status (typesafe_evaluated orc raw cfg evaluate) = ''error_invalid_response''"
      by (auto simp: typesafe_evaluated_def Let_def)
    with 3 show ?thesis by (auto simp: recipientTypeSafeResult_def Let_def)
  next
    case 4
    then have "typesafe_evaluated orc raw cfg evaluate = judge cfg ((typesafe_base cfg)\<lparr>ts_input_status := ?st, ts_status := ''ok'',
        ts_spam_probability := vl_spam ?e, ts_phishing_probability := vl_phishing ?e\<rparr>)"
      by (auto simp: typesafe_evaluated_def Let_def)
    with 4 assms show ?thesis by (simp add: recipientTypeSafeResult_def judge_def Let_def)
  qed
qed

lemma skipped_not_applied:
  "junk \<or> reject \<Longrightarrow> \<not> ts_applied_junk (recipientTypeSafeResult shared cfg junk reject)"
  by (auto simp: recipientTypeSafeResult_def Let_def)

lemma not_ok_not_applied:
  "ts_status shared \<noteq> ''ok'' \<Longrightarrow> \<not> ts_applied_junk (recipientTypeSafeResult shared cfg junk reject)"
  by (auto simp: recipientTypeSafeResult_def Let_def)

lemma map_of_keyed: "m \<in> set ms \<Longrightarrow> distinct (map k ms) \<Longrightarrow> map_of (map (\<lambda>m. (k m, f m)) ms) (k m) = Some (f m)"
  by (induction ms) (auto simp: image_iff)

lemma placement:
  fixes cfg :: spam_config
  assumes m: "m \<in> set (destinations recipients)" and a: "as_typesafe a = None"
  defines "ts \<equiv> TypeSafe_WithDefaults (cf_typesafe cfg)"
  shows "JunkForMailbox (applyMailboxPolicy orc raw cfg recipients forced a) (mb_id m)
    \<longleftrightarrow> score_junks cfg forced a m \<or> (\<not> as_reject a \<and> evaluator_junks orc raw (local_config ts m))"
proof -
  let ?boxes = "destinations recipients" and ?l = "local_assessment cfg forced a"
  let ?a = "a\<lparr>as_junk := list_all (\<lambda>m. ma_junk (?l m)) ?boxes\<rparr>"
  have d: "distinct (map mb_id ?boxes)" unfolding destinations_def by (rule dedup_on_distinct)
  have ne: "?boxes \<noteq> []" using m by auto
  have jl: "ma_junk (?l x) = score_junks cfg forced a x" for x by (simp add: local_assessment_def score_junks_def)
  have policy: "applyMailboxPolicy orc raw cfg recipients forced a = (case as_typesafe (applyTypeSafe orc raw ts ?a) of
      None \<Rightarrow> a\<lparr>as_mailboxes := map (\<lambda>m. (mb_id m, ?l m)) ?boxes\<rparr>
    | Some shared \<Rightarrow> (applyRecipientTypeSafe (recipientTypeSafeResult shared ts (as_junk a) (as_reject a)) a)
        \<lparr>as_mailboxes := map (\<lambda>m. (mb_id m, judge_mailbox shared ts (as_reject a) m (?l m))) ?boxes\<rparr>)"
    using ne unfolding applyMailboxPolicy_def Let_def destinations_def ts_def by simp
  show ?thesis
  proof (cases "cy_mode ts \<noteq> ''shadow'' \<and> cy_mode ts \<noteq> ''junk''")
    case True
    then have "as_typesafe (applyTypeSafe orc raw ts ?a) = None" using a by (simp add: applyTypeSafe_def)
    with True show ?thesis
      unfolding policy by (simp add: JunkForMailbox_def map_of_keyed [OF m d] jl evaluator_junks_def)
  next
    case False
    define shared where "shared = (if as_reject a then (typesafe_base ts)\<lparr>ts_status := ''skipped_existing_reject''\<rparr>
         else if as_junk ?a then (typesafe_base ts)\<lparr>ts_status := ''skipped_existing_junk''\<rparr>
         else case or_evaluate orc of
             None \<Rightarrow> (typesafe_base ts)\<lparr>ts_status := ''skipped_unavailable''\<rparr>
           | Some evaluate \<Rightarrow> typesafe_evaluated orc raw ts evaluate)"
    have sh: "as_typesafe (applyTypeSafe orc raw ts ?a) = Some shared"
    proof -
      have "applyTypeSafe orc raw ts ?a = applyRecipientTypeSafe shared ?a"
        unfolding applyTypeSafe_def if_not_P [OF False] shared_def by simp
      then show ?thesis by (simp add: typesafe_recorded)
    qed
    have "JunkForMailbox (applyMailboxPolicy orc raw cfg recipients forced a) (mb_id m) \<longleftrightarrow>
        score_junks cfg forced a m \<or> ts_applied_junk (recipientTypeSafeResult shared (local_config ts m) (ma_junk (?l m)) (as_reject a))"
      unfolding policy sh by (simp add: JunkForMailbox_def map_of_keyed [OF m d] judge_mailbox_def Let_def jl)
    moreover have "ts_applied_junk (recipientTypeSafeResult shared (local_config ts m) (ma_junk (?l m)) (as_reject a))
        \<longleftrightarrow> \<not> as_reject a \<and> evaluator_junks orc raw (local_config ts m)" if "\<not> score_junks cfg forced a m"
    proof (cases "as_reject a")
      case True
      then show ?thesis by (simp add: skipped_not_applied)
    next
      case False
      have "\<not> as_junk ?a" using m that jl by (auto simp: list_all_iff)
      with False have s: "shared = (case or_evaluate orc of None \<Rightarrow> (typesafe_base ts)\<lparr>ts_status := ''skipped_unavailable''\<rparr>
           | Some evaluate \<Rightarrow> typesafe_evaluated orc raw ts evaluate)" by (simp add: shared_def)
      show ?thesis
        using False that jl evaluated_shared [of "local_config ts m" ts orc raw]
        by (cases "or_evaluate orc") (simp_all add: s evaluator_junks_def not_ok_not_applied)
    qed
    ultimately show ?thesis by blast
  qed
qed

section \<open>Checks\<close>

lemma policy_frame:
  "as_auth_results (applyMailboxPolicy orc raw cfg recipients forced a) = as_auth_results a"
  "as_reject (applyMailboxPolicy orc raw cfg recipients forced a) = as_reject a"
  "as_score (applyMailboxPolicy orc raw cfg recipients forced a) = as_score a"
  by (simp_all add: applyMailboxPolicy_def applyTypeSafe_def applyRecipientTypeSafe_def Let_def split: option.split)

text \<open>The run of a check: the sender rule that decided, and the policy applied to the message's assessment.\<close>

lemma check_run:
  assumes "CheckParsed orc cfg authID raw md smtp recipients w = (Inr a, w')"
  obtains kind action a0 where
    "senderRuleMatch orc md smtp recipients (ao_authenticated (authenticate orc raw smtp)) w = (Inr (kind, action), w')"
    "map_of (as_auth_results a0) ''list_kind'' = Some (JStr kind)" "as_typesafe a0 = None"
    "as_score a0 = fst (total_score orc cfg md smtp (authenticate orc raw smtp) kind)"
    "as_reject a0 = (f64_ge (as_score a0) (rejectThreshold cfg)
       \<or> (ao_dmarc (authenticate orc raw smtp) = ResultFail \<and> ao_policy (authenticate orc raw smtp) = PolicyReject) \<or> action = ''reject'')"
    "a = applyMailboxPolicy orc raw cfg recipients
       ((ao_dmarc (authenticate orc raw smtp) = ResultFail \<and> ao_policy (authenticate orc raw smtp) = PolicyQuarantine) \<or> kind = ''block'') a0"
proof -
  from assms obtain kind action where m: "senderRuleMatch orc md smtp recipients (ao_authenticated (authenticate orc raw smtp)) w = (Inr (kind, action), w')"
    unfolding CheckParsed_def Let_def by (auto elim!: bindE_ok simp: ret_def split: prod.splits)
  show thesis
    by (rule that [OF m]) (use assms m in \<open>auto simp: CheckParsed_def Let_def bindE_def ret_def\<close>)
qed

section \<open>Properties\<close>

text \<open>
  C33.  An allow rule is not open to forgery: a check that applies one either applies a rule for the client's address, or the
  message carries a passing DKIM signature, or a passing SPF result, of a domain aligned with the one in its From header.
\<close>

theorem allow_rule_authenticated:
  assumes "CheckParsed orc cfg authID raw md smtp recipients w = (Inr a, w')"
    and "map_of (as_auth_results a) ''list_kind'' = Some (JStr ''allow'')"
    and "\<forall>e \<in> set (db_sender_rules (w_db w)). sr_match_type e \<in> {''ip'', ''cidr''} \<longrightarrow> \<not> ipMatches orc (sm_remote_ip smtp) (to_lower (sr_value e))"
  shows "\<exists>m. (\<exists>d. (d, True) \<in> set (or_dkim orc raw) \<and> aligned orc m (ao_from_domain (authenticate orc raw smtp)) d)
    \<or> (ao_spf (authenticate orc raw smtp) = SpfPass
       \<and> aligned orc m (ao_from_domain (authenticate orc raw smtp)) (ao_spf_domain (authenticate orc raw smtp)))"
proof (cases "ao_authenticated (authenticate orc raw smtp)")
  case True
  then show ?thesis by (rule authenticated_aligned)
next
  case False
  from check_run [OF assms(1)] obtain kind action a0 forced where
      m: "senderRuleMatch orc md smtp recipients (ao_authenticated (authenticate orc raw smtp)) w = (Inr (kind, action), w')"
      "map_of (as_auth_results a0) ''list_kind'' = Some (JStr kind)"
      "a = applyMailboxPolicy orc raw cfg recipients forced a0"
    by metis
  from m(2, 3) assms(2) have "kind = ''allow''" by (simp add: policy_frame)
  moreover have "senderRuleMatch orc md smtp recipients False w = (Inr (kind, action), w')" using m(1) False by simp
  note senderRuleMatch_found [OF this]
  ultimately obtain e where
    "e \<in> set (db_sender_rules (w_db w))" "matches orc e md smtp False" "sr_kind e = ''allow''" by auto
  with allow_by_ip assms(3) show ?thesis by blast
qed

definition sample_oracles :: oracles where
  "sample_oracles = \<lparr>or_dns = sample_dns, or_lookup_ip = (\<lambda>_. None), or_parse_address = (\<lambda>_. None),
     or_from_fields = (\<lambda>_. Some [''X <x@a.org>'']), or_parse_address_list = (\<lambda>_. Some [''x@a.org'']), or_dkim = (\<lambda>_. [(''a.org'', True)]),
     or_dmarc = (\<lambda>d. if d = ''a.org'' then DmarcRecord \<lparr>dr_policy = PolicyReject, dr_subdomain_policy = None, dr_dkim_alignment = Strict, dr_spf_alignment = Strict\<rparr>
        else DmarcNoPolicy),
     or_tld_plus_one = (\<lambda>_. None), or_parse_cidr = (\<lambda>_. None), or_format_authres = (\<lambda>_. ''mx; none''), or_input_status = (\<lambda>_. ''ok''),
     or_evaluate = Some (\<lambda>_. \<lparr>vl_status = ''ok'', vl_spam = Some (Fin (1 / 2)), vl_phishing = Some (Fin 0)\<rparr>)\<rparr>"

definition forged_oracles :: oracles where
  "forged_oracles = sample_oracles\<lparr>or_dkim := (\<lambda>_. [(''a.org'', False)])\<rparr>"

definition sample_metadata :: metadata where
  "sample_metadata = empty_metadata\<lparr>md_from := [''x@a.org''], md_rfc_message_id := ''i''\<rparr>"

definition sample_spam :: spam_config where
  "sample_spam = cfg_spam sample_config"

definition rule_world :: world where
  "rule_world = world_of (empty_db\<lparr>db_sender_rules := [\<lparr>sr_id = ''1'', sr_scope = ''global'', sr_scope_ref = [], sr_kind = ''allow'',
     sr_match_type = ''domain'', sr_value = ''a.org'', sr_action = []\<rparr>]\<rparr>)"

definition sample_recipients :: "result list" where
  "sample_recipients = [\<lparr>re_original_recipient = ''ann@example.org'', re_base_recipient = ''ann@example.org'', re_plus_tag = [],
     re_route_id = [], re_mailboxes = [sample_mailbox\<lparr>mb_spam_thresholds := [(''junk_threshold'', Fin 3), (''spam_threshold'', Fin (2 / 5))]\<rparr>]\<rparr>]"

theorem allow_rule_authenticated_witness:
  "\<exists>m d. (d, True) \<in> set (or_dkim sample_oracles []) \<and> aligned sample_oracles m ''a.org'' d"
proof -
  let ?run = "CheckParsed sample_oracles sample_spam ''mx'' [] sample_metadata (sample_smtp ''no'') sample_recipients rule_world"
  have "case fst ?run of Inl _ \<Rightarrow> False | Inr a \<Rightarrow> map_of (as_auth_results a) ''list_kind'' = Some (JStr ''allow'')" by code_simp
  then obtain a where a: "?run = (Inr a, snd ?run)" "map_of (as_auth_results a) ''list_kind'' = Some (JStr ''allow'')"
    by (cases ?run; cases "fst ?run") auto
  have r: "\<forall>e \<in> set (db_sender_rules (w_db rule_world)). sr_match_type e \<in> {''ip'', ''cidr''} \<longrightarrow>
      \<not> ipMatches sample_oracles (sm_remote_ip (sample_smtp ''no'')) (to_lower (sr_value e))"
    by (simp add: rule_world_def world_of_def)
  have f: "ao_from_domain (authenticate sample_oracles [] (sample_smtp ''no'')) = ''a.org''"
    "ao_spf (authenticate sample_oracles [] (sample_smtp ''no'')) = SpfFail" by code_simp+
  from allow_rule_authenticated [OF a r] f show ?thesis by auto
qed

text \<open>
  C34.  A published DMARC policy is enforced: when the domain of the From header publishes one and the message has neither an
  aligned passing DKIM signature nor an aligned SPF pass, a policy of reject rejects it and a policy of quarantine puts it in
  the junk folder of every recipient, whatever thresholds a mailbox has set.
\<close>

theorem dmarc_enforced:
  assumes "CheckParsed orc cfg authID raw md smtp recipients w = (Inr a, w')"
    and "FromAddresses orc raw = Some as" and "dmarcFromDomain orc as = from_dom" and "from_dom \<noteq> []"
    and "or_dmarc orc from_dom = DmarcRecord rec"
    and "\<forall>d. (d, True) \<in> set (or_dkim orc raw) \<longrightarrow> \<not> aligned orc (dr_dkim_alignment rec) from_dom d"
    and "\<not> (ao_spf (authenticate orc raw smtp) = SpfPass
      \<and> aligned orc (dr_spf_alignment rec) from_dom (ao_spf_domain (authenticate orc raw smtp)))"
  shows "(dr_policy rec = PolicyReject \<longrightarrow> as_reject a)
    \<and> (dr_policy rec = PolicyQuarantine \<longrightarrow> (\<forall>m \<in> set (destinations recipients). JunkForMailbox a (mb_id m)))"
proof -
  let ?ao = "authenticate orc raw smtp"
  obtain dr dd passing where k: "verifyDKIM orc raw = (dr, dd, passing)" by (cases "verifyDKIM orc raw")
  obtain sr sd why where s: "fst (checkSPF (or_dns orc) (mail_domain orc (sm_mail_from smtp)) smtp) = (sr, sd, why)"
    by (cases "fst (checkSPF (or_dns orc) (mail_domain orc (sm_mail_from smtp)) smtp)")
  have p: "\<not> aligned orc (dr_dkim_alignment rec) from_dom d" if "d \<in> set passing" for d
    using that k assms(6) by (fastforce simp: verifyDKIM_def Let_def split: if_splits)
  have f: "ao_spf ?ao = sr" "ao_spf_domain ?ao = sd" by (simp_all add: authenticate_def k s Let_def)
  have "checkDMARC orc from_dom passing sr sd = (ResultFail, dr_policy rec)"
    using assms(4,5,7) p f by (auto simp: checkDMARC_def Let_def list_ex_iff split: option.split)
  then have d: "ao_dmarc ?ao = ResultFail" "ao_policy ?ao = dr_policy rec"
    using assms(2,3,4) by (auto simp: authenticate_def k s Let_def)
  from assms(1) show ?thesis
    using d by (elim check_run) (auto simp: policy_frame placement score_junks_def)
qed

theorem dmarc_enforced_witness:
  "\<exists>a w'. CheckParsed forged_oracles sample_spam ''mx'' [] sample_metadata (sample_smtp ''no'') sample_recipients rule_world = (Inr a, w')
    \<and> as_reject a"
proof -
  let ?run = "CheckParsed forged_oracles sample_spam ''mx'' [] sample_metadata (sample_smtp ''no'') sample_recipients rule_world"
  let ?rec = "\<lparr>dr_policy = PolicyReject, dr_subdomain_policy = None, dr_dkim_alignment = Strict, dr_spf_alignment = Strict\<rparr>"
  have "case fst ?run of Inl _ \<Rightarrow> False | Inr a \<Rightarrow> True" by code_simp
  then obtain a where a: "?run = (Inr a, snd ?run)" by (cases ?run; cases "fst ?run") auto
  have h: "FromAddresses forged_oracles [] = Some [''x@a.org'']" "dmarcFromDomain forged_oracles [''x@a.org''] = ''a.org''"
      "''a.org'' \<noteq> []" "or_dmarc forged_oracles ''a.org'' = DmarcRecord ?rec"
    by code_simp+
  have n: "\<forall>d. (d, True) \<in> set (or_dkim forged_oracles []) \<longrightarrow> \<not> aligned forged_oracles (dr_dkim_alignment ?rec) ''a.org'' d"
    by (simp add: forged_oracles_def)
  have s: "\<not> (ao_spf (authenticate forged_oracles [] (sample_smtp ''no'')) = SpfPass
      \<and> aligned forged_oracles (dr_spf_alignment ?rec) ''a.org'' (ao_spf_domain (authenticate forged_oracles [] (sample_smtp ''no''))))"
    by code_simp
  from dmarc_enforced [OF a h n s] a show ?thesis by auto
qed

text \<open>
  C35.  Each recipient's mailbox decides for itself: after the policy has run, a message goes to its junk folder exactly when a
  verdict of the whole message forces it, or the score reaches the mailbox's own threshold, or the message is not rejected and
  the evaluator, in the mode that may act, finds a probability that reaches the mailbox's own limit.  In shadow mode the
  evaluator moves nothing.
\<close>

theorem mailbox_placement:
  assumes "m \<in> set (destinations recipients)" and "as_typesafe a = None"
  shows "(JunkForMailbox (applyMailboxPolicy orc raw cfg recipients forced a) (mb_id m)
      \<longleftrightarrow> score_junks cfg forced a m
        \<or> (\<not> as_reject a \<and> evaluator_junks orc raw (local_config (TypeSafe_WithDefaults (cf_typesafe cfg)) m)))
    \<and> (cy_mode (TypeSafe_WithDefaults (cf_typesafe cfg)) = ''shadow'' \<longrightarrow>
      JunkForMailbox (applyMailboxPolicy orc raw cfg recipients forced a) (mb_id m) = score_junks cfg forced a m)"
  using placement [OF assms] by (auto simp: evaluator_junks_def)

definition sample_assessment :: assessment where
  "sample_assessment = \<lparr>as_score = Fin 2, as_reasons = [], as_auth_results = [], as_auth_reasons = [], as_typesafe = None, as_header = [],
     as_junk = False, as_reject = False, as_mailboxes = []\<rparr>"

theorem mailbox_placement_witness:
  "JunkForMailbox (applyMailboxPolicy sample_oracles [] sample_spam sample_recipients False sample_assessment) ''box''
   \<and> \<not> score_junks sample_spam False sample_assessment (hd (destinations sample_recipients))"
proof -
  let ?m = "hd (destinations sample_recipients)"
  have h: "?m \<in> set (destinations sample_recipients)" "as_typesafe sample_assessment = None" "mb_id ?m = ''box''"
      "\<not> score_junks sample_spam False sample_assessment ?m" "\<not> as_reject sample_assessment"
      "evaluator_junks sample_oracles [] (local_config (TypeSafe_WithDefaults (cf_typesafe sample_spam)) ?m)"
    by code_simp+
  from mailbox_placement [OF h(1,2), of sample_oracles "[]" sample_spam False] h(3-6) show ?thesis by simp
qed

end
