(* ===== verification/Inbound_Props.thy ===== *)
theory Inbound_Props
  imports Inbound Bounce_Props Delivery_Props Spam_Props
begin

text \<open>
  The inbound server: how many connections are open, how many recipients a client gets accepted, and what the reply to DATA
  says about what was filed.
\<close>

section \<open>Connections\<close>

definition open_of :: "string \<Rightarrow> limited_conn list \<Rightarrow> nat" where
  "open_of k cs = length (filter (\<lambda>c. lc_key c = k \<and> \<not> lc_released c) cs)"

definition open_all :: "limited_conn list \<Rightarrow> nat" where
  "open_all cs = length (filter (\<lambda>c. \<not> lc_released c) cs)"

text \<open>The life of a listener: \<open>cs\<close> are the connections it admitted, which may be closed any number of times.\<close>

inductive listener_run :: "int \<Rightarrow> int \<Rightarrow> limited_conn list \<Rightarrow> limited_listener \<Rightarrow> bool" for n m :: int where
  start: "listener_run n m [] (new_listener n m)"
| accept: "listener_run n m cs l \<Longrightarrow> Accept incoming l = (Some c, replies, l') \<Longrightarrow> listener_run n m (cs @ [c]) l'"
| ended: "listener_run n m cs l \<Longrightarrow> Accept incoming l = (None, replies, l') \<Longrightarrow> listener_run n m cs l'"
| close: "listener_run n m cs l \<Longrightarrow> i < length cs \<Longrightarrow> Close (cs ! i) l = (c', l') \<Longrightarrow> listener_run n m (cs[i := c']) l'"

text \<open>\<open>gates_hold\<close>: the gates count the connections that are open, by key and together.\<close>

definition gates_hold :: "int \<Rightarrow> int \<Rightarrow> (string \<Rightarrow> nat) \<Rightarrow> nat \<Rightarrow> limited_listener \<Rightarrow> bool" where
  "gates_hold n m held count l \<longleftrightarrow> gate_run n held (ll_per_ip l) \<and> gate_run m ((\<lambda>_. 0)([] := count)) (ll_global l)"

lemma global_enter: "gate_run m ((\<lambda>_. 0)([] := count)) g \<Longrightarrow> Acquire [] g = (True, g') \<Longrightarrow> gate_run m ((\<lambda>_. 0)([] := Suc count)) g'"
  by (drule (1) gate_run.enter) simp

lemma global_leave: "gate_run m ((\<lambda>_. 0)([] := Suc count)) g \<Longrightarrow> gate_run m ((\<lambda>_. 0)([] := count)) (Release [] g)"
  by (drule gate_run.leave [where k = "[]" and m = count]) simp_all

lemma accept_gates:
  assumes "gates_hold n m held count l" and "Accept incoming l = (c, replies, l')"
  shows "case c of None \<Rightarrow> gates_hold n m held count l'
    | Some c \<Rightarrow> \<not> lc_released c \<and> gates_hold n m (held(lc_key c := Suc (held (lc_key c)))) (Suc count) l'"
  using assms
proof (induction incoming l arbitrary: c replies l' rule: Accept.induct)
  case (1 l)
  then show ?case by auto
next
  case (2 key incoming l)
  have g: "gate_run n held (ll_per_ip l)" "gate_run m ((\<lambda>_. 0)([] := count)) (ll_global l)"
    using "2.prems"(1) by (simp_all add: gates_hold_def)
  obtain a g1 where a: "Acquire [] (ll_global l) = (a, g1)" by (cases "Acquire [] (ll_global l)")
  obtain b p1 where b: "Acquire key (ll_per_ip l) = (b, p1)" by (cases "Acquire key (ll_per_ip l)")
  consider (full) "\<not> a" | (full_key) "a" "\<not> b" | (room) "a" "b" by blast
  then show ?case
  proof cases
    case full
    with a g have h: "gates_hold n m held count (l\<lparr>ll_global := g1\<rparr>)" by (auto simp: gates_hold_def intro: gate_run.refused)
    obtain c1 r1 l1 where r: "Accept incoming (l\<lparr>ll_global := g1\<rparr>) = (c1, r1, l1)" by (cases "Accept incoming (l\<lparr>ll_global := g1\<rparr>)") auto
    with "2.prems"(2) a full have e: "c = c1" "l' = l1" by auto
    show ?thesis unfolding e by (rule "2.IH"(2) [OF a [symmetric] _ h r]) (use full in simp)
  next
    case full_key
    let ?l = "l\<lparr>ll_global := Release [] g1, ll_per_ip := p1\<rparr>"
    have h: "gates_hold n m held count ?l"
      using a b full_key g by (auto simp: gates_hold_def intro: gate_run.refused global_leave global_enter)
    obtain c1 r1 l1 where r: "Accept incoming ?l = (c1, r1, l1)" by (cases "Accept incoming ?l") auto
    with "2.prems"(2) a b full_key have e: "c = c1" "l' = l1" by auto
    show ?thesis unfolding e by (rule "2.IH"(1) [OF a [symmetric] _ b [symmetric] _ h r]) (use full_key in simp_all)
  next
    case room
    with "2.prems"(2) a b have c: "c = Some \<lparr>lc_key = key, lc_released = False\<rparr>" "l' = l\<lparr>ll_global := g1, ll_per_ip := p1\<rparr>" by auto
    show ?thesis
      using a b room g by (auto simp: c gates_hold_def intro: gate_run.enter global_enter)
  qed
qed

lemma open_update:
  assumes "i < length cs" and "\<not> lc_released (cs ! i)"
  shows "open_all cs = Suc (open_all (cs[i := (cs ! i)\<lparr>lc_released := True\<rparr>]))"
    and "open_of k cs = open_of k (cs[i := (cs ! i)\<lparr>lc_released := True\<rparr>]) + (if lc_key (cs ! i) = k then 1 else 0)"
proof -
  have s: "cs = take i cs @ cs ! i # drop (Suc i) cs" using assms(1) by (rule id_take_nth_drop)
  have u: "cs[i := x] = take i cs @ x # drop (Suc i) cs" for x using assms(1) by (rule upd_conv_take_nth_drop)
  show "open_all cs = Suc (open_all (cs[i := (cs ! i)\<lparr>lc_released := True\<rparr>]))"
    unfolding u by (subst s) (use assms(2) in \<open>simp add: open_all_def\<close>)
  show "open_of k cs = open_of k (cs[i := (cs ! i)\<lparr>lc_released := True\<rparr>]) + (if lc_key (cs ! i) = k then 1 else 0)"
    unfolding u by (subst s) (use assms(2) in \<open>simp add: open_of_def\<close>)
qed

lemma listener_gates: "listener_run n m cs l \<Longrightarrow> gates_hold n m (\<lambda>k. open_of k cs) (open_all cs) l"
proof (induction rule: listener_run.induct)
  case start
  have "(\<lambda>_. 0 :: nat)([] := 0) = (\<lambda>_ :: string. 0)" by auto
  then show ?case using gate_run.fresh by (simp add: gates_hold_def new_listener_def open_of_def open_all_def)
next
  case (accept cs l incoming c replies l')
  from accept_gates [OF accept.IH accept.hyps(2)]
  have r: "\<not> lc_released c" and g: "gates_hold n m ((\<lambda>k. open_of k cs)(lc_key c := Suc (open_of (lc_key c) cs))) (Suc (open_all cs)) l'" by simp_all
  have "(\<lambda>k. open_of k (cs @ [c])) = (\<lambda>k. open_of k cs)(lc_key c := Suc (open_of (lc_key c) cs))" using r by (auto simp: open_of_def)
  moreover have "open_all (cs @ [c]) = Suc (open_all cs)" using r by (simp add: open_all_def)
  ultimately show ?case using g by simp
next
  case (ended cs l incoming replies l')
  from accept_gates [OF ended.IH ended.hyps(2)] show ?case by simp
next
  case (close cs l i c' l')
  show ?case
  proof (cases "lc_released (cs ! i)")
    case True
    with close show ?thesis by (auto simp: Close_def)
  next
    case False
    let ?cs = "cs[i := (cs ! i)\<lparr>lc_released := True\<rparr>]"
    note o = open_update [OF close.hyps(2) False]
    have e: "c' = (cs ! i)\<lparr>lc_released := True\<rparr>"
      "l' = l\<lparr>ll_per_ip := Release (lc_key (cs ! i)) (ll_per_ip l), ll_global := Release [] (ll_global l)\<rparr>"
      using close.hyps(3) False by (auto simp: Close_def)
    have g: "gate_run n (\<lambda>k. open_of k cs) (ll_per_ip l)" "gate_run m ((\<lambda>_. 0)([] := Suc (open_all ?cs))) (ll_global l)"
      using close.IH o(1) by (simp_all add: gates_hold_def)
    have "(\<lambda>k. open_of k cs)(lc_key (cs ! i) := open_of (lc_key (cs ! i)) ?cs) = (\<lambda>k. open_of k ?cs)" using o(2) by auto
    with gate_run.leave [OF g(1), of "lc_key (cs ! i)" "open_of (lc_key (cs ! i)) ?cs"] o(2) [of "lc_key (cs ! i)"] global_leave [OF g(2)]
    show ?thesis by (simp add: gates_hold_def e)
  qed
qed

text \<open>The count of a gate is the number of slots held.\<close>

lemma gate_counts:
  assumes "0 < n" and "gate_run n held g"
  shows "gate_ok n g" and "active_of g k = int (held k)" and "int (held k) \<le> n"
proof -
  have v: "gate_ok n (NewConcurrencyGate n)" "\<And>k. active_of (NewConcurrencyGate n) k = 0"
    using assms(1) by (simp_all add: gate_ok_def NewConcurrencyGate_def active_of_def)
  note u = gate_run_uses [OF assms(2)]
  show "gate_ok n g" "active_of g k = int (held k)" using cg.uses_count [OF u v] by blast+
  show "int (held k) \<le> n" using cg.uses_bounded [OF u v] assms(1) by simp
qed

text \<open>
  C36.  The listener keeps its limits and gives back every slot.  In every run of accepted and closed connections, however
  often each is closed, at most \<open>m\<close> connections are open and at most \<open>n\<close> of one key; and the next connection of a key is
  admitted exactly when both counts are below their limits, so a refused or closed connection uses up nothing.
\<close>

theorem connections_bounded:
  assumes "0 < n" and "0 < m" and "listener_run n m cs l"
  shows "int (open_all cs) \<le> m \<and> int (open_of k cs) \<le> n
    \<and> (fst (Accept [k] l) \<noteq> None \<longleftrightarrow> int (open_all cs) < m \<and> int (open_of k cs) < n)"
proof -
  have g: "gate_run n (\<lambda>k. open_of k cs) (ll_per_ip l)" "gate_run m ((\<lambda>_. 0)([] := open_all cs)) (ll_global l)"
    using listener_gates [OF assms(3)] by (simp_all add: gates_hold_def)
  note p = gate_counts [OF assms(1) g(1)] and t = gate_counts [OF assms(2) g(2)]
  have "fst (Accept [k] l) \<noteq> None \<longleftrightarrow> active_of (ll_global l) [] < m \<and> active_of (ll_per_ip l) k < n"
    using p(1) t(1) by (auto simp: Acquire_def gate_ok_def)
  with p(2) [of k] p(3) [of k] t(2) [of "[]"] t(3) [of "[]"] show ?thesis by simp
qed

definition busy_listener :: limited_listener where
  "busy_listener = \<lparr>ll_per_ip = \<lparr>ga_limit = 1, ga_active = [(''a'', 1)]\<rparr>, ll_global = \<lparr>ga_limit = 2, ga_active = [([], 1)]\<rparr>\<rparr>"

theorem connections_bounded_witness:
  "Accept [''a''] (new_listener 1 2) = (Some \<lparr>lc_key = ''a'', lc_released = False\<rparr>, [], busy_listener)
   \<and> fst (Accept [''a''] busy_listener) = None \<and> fst (Accept [''b''] busy_listener) \<noteq> None
   \<and> fst (Accept [''a''] (snd (Close \<lparr>lc_key = ''a'', lc_released = False\<rparr> busy_listener))) \<noteq> None"
proof -
  let ?c = "\<lparr>lc_key = ''a'', lc_released = False\<rparr>"
  have a: "Accept [''a''] (new_listener 1 2) = (Some ?c, [], busy_listener)"
    by (simp add: new_listener_def NewConcurrencyGate_def Acquire_def active_of_def busy_listener_def)
  have run: "listener_run 1 2 [?c] busy_listener" using listener_run.accept [OF listener_run.start a] by simp
  have c: "Close ?c busy_listener = (?c\<lparr>lc_released := True\<rparr>, new_listener 1 2)"
    by (simp add: Close_def busy_listener_def Release_def active_of_def new_listener_def NewConcurrencyGate_def)
  from connections_bounded [OF _ _ run, of "''a''"] have "fst (Accept [''a''] busy_listener) = None"
    by (simp add: open_of_def open_all_def del: Accept.simps)
  moreover from connections_bounded [OF _ _ run, of "''b''"] have "fst (Accept [''b''] busy_listener) \<noteq> None"
    by (simp add: open_of_def open_all_def del: Accept.simps)
  ultimately show ?thesis using a c by (simp del: Accept.simps)
qed

section \<open>Recipients\<close>

definition held_rcpts :: "inbound_session \<Rightarrow> nat" where
  "held_rcpts s = length (is_recipients s) + length (is_bounce_rcpt s)"

text \<open>
  An accepted RCPT of a run: the limit key of its session, the address, and the world in which it was answered.
\<close>

record acceptance =
  ac_key :: string
  ac_to :: string
  ac_world :: world

text \<open>
  What makes \<open>r\<close> the recipient of the acceptance \<open>a\<close>: the tables of that moment resolve the address to it, and of its mailboxes
  those with room for the announced size are kept, at least one.
\<close>

definition mailbox_accepted :: "acceptance \<Rightarrow> int \<Rightarrow> result \<Rightarrow> bool" where
  "mailbox_accepted a sz r \<longleftrightarrow> (\<exists>x. good_result (normalizeAddress (ac_to a)) (w_db (ac_world a)) x
     \<and> r = x\<lparr>re_mailboxes := filter (deliverable sz) (re_mailboxes x)\<rparr> \<and> re_mailboxes r \<noteq> [])"

text \<open>
  What makes \<open>x\<close> the bounce recipient of the acceptance \<open>a\<close>: the address is \<open>bounces+id@domain\<close>, the id is that of a message with
  an outbound job, and this server has a key of the domain, at that moment.
\<close>

definition bounce_accepted :: "bounce_handler \<Rightarrow> acceptance \<Rightarrow> bounce_recipient \<Rightarrow> bool" where
  "bounce_accepted h a x \<longleftrightarrow> bc_address x = ac_to a
     \<and> (\<exists>i domain. to_lower (trim_space (ac_to a)) = ''bounces+'' @ i @ ''@'' @ domain \<and> bh_ulid h i = Some (bc_message_id x)
          \<and> (\<exists>k \<in> set (db_dkim_keys (w_db (ac_world a))). dk_domain k = domain)
          \<and> (\<exists>j \<in> set (db_jobs (w_db (ac_world a))). oj_message_id j = bc_message_id x))"

text \<open>
  What a session holds after the acceptances \<open>acc\<close>: the counter counts its recipients, each of them was accepted by an RCPT of its
  client, and the bounces are of at most ten messages, each once.
\<close>

definition session_ok :: "bounce_handler \<Rightarrow> acceptance list \<Rightarrow> inbound_session \<Rightarrow> bool" where
  "session_ok h acc s \<longleftrightarrow> is_accepted s = int (held_rcpts s)
     \<and> (\<forall>r \<in> set (is_recipients s). \<exists>a \<in> set acc. ac_key a = is_limit_key s \<and> mailbox_accepted a (is_size s) r)
     \<and> (\<forall>x \<in> set (is_bounce_rcpt s). \<exists>a \<in> set acc. ac_key a = is_limit_key s \<and> bounce_accepted h a x)
     \<and> distinct (map bc_message_id (is_bounce_rcpt s)) \<and> length (is_bounce_rcpt s) \<le> maxBounceRecipients"

lemma session_ok_more: "session_ok h acc s \<Longrightarrow> set acc \<subseteq> set acc' \<Longrightarrow> session_ok h acc' s"
  unfolding session_ok_def by (meson subsetD)

text \<open>The recipient \<open>s'\<close> holds more than \<open>s\<close> after the RCPT \<open>a\<close>.\<close>

definition takes :: "bounce_handler \<Rightarrow> acceptance \<Rightarrow> inbound_session \<Rightarrow> inbound_session \<Rightarrow> bool" where
  "takes h a s s' \<longleftrightarrow>
     (\<exists>r. s' = s\<lparr>is_accepted := is_accepted s + 1, is_recipients := is_recipients s @ [r]\<rparr> \<and> mailbox_accepted a (is_size s) r)
   \<or> (\<exists>x. s' = s\<lparr>is_accepted := is_accepted s + 1, is_bounce_rcpt := is_bounce_rcpt s @ [x]\<rparr> \<and> bounce_accepted h a x
        \<and> bc_message_id x \<notin> bc_message_id ` set (is_bounce_rcpt s) \<and> length (is_bounce_rcpt s) < maxBounceRecipients)"

lemma takes_one: "takes h a s s' \<Longrightarrow> held_rcpts s' = Suc (held_rcpts s) \<and> is_limit_key s' = is_limit_key s"
  by (auto simp: takes_def held_rcpts_def)

lemma takes_ok:
  assumes "takes h a s s'" and "session_ok h acc s" and "ac_key a = is_limit_key s"
  shows "session_ok h (a # acc) s'"
  using assms by (auto simp: takes_def session_ok_def held_rcpts_def) blast+

text \<open>The two outcomes of a command: \<open>s'\<close> holds one recipient more, paid for, or nothing has changed but the limiter.\<close>

definition token_for :: "inbound_session \<Rightarrow> time \<Rightarrow> limiter \<Rightarrow> bool \<Rightarrow> limiter \<Rightarrow> bool" where
  "token_for s t l a l' \<longleftrightarrow> (if held_rcpts s = 0 then a \<and> l' = l else Allow (is_limit_key s) t l = (a, l'))"

definition rcpt_step :: "bounce_handler \<Rightarrow> acceptance \<Rightarrow> time \<Rightarrow> limiter \<Rightarrow> inbound_session \<Rightarrow> smtp_error option \<Rightarrow> limiter \<Rightarrow> inbound_session \<Rightarrow> bool" where
  "rcpt_step h a t l s rep l' s' \<longleftrightarrow> s' = s \<and> l' = l
     \<or> s' = s \<and> rep \<noteq> None \<and> token_for s t l False l'
     \<or> rep = None \<and> token_for s t l True l' \<and> takes h a s s'"

lemma charged_step:
  assumes "charged l s f w = (r, w')" and "is_accepted s = int (held_rcpts s)"
    and "takes h a s (f (s\<lparr>is_accepted := is_accepted s + 1\<rparr>))"
  shows "\<exists>rep l' s'. r = Inr (rep, l', s') \<and> rcpt_step h a (w_clock w') l s rep l' s'"
proof -
  have a: "0 < is_accepted s \<longleftrightarrow> held_rcpts s \<noteq> 0" using assms(2) by simp
  show ?thesis
    using assms(1,3)
    by (auto simp: charged_def chargeRecipient_def bindE_def now_def ret_def rcpt_step_def token_for_def a split: prod.splits bool.splits if_splits)
qed

lemma bounce_rcpt_step:
  assumes "bounce_rcpt recipient l s w = (r, w')" and "is_accepted s = int (held_rcpts s)" and "bounce_accepted h a recipient"
  shows "\<exists>rep l' s'. r = Inr (rep, l', s') \<and> rcpt_step h a (w_clock w') l s rep l' s'"
proof -
  let ?f = "\<lambda>s'. s'\<lparr>is_bounce_rcpt := is_bounce_rcpt s @ [recipient]\<rparr>"
  consider (dup) "list_ex (\<lambda>x. bc_message_id x = bc_message_id recipient) (is_bounce_rcpt s)"
    | (many) "\<not> list_ex (\<lambda>x. bc_message_id x = bc_message_id recipient) (is_bounce_rcpt s)" "maxBounceRecipients \<le> length (is_bounce_rcpt s)"
    | (new) "\<not> list_ex (\<lambda>x. bc_message_id x = bc_message_id recipient) (is_bounce_rcpt s)" "length (is_bounce_rcpt s) < maxBounceRecipients"
    by linarith
  then show ?thesis
  proof cases
    case new
    then have "charged l s ?f w = (r, w')" using assms(1) by (simp add: bounce_rcpt_def)
    moreover have "takes h a s (?f (s\<lparr>is_accepted := is_accepted s + 1\<rparr>))"
      unfolding takes_def using new assms(3) by (intro disjI2 exI [of _ recipient]) (auto simp: list_ex_iff)
    ultimately show ?thesis using assms(2) by (intro charged_step)
  qed (use assms(1) in \<open>auto simp: bounce_rcpt_def ret_def rcpt_step_def\<close>)
qed

lemma mailbox_rcpt_step:
  assumes "mailbox_rcpt to l s w = (r, w')" and "is_accepted s = int (held_rcpts s)" and "ac_to a = to" and "w_db (ac_world a) = w_db w"
  shows "\<exists>rep l' s'. r = Inr (rep, l', s') \<and> rcpt_step h a (w_clock w') l s rep l' s'"
proof -
  obtain x w1 where x: "Resolve to w = (x, w1)" by (cases "Resolve to w")
  note good = wpD [OF resolve_spec x]
  note run = assms(1) [unfolded mailbox_rcpt_def bindE_def tryE_def x prod.case sum.case]
  consider (err) e where "x = Inl e" | (none) "x = Inr None" | (some) y where "x = Inr (Some y)" by (cases x) auto
  then show ?thesis
  proof cases
    case (some y)
    let ?boxes = "filter (deliverable (is_size s)) (re_mailboxes y)"
    let ?f = "\<lambda>s'. s'\<lparr>is_recipients := is_recipients s @ [y\<lparr>re_mailboxes := ?boxes\<rparr>]\<rparr>"
    show ?thesis
    proof (cases "?boxes = []")
      case True
      with run some show ?thesis by (auto simp: ret_def rcpt_step_def Let_def)
    next
      case False
      have "mailbox_accepted a (is_size s) (y\<lparr>re_mailboxes := ?boxes\<rparr>)"
        unfolding mailbox_accepted_def by (rule exI [of _ y]) (use good some False assms(3,4) in simp)
      then have t: "takes h a s (?f (s\<lparr>is_accepted := is_accepted s + 1\<rparr>))"
        unfolding takes_def by (intro disjI1 exI [of _ "y\<lparr>re_mailboxes := ?boxes\<rparr>"]) simp
      have "charged l s ?f w1 = (r, w')" using run some False by (simp add: Let_def)
      from charged_step [OF this assms(2) t] show ?thesis .
    qed
  qed (use run in \<open>auto simp: ret_def rcpt_step_def\<close>)
qed

lemma parse_recipient_returns: "\<exists>x. fst (ParseRecipient b to w) = Inr x"
  by (auto simp: ParseRecipient_def IsHosted_def HasOutboundJob_def bindE_def tryE_def ret_def fail_def split: prod.splits option.splits sum.splits)

lemma parse_recipient_reads: "preserves (\<lambda>w. w_db w = d) (ParseRecipient b to)"
  unfolding ParseRecipient_def IsHosted_def HasOutboundJob_def
  by (auto intro!: preserves_intros preserves_read [where P = "\<lambda>x. x = d"] split: prod.split option.split)

lemma parsed_accepted:
  assumes "ParseRecipient h to w = (Inr (Some (Some x)), w')" and "ac_to a = to" and "ac_world a = w"
  shows "bounce_accepted h a x"
proof -
  from assms(1) have p: "fst (ParseRecipient h to w) = Inr (Some (Some x))" by simp
  obtain local domain ok where c: "cut (to_lower (trim_space to)) ''@'' = (local, domain, ok)" by (cases "cut (to_lower (trim_space to)) ''@''") auto
  note f = parsed_recipient [OF p]
  from f(2) c obtain k where k: "k \<in> set (db_dkim_keys (w_db w))" "dk_domain k = domain" and ok: ok by auto
  from p c have pre: "has_prefix local verpPrefix" and u: "bh_ulid h (fst (cut_prefix local verpPrefix)) = Some (bc_message_id x)"
    by (auto simp: ParseRecipient_def ret_def bindE_def tryE_def split: if_splits option.splits prod.splits)
  from pre have "local = verpPrefix @ drop (length verpPrefix) local"
    unfolding has_prefix_def by (metis append_take_drop_id)
  then obtain i where i: "local = ''bounces+'' @ i" unfolding verpPrefix_def by blast
  then have "fst (cut_prefix local verpPrefix) = i" by (simp add: cut_prefix_def has_prefix_def verpPrefix_def)
  with u have "bh_ulid h i = Some (bc_message_id x)" by simp
  moreover have "to_lower (trim_space to) = ''bounces+'' @ i @ ''@'' @ domain" using c ok i by (auto dest: cut_found)
  ultimately show ?thesis unfolding bounce_accepted_def assms(2,3) using f(1,3) k by blast
qed

lemma Rcpt_step:
  assumes "Rcpt b to l s w = (r, w')" and "is_accepted s = int (held_rcpts s)" and a: "ac_to a = to" "ac_world a = w"
  shows "\<exists>rep l' s'. r = Inr (rep, l', s') \<and> rcpt_step (ib_bounces b) a (w_clock w') l s rep l' s'"
proof -
  obtain x w1 where x: "ParseRecipient (ib_bounces b) to w = (Inr x, w1)"
    using parse_recipient_returns [of "ib_bounces b" to w] by (metis prod.collapse)
  note run = assms(1) [unfolded Rcpt_def bindE_def x prod.case sum.case]
  have w1: "w_db w1 = w_db w" by (rule preservesD [OF parse_recipient_reads refl x])
  consider (none) "x = None" | (invalid) "x = Some None" | (valid) y where "x = Some (Some y)" by (cases x) auto
  then show ?thesis
  proof cases
    case none
    with run have m: "mailbox_rcpt to l s w1 = (r, w')" by simp
    show ?thesis by (rule mailbox_rcpt_step [OF m assms(2) a(1)]) (simp add: a(2) w1)
  next
    case invalid
    with run show ?thesis by (auto simp: ret_def rcpt_step_def)
  next
    case (valid y)
    from parsed_accepted [OF x [unfolded valid] a] valid run show ?thesis by (intro bounce_rcpt_step [OF _ assms(2)]) simp_all
  qed
qed

text \<open>
  A run of the sessions that share the limiter, in any interleaving and with the tables changing in between, from the state with
  the limiter \<open>l0\<close>, the time \<open>t0\<close>, the sessions \<open>ss0\<close> and the acceptances \<open>acc0\<close>: \<open>t\<close> is the time, \<open>ss\<close> the sessions, each with the
  flag of the protocol library that MAIL was accepted, without which it lets no RCPT through, and \<open>acc\<close> the acceptances so far.
  After DATA and on RSET the library calls \<^verbatim>\<open>Reset\<close>.
\<close>

inductive smtp_run :: "inbound_backend \<Rightarrow> limiter \<Rightarrow> time \<Rightarrow> (inbound_session \<times> bool) list \<Rightarrow> acceptance list
    \<Rightarrow> limiter \<Rightarrow> time \<Rightarrow> (inbound_session \<times> bool) list \<Rightarrow> acceptance list \<Rightarrow> bool"
  for b :: inbound_backend and l0 :: limiter and t0 :: time and ss0 :: "(inbound_session \<times> bool) list" and acc0 :: "acceptance list" where
  start: "smtp_run b l0 t0 ss0 acc0 l0 t0 ss0 acc0"
| connect: "smtp_run b l0 t0 ss0 acc0 l t ss acc \<Longrightarrow> smtp_run b l0 t0 ss0 acc0 l t (ss @ [(NewSession lib addr host tls, False)]) acc"
| mail: "smtp_run b l0 t0 ss0 acc0 l t ss acc \<Longrightarrow> i < length ss \<Longrightarrow> ss ! i = (s, m) \<Longrightarrow> t \<le> w_clock w
    \<Longrightarrow> Mail sender opts l s w = (Inr (rep, l', s'), w') \<Longrightarrow> smtp_run b l0 t0 ss0 acc0 l' (w_clock w) (ss[i := (s', m \<or> rep = None)]) acc"
| rcpt: "smtp_run b l0 t0 ss0 acc0 l t ss acc \<Longrightarrow> i < length ss \<Longrightarrow> ss ! i = (s, True) \<Longrightarrow> Rcpt b to l s w = (Inr (rep, l', s'), w')
    \<Longrightarrow> t \<le> w_clock w' \<Longrightarrow> smtp_run b l0 t0 ss0 acc0 l' (w_clock w') (ss[i := (s', True)])
      (if held_rcpts s < held_rcpts s' then \<lparr>ac_key = is_limit_key s, ac_to = to, ac_world = w\<rparr> # acc else acc)"
| reset: "smtp_run b l0 t0 ss0 acc0 l t ss acc \<Longrightarrow> i < length ss \<Longrightarrow> ss ! i = (s, m)
    \<Longrightarrow> smtp_run b l0 t0 ss0 acc0 l t (ss[i := (Reset s, False)]) acc"

lemma smtp_run_append:
  assumes "smtp_run b l0 t0 ss0 acc0 l1 t1 ss1 acc1" and "smtp_run b l1 t1 ss1 acc1 l t ss acc"
  shows "smtp_run b l0 t0 ss0 acc0 l t ss acc"
  using assms(2,1)
proof (induction rule: smtp_run.induct)
  case start
  then show ?case .
next
  case (connect l t ss acc lib addr host tls)
  then show ?case by (intro smtp_run.connect)
next
  case (mail l t ss acc i s m w sender opts rep l' s' w')
  from smtp_run.mail [OF mail.IH [OF mail.prems] mail.hyps(2-5)] show ?case .
next
  case (rcpt l t ss acc i s to w rep l' s' w')
  from smtp_run.rcpt [OF rcpt.IH [OF rcpt.prems] rcpt.hyps(2-5)] show ?case .
next
  case (reset l t ss acc i s m)
  from smtp_run.reset [OF reset.IH [OF reset.prems] reset.hyps(2,3)] show ?case .
qed

definition accepted_of :: "string \<Rightarrow> acceptance list \<Rightarrow> nat" where
  "accepted_of k acc = length (filter (\<lambda>a. ac_key a = k) acc)"

text \<open>RCPT runs at one time.\<close>

lemma clock_reads: "preserves (\<lambda>w. w_clock w = c) (selectAll t p)" "preserves (\<lambda>w. w_clock w = c) (selectFirst t p)"
  by (simp_all add: preserves_def wp_simps)

lemma clock_resolve: "preserves (\<lambda>w. w_clock w = c) (Resolve to)"
proof -
  have f: "preserves (\<lambda>w. w_clock w = c) (found m)" if "preserves (\<lambda>w. w_clock w = c) m" for m :: "'b io"
    unfolding found_def by (intro preserves_intros that) (auto intro!: preserves_intros split: sum.split)
  have o: "preserves (\<lambda>w. w_clock w = c) (or_else m n)" if "preserves (\<lambda>w. w_clock w = c) m" "preserves (\<lambda>w. w_clock w = c) n" for m n :: "result option io"
    unfolding or_else_def by (intro preserves_intros that) (auto intro!: preserves_intros that split: option.split)
  have r: "preserves (\<lambda>w. w_clock w = c) (routeResult r t)" for r t
    unfolding routeResult_def by (intro preserves_intros clock_reads)
  have s: "preserves (\<lambda>w. w_clock w = c) (exactMailbox t)" "preserves (\<lambda>w. w_clock w = c) (exactRoute t)"
    "preserves (\<lambda>w. w_clock w = c) (patternRoute t)" "preserves (\<lambda>w. w_clock w = c) (catchAllRoute t)" for t
    unfolding exactMailbox_def exactRoute_def patternRoute_def catchAllRoute_def
    by (intro preserves_intros f clock_reads preserves_clock; auto intro!: preserves_intros r split: option.split)+
  show ?thesis
    unfolding Resolve_def Let_def by (auto intro!: preserves_intros o s split: prod.split)
qed

lemma clock_rcpt: "preserves (\<lambda>w. w_clock w = c) (Rcpt b to l s)"
proof -
  have p: "preserves (\<lambda>w. w_clock w = c) (ParseRecipient h to)" for h
    unfolding ParseRecipient_def IsHosted_def HasOutboundJob_def
    by (auto intro!: preserves_intros clock_reads split: prod.split option.split)
  have ch: "preserves (\<lambda>w. w_clock w = c) (charged l s f)" for f
    unfolding charged_def by (intro preserves_intros preserves_clock) (auto intro!: preserves_intros split: prod.split option.split)
  show ?thesis
    unfolding Rcpt_def bounce_rcpt_def mailbox_rcpt_def
    by (intro preserves_intros p) (auto simp: Let_def intro!: preserves_intros p ch clock_resolve split: option.split sum.split)
qed

text \<open>A session that was let in by MAIL and holds nobody has a recipient paid for in advance.\<close>

definition prepaid :: "string \<Rightarrow> inbound_session \<times> bool \<Rightarrow> nat" where
  "prepaid k sm = (if snd sm \<and> held_rcpts (fst sm) = 0 \<and> is_limit_key (fst sm) = k then 1 else 0)"

definition all_prepaid :: "string \<Rightarrow> (inbound_session \<times> bool) list \<Rightarrow> nat" where
  "all_prepaid k ss = sum_list (map (prepaid k) ss)"

lemma prepaid_update:
  assumes "i < length ss"
  shows "all_prepaid k (ss[i := x]) + prepaid k (ss ! i) = all_prepaid k ss + prepaid k x"
proof -
  have s: "ss = take i ss @ ss ! i # drop (Suc i) ss" using assms by (rule id_take_nth_drop)
  show ?thesis unfolding upd_conv_take_nth_drop [OF assms] all_prepaid_def by (subst (3) s) simp
qed

lemma allow_all_snoc:
  "allow_all rs l0 = (as, l) \<Longrightarrow> Allow k t l = (a, l') \<Longrightarrow> allow_all (rs @ [(k, t)]) l0 = (as @ [a], l')"
  by (induction rs arbitrary: l0 as) (auto split: prod.splits)

lemma granted_snoc: "length as = length rs \<Longrightarrow> granted k (rs @ [r]) (as @ [a]) = granted k rs as + (if fst r = k \<and> a then 1 else 0)"
  by (simp add: granted_def)

text \<open>
  The requests behind a state of the limiter, with what they were granted: it pays for \<open>spent\<close>, beyond what was paid before.
\<close>

definition paid :: "(string \<Rightarrow> nat) \<Rightarrow> limiter \<Rightarrow> time \<Rightarrow> limiter \<Rightarrow> time \<Rightarrow> (string \<Rightarrow> nat) \<Rightarrow> bool" where
  "paid before l0 t0 l t spent \<longleftrightarrow> (\<exists>rs as. allow_all rs l0 = (as, l) \<and> sorted (t0 # map snd rs) \<and> (\<forall>r \<in> set rs. snd r \<le> t) \<and> t0 \<le> t
     \<and> (\<forall>k. spent k \<le> before k + granted k rs as))"

lemma paid_later: "paid p0 l0 t0 l t spent \<Longrightarrow> t \<le> u \<Longrightarrow> (\<And>k. spent' k \<le> spent k) \<Longrightarrow> paid p0 l0 t0 l u spent'"
  unfolding paid_def by (meson order_trans)

lemma paid_token:
  assumes "paid p0 l0 t0 l t spent" and "Allow key u l = (a, l')" and "t \<le> u" and "\<And>k. spent' k \<le> spent k + (if k = key \<and> a then 1 else 0)"
  shows "paid p0 l0 t0 l' u spent'"
proof -
  from assms(1) obtain rs as where r: "allow_all rs l0 = (as, l)" "sorted (t0 # map snd rs)" "\<forall>r \<in> set rs. snd r \<le> t" "t0 \<le> t"
    "\<forall>k. spent k \<le> p0 k + granted k rs as" by (auto simp: paid_def)
  have "allow_all (rs @ [(key, u)]) l0 = (as @ [a], l')" by (rule allow_all_snoc [OF r(1) assms(2)])
  moreover have "sorted (t0 # map snd (rs @ [(key, u)]))" using r(2-4) assms(3) by (auto simp: sorted_append)
  moreover have "spent' k \<le> p0 k + granted k (rs @ [(key, u)]) (as @ [a])" for k
    using assms(4) [of k] r(5) [rule_format, of k] unfolding granted_snoc [OF length_allow_all [OF r(1)]] by (auto split: if_splits)
  ultimately show ?thesis unfolding paid_def using r(3,4) assms(3) by (intro exI [of _ "rs @ [(key, u)]"] exI [of _ "as @ [a]"]) auto
qed

definition run_ok :: "bounce_handler \<Rightarrow> (string \<Rightarrow> nat) \<Rightarrow> limiter \<Rightarrow> time \<Rightarrow> limiter \<Rightarrow> time \<Rightarrow> (inbound_session \<times> bool) list \<Rightarrow> acceptance list \<Rightarrow> bool" where
  "run_ok h p0 l0 t0 l t ss acc \<longleftrightarrow> paid p0 l0 t0 l t (\<lambda>k. accepted_of k acc + all_prepaid k ss) \<and> (\<forall>sm \<in> set ss. session_ok h acc (fst sm))"

lemma run_ok_sessions:
  assumes "run_ok h p0 l0 t0 l t ss acc" and "session_ok h acc' s'" and "set acc \<subseteq> set acc'"
  shows "\<forall>sm \<in> set (ss[i := (s', m)]). session_ok h acc' (fst sm)"
proof
  fix sm assume "sm \<in> set (ss[i := (s', m)])"
  then have "sm \<in> insert (s', m) (set ss)" using set_update_subset_insert by fast
  with assms show "session_ok h acc' (fst sm)" by (auto simp: run_ok_def intro: session_ok_more)
qed

lemma run_ok_nth: "run_ok h p0 l0 t0 l t ss acc \<Longrightarrow> i < length ss \<Longrightarrow> ss ! i = (s, m) \<Longrightarrow> session_ok h acc s"
  unfolding run_ok_def using nth_mem by fastforce

lemma run_ok_mail:
  assumes ok: "run_ok h p0 l0 t0 l t ss acc" and i: "i < length ss" "ss ! i = (s, m)" and t: "t \<le> w_clock w"
    and run: "Mail sender opts l s w = (Inr (rep, l', s'), w')"
  shows "run_ok h p0 l0 t0 l' (w_clock w) (ss[i := (s', m \<or> rep = None)]) acc"
proof -
  obtain a l1 where a: "Allow (is_limit_key s) (w_clock w) l = (a, l1)" by (cases "Allow (is_limit_key s) (w_clock w) l")
  note s = run_ok_nth [OF ok i]
  from run a s have e: "l' = l1" "rep = None \<longleftrightarrow> a" "is_limit_key s' = is_limit_key s" "\<not> a \<Longrightarrow> s' = s" "session_ok h acc s'"
    by (auto simp: Mail_def bindE_def now_def ret_def session_ok_def held_rcpts_def split: bool.splits)
  have le: "all_prepaid k (ss[i := (s', m \<or> rep = None)]) \<le> all_prepaid k ss + (if k = is_limit_key s \<and> a then 1 else 0)" for k
    using prepaid_update [OF i(1), of k "(s', m \<or> rep = None)"] i(2) e(2-4) by (cases a) (auto simp: prepaid_def split: if_splits)
  have p: "paid p0 l0 t0 l t (\<lambda>k. accepted_of k acc + all_prepaid k ss)" using ok by (simp add: run_ok_def)
  have "paid p0 l0 t0 l' (w_clock w) (\<lambda>k. accepted_of k acc + all_prepaid k (ss[i := (s', m \<or> rep = None)]))"
    by (rule paid_token [OF p a [folded e(1)] t]) (use le in \<open>simp only: add.assoc add_le_cancel_left\<close>)
  with run_ok_sessions [OF ok e(5) order_refl] show ?thesis by (simp add: run_ok_def)
qed

lemma run_ok_rcpt:
  assumes ok: "run_ok h p0 l0 t0 l t ss acc" and i: "i < length ss" "ss ! i = (s, True)" and t: "t \<le> u"
    and step: "rcpt_step h a u l s rep l' s'" and a: "ac_key a = is_limit_key s"
  shows "run_ok h p0 l0 t0 l' u (ss[i := (s', True)]) (if held_rcpts s < held_rcpts s' then a # acc else acc)"
proof -
  note s = run_ok_nth [OF ok i]
  have p: "paid p0 l0 t0 l t (\<lambda>k. accepted_of k acc + all_prepaid k ss)" using ok by (simp add: run_ok_def)
  note up = prepaid_update [OF i(1), of _ "(s', True)", unfolded i(2)]
  have same: "ss[i := (s, True)] = ss" using i by (metis list_update_id)
  from step consider (idle) "s' = s" "l' = l" | (refused) "s' = s" "token_for s u l False l'"
    | (taken) "token_for s u l True l'" "takes h a s s'"
    unfolding rcpt_step_def by blast
  then show ?thesis
  proof cases
    case idle
    with ok same paid_later [OF p t] show ?thesis by (simp add: run_ok_def)
  next
    case refused
    then have "Allow (is_limit_key s) u l = (False, l')" by (auto simp: token_for_def split: if_splits)
    from paid_token [OF p this t] have "paid p0 l0 t0 l' u (\<lambda>k. accepted_of k acc + all_prepaid k ss)" by simp
    with ok refused(1) same show ?thesis by (simp add: run_ok_def)
  next
    case taken
    note one = takes_one [OF taken(2)]
    have "paid p0 l0 t0 l' u (\<lambda>k. accepted_of k (a # acc) + all_prepaid k (ss[i := (s', True)]))"
    proof (cases "held_rcpts s = 0")
      case True
      with taken(1) have l: "l' = l" by (simp add: token_for_def)
      have "accepted_of k (a # acc) + all_prepaid k (ss[i := (s', True)]) \<le> accepted_of k acc + all_prepaid k ss" for k
        using up [of k] True one a by (auto simp: prepaid_def accepted_of_def split: if_splits)
      then show ?thesis unfolding l by (rule paid_later [OF p t])
    next
      case False
      with taken(1) have al: "Allow (is_limit_key s) u l = (True, l')" by (simp add: token_for_def)
      have "all_prepaid k (ss[i := (s', True)]) = all_prepaid k ss" for k
        using up [of k] False one by (auto simp: prepaid_def split: if_splits)
      then show ?thesis by (intro paid_token [OF p al t]) (simp add: accepted_of_def a)
    qed
    moreover have "\<forall>sm \<in> set (ss[i := (s', True)]). session_ok h (a # acc) (fst sm)"
      by (rule run_ok_sessions [OF ok takes_ok [OF taken(2) s a]]) auto
    ultimately show ?thesis using one by (simp add: run_ok_def)
  qed
qed

lemma smtp_run_ok:
  assumes "smtp_run b l0 t0 ss0 acc0 l t ss acc" and "\<forall>sm \<in> set ss0. session_ok (ib_bounces b) acc0 (fst sm)"
  shows "run_ok (ib_bounces b) (\<lambda>k. accepted_of k acc0 + all_prepaid k ss0) l0 t0 l t ss acc"
  using assms(1)
proof (induction rule: smtp_run.induct)
  case start
  show ?case unfolding run_ok_def paid_def using assms(2) by (intro conjI exI [of _ "[]"]) (auto simp: granted_def)
next
  case (connect l t ss acc lib addr host tls)
  then show ?case by (auto simp: run_ok_def all_prepaid_def prepaid_def NewSession_def session_ok_def held_rcpts_def)
next
  case (mail l t ss acc i s m w sender opts rep l' s' w')
  from run_ok_mail [OF mail.IH mail.hyps(2-5)] show ?case .
next
  case (rcpt l t ss acc i s to w rep l' s' w')
  let ?a = "\<lparr>ac_key = is_limit_key s, ac_to = to, ac_world = w\<rparr>"
  have "is_accepted s = int (held_rcpts s)" using run_ok_nth [OF rcpt.IH rcpt.hyps(2,3)] by (simp add: session_ok_def)
  from Rcpt_step [OF rcpt.hyps(4) this, of ?a] have "rcpt_step (ib_bounces b) ?a (w_clock w') l s rep l' s'" by auto
  from run_ok_rcpt [OF rcpt.IH rcpt.hyps(2,3,5) this] show ?case by simp
next
  case (reset l t ss acc i s m)
  let ?p = "\<lambda>k. accepted_of k acc0 + all_prepaid k ss0"
  have k: "all_prepaid k (ss[i := (Reset s, False)]) \<le> all_prepaid k ss" for k
    using prepaid_update [OF reset.hyps(2), of k "(Reset s, False)"] by (simp add: prepaid_def)
  have r: "session_ok (ib_bounces b) acc (Reset s)" by (simp add: session_ok_def Reset_def held_rcpts_def)
  have p: "paid ?p l0 t0 l t (\<lambda>k. accepted_of k acc + all_prepaid k ss)" using reset.IH by (simp add: run_ok_def)
  have "paid ?p l0 t0 l t (\<lambda>k. accepted_of k acc + all_prepaid k (ss[i := (Reset s, False)]))"
    by (rule paid_later [OF p order_refl]) (use k in simp)
  with run_ok_sessions [OF reset.IH r order_refl] show ?case by (simp add: run_ok_def)
qed

text \<open>Runs from the start of the server, with a new limiter and nobody connected.\<close>

abbreviation server_run :: "inbound_backend \<Rightarrow> rat \<Rightarrow> int \<Rightarrow> time \<Rightarrow> limiter \<Rightarrow> time \<Rightarrow> (inbound_session \<times> bool) list \<Rightarrow> acceptance list \<Rightarrow> bool" where
  "server_run b rate burst t0 \<equiv> smtp_run b (limiter_New rate burst t0) t0 [] []"

lemma server_run_ok:
  assumes "server_run b rate burst t0 l t ss acc"
  shows "run_ok (ib_bounces b) (\<lambda>_. 0) (limiter_New rate burst t0) t0 l t ss acc"
  using smtp_run_ok [OF assms] by (simp add: accepted_of_def all_prepaid_def)

text \<open>
  C37.  However a client spreads its mail over connections, transactions and recipients, in any period between two moments of the
  server's life no more recipients of one key are accepted than the burst and the refill of the limiter allow in this period, and
  one more for each session of the key whose MAIL was accepted before the period and that had no recipient yet: the token spent on
  MAIL covers the first recipient of its transaction, and every other recipient has one of its own.  It needs
  \<open>burst <= 600 * rate\<close>, as the limit itself.
\<close>

theorem recipients_bounded:
  assumes "0 < rate" and "0 < burst" and "of_int burst \<le> 600 * rate"
    and "server_run b rate burst t0 l1 t1 ss1 acc1" and "smtp_run b l1 t1 ss1 acc1 l2 t2 ss2 acc2"
  shows "of_nat (accepted_of k acc2) \<le> of_nat (accepted_of k acc1) + of_nat (all_prepaid k ss1) + of_int burst + seconds (t2 - t1) * rate"
proof -
  let ?l0 = "limiter_New rate burst t0"
  note ok1 = server_run_ok [OF assms(4)]
  from ok1 obtain rs as where r: "allow_all rs ?l0 = (as, l1)" "sorted (t0 # map snd rs)" "\<forall>r \<in> set rs. snd r \<le> t1" "t0 \<le> t1"
    by (auto simp: run_ok_def paid_def)
  have "limiter_ok ?l0 t0" using assms(1-3) by (simp add: limiter_ok_def limiter_New_def)
  from allow_all_ok [OF this r(2,1,3,4)] assms(2) have l1: "limiter_ok l1 t1" "li_rate l1 = rate" "li_burst l1 = of_int burst"
    by (simp_all add: limiter_New_def)
  have "\<forall>sm \<in> set ss1. session_ok (ib_bounces b) acc1 (fst sm)" using ok1 by (simp add: run_ok_def)
  from smtp_run_ok [OF assms(5) this] obtain rs2 as2 where r2: "allow_all rs2 l1 = (as2, l2)" "sorted (t1 # map snd rs2)"
    "\<forall>r \<in> set rs2. snd r \<le> t2" "t1 \<le> t2" "accepted_of k acc2 + all_prepaid k ss2 \<le> accepted_of k acc1 + all_prepaid k ss1 + granted k rs2 as2"
    by (auto simp: run_ok_def paid_def)
  from granted_bound [OF l1(1) r2(2,1,3,4), of k] level_le_burst [of l1 k t1]
  have "of_nat (granted k rs2 as2) \<le> of_int burst + seconds (t2 - t1) * rate" by (simp add: l1)
  moreover have "(of_nat (accepted_of k acc2) :: rat) \<le> of_nat (accepted_of k acc1 + all_prepaid k ss1 + granted k rs2 as2)"
    using r2(5) by (simp only: of_nat_le_iff)
  ultimately show ?thesis by simp
qed

text \<open>
  C38.  Nobody gets into a session but by an accepted RCPT: at every moment of every run, the counter of a session is the number
  of recipients it holds, and each of them is what an RCPT of its client that was accepted in this run gives.  A mailbox recipient
  is what its address resolved to in the tables of that moment, with those of its active mailboxes, at least one, that had room
  for the announced size.  A bounce recipient has the address \<open>bounces+id@domain\<close>, where at that moment the domain was one this
  server signs for and the message \<open>id\<close> had an outbound job.  There are at most ten bounce recipients, for different messages.
\<close>

theorem sessions_sound:
  assumes "server_run b rate burst t0 l t ss acc" and "(s, m) \<in> set ss"
  shows "session_ok (ib_bounces b) acc s"
  using server_run_ok [OF assms(1)] assms(2) by (auto simp: run_ok_def)

section \<open>The reply to DATA\<close>

text \<open>Nothing is filed from \<open>w\<close> to \<open>w'\<close>: only bounce events and the event log may have grown.\<close>

definition same_mail :: "world \<Rightarrow> world \<Rightarrow> bool" where
  "same_mail w w' \<longleftrightarrow> (w_db w')\<lparr>db_bounces := [], db_events := []\<rparr> = (w_db w)\<lparr>db_bounces := [], db_events := []\<rparr>
     \<and> w_notifier w' = w_notifier w"

lemma same_mail_refl: "same_mail w w"
  by (simp add: same_mail_def)

lemma same_mail_trans: "same_mail w w1 \<Longrightarrow> same_mail w1 w2 \<Longrightarrow> same_mail w w2"
  by (simp add: same_mail_def)

lemma same_mail_reads:
  "preserves (same_mail w) (selectAll t p)" "preserves (same_mail w) (selectFirst t p)" "preserves (same_mail w) now" "preserves (same_mail w) newID"
  by (simp_all add: preserves_def wp_simps same_mail_def)

lemma same_mail_writes:
  "preserves (same_mail w) (putBlob k b)" "preserves (same_mail w) (insertRows T_bounces f rows)" "preserves (same_mail w) (insertRow T_events c e)"
  by (auto simp: preserves_def wp_simps insertRows_def wp_dbcall wp_def [of "putBlob _ _"] putBlob_eq table_defs same_mail_def)

lemma same_mail_emit: "preserves (same_mail w) (emitDomainBounce b e)"
proof -
  have "preserves (same_mail w) (Emit t m p)" for t m p
    unfolding Emit_def insert_event_def by (intro preserves_intros same_mail_reads same_mail_writes)
  then show ?thesis
    unfolding emitDomainBounce_def
    by (intro preserves_intros same_mail_reads) (auto intro!: preserves_intros split: sum.split)
qed

lemma same_mail_record: "preserves (same_mail w) (Record b recipients raw)"
  unfolding Record_def Let_def by (intro preserves_intros same_mail_reads same_mail_writes same_mail_emit)

lemma record_objects: "preserves (\<lambda>w. S \<subseteq> fst ` set (w_blobs w)) (Record b recipients raw)"
proof -
  let ?Q = "\<lambda>w. S \<subseteq> fst ` set (w_blobs w)"
  have st: "preserves ?Q (selectAll t p)" "preserves ?Q (selectFirst t p)" "preserves ?Q now" "preserves ?Q newID" "preserves ?Q (putBlob key x)"
    "preserves ?Q (insertRows T_bounces f rows)" "preserves ?Q (insertRow T_events c e)" for t :: "'z table" and p key x f rows c e
    by (auto simp: preserves_def wp_simps insertRows_def wp_dbcall wp_def [of "putBlob _ _"] putBlob_eq)
  have "preserves ?Q (selectFirst T_jobs p)" for p by (simp add: preserves_def wp_simps)
  then have "preserves ?Q (emitDomainBounce b e)" for e
    unfolding emitDomainBounce_def Emit_def insert_event_def
    by (intro preserves_intros st) (auto intro!: preserves_intros st split: sum.split)
  then show ?thesis
    unfolding Record_def Let_def by (intro preserves_intros st)
qed

lemma same_mail_check: "preserves (same_mail w) (CheckParsed orc cfg authID raw md smtp recipients)"
  unfolding CheckParsed_def Let_def senderRuleMatch_def sender_rule_entries_def
  by (intro preserves_intros same_mail_reads) (auto intro!: preserves_intros same_mail_reads split: prod.split)

lemma deliver_parsed_run:
  assumes "DeliverParsed s normalized md recipients a w = (r, w')"
  shows "(\<exists>e. r = Inl e \<and> same_mail w w')
    \<or> (\<exists>msg ds w1 traceID. r = Inr msg \<and> delivered a (withTraceHeaders s (w_clock w) normalized traceID (as_header a)) recipients w msg ds w1
         \<and> w' = snd (after_commit s msg ds recipients w1))"
proof -
  let ?w = "w\<lparr>w_idc := Suc (Suc (w_idc w))\<rparr>" and ?traceID = "w_ids w (Suc (w_idc w))"
  let ?stored = "withTraceHeaders s (w_clock w) normalized ?traceID (as_header a)"
  have d: "delivered a st rs ?w msg ds w1 = delivered a st rs w msg ds w1" for st rs msg ds w1
    by (simp add: delivered_def)
  have "deliver s (w_ids w (w_idc w)) ?traceID ?stored (md\<lparr>md_headers := ParseHeaders (ds_mime s) ?stored\<rparr>) recipients a ?w = (r, w')"
    using assms by (simp add: DeliverParsed_def bindE_def newID_def now_def Let_def)
  from deliver_run [OF this, unfolded d] show ?thesis
  proof (elim disjE exE conjE)
    fix e
    assume "r = Inl e" "w_db w' = w_db ?w" "w_notifier w' = w_notifier ?w"
    then have "r = Inl e \<and> same_mail w w'" by (simp add: same_mail_def)
    then show ?thesis by blast
  qed blast
qed

text \<open>The verdict of the spam check on the message as it is normalised, in the world \<open>w\<close>.\<close>

definition assessed :: "inbound_backend \<Rightarrow> string \<Rightarrow> inbound_session \<Rightarrow> world \<Rightarrow> assessment \<Rightarrow> world \<Rightarrow> bool" where
  "assessed b raw s w a w' \<longleftrightarrow> CheckParsed (ib_oracles b) (ib_spam b) (ib_auth_id b) (NormalizeMessage raw)
     (Parse (ds_mime (ib_messages b)) (NormalizeMessage raw)) (is_smtp s) (is_recipients s) w = (Inr a, w')"

text \<open>What a positive reply means for a session with recipients.\<close>

definition filed :: "inbound_backend \<Rightarrow> string \<Rightarrow> inbound_session \<Rightarrow> world \<Rightarrow> world \<Rightarrow> bool" where
  "filed b raw s w w' \<longleftrightarrow> (\<exists>w1 a w2 msg ds w3 traceID. same_mail w w1 \<and> assessed b raw s w1 a w2 \<and> \<not> as_reject a \<and> same_mail w w2
     \<and> delivered a (withTraceHeaders (ib_messages b) (w_clock w2) (NormalizeMessage raw) traceID (as_header a)) (is_recipients s) w2 msg ds w3
     \<and> w' = snd (after_commit (ib_messages b) msg ds (is_recipients s) w3))"

lemma bind_try: "m w = (x, w1) \<Longrightarrow> bindE (tryE m) f w = f x w1"
  by (simp add: bindE_def tryE_def)

lemma deliver_data_run:
  assumes "deliver_data b raw s w1 = (r, w')" and w1: "same_mail w w1"
  shows "\<exists>rep. r = Inr rep \<and> (if rep = None then filed b raw s w w' else same_mail w w')"
proof -
  let ?m = "NormalizeMessage raw" and ?md = "Parse (ds_mime (ib_messages b)) (NormalizeMessage raw)"
  obtain c w2 where c: "CheckParsed (ib_oracles b) (ib_spam b) (ib_auth_id b) ?m ?md (is_smtp s) (is_recipients s) w1 = (c, w2)"
    by (cases "CheckParsed (ib_oracles b) (ib_spam b) (ib_auth_id b) ?m ?md (is_smtp s) (is_recipients s) w1")
  have w2: "same_mail w w2" by (rule preservesD [OF same_mail_check w1 c])
  note run = assms(1) [unfolded deliver_data_def Let_def bind_try [where m = "CheckParsed (ib_oracles b) (ib_spam b) (ib_auth_id b) ?m ?md (is_smtp s) (is_recipients s)", OF c]]
  show ?thesis
  proof (cases c)
    case (Inl e)
    with run w2 show ?thesis by (auto simp: ret_def)
  next
    case (Inr a)
    show ?thesis
    proof (cases "as_reject a")
      case True
      with run w2 Inr show ?thesis by (auto simp: ret_def)
    next
      case False
      obtain d w3 where d: "DeliverParsed (ib_messages b) ?m ?md (is_recipients s) a w2 = (d, w3)"
        by (cases "DeliverParsed (ib_messages b) ?m ?md (is_recipients s) a w2")
      from run [unfolded Inr sum.case if_not_P [OF False] bind_try [where m = "DeliverParsed (ib_messages b) ?m ?md (is_recipients s) a", OF d]] have e: "w' = w3" "r = Inr (case d of Inl e \<Rightarrow> Some (if e = ErrOverQuota then overQuotaSMTPError else local_problem) | Inr _ \<Rightarrow> None)"
        by (auto simp: ret_def split: sum.splits)
      from deliver_parsed_run [OF d] show ?thesis
      proof (elim disjE exE conjE)
        fix x
        assume "d = Inl x" "same_mail w2 w3"
        with e same_mail_trans [OF w2] show ?thesis by simp
      next
        fix msg ds w4 traceID
        assume f: "d = Inr msg" "delivered a (withTraceHeaders (ib_messages b) (w_clock w2) ?m traceID (as_header a)) (is_recipients s) w2 msg ds w4"
          "w3 = snd (after_commit (ib_messages b) msg ds (is_recipients s) w4)"
        have "filed b raw s w w'" unfolding filed_def assessed_def e(1) using w1 w2 c [unfolded Inr] False f(2,3) by blast
        with e(2) f(1) show ?thesis by simp
      qed
    qed
  qed
qed

subsection \<open>What a delivery leaves alone\<close>

text \<open>
  The bounce events are \<open>B\<close>, the object \<open>k\<close> is \<open>v\<close>, and the objects \<open>S\<close> are still there, with whatever content.
\<close>

definition aside :: "bounce_event list \<Rightarrow> string \<Rightarrow> string option \<Rightarrow> string set \<Rightarrow> world \<Rightarrow> bool" where
  "aside B k v S w \<longleftrightarrow> db_bounces (w_db w) = B \<and> map_of (w_blobs w) k = v \<and> S \<subseteq> fst ` set (w_blobs w)"

lemma aside_reads:
  "preserves (aside B k v S) (selectAll t p)" "preserves (aside B k v S) (selectOnly t p)" "preserves (aside B k v S) (selectFirst t p)"
  "preserves (aside B k v S) now" "preserves (aside B k v S) newID" "preserves (aside B k v S) (publish ch)"
  by (simp_all add: preserves_def wp_simps aside_def)

lemma aside_writes:
  "preserves (aside B k v S) (updateWhere T_mms p1 f1)" "preserves (aside B k v S) (updateOne T_mms p2 f2)"
  "preserves (aside B k v S) (updateWhere T_mailboxes p3 f3)" "preserves (aside B k v S) (updateOne T_mailboxes p4 f4)"
  "preserves (aside B k v S) (updateOne T_folders p5 f5)" "preserves (aside B k v S) (updateOne T_labels p6 f6)"
  "preserves (aside B k v S) (insertRow T_messages c1 m)" "preserves (aside B k v S) (insertRow T_mms c2 r)"
  "preserves (aside B k v S) (insertRow T_links c3 l)" "preserves (aside B k v S) (insertRow T_events c4 e)"
  by (simp_all add: preserves_def wp_simps aside_def table_defs split: list.split)

lemma aside_in_tx: "preserves (aside B k v S) m \<Longrightarrow> preserves (aside B k v S) (in_tx m)"
proof -
  assume "preserves (aside B k v S) m"
  then have m: "wp m (\<lambda>_. aside B k v S) (pop w)" if "aside B k v S w" for w
    using that by (simp add: preserves_def aside_def)
  show ?thesis
    unfolding preserves_def wp_in_tx
    by (auto simp: aside_def intro!: wp_mono [OF m] split: sum.splits)
qed

lemma aside_putBlob: "k \<noteq> key \<Longrightarrow> preserves (aside B k v S) (putBlob key x)"
  by (auto simp: preserves_def wp_def putBlob_eq aside_def map_of_others)

lemmas aside_intros = preserves_intros aside_reads aside_writes aside_in_tx

lemma aside_move: "preserves (aside B k v S) (Move item folderID)"
  unfolding Move_def moveInTx_def allocateFolderUID_def messageSize_def
  by (intro aside_intros) (auto intro!: aside_intros split: sum.split)

lemma aside_attach: "preserves (aside B k v S) (attachInTx p)"
  unfolding attachInTx_def allocateFolderUID_def addUsedBytes_def by (intro aside_intros)

lemma aside_label: "preserves (aside B k v S) (AddLabel item labelID)"
  unfolding AddLabel_def addLabelInTx_def allocateLabelUID_def
  by (intro aside_intros) (auto intro!: aside_intros split: sum.split)

lemma aside_emit: "preserves (aside B k v S) (Emit t m p)"
  unfolding Emit_def insert_event_def by (intro aside_intros)

lemma aside_action: "preserves (aside B k v S) (applyAction events msg rule d action)"
  unfolding applyAction_def Let_def rule_move_def moveToFolder_def MoveToFolderName_def FolderByName_def rule_addLabel_def set_column_def
    SoftDelete_def softDeleteInTx_def messageSize_def copyToMailbox_def Attach_def NotifyAttached_def emitWebhook_def
  by (intro aside_intros aside_move aside_label aside_attach aside_emit) (auto intro!: aside_intros split: sum.split)

lemma aside_after_commit: "preserves (aside B k v S) (after_commit s msg ds rs)"
proof -
  have "preserves (aside B k v S) (applyDelivery events msg d)" for events d
    unfolding applyDelivery_def rules_def Let_def load_rules_def
    by (intro aside_intros aside_action) (auto intro!: aside_intros split: sum.split)
  then show ?thesis
    unfolding after_commit_def Apply_def EmitMessageReceived_def insert_event_def Let_def
    by (intro aside_intros)
qed

lemma aside_deliver:
  assumes "\<And>t i. k \<noteq> messageObjectKey t i"
  shows "preserves (aside B k v S) (DeliverParsed s n md rs a)"
proof -
  have p: "preserves (aside B k v S) (pending_one messageID sz a r st m)" for messageID sz r st m
    unfolding pending_one_def FolderByName_def Let_def by (auto intro!: aside_intros split: prod.split)
  show ?thesis
    unfolding DeliverParsed_def deliver_def Let_def pendingDeliveries_def storeInTx_def deliveriesInTx_def notify_all_def NotifyAttached_def
    by (intro aside_intros p aside_attach aside_putBlob assms aside_after_commit) (auto intro!: aside_intros split: prod.split)
qed

lemma aside_check: "preserves (aside B k v S) (CheckParsed orc cfg authID raw md smtp recipients)"
  unfolding CheckParsed_def Let_def senderRuleMatch_def sender_rule_entries_def
  by (intro preserves_intros aside_reads) (auto intro!: preserves_intros aside_reads split: prod.split)

lemma bounce_key_apart: "bounce_key sha \<noteq> messageObjectKey t i"
  by (simp add: bounce_key_def messageObjectKey_def)

lemma aside_deliver_data: "preserves (aside B (bounce_key sha) v S) (deliver_data b raw s)"
  unfolding deliver_data_def Let_def
  by (intro preserves_intros aside_check) (auto intro!: preserves_intros aside_deliver bounce_key_apart split: sum.split)

subsection \<open>The bounces\<close>

text \<open>
  The bounce events of the notification \<open>raw\<close>: one for each message that the bounce recipients of the session name, with what was
  read out of the notification, and its object, which is \<open>raw\<close>.
\<close>

definition bounces_filed :: "inbound_backend \<Rightarrow> string \<Rightarrow> inbound_session \<Rightarrow> world \<Rightarrow> world \<Rightarrow> bool" where
  "bounces_filed b raw s w w' \<longleftrightarrow> (\<exists>new. db_bounces (w_db w') = db_bounces (w_db w) @ new
     \<and> distinct (map be_message_id new) \<and> be_message_id ` set new = bc_message_id ` set (is_bounce_rcpt s)
     \<and> (\<forall>e \<in> set new. event_of (ib_bounces b) raw (w_clock w) e)
     \<and> (is_bounce_rcpt s \<noteq> [] \<longrightarrow> map_of (w_blobs w') (bounce_key (bh_digest (ib_bounces b) raw)) = Some raw))"

lemma record_filed:
  assumes "Record (ib_bounces b) (is_bounce_rcpt s) raw w = (x, w1)"
  shows "(case x of Inl _ \<Rightarrow> db_bounces (w_db w1) = db_bounces (w_db w) | Inr _ \<Rightarrow> bounces_filed b raw s w w1)
    \<and> fst ` set (w_blobs w) \<subseteq> fst ` set (w_blobs w1)"
proof (cases "is_bounce_rcpt s = []")
  case True
  with assms have "x = Inr () \<and> w1 = w" by (simp add: Record_def uniqueRecipients_def ret_def)
  with True show ?thesis by (simp add: bounces_filed_def)
next
  case False
  let ?rs = "uniqueRecipients (is_bounce_rcpt s)"
  from bounces_recorded_new [OF assms False] obtain new where n: "recorded (ib_bounces b) raw ?rs w x w1 new"
    and d: "distinct (map bc_message_id ?rs)" "bc_message_id ` set ?rs = bc_message_id ` set (is_bounce_rcpt s)" by blast
  have keys: "fst ` set (w_blobs w) \<subseteq> fst ` set (w_blobs w1)"
    by (rule preservesD [OF record_objects order_refl assms])
  show ?thesis
  proof (cases x)
    case (Inl e)
    with n keys show ?thesis by (simp add: recorded_def bounced_def)
  next
    case (Inr u)
    with n have m: "map be_message_id new = map bc_message_id ?rs" "\<forall>e \<in> set new. event_of (ib_bounces b) raw (w_clock w) e"
      "map_of (w_blobs w1) (bounce_key (bh_digest (ib_bounces b) raw)) = Some raw" "db_bounces (w_db w1) = db_bounces (w_db w) @ new"
      by (simp_all add: recorded_def bounced_def)
    from m(1) d have "distinct (map be_message_id new)" "be_message_id ` set new = bc_message_id ` set (is_bounce_rcpt s)"
      by (simp_all add: set_map [symmetric] del: set_map)
    with m keys Inr show ?thesis by (auto simp: bounces_filed_def)
  qed
qed

text \<open>
  C5.  The reply to DATA tells the truth, whatever calls fail.  DATA always has a reply.  Success means that the bounces are
  recorded, one new event for each message that a bounce recipient of the session names with the notification as its object, and,
  when there are mailbox recipients, that the spam check let the message pass and that every mailbox they lead to has its row and
  its object, as a delivery leaves them.  An error reply means that no mail was filed: no table has changed but the bounce events
  and the event log, and no subscriber was told anything, so the client may send the message again; the bounces of the first
  attempt are then recorded all or none, and a second attempt records them again.  No object that was stored is gone in any case.
\<close>

theorem data_reply:
  assumes "Data b (Some raw) s w = (r, w')"
  shows "\<exists>rep. r = Inr rep \<and> fst ` set (w_blobs w) \<subseteq> fst ` set (w_blobs w')
    \<and> (if rep = None then bounces_filed b raw s w w' \<and> (if is_recipients s = [] then same_mail w w' else filed b raw s w w')
       else same_mail w w' \<and> (db_bounces (w_db w') = db_bounces (w_db w) \<or> bounces_filed b raw s w w'))"
proof (cases "is_recipients s = [] \<and> is_bounce_rcpt s = []")
  case True
  with assms same_mail_refl show ?thesis by (auto simp: Data_def ret_def)
next
  case False
  obtain x w1 where x: "Record (ib_bounces b) (is_bounce_rcpt s) raw w = (x, w1)" by (cases "Record (ib_bounces b) (is_bounce_rcpt s) raw w")
  have w1: "same_mail w w1" by (rule preservesD [OF same_mail_record same_mail_refl x])
  note rec = record_filed [OF x]
  note run = assms [unfolded Data_def if_not_P [OF False] option.case bind_try [where m = "Record (ib_bounces b) (is_bounce_rcpt s) raw", OF x]]
  show ?thesis
  proof (cases x)
    case (Inl e)
    with run w1 rec show ?thesis by (auto simp: ret_def)
  next
    case (Inr u)
    show ?thesis
    proof (cases "is_recipients s = []")
      case True
      with run w1 rec Inr show ?thesis by (auto simp: ret_def)
    next
      case False
      with run Inr have d: "deliver_data b raw s w1 = (r, w')" by simp
      let ?k = "bounce_key (bh_digest (ib_bounces b) raw)"
      have "aside (db_bounces (w_db w1)) ?k (map_of (w_blobs w1) ?k) (fst ` set (w_blobs w)) w1" using rec by (simp add: aside_def)
      from preservesD [OF aside_deliver_data this d] rec Inr
      have "bounces_filed b raw s w w' \<and> fst ` set (w_blobs w) \<subseteq> fst ` set (w_blobs w')"
        by (auto simp: aside_def bounces_filed_def)
      with deliver_data_run [OF d w1] False show ?thesis by auto
    qed
  qed
qed

section \<open>Examples\<close>

definition sample_net :: net_lib where
  "sample_net = \<lparr>nl_split = (\<lambda>_. None), nl_addr = (\<lambda>_. None), nl_text = (\<lambda>_. [])\<rparr>"

definition sample_backend :: inbound_backend where
  "sample_backend = \<lparr>ib_bounces = sample_bounces, ib_oracles = sample_oracles, ib_spam = sample_spam, ib_auth_id = ''mx'', ib_messages = sample_service\<rparr>"

definition mail_then_rcpt :: "(inbound_session \<times> inbound_session) option" where
  "mail_then_rcpt = (case fst (Mail ''x'' None (limiter_New 1 2 1000) (NewSession sample_net ''k'' ''h'' False) sample_world) of
     Inr (None, l, s) \<Rightarrow> (case fst (Rcpt sample_backend ''ann@example.org'' l s sample_world) of Inr (None, _, s') \<Rightarrow> Some (s, s') | _ \<Rightarrow> None)
   | _ \<Rightarrow> None)"

lemma mail_then_rcpt: "case mail_then_rcpt of None \<Rightarrow> False | Some (s, s') \<Rightarrow> held_rcpts s = 0 \<and> held_rcpts s' = 1 \<and> is_limit_key s = ''k''"
  by code_simp

lemma mail_run: "Mail sender opts l s w = (r, w') \<Longrightarrow> w' = w"
  by (auto simp: Mail_def bindE_def now_def ret_def split: prod.splits bool.splits)

lemma sample_run:
  obtains l1 s1 l2 s2 where "server_run sample_backend 1 2 1000 l1 1000 [(s1, True)] []" and "held_rcpts s2 = 1" and "is_limit_key s1 = ''k''" and "held_rcpts s1 = 0"
    and "smtp_run sample_backend l1 1000 [(s1, True)] [] l2 1000 [(s2, True)] [\<lparr>ac_key = ''k'', ac_to = ''ann@example.org'', ac_world = sample_world\<rparr>]"
proof -
  let ?l0 = "limiter_New 1 2 1000" and ?s0 = "NewSession sample_net ''k'' ''h'' False"
  from mail_then_rcpt obtain s s' where h: "mail_then_rcpt = Some (s, s')" "held_rcpts s = 0" "held_rcpts s' = 1" "is_limit_key s = ''k''"
    by (auto split: option.splits)
  then obtain l l' where m: "fst (Mail ''x'' None ?l0 ?s0 sample_world) = Inr (None, l, s)"
    and r: "fst (Rcpt sample_backend ''ann@example.org'' l s sample_world) = Inr (None, l', s')"
    by (auto simp: mail_then_rcpt_def split: sum.splits prod.splits option.splits)
  obtain w' where r': "Rcpt sample_backend ''ann@example.org'' l s sample_world = (Inr (None, l', s'), w')"
    using r by (metis prod.collapse)
  have c: "w_clock sample_world = 1000" by (simp add: sample_world_def world_of_def)
  have "preserves (\<lambda>w. w_clock w = 1000) (Rcpt sample_backend to l s)" for to
    by (rule clock_rcpt)
  from preservesD [OF this c r'] have c': "w_clock w' = 1000" .
  have run0: "server_run sample_backend 1 2 1000 ?l0 1000 [(?s0, False)] []"
    using smtp_run.connect [OF smtp_run.start [of sample_backend ?l0 1000 "[]" "[]"], of sample_net "''k''" "''h''" False] by simp
  have run1: "server_run sample_backend 1 2 1000 l 1000 [(s, True)] []"
    using smtp_run.mail [OF run0 _ _ _ prod.collapse [of "Mail ''x'' None ?l0 ?s0 sample_world", unfolded m, symmetric], of 0 False] c by simp
  from smtp_run.rcpt [OF smtp_run.start _ _ r', of 0 "[(s, True)]" 1000 "[]"] c' h
  have "smtp_run sample_backend l 1000 [(s, True)] [] l' 1000 [(s', True)] [\<lparr>ac_key = ''k'', ac_to = ''ann@example.org'', ac_world = sample_world\<rparr>]" by simp
  from that [OF run1 h(3,4,2) this] show thesis .
qed

theorem recipients_bounded_witness:
  "\<exists>l1 l2 s1 s2 acc. smtp_run sample_backend l1 1000 [(s1, True)] [] l2 1000 [(s2, True)] acc \<and> accepted_of ''k'' acc = 1
     \<and> all_prepaid ''k'' [(s1, True)] = 1 \<and> (1 :: rat) \<le> 1 + 2 + seconds (1000 - 1000) * 1"
proof -
  let ?acc = "[\<lparr>ac_key = ''k'', ac_to = ''ann@example.org'', ac_world = sample_world\<rparr>]"
  obtain l1 s1 l2 s2 where r: "server_run sample_backend 1 2 1000 l1 1000 [(s1, True)] []"
    "smtp_run sample_backend l1 1000 [(s1, True)] [] l2 1000 [(s2, True)] ?acc" and k: "is_limit_key s1 = ''k''" "held_rcpts s1 = 0"
    by (rule sample_run)
  have a: "accepted_of ''k'' ?acc = 1" "accepted_of ''k'' [] = 0" "all_prepaid ''k'' [(s1, True)] = 1"
    by (simp_all add: accepted_of_def all_prepaid_def prepaid_def k)
  from recipients_bounded [OF _ _ _ r, of "''k''"] have "(1 :: rat) \<le> 1 + 2 + seconds (1000 - 1000) * 1" by (simp add: a)
  with r(2) a show ?thesis by blast
qed

theorem sessions_sound_witness:
  "\<exists>s. session_ok sample_bounces [\<lparr>ac_key = ''k'', ac_to = ''ann@example.org'', ac_world = sample_world\<rparr>] s \<and> held_rcpts s = 1"
proof -
  let ?acc = "[\<lparr>ac_key = ''k'', ac_to = ''ann@example.org'', ac_world = sample_world\<rparr>]"
  obtain l1 s1 l2 s2 where r: "server_run sample_backend 1 2 1000 l1 1000 [(s1, True)] []"
    "smtp_run sample_backend l1 1000 [(s1, True)] [] l2 1000 [(s2, True)] ?acc" and h: "held_rcpts s2 = 1"
    by (rule sample_run)
  from smtp_run_append [OF r] have "server_run sample_backend 1 2 1000 l2 1000 [(s2, True)] ?acc" .
  from sessions_sound [OF this, of s2 True] have "session_ok (ib_bounces sample_backend) ?acc s2" by simp
  with h show ?thesis by (auto simp: sample_backend_def)
qed

text \<open>A message that passes: the verdict by evaluation, the delivery for any verdict and any bytes.\<close>

definition sample_session :: inbound_session where
  "sample_session = \<lparr>is_smtp = sample_smtp ''cl'', is_limit_key = ''k'', is_mail_from = ''x@a.org'', is_size = 0,
     is_recipients = [sample_route_result], is_bounce_rcpt = [], is_accepted = 1\<rparr>"

lemma sample_passes:
  "case fst (CheckParsed sample_oracles sample_spam ''mx'' (NormalizeMessage ''A: b'') (Parse (\<lambda>_. None) (NormalizeMessage ''A: b'')) (sample_smtp ''cl'')
       [sample_route_result] (quota_world 0)) of Inr a \<Rightarrow> \<not> as_reject a | Inl _ \<Rightarrow> False"
  by code_simp

lemma sample_delivers: "returns (DeliverParsed sample_service n md [sample_route_result] a (quota_world 0))"
  by (cases "JunkForMailbox a ''box''") (simp_all add: DeliverParsed_def deliver_def Let_def bindE_def newID_def now_def ret_def fail_def pendingDeliveries_def
    pending_one_def FolderByName_def putBlob_eq in_tx_def dbcall_eq storeInTx_def deliveriesInTx_def attachInTx_def allocateFolderUID_def addUsedBytes_def
    selectOnly_def updateOne_def updateWhere_def insertRow_def table_defs notify_all_def NotifyAttached_def publish_def after_commit_def message_clash_def
    mm_clash_def new_message_def new_mm_def bump_folder_def add_used_def faulty_def pop_def sample_simps returns_def)

lemma check_stays:
  assumes "w_faults w = []"
  shows "preserves (\<lambda>x. x = w) (CheckParsed orc cfg authID raw md smtp recipients)"
proof -
  have "preserves (\<lambda>x. x = w) (selectAll t p)" for t :: "sender_rule table" and p
    using assms by (simp add: preserves_def wp_def)
  then show ?thesis
    unfolding CheckParsed_def Let_def senderRuleMatch_def sender_rule_entries_def
    by (intro preserves_intros) (auto intro!: preserves_intros split: prod.split)
qed

lemma sample_backend_parts:
  "ib_bounces sample_backend = sample_bounces" "ib_oracles sample_backend = sample_oracles" "ib_spam sample_backend = sample_spam"
  "ib_auth_id sample_backend = ''mx''" "ib_messages sample_backend = sample_service" "ds_mime sample_service = (\<lambda>_. None)"
  "is_recipients sample_session = [sample_route_result]" "is_bounce_rcpt sample_session = []" "is_smtp sample_session = sample_smtp ''cl''"
  by (simp_all add: sample_backend_def sample_service_def sample_session_def)

lemma sample_data:
  assumes "CheckParsed sample_oracles sample_spam ''mx'' (NormalizeMessage raw) (Parse (\<lambda>_. None) (NormalizeMessage raw)) (sample_smtp ''cl'')
       [sample_route_result] (quota_world 0) = (Inr a, quota_world 0)" (is "?check (quota_world 0) = _") and "\<not> as_reject a"
  shows "fst (Data sample_backend (Some raw) sample_session (quota_world 0)) = Inr None"
proof -
  let ?d = "DeliverParsed sample_service (NormalizeMessage raw) (Parse (\<lambda>_. None) (NormalizeMessage raw)) [sample_route_result] a"
  from returns_run [OF sample_delivers] obtain msg where d: "?d (quota_world 0) = (Inr msg, snd (?d (quota_world 0)))" by blast
  have "Record sample_bounces [] raw = ret ()" by (simp add: Record_def uniqueRecipients_def)
  then have "Data sample_backend (Some raw) sample_session (quota_world 0) = deliver_data sample_backend raw sample_session (quota_world 0)"
    by (simp add: Data_def sample_backend_parts bindE_def tryE_def ret_def)
  also have "\<dots> = ret None (snd (?d (quota_world 0)))"
    unfolding deliver_data_def Let_def sample_backend_parts bind_try [where m = ?check, OF assms(1)] sum.case if_not_P [OF assms(2)]
      bind_try [where m = ?d, OF d] ..
  finally show ?thesis by (simp add: ret_def)
qed

theorem data_reply_witness:
  "fst (Data sample_backend (Some ''A: b'') sample_session (quota_world 0)) = Inr None
   \<and> filed sample_backend ''A: b'' sample_session (quota_world 0) (snd (Data sample_backend (Some ''A: b'') sample_session (quota_world 0)))"
proof -
  let ?check = "CheckParsed sample_oracles sample_spam ''mx'' (NormalizeMessage ''A: b'') (Parse (\<lambda>_. None) (NormalizeMessage ''A: b''))
    (sample_smtp ''cl'') [sample_route_result]" and ?run = "Data sample_backend (Some ''A: b'') sample_session (quota_world 0)"
  from sample_passes obtain a where a: "fst (?check (quota_world 0)) = Inr a" "\<not> as_reject a"
    by (cases "fst (?check (quota_world 0))") (simp_all only: sum.case simp_thms)
  have "w_faults (quota_world 0) = []" by (simp add: sample_simps)
  from preservesD [OF check_stays [OF this] refl prod.collapse [symmetric]] have "snd (?check (quota_world 0)) = quota_world 0" .
  with a(1) have "?check (quota_world 0) = (Inr a, quota_world 0)" by (metis prod.collapse)
  note ok = sample_data [OF this a(2)]
  from data_reply [OF prod.collapse [of ?run, symmetric]] show ?thesis
    unfolding ok sample_backend_parts by (simp only: sum.inject simp_thms if_True list.distinct)
qed

end
