(* ===== verification/Mailstore_Run.thy ===== *)
theory Mailstore_Run
  imports Mailstore_Inv Cleanup
begin

text \<open>
  The runs of the mail store.  \<open>store_step\<close> collects its operations, with those of the cleanup that touch its tables, each
  with its effect on the ledger; \<open>store_reachable\<close> gives the states they lead to, with the ledger of the run.
\<close>

section \<open>Operations with their bookings\<close>

lemma new_message_keeps_ok:
  assumes ok: "ledger_ok e d" and m: "me_id m \<notin> me_id ` set (db_messages d) \<union> mm_message_id ` set (db_mms d)"
  shows "ledger_ok e (d\<lparr>db_messages := db_messages d @ [m]\<rparr>)"
proof -
  let ?d' = "d\<lparr>db_messages := db_messages d @ [m]\<rparr>"
  have "contrib ?d' j r = contrib d j r" if "r \<in> set (db_mms d)" for j r
    using m that by (auto simp: contrib_def msg_size_def)
  then have "live_bytes ?d' j = live_bytes d j" for j
    by (simp add: live_bytes_def cong: map_cong)
  with ok m show ?thesis
    by (simp add: ledger_ok_def keys_ok_def uid_spaces_ok_def accounts_ok_def)
qed

lemma attach_op_keeps_ok:
  assumes "ledger_ok e (w_db w)" and "at_size_bytes p = msg_size (w_db w) (at_message_id p)"
    and "folder_room (w_db w) (at_folder_id p)"
  shows "wp (Attach p) (\<lambda>_ w'. ledger_ok e (w_db w')) w"
proof (rule wp_mono [OF attach_spec])
  have "ledger_ok e (attach_db p item (w_db w))" if "attached p w item" for item
    using assms that by (intro attach_keeps_ok [where w = w]) (auto simp: folder_room_def)
  then show "ledger_ok e (w_db w')" if "case r of
       Inl _ \<Rightarrow> w_db w' = w_db w \<and> w_notifier w' = w_notifier w
     | Inr item \<Rightarrow> attached p w item \<and> w_db w' = attach_db p item (w_db w)
         \<and> w_notifier w' = Publish (mk_change (at_mailbox_id p) (FolderContainer (at_folder_id p)) ChangeExists (mm_uid item) []) (w_notifier w)"
    for r w'
    using that assms(1) by (cases r) simp_all
qed

definition moved_ledger :: "'x + 'y \<Rightarrow> mailbox_message \<Rightarrow> string \<Rightarrow> db \<Rightarrow> ledger \<Rightarrow> ledger" where
  "moved_ledger r item folderID d e = (case r of Inl _ \<Rightarrow> e
     | Inr _ \<Rightarrow> if mm_folder_id item = folderID \<and> mm_deleted_at item = None then e else move_error item d e)"

lemma moved_ledger_current: "current d item \<Longrightarrow> moved_ledger r item folderID d e = e"
  by (simp add: moved_ledger_def move_error_current split: sum.split)

lemma move_op_keeps_ok:
  assumes "ledger_ok e (w_db w)" and "snapshot (w_db w) item" and "folder_room (w_db w) folderID"
  shows "wp (Move item folderID) (\<lambda>r w'. ledger_ok (moved_ledger r item folderID (w_db w) e) (w_db w')) w"
proof (cases "mm_folder_id item = folderID \<and> mm_deleted_at item = None")
  case True
  with assms show ?thesis by (simp add: Move_def wp_simps moved_ledger_def)
next
  case False
  have "ledger_ok (move_error item (w_db w) e) (move_db item folderID uid t (w_db w))" if "movable item folderID (w_db w) uid" for uid t
    using assms that by (intro move_keeps_ok) (auto simp: folder_room_def)
  then show ?thesis
    by (intro wp_mono [OF move_spec [OF False]]) (use assms(1) False in \<open>auto simp: moved_ledger_def split: sum.splits\<close>)
qed

lemma soft_delete_op_keeps_ok:
  assumes "ledger_ok e (w_db w)" and "snapshot (w_db w) item"
  shows "wp (SoftDelete item) (\<lambda>_ w'. ledger_ok e (w_db w')) w"
proof (cases "mm_deleted_at item = None")
  case False
  with assms show ?thesis by (auto simp: SoftDelete_def wp_simps)
next
  case True
  show ?thesis
    by (rule wp_mono [OF soft_delete_spec [OF True]])
      (use assms in \<open>auto split: sum.splits intro: soft_delete_keeps_ok\<close>)
qed

definition settled :: "'x + 'y \<Rightarrow> string \<Rightarrow> ledger \<Rightarrow> ledger" where
  "settled r i e = (case r of Inl _ \<Rightarrow> e | Inr _ \<Rightarrow> e(i := 0))"

lemma recompute_op_keeps_ok:
  assumes "ledger_ok e (w_db w)"
  shows "wp (RecomputeUsedBytes i) (\<lambda>r w'. ledger_ok (settled r i e) (w_db w')) w"
proof (rule wp_mono [OF recompute_spec])
  show "distinct (map me_id (db_messages (w_db w)))" using assms by (simp add: ledger_ok_def keys_ok_def)
qed (use assms recompute_keeps_ok [OF assms] in \<open>auto simp: settled_def split: sum.splits\<close>)

subsection \<open>Deleting rows, links and messages\<close>

lemma drop_links_ok: "ledger_ok e d \<Longrightarrow> ledger_ok e (d\<lparr>db_links := delete_where p (db_links d)\<rparr>)"
  using links_keep_ok [of e d "delete_where p (db_links d)" "db_labels d"] lcon.delete_ok [of "db_labels d" "db_links d" p]
  by (simp add: ledger_ok_def keys_ok_def uid_spaces_ok_def delete_where_def distinct_map_filter)

lemma drop_link_rows_ok: "preserves (\<lambda>w. ledger_ok e (w_db w)) (DeleteLabelLinks ids)"
  unfolding DeleteLabelLinks_def
  by (intro preserves_intros preserves_deleteWhere) (simp add: T_links_def drop_links_ok)

text \<open>Deleted rows weigh nothing.\<close>

lemma live_bytes_delete:
  assumes "\<And>r. p r \<Longrightarrow> contrib d j r = 0"
  shows "live_bytes (d\<lparr>db_mms := delete_where p (db_mms d)\<rparr>) j = live_bytes d j"
proof -
  have "contrib (d\<lparr>db_mms := delete_where p (db_mms d)\<rparr>) = contrib d" by (rule contrib_frame) simp
  moreover have "(\<Sum>r\<leftarrow>delete_where p rs. contrib d j r) = (\<Sum>r\<leftarrow>rs. contrib d j r)" for rs
    by (induction rs) (auto simp: delete_where_def assms)
  ultimately show ?thesis by (simp add: live_bytes_def)
qed

lemma drop_rows_uids:
  assumes "ledger_ok e d"
  shows "keys_ok (d\<lparr>db_mms := delete_where p (db_mms d)\<rparr>) \<and> uid_spaces_ok (d\<lparr>db_mms := delete_where p (db_mms d)\<rparr>)"
  using assms fcon.delete_ok [of "db_folders d" "db_mms d" p]
  by (simp add: ledger_ok_def keys_ok_def uid_spaces_ok_def delete_where_def distinct_map_filter)

lemma drop_dead_rows_ok:
  assumes "ledger_ok e d" and "\<And>r. p r \<Longrightarrow> mm_deleted_at r \<noteq> None"
  shows "ledger_ok e (d\<lparr>db_mms := delete_where p (db_mms d)\<rparr>)"
proof -
  have "live_bytes (d\<lparr>db_mms := delete_where p (db_mms d)\<rparr>) j = live_bytes d j" for j
    by (rule live_bytes_delete) (simp add: contrib_def assms(2))
  then have "accounts_ok e (d\<lparr>db_mms := delete_where p (db_mms d)\<rparr>)"
    using assms(1) by (simp add: ledger_ok_def accounts_ok_def)
  with drop_rows_uids [OF assms(1)] show ?thesis by (simp add: ledger_ok_def)
qed

text \<open>A message that no live row refers to weighs nothing either.\<close>

lemma drop_messages_ok:
  assumes ok: "ledger_ok e d" and dead: "\<And>m r. p m \<Longrightarrow> r \<in> set (db_mms d) \<Longrightarrow> mm_deleted_at r = None \<Longrightarrow> me_id m \<noteq> mm_message_id r"
  shows "ledger_ok e (d\<lparr>db_messages := delete_where p (db_messages d)\<rparr>)"
proof -
  let ?d' = "d\<lparr>db_messages := delete_where p (db_messages d)\<rparr>"
  have "contrib ?d' j r = contrib d j r" if r: "r \<in> set (db_mms d)" for j r
  proof (cases "mm_deleted_at r = None")
    case True
    have "p m \<Longrightarrow> me_id m \<noteq> mm_message_id r" for m using dead r True by blast
    then have "filter (\<lambda>m. me_id m = mm_message_id r) (delete_where p ms) = filter (\<lambda>m. me_id m = mm_message_id r) ms" for ms
      by (induction ms) (auto simp: delete_where_def)
    then show ?thesis by (simp add: contrib_def msg_size_def)
  qed (auto simp: contrib_def)
  then have "live_bytes ?d' j = live_bytes d j" for j by (simp add: live_bytes_def cong: map_cong)
  with ok show ?thesis
    by (simp add: ledger_ok_def keys_ok_def uid_spaces_ok_def accounts_ok_def delete_where_def distinct_map_filter)
qed

lemma unreferenced_rows:
  "unreferencedMessage retention d m \<Longrightarrow> r \<in> set (db_mms d) \<Longrightarrow> mm_deleted_at r = None \<Longrightarrow> me_id m \<noteq> mm_message_id r"
  by (auto simp: unreferencedMessage_def list_ex_iff)

lemma delete_message_ok: "preserves (\<lambda>w. ledger_ok e (w_db w)) (deleteMessageRows msg retention)"
proof -
  have del_ok: "ledger_ok e (d\<lparr>db_messages := delete_where (\<lambda>m. me_id m = i \<and> unreferencedMessage retention d m) (db_messages d)\<rparr>)"
    if "ledger_ok e d" for d i
    using that by (rule drop_messages_ok) (use unreferenced_rows in blast)
  have m: "preserves (\<lambda>w. ledger_ok e (w_db w)) (dbcall (\<lambda>d. (Inr (length (filter (\<lambda>m. me_id m = i \<and> unreferencedMessage retention d m) (db_messages d))),
       d\<lparr>db_messages := delete_where (\<lambda>m. me_id m = i \<and> unreferencedMessage retention d m) (db_messages d)\<rparr>)))" for i
    by (simp add: preserves_def wp_dbcall del_ok)
  have r: "preserves (\<lambda>w. ledger_ok e (w_db w)) (deleteWhere T_mms (\<lambda>r. mm_id r \<in> ids \<and> deleted_before retention r))" for ids
    by (intro preserves_deleteWhere) (auto simp: deleted_before_def split: option.splits intro!: drop_dead_rows_ok)
  have b: "preserves (\<lambda>w. ledger_ok e (w_db w)) (deleteBlob key)" for key
    by (simp add: preserves_def wp_def deleteBlob_eq)
  have tx: "preserves (\<lambda>w. ledger_ok e (w_db w)) (deleteMessageInTx i retention)" for i
    unfolding deleteMessageInTx_def Let_def by (intro preserves_intros preserves_read drop_link_rows_ok m r)
  show ?thesis
    unfolding deleteMessageRows_def by (intro preserves_intros preserves_in_tx tx) (auto intro!: preserves_intros b split: sum.split)
qed

subsection \<open>Purging a mailbox\<close>

text \<open>
  A purge is not one transaction.  When it fails half-way the rows can be gone and the mailbox still there, with the bytes it
  used: they are booked.
\<close>

definition purged_ledger :: "string \<Rightarrow> db \<Rightarrow> db \<Rightarrow> ledger \<Rightarrow> ledger" where
  "purged_ledger i d d' e = e(i := e i + live_bytes d i - live_bytes d' i)"

lemma drop_containers_ok:
  assumes "uids_ok cid cnext rc ruid cs rs"
  shows "uids_ok cid cnext rc ruid (delete_where p cs) rs"
  using assms by (auto simp: uids_ok_def delete_where_def distinct_map_filter)

lemma purge_keeps_ok:
  assumes ok: "ledger_ok e (w_db w)"
  shows "wp (PurgeMailbox i) (\<lambda>_ w'. ledger_ok (purged_ledger i (w_db w) (w_db w') e) (w_db w')) w"
proof -
  let ?K = "e i + live_bytes (w_db w) i"
  define I where "I d \<longleftrightarrow> ledger_ok (e(i := ?K - live_bytes d i)) d" for d
  have mms: "I (d\<lparr>db_mms := delete_where (\<lambda>r. mm_mailbox_id r = i) (db_mms d)\<rparr>)" if "I d" for d
  proof -
    let ?d' = "d\<lparr>db_mms := delete_where (\<lambda>r. mm_mailbox_id r = i) (db_mms d)\<rparr>"
    have lb: "live_bytes ?d' j = live_bytes d j" if "j \<noteq> i" for j
      by (rule live_bytes_delete) (use \<open>j \<noteq> i\<close> in \<open>auto simp: contrib_def\<close>)
    have "accounts_ok (e(i := ?K - live_bytes ?d' i)) ?d'"
      using that lb by (auto simp: I_def ledger_ok_def accounts_ok_def)
    with drop_rows_uids that show ?thesis by (simp add: I_def ledger_ok_def)
  qed
  have same: "I d'" if "I d" "db_mms d' = db_mms d" "db_messages d' = db_messages d" "keys_ok d'" "uid_spaces_ok d'"
    "set (db_mailboxes d') \<subseteq> set (db_mailboxes d)" for d d'
  proof -
    have "live_bytes d' j = live_bytes d j" for j by (rule live_bytes_cols) (simp_all add: that)
    with that show ?thesis by (auto simp: I_def ledger_ok_def accounts_ok_def)
  qed
  have p: "preserves (\<lambda>w. I (w_db w)) (deleteWhere T_links p1)" "preserves (\<lambda>w. I (w_db w)) (deleteWhere T_labels p2)"
    "preserves (\<lambda>w. I (w_db w)) (deleteWhere T_folders p3)" "preserves (\<lambda>w. I (w_db w)) (deleteOne T_mailboxes p4)" for p1 p2 p3 p4
    by (rule preserves_deleteWhere preserves_deleteOne, rule same,
        (auto simp: I_def ledger_ok_def keys_ok_def uid_spaces_ok_def table_defs delete_where_def distinct_map_filter
          intro: drop_containers_ok [unfolded delete_where_def] fcon.delete_ok [unfolded delete_where_def] lcon.delete_ok [unfolded delete_where_def])[6])+
  have "preserves (\<lambda>w. I (w_db w)) (PurgeMailbox i)"
    unfolding PurgeMailbox_def DeleteLabelLinks_def
    by (intro preserves_intros preserves_read p preserves_deleteWhere [of I T_mms])
       (auto intro!: preserves_intros simp: mms split: sum.split)
  moreover have "I (w_db w)" using ok by (simp add: I_def)
  ultimately show ?thesis by (simp add: preserves_def I_def purged_ledger_def)
qed

subsection \<open>Backfilling UIDs\<close>

text \<open>
  Where every row has a UID, and every container one left, the backfill gives out none and leaves the counters as they are.
\<close>

lemma uids_ok_cols:
  assumes "map (\<lambda>c. (cid c, cnext c)) cs' = map (\<lambda>c. (cid c, cnext c)) cs" and "uids_ok cid cnext rc ruid cs rs"
  shows "uids_ok cid cnext rc ruid cs' rs"
proof -
  have d: "map cid cs' = map cid cs" using arg_cong [OF assms(1), of "map fst"] by (simp add: o_def)
  have m: "\<exists>x \<in> set cs. cid x = cid c \<and> cnext x = cnext c" if "c \<in> set cs'" for c
  proof -
    from that have "(cid c, cnext c) \<in> set (map (\<lambda>c. (cid c, cnext c)) cs')" by auto
    then show ?thesis unfolding assms(1) by auto
  qed
  have "1 \<le> cnext c" if "c \<in> set cs'" for c using m [OF that] assms(2) by (auto simp: uids_ok_def)
  moreover have "uint (ruid r) < cnext c" if "c \<in> set cs'" "r \<in> set rs" "rc r = cid c" for c r
    using m [OF that(1)] that(2,3) assms(2) unfolding uids_ok_def by fastforce
  ultimately show ?thesis using assms(2) d by (simp add: uids_ok_def)
qed

definition folder_cols :: "db \<Rightarrow> (string \<times> int) list" where
  "folder_cols d = map (\<lambda>f. (fo_id f, fo_uid_next f)) (db_folders d)"

definition label_cols :: "db \<Rightarrow> (string \<times> int) list" where
  "label_cols d = map (\<lambda>l. (la_id l, la_uid_next l)) (db_labels d)"

definition all_room :: "db \<Rightarrow> bool" where
  "all_room d \<longleftrightarrow> (\<forall>(i, n) \<in> set (folder_cols d). n < 2 ^ 32) \<and> (\<forall>(i, n) \<in> set (label_cols d). n < 2 ^ 32)"

lemma backfill_start_id: "1 \<le> n \<Longrightarrow> n < 2 ^ 32 \<Longrightarrow> uint (backfill_start n) = n"
  using word_of_int_nonzero [of n] by (simp add: backfill_start_def Let_def)

lemma containers_keep_ok:
  assumes "ledger_ok e d" and "folder_cols (d\<lparr>db_folders := fs, db_labels := ls\<rparr>) = folder_cols d"
    and "label_cols (d\<lparr>db_folders := fs, db_labels := ls\<rparr>) = label_cols d"
  shows "ledger_ok e (d\<lparr>db_folders := fs, db_labels := ls\<rparr>)"
proof -
  have "live_bytes (d\<lparr>db_folders := fs, db_labels := ls\<rparr>) j = live_bytes d j" for j by (rule live_bytes_cols) simp_all
  with assms show ?thesis
    by (auto simp: ledger_ok_def keys_ok_def uid_spaces_ok_def accounts_ok_def folder_cols_def label_cols_def elim!: uids_ok_cols [rotated])
qed

text \<open>Writing to a container the counter it has changes no column.\<close>

lemma update_cols:
  assumes "distinct (map cid cs)" and "(i, n) \<in> set (map (\<lambda>c. (cid c, cnext c)) cs)" and "\<And>c. cid (f c) = cid c \<and> cnext (f c) = n"
  shows "map (\<lambda>c. (cid c, cnext c)) (update_where (\<lambda>c. cid c = i) f cs) = map (\<lambda>c. (cid c, cnext c)) cs"
proof -
  from assms(2) obtain x where x: "x \<in> set cs" "cid x = i" "cnext x = n" by auto
  have "cnext c = n" if "c \<in> set cs" "cid c = i" for c
    using that x assms(1) inj_onD [of cid "set cs" c x] by (simp add: distinct_map)
  then show ?thesis using assms(3) by (auto simp: update_where_def)
qed

definition backfill_state :: "ledger \<Rightarrow> (string \<times> int) list \<Rightarrow> (string \<times> int) list \<Rightarrow> db \<Rightarrow> bool" where
  "backfill_state e F L d \<longleftrightarrow> ledger_ok e d \<and> folder_cols d = F \<and> label_cols d = L \<and> all_room d"

lemma backfill_folder_ok:
  assumes st: "backfill_state e F L (w_db w)" and item: "(fo_id item, fo_uid_next item) \<in> set F"
  shows "wp (backfillFolder item) (\<lambda>_ w'. backfill_state e F L (w_db w')) w"
proof -
  let ?d = "w_db w"
  from st have u: "uids_ok fo_id fo_uid_next mm_folder_id mm_uid (db_folders ?d) (db_mms ?d)" and c: "folder_cols ?d = F" "all_room ?d"
    by (auto simp: backfill_state_def ledger_ok_def uid_spaces_ok_def)
  have none: "filter (\<lambda>r. mm_folder_id r = fo_id item \<and> mm_uid r = 0) (db_mms ?d) = []"
    using u by (auto simp: uids_ok_def filter_empty_conv)
  from item c(1) have i: "(fo_id item, fo_uid_next item) \<in> set (map (\<lambda>f. (fo_id f, fo_uid_next f)) (db_folders ?d))"
    by (simp add: folder_cols_def)
  with u c(2) have "1 \<le> fo_uid_next item" "fo_uid_next item < 2 ^ 32" by (auto simp: uids_ok_def all_room_def folder_cols_def)
  then have n: "uint (backfill_start (fo_uid_next item)) = fo_uid_next item" by (rule backfill_start_id)
  have upd: "backfill_state e F L (?d\<lparr>db_folders := update_where (\<lambda>f. fo_id f = fo_id item)
      (\<lambda>f. f\<lparr>fo_uid_next := fo_uid_next item, fo_uid_validity := g f\<rparr>) (db_folders ?d)\<rparr>)" for g
  proof -
    let ?fs = "update_where (\<lambda>f. fo_id f = fo_id item) (\<lambda>f. f\<lparr>fo_uid_next := fo_uid_next item, fo_uid_validity := g f\<rparr>) (db_folders ?d)"
    have "map (\<lambda>f. (fo_id f, fo_uid_next f)) ?fs = map (\<lambda>f. (fo_id f, fo_uid_next f)) (db_folders ?d)"
      by (rule update_cols [OF _ i]) (use u in \<open>simp_all add: uids_ok_def\<close>)
    then have "folder_cols (?d\<lparr>db_folders := ?fs\<rparr>) = folder_cols ?d" "label_cols (?d\<lparr>db_folders := ?fs\<rparr>) = label_cols ?d"
      by (simp_all add: folder_cols_def label_cols_def)
    with containers_keep_ok [where e = e and d = ?d and fs = ?fs and ls = "db_labels ?d"] st show ?thesis by (simp add: backfill_state_def all_room_def)
  qed
  show ?thesis
    using st upd upd [of fo_uid_validity] by (simp add: backfillFolder_def wp_simps none n T_folders_def NewUIDValidity_def split: list.split)
qed

lemma backfill_label_ok:
  assumes st: "backfill_state e F L (w_db w)" and item: "(la_id item, la_uid_next item) \<in> set L"
  shows "wp (backfillLabel item) (\<lambda>_ w'. backfill_state e F L (w_db w')) w"
proof -
  let ?d = "w_db w"
  from st have u: "uids_ok la_id la_uid_next ln_label_id ln_uid (db_labels ?d) (db_links ?d)" and c: "label_cols ?d = L" "all_room ?d"
    by (auto simp: backfill_state_def ledger_ok_def uid_spaces_ok_def)
  have none: "filter (\<lambda>r. ln_label_id r = la_id item \<and> ln_uid r = 0) (db_links ?d) = []"
    using u by (auto simp: uids_ok_def filter_empty_conv)
  from item c(1) have i: "(la_id item, la_uid_next item) \<in> set (map (\<lambda>l. (la_id l, la_uid_next l)) (db_labels ?d))"
    by (simp add: label_cols_def)
  with u c(2) have "1 \<le> la_uid_next item" "la_uid_next item < 2 ^ 32" by (auto simp: uids_ok_def all_room_def label_cols_def)
  then have n: "uint (backfill_start (la_uid_next item)) = la_uid_next item" by (rule backfill_start_id)
  have upd: "backfill_state e F L (?d\<lparr>db_labels := update_where (\<lambda>l. la_id l = la_id item)
      (\<lambda>l. l\<lparr>la_uid_next := la_uid_next item, la_uid_validity := g l\<rparr>) (db_labels ?d)\<rparr>)" for g
  proof -
    let ?ls = "update_where (\<lambda>l. la_id l = la_id item) (\<lambda>l. l\<lparr>la_uid_next := la_uid_next item, la_uid_validity := g l\<rparr>) (db_labels ?d)"
    have "map (\<lambda>l. (la_id l, la_uid_next l)) ?ls = map (\<lambda>l. (la_id l, la_uid_next l)) (db_labels ?d)"
      by (rule update_cols [OF _ i]) (use u in \<open>simp_all add: uids_ok_def\<close>)
    then have "folder_cols (?d\<lparr>db_labels := ?ls\<rparr>) = folder_cols ?d" "label_cols (?d\<lparr>db_labels := ?ls\<rparr>) = label_cols ?d"
      by (simp_all add: folder_cols_def label_cols_def)
    with containers_keep_ok [where e = e and d = ?d and fs = "db_folders ?d" and ls = ?ls] st show ?thesis by (simp add: backfill_state_def all_room_def)
  qed
  show ?thesis
    using st upd upd [of la_uid_validity] by (simp add: backfillLabel_def wp_simps none n T_links_def T_labels_def NewUIDValidity_def split: list.split)
qed

lemma backfill_keeps_ok:
  assumes ok: "ledger_ok e (w_db w)" and room: "all_room (w_db w)"
  shows "wp BackfillUIDs (\<lambda>_ w'. ledger_ok e (w_db w')) w"
proof -
  let ?F = "folder_cols (w_db w)" and ?L = "label_cols (w_db w)"
  let ?I = "\<lambda>w'. backfill_state e ?F ?L (w_db w')"
  have fs: "wp (forE (db_folders (w_db w)) backfillFolder) (\<lambda>r w'. case r of Inl _ \<Rightarrow> ?I w' | Inr _ \<Rightarrow> ?I w') w1"
    if "?I w1" for w1
  proof (rule wp_forE [where I = "\<lambda>_. ?I"])
    fix x and w2 :: world
    assume "?I w2" and "x \<in> set (db_folders (w_db w))"
    then have "wp (backfillFolder x) (\<lambda>_. ?I) w2" by (intro backfill_folder_ok) (auto simp: folder_cols_def)
    then show "wp (backfillFolder x) (\<lambda>r w'. case r of Inl _ \<Rightarrow> ?I w' | Inr _ \<Rightarrow> ?I w') w2" by (rule wp_mono) (auto split: sum.split)
  qed (rule that)
  have ls: "wp (forE (db_labels (w_db w1)) backfillLabel) (\<lambda>r w'. case r of Inl _ \<Rightarrow> ?I w' | Inr _ \<Rightarrow> ?I w') w2"
    if "?I w1" "?I w2" for w1 w2
  proof (rule wp_forE [where I = "\<lambda>_. ?I"])
    fix x and w3 :: world
    assume "?I w3" and x: "x \<in> set (db_labels (w_db w1))"
    have "(la_id x, la_uid_next x) \<in> set (label_cols (w_db w1))" using x by (auto simp: label_cols_def)
    with that(1) have "(la_id x, la_uid_next x) \<in> set ?L" by (simp add: backfill_state_def)
    with \<open>?I w3\<close> have "wp (backfillLabel x) (\<lambda>_. ?I) w3" by (intro backfill_label_ok)
    then show "wp (backfillLabel x) (\<lambda>r w'. case r of Inl _ \<Rightarrow> ?I w' | Inr _ \<Rightarrow> ?I w') w3" by (rule wp_mono) (auto split: sum.split)
  qed (rule that(2))
  have start: "?I (pop w)" "?I w" using ok room by (simp_all add: backfill_state_def)
  have "wp BackfillUIDs (\<lambda>_. ?I) w"
  proof (cases "faulty w")
    case True
    with start show ?thesis by (simp add: BackfillUIDs_def wp_simps)
  next
    case False
    have "wp (bindE (selectAll T_labels (\<lambda>_. True)) (\<lambda>ls. forE ls backfillLabel)) (\<lambda>_. ?I) w2" if "?I w2" for w2
      using that wp_mono [OF ls [of w2 "pop w2"], of "\<lambda>_. ?I"]
      by (auto simp: wp_simps T_labels_def split: sum.splits)
    with False fs [OF start(1)] show ?thesis
      unfolding BackfillUIDs_def wp_bindE [of "selectAll T_folders _"] wp_bindE [of "forE (db_folders _) _"]
      by (simp add: wp_selectAll T_folders_def) (auto simp: wp_bindE [of "forE _ _"] elim!: wp_mono split: sum.splits)
  qed
  then show ?thesis by (rule wp_mono) (simp add: backfill_state_def)
qed

section \<open>Reachable states\<close>

text \<open>
  One operation on the tables of the store, whatever its outcome, with its effect on the ledger: the operations of the mail
  store, a message whose rows the cleanup deletes, and steps of the surroundings, in which time passes, calls start to fail, the
  notifier is drained, a message is recorded under a fresh identifier.  The conditions are what the callers provide: the size of
  an attached message is that of its row, a copy of a row handed over was read from this database at some time (its deletion
  state, flags and place can have changed since), a container that allocates a UID has one left in its 32 bits, and identifiers
  are not reused.
\<close>

definition fresh_id :: "world \<Rightarrow> bool" where
  "fresh_id w \<longleftrightarrow> w_ids w (w_idc w) \<notin> mm_folder_id ` set (db_mms (w_db w)) \<union> ln_label_id ` set (db_links (w_db w))"

inductive store_step :: "world \<Rightarrow> (ledger \<Rightarrow> ledger) \<Rightarrow> world \<Rightarrow> bool" where
  attach: "Attach p w = (r, w') \<Longrightarrow> at_size_bytes p = msg_size (w_db w) (at_message_id p) \<Longrightarrow>
    folder_room (w_db w) (at_folder_id p) \<Longrightarrow> store_step w id w'"
| move: "Move item folderID w = (r, w') \<Longrightarrow> snapshot (w_db w) item \<Longrightarrow> folder_room (w_db w) folderID \<Longrightarrow>
    store_step w (moved_ledger r item folderID (w_db w)) w'"
| soft_delete: "SoftDelete item w = (u, w') \<Longrightarrow> snapshot (w_db w) item \<Longrightarrow> store_step w id w'"
| soft_delete_many: "SoftDeleteMany items w = (u, w') \<Longrightarrow> \<forall>i \<in> set items. snapshot (w_db w) i \<Longrightarrow> store_step w id w'"
| set_flags: "SetFlags item fs w = (r, w') \<Longrightarrow> store_step w id w'"
| set_flags_many: "SetFlagsMany items fs w = (u, w') \<Longrightarrow> store_step w id w'"
| add_label: "AddLabel item labelID w = (l, w') \<Longrightarrow> label_room (w_db w) labelID \<Longrightarrow> store_step w id w'"
| remove_label: "RemoveLabel item labelID w = (u, w') \<Longrightarrow> store_step w id w'"
| create_folder: "CreateFolder mailboxID name system w = (f, w') \<Longrightarrow> fresh_id w \<Longrightarrow> store_step w id w'"
| create_label: "CreateLabel mailboxID name w = (la, w') \<Longrightarrow> fresh_id w \<Longrightarrow> store_step w id w'"
| recompute: "RecomputeUsedBytes mailboxID w = (n, w') \<Longrightarrow> store_step w (settled n mailboxID) w'"
| purge: "PurgeMailbox mailboxID w = (u, w') \<Longrightarrow> store_step w (purged_ledger mailboxID (w_db w) (w_db w')) w'"
| backfill: "BackfillUIDs w = (u, w') \<Longrightarrow> all_room (w_db w) \<Longrightarrow> store_step w id w'"
| cleanup: "deleteMessageRows m retention w = (u, w') \<Longrightarrow> store_step w id w'"
| new_message: "me_id m \<notin> me_id ` set (db_messages (w_db w)) \<union> mm_message_id ` set (db_mms (w_db w)) \<Longrightarrow>
    store_step w id (w\<lparr>w_db := (w_db w)\<lparr>db_messages := db_messages (w_db w) @ [m]\<rparr>\<rparr>)"
| surroundings: "w_db w' = w_db w \<Longrightarrow> store_step w id w'"

lemma step_keeps_ok: "store_step w f w' \<Longrightarrow> ledger_ok e (w_db w) \<Longrightarrow> ledger_ok (f e) (w_db w')"
proof (induction rule: store_step.induct)
  case (attach p w r w')
  from wpD [OF attach_op_keeps_ok [OF attach.prems attach.hyps(2,3)] attach.hyps(1)] show ?case by simp
next
  case (move item folderID w r w')
  from wpD [OF move_op_keeps_ok [OF move.prems move.hyps(2,3)] move.hyps(1)] show ?case .
next
  case (soft_delete item w u w')
  from wpD [OF soft_delete_op_keeps_ok [OF soft_delete.prems soft_delete.hyps(2)] soft_delete.hyps(1)] show ?case by simp
next
  case (soft_delete_many items w u w')
  have "wp (SoftDeleteMany items) (\<lambda>_ w'. ledger_ok e (w_db w')) w"
    using soft_delete_many.hyps(2) by (intro soft_delete_many_ops_keep_ok [OF soft_delete_many.prems]) blast
  from wpD [OF this soft_delete_many.hyps(1)] show ?case by simp
next
  case (set_flags item fs w r w')
  from preservesD [OF set_flags_keeps_ok set_flags.prems set_flags.hyps] show ?case by simp
next
  case (set_flags_many items fs w u w')
  from preservesD [OF set_flags_many_keeps_ok set_flags_many.prems set_flags_many.hyps] show ?case by simp
next
  case (add_label item labelID w l w')
  from wpD [OF add_label_keeps_ok [OF add_label.prems add_label.hyps(2)] add_label.hyps(1)] show ?case by simp
next
  case (remove_label item labelID w u w')
  from preservesD [OF remove_label_keeps_ok remove_label.prems remove_label.hyps] show ?case by simp
next
  case (create_folder mailboxID name system w f w')
  then have "w_ids w (w_idc w) \<notin> mm_folder_id ` set (db_mms (w_db w))" by (simp add: fresh_id_def)
  from wpD [OF create_folder_keeps_ok [OF create_folder.prems this] create_folder.hyps(1)] show ?case by simp
next
  case (create_label mailboxID name w la w')
  then have "w_ids w (w_idc w) \<notin> ln_label_id ` set (db_links (w_db w))" by (simp add: fresh_id_def)
  from wpD [OF create_label_keeps_ok [OF create_label.prems this] create_label.hyps(1)] show ?case by simp
next
  case (recompute mailboxID w n w')
  from wpD [OF recompute_op_keeps_ok [OF recompute.prems] recompute.hyps] show ?case .
next
  case (purge mailboxID w u w')
  from wpD [OF purge_keeps_ok [OF purge.prems] purge.hyps] show ?case .
next
  case (backfill w u w')
  from wpD [OF backfill_keeps_ok [OF backfill.prems backfill.hyps(2)] backfill.hyps(1)] show ?case by simp
next
  case (cleanup m retention w u w')
  from preservesD [OF delete_message_ok cleanup.prems cleanup.hyps] show ?case by simp
next
  case (new_message m w)
  from new_message_keeps_ok [OF new_message.prems new_message.hyps] show ?case by simp
qed simp

text \<open>The states of a run, with its ledger, which is 0 everywhere at the start.\<close>

inductive store_reachable :: "world \<Rightarrow> ledger \<Rightarrow> world \<Rightarrow> bool" for w0 where
  start: "store_reachable w0 (\<lambda>_. 0) w0"
| step: "store_reachable w0 e w \<Longrightarrow> store_step w f w' \<Longrightarrow> store_reachable w0 (f e) w'"

lemma reachable_ok: "store_reachable w0 e w \<Longrightarrow> store_ok (w_db w0) \<Longrightarrow> ledger_ok e (w_db w)"
  by (induction rule: store_reachable.induct) (auto simp: store_ok_def intro: step_keeps_ok)

end
