(* ===== verification/Mailstore_Props.thy ===== *)
theory Mailstore_Props
  imports Mailstore_Run Samples
begin

text \<open>The correctness properties of the mail store, with concrete instances of their hypotheses.\<close>

definition sample_attach :: attach where
  "sample_attach = \<lparr>at_mailbox_id = ''box'', at_message_id = ''m2'', at_folder_id = ''inbox'', at_size_bytes = 30,
     at_original_rcpt = ''ann@example.org'', at_base_rcpt = ''ann@example.org'', at_plus_tag = [],
     at_resolved_route_id = [], at_flags = no_flags, at_created_at = 0, at_enforce_quota = True\<rparr>"

definition attached_world :: world where
  "attached_world = snd (Attach sample_attach sample_world)"

lemma sample_ok: "store_ok (w_db sample_world)" by code_simp

lemma sample_room: "folder_room (w_db sample_world) (at_folder_id sample_attach)"
  by (simp add: folder_room_def folder_next_def sample_world_def world_of_def sample_db_def sample_folder_def sample_attach_def)

lemma sample_reached: "store_reachable sample_world (\<lambda>_. 0) attached_world"
proof -
  have "at_size_bytes sample_attach = msg_size (w_db sample_world) (at_message_id sample_attach)" by code_simp
  with sample_room have "store_step sample_world id attached_world"
    by (intro store_step.attach [of sample_attach _ "fst (Attach sample_attach sample_world)"]) (simp_all add: attached_world_def)
  from store_reachable.step [OF store_reachable.start this] show ?thesis by simp
qed

text \<open>
  C1.  UIDs: in every state the mail store operations reach, with any of their database calls
  failing, two rows of a folder (deleted ones included) never share a UID, no row has the UID 0,
  and every UID is below the next UID of the folder; the same holds of the links of a label.
\<close>

theorem uids_unique:
  assumes "store_ok (w_db w0)" and "store_reachable w0 e w"
  shows "distinct (map (\<lambda>r. (mm_folder_id r, mm_uid r)) (db_mms (w_db w)))
    \<and> distinct (map (\<lambda>l. (ln_label_id l, ln_uid l)) (db_links (w_db w)))
    \<and> (\<forall>f \<in> set (db_folders (w_db w)). \<forall>r \<in> set (db_mms (w_db w)).
         mm_folder_id r = fo_id f \<longrightarrow> mm_uid r \<noteq> 0 \<and> uint (mm_uid r) < fo_uid_next f)
    \<and> (\<forall>la \<in> set (db_labels (w_db w)). \<forall>l \<in> set (db_links (w_db w)).
         ln_label_id l = la_id la \<longrightarrow> ln_uid l \<noteq> 0 \<and> uint (ln_uid l) < la_uid_next la)"
  using reachable_ok [OF assms(2,1)] by (simp add: ledger_ok_def uid_spaces_ok_def uids_ok_def)

theorem uids_unique_witness:
  "distinct (map (\<lambda>r. (mm_folder_id r, mm_uid r)) (db_mms (w_db attached_world))) \<and> length (db_mms (w_db attached_world)) = 2"
proof
  show "distinct (map (\<lambda>r. (mm_folder_id r, mm_uid r)) (db_mms (w_db attached_world)))"
    using uids_unique [OF sample_ok sample_reached] by (rule conjunct1)
  show "length (db_mms (w_db attached_world)) = 2" by code_simp
qed

text \<open>
  C2.  Quota accounting: in every state the operations on the mail store reach, with any of their database calls failing, the
  used bytes of a mailbox are the sizes of its messages that are not deleted plus what the ledger of the run has booked for the
  mailbox.  The ledger starts at 0.  A move books the size of its message when the copy of the row that its caller holds is stale
  about the deletion, with the sign \<open>+\<close> if the copy says deleted and the row is live, and \<open>-\<close> if the row is deleted and the copy
  says live; a purge that fails half-way books the bytes whose rows it has deleted; a recomputation sets it back to 0; every other
  operation leaves it alone.  So the accounts are exact for as long as no move works on a stale copy and no purge fails, and
  otherwise exactly as wrong as these make them.
\<close>

theorem used_bytes_exact:
  assumes "store_ok (w_db w0)" and "store_reachable w0 e w" and "m \<in> set (db_mailboxes (w_db w))"
  shows "mb_used_bytes m = (\<Sum>r\<leftarrow>filter (\<lambda>r. mm_mailbox_id r = mb_id m \<and> mm_deleted_at r = None) (db_mms (w_db w)).
    msg_size (w_db w) (mm_message_id r)) + e (mb_id m)"
  using reachable_ok [OF assms(2,1)] assms(3)
  by (simp add: ledger_ok_def accounts_ok_def live_bytes_filter [symmetric])

text \<open>
  The race that the ledger is for: a session holds a copy of the row, the row is deleted, and the session moves its copy.  The
  message is live again and not charged.
\<close>

definition raced_world :: world where
  "raced_world = snd (Move sample_row ''arch'' (snd (SoftDelete sample_row
     (sample_world\<lparr>w_db := (w_db sample_world)\<lparr>db_folders := db_folders (w_db sample_world) @ [sample_folder ''arch'' ''Archive'' 1]\<rparr>\<rparr>))))"

lemma stale_move_uncharged:
  "map mb_used_bytes (db_mailboxes (w_db raced_world)) = [0]
   \<and> map (\<lambda>r. (mm_folder_id r, mm_deleted_at r)) (db_mms (w_db raced_world)) = [(''arch'', None)]
   \<and> live_bytes (w_db raced_world) ''box'' = 10"
  by code_simp

theorem used_bytes_exact_witness:
  "mb_used_bytes (hd (db_mailboxes (w_db attached_world))) = 40
   \<and> (\<Sum>r\<leftarrow>filter (\<lambda>r. mm_mailbox_id r = ''box'' \<and> mm_deleted_at r = None) (db_mms (w_db attached_world)).
        msg_size (w_db attached_world) (mm_message_id r)) = 40"
proof -
  have used: "mb_used_bytes (hd (db_mailboxes (w_db attached_world))) = 40"
      "mb_id (hd (db_mailboxes (w_db attached_world))) = ''box''" by code_simp+
  have "db_mailboxes (w_db attached_world) \<noteq> []" by code_simp
  then have "hd (db_mailboxes (w_db attached_world)) \<in> set (db_mailboxes (w_db attached_world))" by simp
  from used_bytes_exact [OF sample_ok sample_reached this] used show ?thesis by simp
qed

text \<open>
  C11.  Delivery is atomic.  Whatever calls fail, \<^verbatim>\<open>Attach\<close> either returns an error, and then the
  tables and the subscribers are as before, or it returns a row that is stored under the folder's
  next UID, with the folder's counter moved on, and exactly one \<^verbatim>\<open>exists\<close> change is published.
\<close>

theorem attach_atomic:
  "case Attach p w of (r, w') \<Rightarrow> (case r of
     Inl e \<Rightarrow> w_db w' = w_db w \<and> w_notifier w' = w_notifier w
   | Inr item \<Rightarrow> (\<exists>n. folder_next (w_db w) (at_folder_id p) = Some n \<and> mm_uid item = word_of_int n
         \<and> folder_next (w_db w') (at_folder_id p) = Some (n + 1))
       \<and> db_mms (w_db w') = db_mms (w_db w) @ [item]
       \<and> mm_mailbox_id item = at_mailbox_id p \<and> mm_message_id item = at_message_id p
       \<and> mm_folder_id item = at_folder_id p \<and> mm_deleted_at item = None
       \<and> w_notifier w' = Publish (mk_change (at_mailbox_id p) (FolderContainer (at_folder_id p)) ChangeExists (mm_uid item) []) (w_notifier w))"
proof (cases "Attach p w")
  case (Pair r w')
  show ?thesis
  proof (cases r)
    case (Inl e)
    with Pair attach_run(2) show ?thesis by simp
  next
    case (Inr item)
    with Pair have a: "attached p w item" "w_db w' = attach_db p item (w_db w)"
      using attach_run(1) by auto
    from wpD [OF attach_spec Pair] Inr have n: "w_notifier w'
        = Publish (mk_change (at_mailbox_id p) (FolderContainer (at_folder_id p)) ChangeExists (mm_uid item) []) (w_notifier w)"
      by simp
    have row: "db_mms (w_db w') = db_mms (w_db w) @ [item]" by (simp add: a(2) attach_db_def)
    have cols: "mm_mailbox_id item = at_mailbox_id p" "mm_message_id item = at_message_id p"
        "mm_folder_id item = at_folder_id p" "mm_deleted_at item = None"
      using a(1) by (auto simp: attached_def new_mm_def)
    from attached_uid [OF a(1)] a(2) n row cols Pair Inr show ?thesis
      by (auto simp: folder_next_attach)
  qed
qed

text \<open>
  C12.  The quota cannot be exceeded by an enforced delivery: when \<^verbatim>\<open>Attach\<close> with
  \<^verbatim>\<open>EnforceQuota\<close> succeeds on a mailbox with a quota, the mailbox is within its quota afterwards.
\<close>

theorem attach_within_quota:
  assumes "Attach p w = (Inr item, w')" and "at_enforce_quota p" and "distinct (map mb_id (db_mailboxes (w_db w)))"
    and "m \<in> set (db_mailboxes (w_db w'))" and "mb_id m = at_mailbox_id p" and "0 < mb_quota_bytes m"
  shows "mb_used_bytes m \<le> mb_quota_bytes m"
proof -
  from attach_run(1) [OF assms(1)] obtain a where a: "a \<in> set (db_mailboxes (w_db w))" "admits p a"
      and d: "w_db w' = attach_db p item (w_db w)" by (auto simp: attached_def)
  from assms(4) d obtain b where b: "b \<in> set (db_mailboxes (w_db w))"
      "m = (if admits p b then add_used (at_size_bytes p) b else b)"
    by (auto simp: attach_db_def in_set_update_where)
  then have "mb_id b = mb_id a" using assms(5) a(2) by (auto simp: admits_def add_used_def split: if_splits)
  with a(1) b(1) assms(3) have "b = a" by (auto simp: distinct_map inj_on_def)
  with a(2) b(2) assms(2,6) show ?thesis by (auto simp: admits_def add_used_def)
qed

theorem attach_within_quota_witness:
  "mb_used_bytes (hd (db_mailboxes (w_db attached_world))) \<le> 100"
proof -
  have "returns (Attach sample_attach sample_world)" by code_simp
  then obtain item where i: "Attach sample_attach sample_world = (Inr item, attached_world)"
    unfolding attached_world_def by (blast dest: returns_run)
  let ?m = "hd (db_mailboxes (w_db attached_world))"
  have "db_mailboxes (w_db attached_world) \<noteq> []" by code_simp
  then have "?m \<in> set (db_mailboxes (w_db attached_world))" by simp
  moreover have "mb_quota_bytes ?m = 100" "mb_id ?m = at_mailbox_id sample_attach" "at_enforce_quota sample_attach"
      "distinct (map mb_id (db_mailboxes (w_db sample_world)))" by code_simp+
  ultimately show ?thesis using attach_within_quota [OF i, of ?m] by simp
qed

text \<open>
  Deliveries to one folder get increasing UIDs: the rows of any number of successful deliveries
  in a row have strictly increasing UIDs, as long as the folder's counter stays within 32 bits.
\<close>

theorem attach_uids_increasing:
  assumes "mapE ps Attach w = (Inr items, w')" and "\<forall>p \<in> set ps. at_folder_id p = c"
    and "folder_next (w_db w) c = Some n" and "0 \<le> n" and "n + int (length ps) \<le> 2 ^ 32"
  shows "sorted_wrt (<) (map mm_uid items)"
  using auid.alloc_run_increasing [OF mapE_attach_uid [OF assms(2,1)] assms(3-5)] .

theorem attach_uids_increasing_witness:
  "sorted_wrt (<) (map mm_uid (case fst (mapE [sample_attach, sample_attach\<lparr>at_message_id := ''m3'', at_size_bytes := 5\<rparr>] Attach sample_world) of
     Inl _ \<Rightarrow> [] | Inr items \<Rightarrow> items))"
proof -
  let ?ps = "[sample_attach, sample_attach\<lparr>at_message_id := ''m3'', at_size_bytes := 5\<rparr>]"
  have "returns (mapE ?ps Attach sample_world)" by code_simp
  then obtain items where i: "mapE ?ps Attach sample_world = (Inr items, snd (mapE ?ps Attach sample_world))"
    by (blast dest: returns_run)
  have "\<forall>p \<in> set ?ps. at_folder_id p = ''inbox''" "folder_next (w_db sample_world) ''inbox'' = Some 5" by code_simp+
  from attach_uids_increasing [OF i this] show ?thesis by (subst i) simp
qed

text \<open>
  C13.  Moving a message: \<^verbatim>\<open>Move\<close> to another folder either fails and changes nothing, or the row is
  in the target folder under that folder's next UID, alive again if it was deleted, its size is
  charged to the mailbox exactly when it was deleted, and the notifications are the removal from the old
  folder (for a live row) followed by the arrival in the new one.
\<close>

theorem move_correct:
  assumes "Move item folderID w = (r, w')" and "\<not> (mm_folder_id item = folderID \<and> mm_deleted_at item = None)"
  shows "(\<exists>e. r = Inl e \<and> w_db w' = w_db w \<and> w_notifier w' = w_notifier w)
    \<or> (\<exists>moved n. r = Inr moved \<and> folder_next (w_db w) folderID = Some n \<and> mm_uid moved = word_of_int n
        \<and> db_mms (w_db w') = update_where (\<lambda>r. mm_id r = mm_id item) (move_row folderID (word_of_int n) (w_clock w)) (db_mms (w_db w))
        \<and> db_mailboxes (w_db w') = update_where (\<lambda>m. mb_id m = mm_mailbox_id item)
            (add_used (if mm_deleted_at item = None then 0 else msg_size (w_db w) (mm_message_id item))) (db_mailboxes (w_db w))
        \<and> w_notifier w' = Publish (mk_change (mm_mailbox_id item) (FolderContainer folderID) ChangeExists (mm_uid moved) [])
            (if mm_deleted_at item = None then Publish (expunge_change item) (w_notifier w) else w_notifier w))"
proof (cases r)
  case (Inl e)
  with wpD [OF move_spec [OF assms(2)] assms(1)] show ?thesis by simp
next
  case (Inr moved)
  with wpD [OF move_spec [OF assms(2)] assms(1)]
  have m: "movable item folderID (w_db w) (mm_uid moved)" "w_db w' = move_db item folderID (mm_uid moved) (w_clock w) (w_db w)"
      "w_notifier w' = move_changes item folderID (mm_uid moved) (w_notifier w)" by simp_all
  from m(1) obtain f fs where f: "filter (\<lambda>f. fo_id f = folderID) (db_folders (w_db w)) = f # fs"
      "mm_uid moved = word_of_int (fo_uid_next f)" by (auto simp: movable_def)
  then have "folder_next (w_db w) folderID = Some (fo_uid_next f)" by (simp add: folder_next_def find_filter)
  with Inr f(2) m(2,3) show ?thesis by (intro disjI2) (auto simp: move_db_def move_changes_def)
qed

theorem move_correct_witness:
  "map mm_folder_id (db_mms (w_db (snd (Move sample_row ''trash'' sample_world)))) = [''trash'']
   \<and> (fst (Move sample_row ''trash'' sample_world) = Inl NotFound \<or> returns (Move sample_row ''trash'' sample_world))"
proof -
  let ?mv = "Move sample_row ''trash'' sample_world"
  have "\<not> (mm_folder_id sample_row = ''trash'' \<and> mm_deleted_at sample_row = None)" by code_simp
  with move_correct [of sample_row "''trash''" sample_world "fst ?mv" "snd ?mv"]
  have "(\<exists>e. fst ?mv = Inl e) \<or> returns ?mv" by (auto simp: returns_def)
  moreover have "returns ?mv" "map mm_folder_id (db_mms (w_db (snd ?mv))) = [''trash'']" by code_simp+
  ultimately show ?thesis by blast
qed

lemma soft_delete_clock: "preserves (\<lambda>w. w_clock w = c) (SoftDelete item)"
  unfolding SoftDelete_def softDeleteInTx_def messageSize_def
  by (intro preserves_intros preserves_clock preserves_clock_in_tx)
     (auto intro!: preserves_intros split: sum.split)

lemma soft_delete_run_many:
  assumes "\<forall>x \<in> set items. mm_mailbox_id x = i \<and> mm_deleted_at x = None"
    and "forE items SoftDelete w = (Inr u, w')"
    and "distinct (map mm_id (db_mms (w_db w)))" and "\<forall>x \<in> set items. snapshot (w_db w) x"
  shows "w_db w' = soft_delete_many_db i (mm_id ` set items) (w_clock w) (w_db w)
    \<and> w_notifier w' = expunge_all items (w_notifier w)"
  using assms
proof (induction items arbitrary: w)
  case Nil
  then show ?case by (simp add: ret_def expunge_all_def soft_delete_many_zero)
next
  case (Cons x xs)
  then obtain v w1 where s: "SoftDelete x w = (Inr v, w1)" "forE xs SoftDelete w1 = (Inr u, w')"
    by (auto elim!: bindE_ok)
  have x: "mm_deleted_at x = None" "mm_mailbox_id x = i" using Cons.prems(1) by auto
  from wpD [OF soft_delete_spec [OF x(1)] s(1)]
  have w1: "w_db w1 = soft_delete_db x (w_clock w) (w_db w)" "w_notifier w1 = Publish (expunge_change x) (w_notifier w)"
    by simp_all
  have one: "soft_delete_db x (w_clock w) (w_db w) = soft_delete_many_db i {mm_id x} (w_clock w) (w_db w)"
    using soft_delete_one_many [OF Cons.prems(3), of x] Cons.prems(4) x(2) by (simp add: snapshot_def)
  have c: "w_clock w1 = w_clock w" by (rule preservesD [OF soft_delete_clock refl s(1)])
  have "distinct (map mm_id (db_mms (w_db w1)))"
    using Cons.prems(3) unfolding w1 one
    by (simp add: soft_delete_many_db_def soft_delete_rows_def soft_delete_row_def map_update_where)
  moreover have "\<forall>y \<in> set xs. snapshot (w_db w1) y"
    using Cons.prems(4) unfolding w1 one by (auto intro: snapshot_soft_delete)
  ultimately have "w_db w' = soft_delete_many_db i (mm_id ` set xs) (w_clock w1) (w_db w1)
      \<and> w_notifier w' = expunge_all xs (w_notifier w1)"
    using Cons.IH [OF _ s(2)] Cons.prems(1) by simp
  then show ?case
    using soft_delete_many_Un [of i "{mm_id x}" "mm_id ` set xs" "w_clock w" "w_db w"]
    by (simp add: w1 one c expunge_all_def)
qed

text \<open>
  C14.  The batched deletion is the one-by-one deletion: for messages of one mailbox, a successful
  \<^verbatim>\<open>softDeleteBatch\<close> leaves the same tables, the same accounts and the same notifications as calling
  \<^verbatim>\<open>SoftDelete\<close> on each message in turn.
\<close>

theorem batch_is_sequential:
  assumes "softDeleteBatch i items w = (Inr u, w1)" and "forE items SoftDelete w = (Inr v, w2)"
    and "\<forall>x \<in> set items. mm_mailbox_id x = i \<and> mm_deleted_at x = None \<and> snapshot (w_db w) x"
    and "keys_ok (w_db w)"
  shows "w_db w1 = w_db w2 \<and> w_notifier w1 = w_notifier w2"
proof -
  have "w_db w1 = soft_delete_many_db i (mm_id ` set items) (w_clock w) (w_db w)
      \<and> w_notifier w1 = expunge_all items (w_notifier w)"
    using wpD [OF soft_delete_batch_spec [of w i items] assms(1)] assms(4) by (simp add: keys_ok_def)
  moreover have "w_db w2 = soft_delete_many_db i (mm_id ` set items) (w_clock w) (w_db w)
      \<and> w_notifier w2 = expunge_all items (w_notifier w)"
    by (rule soft_delete_run_many [OF _ assms(2)]) (use assms(3,4) in \<open>auto simp: keys_ok_def\<close>)
  ultimately show ?thesis by simp
qed

theorem batch_is_sequential_witness:
  "w_db (snd (softDeleteBatch ''box'' [sample_row] sample_world)) = w_db (snd (forE [sample_row] SoftDelete sample_world))
   \<and> map mb_used_bytes (db_mailboxes (w_db (snd (softDeleteBatch ''box'' [sample_row] sample_world)))) = [0]"
proof -
  let ?b = "softDeleteBatch ''box'' [sample_row] sample_world" and ?s = "forE [sample_row] SoftDelete sample_world"
  have "returns ?b" "returns ?s" by code_simp+
  then obtain u v where "?b = (Inr u, snd ?b)" "?s = (Inr v, snd ?s)" by (blast dest: returns_run)
  moreover have "\<forall>x \<in> set [sample_row]. mm_mailbox_id x = ''box'' \<and> mm_deleted_at x = None \<and> snapshot (w_db sample_world) x"
      "keys_ok (w_db sample_world)" "map mb_used_bytes (db_mailboxes (w_db (snd ?b))) = [0]" by code_simp+
  ultimately show ?thesis using batch_is_sequential [of "''box''" "[sample_row]" sample_world] by blast
qed

lemma set_used:
  "m \<in> set (update_where (\<lambda>m. mb_id m = i) (\<lambda>m. m\<lparr>mb_used_bytes := k\<rparr>) ms) \<Longrightarrow> mb_id m = i \<Longrightarrow> mb_used_bytes m = k"
proof -
  let ?f = "\<lambda>r. if mb_id r = i then r\<lparr>mb_used_bytes := k\<rparr> else r"
  assume "m \<in> set (update_where (\<lambda>m. mb_id m = i) (\<lambda>m. m\<lparr>mb_used_bytes := k\<rparr>) ms)" and i: "mb_id m = i"
  then obtain r where r: "m = ?f r" unfolding in_set_update_where by blast
  have "mb_id (?f r) = mb_id r" by simp
  with r i have "mb_id r = i" by simp
  with r have "m = r\<lparr>mb_used_bytes := k\<rparr>" by simp
  then show "mb_used_bytes m = k" by simp
qed

text \<open>
  C15.  Recomputing repairs the accounts from any state: a successful \<^verbatim>\<open>RecomputeUsedBytes\<close> returns the
  bytes of the live messages of the mailbox, stores them as its used bytes, and changes nothing else;
  a failed one changes nothing.
\<close>

theorem recompute_repairs:
  assumes "RecomputeUsedBytes i w = (r, w')" and "distinct (map me_id (db_messages (w_db w)))"
  shows "(\<exists>e. r = Inl e \<and> w_db w' = w_db w)
    \<or> (r = Inr (live_bytes (w_db w) i) \<and> w_db w' = recompute_db i (w_db w)
       \<and> (\<forall>m \<in> set (db_mailboxes (w_db w')). mb_id m = i \<longrightarrow> mb_used_bytes m = live_bytes (w_db w') i))"
proof (cases r)
  case (Inl e)
  with wpD [OF recompute_spec [OF assms(2)] assms(1)] show ?thesis by simp
next
  case (Inr n)
  with wpD [OF recompute_spec [OF assms(2)] assms(1)]
  have "n = live_bytes (w_db w) i" "w_db w' = recompute_db i (w_db w)" by simp_all
  moreover have "\<forall>m \<in> set (db_mailboxes (recompute_db i (w_db w))). mb_id m = i \<longrightarrow>
      mb_used_bytes m = live_bytes (recompute_db i (w_db w)) i"
    unfolding recompute_db_frame by (simp add: recompute_db_def set_used)
  ultimately show ?thesis using Inr by simp
qed

theorem recompute_repairs_witness:
  "fst (RecomputeUsedBytes ''box'' (world_of (sample_db\<lparr>db_mailboxes := [sample_mailbox\<lparr>mb_used_bytes := 77\<rparr>]\<rparr>))) = Inr 10"
proof -
  let ?w = "world_of (sample_db\<lparr>db_mailboxes := [sample_mailbox\<lparr>mb_used_bytes := 77\<rparr>]\<rparr>)"
  have d: "distinct (map me_id (db_messages (w_db ?w)))" "live_bytes (w_db ?w) ''box'' = 10"
      "returns (RecomputeUsedBytes ''box'' ?w)" by code_simp+
  then show ?thesis
    using recompute_repairs [OF prod.collapse [symmetric] d(1), of "''box''"] by (auto simp: returns_def)
qed

text \<open>
  Labelling is idempotent: when the message already has the label, \<^verbatim>\<open>AddLabel\<close> returns a link of that
  message and label, allocates no UID, publishes nothing and leaves the tables alone.
\<close>

theorem add_label_idempotent:
  assumes "AddLabel item labelID w = (Inr link, w')"
    and "k \<in> set (db_links (w_db w))" and "ln_mm_id k = mm_id item" and "ln_label_id k = labelID"
  shows "w_db w' = w_db w \<and> w_notifier w' = w_notifier w \<and> link \<in> set (db_links (w_db w))
    \<and> ln_mm_id link = mm_id item \<and> ln_label_id link = labelID"
proof -
  let ?p = "\<lambda>l. ln_mm_id l = mm_id item \<and> ln_label_id l = labelID"
  obtain l ls where f: "filter ?p (db_links (w_db w)) = l # ls"
    using assms(2-4) by (cases "filter ?p (db_links (w_db w))") (auto simp: filter_empty_conv)
  then have l: "l \<in> set (db_links (w_db w))" "?p l" by (auto simp: filter_eq_Cons_iff)
  have "wp (AddLabel item labelID) (\<lambda>r w'. r = Inr link \<longrightarrow> w_db w' = w_db w \<and> w_notifier w' = w_notifier w \<and> link = l) w"
    unfolding AddLabel_def by (auto simp: wp_simps T_links_def f)
  from wpD [OF this assms(1)] l show ?thesis by simp
qed

theorem add_label_idempotent_witness:
  "w_db (snd (AddLabel sample_row ''lab'' (snd (AddLabel sample_row ''lab'' sample_world)))) = w_db (snd (AddLabel sample_row ''lab'' sample_world))
   \<and> map ln_uid (db_links (w_db (snd (AddLabel sample_row ''lab'' sample_world)))) = [1]"
proof -
  let ?w = "snd (AddLabel sample_row ''lab'' sample_world)"
  have "returns (AddLabel sample_row ''lab'' ?w)" by code_simp
  then obtain l where l: "AddLabel sample_row ''lab'' ?w = (Inr l, snd (AddLabel sample_row ''lab'' ?w))"
    by (blast dest: returns_run)
  have k: "db_links (w_db ?w) \<noteq> []" "ln_mm_id (hd (db_links (w_db ?w))) = mm_id sample_row"
      "ln_label_id (hd (db_links (w_db ?w))) = ''lab''" "map ln_uid (db_links (w_db ?w)) = [1]" by code_simp+
  from add_label_idempotent [OF l, of "hd (db_links (w_db ?w))"] k show ?thesis by simp
qed

definition purge_db :: "string \<Rightarrow> db \<Rightarrow> db" where
  "purge_db i d = d\<lparr>
     db_links := delete_where (\<lambda>l. ln_mm_id l \<in> mm_id ` set (filter (\<lambda>r. mm_mailbox_id r = i) (db_mms d))) (db_links d),
     db_mms := delete_where (\<lambda>r. mm_mailbox_id r = i) (db_mms d),
     db_labels := delete_where (\<lambda>l. la_mailbox_id l = i) (db_labels d),
     db_folders := delete_where (\<lambda>f. fo_mailbox_id f = i) (db_folders d),
     db_mailboxes := delete_where (\<lambda>m. mb_id m = i) (db_mailboxes d)\<rparr>"

lemma delete_where_delete_where:
  "delete_where p (delete_where q xs) = delete_where (\<lambda>x. q x \<or> p x) xs"
  by (induction xs) (auto simp: delete_where_def)

lemma delete_links_spec:
  "wp (DeleteLabelLinks ids) (\<lambda>r w'. case r of Inl _ \<Rightarrow> True
     | Inr _ \<Rightarrow> w_db w' = (w_db w)\<lparr>db_links := delete_where (\<lambda>l. ln_mm_id l \<in> set ids) (db_links (w_db w))\<rparr>) w"
proof -
  let ?I = "\<lambda>cs w'. w_db w' = (w_db w)\<lparr>db_links := delete_where (\<lambda>l. ln_mm_id l \<in> set (concat cs)) (db_links (w_db w))\<rparr>"
  have "wp (DeleteLabelLinks ids) (\<lambda>r w'. case r of Inl _ \<Rightarrow> True | Inr _ \<Rightarrow> ?I (chunks batchSize ids) w') w"
    unfolding DeleteLabelLinks_def
  proof (rule wp_forE [where I = ?I])
    fix ys x and w1 :: world
    assume I: "?I ys w1"
    then show "wp (bindE (deleteWhere T_links (\<lambda>l. ln_mm_id l \<in> set x)) (\<lambda>_. ret ()))
        (\<lambda>r w'. case r of Inl _ \<Rightarrow> True | Inr _ \<Rightarrow> ?I (ys @ [x]) w') w1"
      by (simp add: wp_simps T_links_def delete_where_delete_where)
  qed (simp add: delete_where_def)
  then show ?thesis by (simp add: batchSize_def cong: sum.case_cong)
qed

lemma purge_spec:
  "wp (PurgeMailbox i) (\<lambda>r w'. case r of Inl _ \<Rightarrow> True | Inr _ \<Rightarrow> w_db w' = purge_db i (w_db w)) w"
proof -
  let ?items = "filter (\<lambda>r. mm_mailbox_id r = i) (db_mms (w_db w))"
  have links: "wp (DeleteLabelLinks (map mm_id ?items)) (\<lambda>r w'. case r of Inl _ \<Rightarrow> True
     | Inr _ \<Rightarrow> w_db w' = (w_db w)\<lparr>db_links := delete_where (\<lambda>l. ln_mm_id l \<in> mm_id ` set ?items) (db_links (w_db w))\<rparr>) (pop w)"
    using delete_links_spec [of "map mm_id ?items" "pop w"] by (simp del: set_filter cong: sum.case_cong)
  have none: "delete_where p xs = xs" if "\<not> list_ex p xs" for p :: "mailbox \<Rightarrow> bool" and xs
    using that by (simp add: delete_where_def filter_id_conv list_ex_iff)
  show ?thesis
    unfolding PurgeMailbox_def
    apply (simp add: wp_simps T_mms_def)
    apply (intro impI wp_mono [OF links])
    apply (auto simp: wp_simps T_mms_def T_labels_def T_folders_def T_mailboxes_def purge_db_def none split: sum.splits)
    done
qed

text \<open>
  C16.  Purging a mailbox: a successful \<^verbatim>\<open>PurgeMailbox\<close> leaves no row, folder, label or mailbox row of that mailbox and no
  label link of its messages, and keeps, as they are and in order, all rows, folders, labels and mailboxes of the others and all
  links of their messages; messages, jobs, routes and all other tables stay as they are.
\<close>

theorem purge_removes_mailbox:
  assumes "PurgeMailbox i w = (Inr u, w')"
  shows "db_mms (w_db w') = filter (\<lambda>r. mm_mailbox_id r \<noteq> i) (db_mms (w_db w))
    \<and> db_folders (w_db w') = filter (\<lambda>f. fo_mailbox_id f \<noteq> i) (db_folders (w_db w))
    \<and> db_labels (w_db w') = filter (\<lambda>l. la_mailbox_id l \<noteq> i) (db_labels (w_db w))
    \<and> db_mailboxes (w_db w') = filter (\<lambda>m. mb_id m \<noteq> i) (db_mailboxes (w_db w))
    \<and> db_links (w_db w') = filter (\<lambda>l. \<forall>r \<in> set (db_mms (w_db w)). mm_id r = ln_mm_id l \<longrightarrow> mm_mailbox_id r \<noteq> i) (db_links (w_db w))
    \<and> (w_db w')\<lparr>db_mms := [], db_folders := [], db_labels := [], db_mailboxes := [], db_links := []\<rparr>
      = (w_db w)\<lparr>db_mms := [], db_folders := [], db_labels := [], db_mailboxes := [], db_links := []\<rparr>"
proof -
  from wpD [OF purge_spec assms] have w': "w_db w' = purge_db i (w_db w)" by simp
  have l: "ln_mm_id l \<in> mm_id ` set (filter (\<lambda>r. mm_mailbox_id r = i) rs)
      \<longleftrightarrow> \<not> (\<forall>r \<in> set rs. mm_id r = ln_mm_id l \<longrightarrow> mm_mailbox_id r \<noteq> i)" for l rs
    by (auto simp: image_iff)
  show ?thesis unfolding w' purge_db_def delete_where_def l by simp
qed

theorem purge_removes_mailbox_witness:
  "db_folders (w_db (snd (PurgeMailbox ''box'' sample_world))) = []"
proof -
  have "returns (PurgeMailbox ''box'' sample_world)" by code_simp
  then obtain u where u: "PurgeMailbox ''box'' sample_world = (Inr u, snd (PurgeMailbox ''box'' sample_world))"
    by (blast dest: returns_run)
  have "filter (\<lambda>f. fo_mailbox_id f \<noteq> ''box'') (db_folders (w_db sample_world)) = []" by code_simp
  with purge_removes_mailbox [OF u] show ?thesis by simp
qed

end
