(* ===== verification/Queue.thy ===== *)
theory Queue
  imports Io_Logic
begin

text \<open>
  The contract of the job tables.  Workers on any number of nodes take jobs from a table by a claim, which leases the job to
  the worker until a time, and give them back by a release.  The locale \<open>lease_queue\<close> states what the statements promise
  about the lease of a job; its lemmas show that a running lease has one holder.  \<open>guarded_queue\<close> adds the promise that a
  release leaves the lease of another worker alone.
\<close>

section \<open>The statements\<close>

definition ErrNoRows :: err where "ErrNoRows = ErrText ''sql: no rows in result set''"

text \<open>
  A time as the backend compares it: \<^verbatim>\<open>datetime(x)\<close> of SQLite cuts it to the second, PostgreSQL compares the timestamps.
\<close>

definition db_le :: "bool \<Rightarrow> time \<Rightarrow> time \<Rightarrow> bool" where
  "db_le sqlite a b = (if sqlite then a div second \<le> b div second else a \<le> b)"

definition null_or_le :: "bool \<Rightarrow> time option \<Rightarrow> time \<Rightarrow> bool" where
  "null_or_le sqlite x t = (case x of None \<Rightarrow> True | Some u \<Rightarrow> db_le sqlite u t)"

text \<open>
  \<^verbatim>\<open>UPDATE ... WHERE id = (SELECT id ... WHERE p ORDER BY created_at LIMIT 1) RETURNING ...\<close>: of the oldest rows the first in
  the table is taken.
\<close>

definition claim_rows :: "('r \<Rightarrow> string) \<Rightarrow> ('r \<Rightarrow> time) \<Rightarrow> ('r \<Rightarrow> bool) \<Rightarrow> ('r \<Rightarrow> 'r) \<Rightarrow> 'r list \<Rightarrow> ('r \<times> 'r list) option" where
  "claim_rows key created p f rows = (case sort_key created (filter p rows) of
     [] \<Rightarrow> None | r # _ \<Rightarrow> Some (f r, update_where (\<lambda>x. key x = key r) f rows))"

definition claimOne :: "'r table \<Rightarrow> ('r \<Rightarrow> string) \<Rightarrow> ('r \<Rightarrow> time) \<Rightarrow> ('r \<Rightarrow> bool) \<Rightarrow> ('r \<Rightarrow> 'r) \<Rightarrow> 'r io" where
  "claimOne t key created p f = dbcall (\<lambda>d. case claim_rows key created p f (fst t d) of
     None \<Rightarrow> (Inl ErrNoRows, d) | Some (r, rows) \<Rightarrow> (Inr r, snd t (\<lambda>_. rows) d))"

definition row_holder :: "('r \<Rightarrow> string) \<Rightarrow> ('r \<Rightarrow> string option) \<Rightarrow> ('r \<Rightarrow> time option) \<Rightarrow> 'r list \<Rightarrow> string \<Rightarrow> (string \<times> time) option" where
  "row_holder key own till rows i = Option.bind (find (\<lambda>r. key r = i) rows)
     (\<lambda>r. Option.bind (own r) (\<lambda>v. map_option (Pair v) (till r)))"

lemma db_le_mono: "db_le s u t \<Longrightarrow> t \<le> t' \<Longrightarrow> db_le s u t'"
  using zdiv_mono1 [of t t' second] by (auto simp: db_le_def split: if_splits)

lemma db_le_le: "u \<le> t \<Longrightarrow> db_le s u t"
  by (auto simp: db_le_def intro: zdiv_mono1)

lemma claim_rows_Some:
  assumes "claim_rows key created p f rows = Some (r', rows')"
  obtains r where "r \<in> set rows" "p r" "r' = f r" "rows' = update_where (\<lambda>x. key x = key r) f rows"
    "\<forall>x \<in> set rows. p x \<longrightarrow> created r \<le> created x"
proof -
  from assms obtain r rs where s: "sort_key created (filter p rows) = r # rs" "r' = f r" "rows' = update_where (\<lambda>x. key x = key r) f rows"
    by (auto simp: claim_rows_def split: list.splits)
  have m: "set (r # rs) = {x \<in> set rows. p x}" using s(1) by (metis set_filter set_sort)
  have "sorted (map created (r # rs))" using s(1) by (metis sorted_sort_key)
  then have "\<forall>x \<in> set (r # rs). created r \<le> created x" by auto
  with m have "\<forall>x \<in> set rows. p x \<longrightarrow> created r \<le> created x" by blast
  moreover from m have "r \<in> set rows" "p r" by auto
  ultimately show thesis using s(2,3) that by blast
qed

lemma claim_rows_None: "claim_rows key created p f rows = None \<longleftrightarrow> (\<forall>r \<in> set rows. \<not> p r)"
proof -
  have "sort_key created (filter p rows) = [] \<longleftrightarrow> (\<forall>r \<in> set rows. \<not> p r)"
    by (metis filter_empty_conv set_empty set_sort)
  then show ?thesis by (cases "sort_key created (filter p rows)") (simp_all add: claim_rows_def)
qed

lemma find_key: "distinct (map key rows) \<Longrightarrow> r \<in> set rows \<Longrightarrow> find (\<lambda>x. key x = key r) rows = Some r"
  by (induction rows) (auto simp: image_iff)

lemma find_update_where:
  assumes "\<And>r. p r \<Longrightarrow> key (f r) = key r"
  shows "find (\<lambda>x. key x = i) (update_where p f rows) = map_option (\<lambda>r. if p r then f r else r) (find (\<lambda>x. key x = i) rows)"
  using assms by (induction rows) auto

lemma row_holder_update:
  assumes "\<And>r. p r \<Longrightarrow> key (f r) = key r"
  shows "row_holder key own till (update_where p f rows) i = Option.bind (find (\<lambda>r. key r = i) rows)
     (\<lambda>r. Option.bind (own (if p r then f r else r)) (\<lambda>v. map_option (Pair v) (till (if p r then f r else r))))"
proof -
  have "find (\<lambda>x. key x = i) (update_where p f rows) = map_option (\<lambda>r. if p r then f r else r) (find (\<lambda>x. key x = i) rows)"
    by (rule find_update_where) (rule assms)
  then show ?thesis by (cases "find (\<lambda>r. key r = i) rows") (simp_all add: row_holder_def)
qed

lemma row_holder_other:
  assumes "\<And>r. p r \<Longrightarrow> key (f r) = key r" and "\<And>r. r \<in> set rows \<Longrightarrow> p r \<Longrightarrow> key r \<noteq> i"
  shows "row_holder key own till (update_where p f rows) i = row_holder key own till rows i"
proof -
  have k: "find (\<lambda>x. key x = i) (update_where p f rows) = map_option (\<lambda>r. if p r then f r else r) (find (\<lambda>x. key x = i) rows)"
    by (rule find_update_where) (rule assms(1))
  show ?thesis
  proof (cases "find (\<lambda>r. key r = i) rows")
    case None
    with k show ?thesis by (simp add: row_holder_def)
  next
    case (Some r)
    then have "r \<in> set rows" "key r = i" by (auto simp: find_Some_iff)
    with assms(2) have "\<not> p r" by blast
    with k Some show ?thesis by (simp add: row_holder_def)
  qed
qed

section \<open>The contract\<close>

text \<open>The leases workers believe they hold: the worker, the job, the end of the lease.\<close>

type_synonym lease = "string \<times> string \<times> time"

abbreviation lease_worker :: "lease \<Rightarrow> string" where "lease_worker l \<equiv> fst l"
abbreviation lease_job :: "lease \<Rightarrow> string" where "lease_job l \<equiv> fst (snd l)"
abbreviation lease_until :: "lease \<Rightarrow> time" where "lease_until l \<equiv> snd (snd l)"

locale lease_queue =
  fixes valid :: "'q \<Rightarrow> bool"
    and holder :: "'q \<Rightarrow> string \<Rightarrow> (string \<times> time) option"
    and expired :: "time \<Rightarrow> time \<Rightarrow> bool"
    and claims :: "string \<Rightarrow> time \<Rightarrow> string \<Rightarrow> time \<Rightarrow> 'q \<Rightarrow> 'q \<Rightarrow> bool"
    and releases :: "string \<Rightarrow> string \<Rightarrow> 'q \<Rightarrow> 'q \<Rightarrow> bool"
    and recovers :: "time \<Rightarrow> 'q \<Rightarrow> 'q \<Rightarrow> bool"
  assumes expired_mono: "expired u t \<Longrightarrow> t \<le> t' \<Longrightarrow> expired u t'"
    and claim_valid: "valid q \<Longrightarrow> claims v t i u q q' \<Longrightarrow> valid q'"
    and claim_free: "valid q \<Longrightarrow> claims v t i u q q' \<Longrightarrow> holder q i = Some (v', u') \<Longrightarrow> expired u' t"
    and claim_held: "valid q \<Longrightarrow> claims v t i u q q' \<Longrightarrow> holder q' i = Some (v, u)"
    and claim_other: "valid q \<Longrightarrow> claims v t i u q q' \<Longrightarrow> j \<noteq> i \<Longrightarrow> holder q' j = holder q j"
    and release_valid: "valid q \<Longrightarrow> releases v i q q' \<Longrightarrow> valid q'"
    and release_other: "valid q \<Longrightarrow> releases v i q q' \<Longrightarrow> j \<noteq> i \<Longrightarrow> holder q' j = holder q j"
    and recover_valid: "valid q \<Longrightarrow> recovers t q q' \<Longrightarrow> valid q'"
    and recover_keeps: "valid q \<Longrightarrow> recovers t q q' \<Longrightarrow> holder q i = Some (v, u) \<Longrightarrow> \<not> expired u t \<Longrightarrow> holder q' i = Some (v, u)"
begin

definition running :: "time \<Rightarrow> lease list \<Rightarrow> lease list" where
  "running t ls = filter (\<lambda>l. \<not> expired (lease_until l) t) ls"

definition leases_ok :: "'q \<Rightarrow> time \<Rightarrow> lease list \<Rightarrow> bool" where
  "leases_ok q t ls \<longleftrightarrow> valid q \<and> distinct (map lease_job (running t ls))
     \<and> (\<forall>l \<in> set (running t ls). holder q (lease_job l) = Some (lease_worker l, lease_until l))"

lemma running_Cons [simp]: "running t (l # ls) = (if expired (lease_until l) t then running t ls else l # running t ls)"
  by (simp add: running_def)

lemma leases_ok_empty: "valid q \<Longrightarrow> leases_ok q t []"
  by (simp add: leases_ok_def running_def)

lemma leases_ok_frame:
  assumes "leases_ok q t ls" and "valid q'"
    and "\<And>i v u. holder q i = Some (v, u) \<Longrightarrow> \<not> expired u t \<Longrightarrow> holder q' i = Some (v, u)"
  shows "leases_ok q' t ls"
  using assms by (auto simp: leases_ok_def running_def)

lemma leases_ok_tick:
  assumes "leases_ok q t ls" and "t \<le> t'"
  shows "leases_ok q t' ls"
proof -
  have r: "running t' ls = filter (\<lambda>l. \<not> expired (lease_until l) t') (running t ls)"
    using expired_mono [OF _ assms(2)] by (auto simp: running_def intro!: filter_cong)
  show ?thesis
    using assms(1) unfolding leases_ok_def r by (auto simp: distinct_map_filter)
qed

lemma leases_ok_recover:
  assumes ok: "leases_ok q t ls" and r: "recovers t q q'"
  shows "leases_ok q' t ls"
proof -
  have "valid q" using ok by (simp add: leases_ok_def)
  then show ?thesis
    using recover_valid [OF _ r] recover_keeps [OF _ r] by (intro leases_ok_frame [OF ok]) auto
qed

lemma leases_ok_claim:
  assumes ok: "leases_ok q t ls" and c: "claims v t i u q q'"
  shows "leases_ok q' t ((v, i, u) # ls)"
proof -
  have v: "valid q" using ok by (simp add: leases_ok_def)
  have i: "lease_job l \<noteq> i" if "l \<in> set (running t ls)" for l
  proof
    assume "lease_job l = i"
    with ok that have "holder q i = Some (lease_worker l, lease_until l)" by (auto simp: leases_ok_def)
    from claim_free [OF v c this] that show False by (simp add: running_def)
  qed
  with ok claim_other [OF v c] have "\<forall>l \<in> set (running t ls). holder q' (lease_job l) = Some (lease_worker l, lease_until l)"
    by (simp add: leases_ok_def)
  with ok i claim_held [OF v c] claim_valid [OF v c] show ?thesis by (auto simp: leases_ok_def)
qed

lemma leases_ok_drop: "leases_ok q t ls \<Longrightarrow> leases_ok q t (remove1 l ls)"
proof -
  have r: "running t (remove1 l ls) = (if expired (lease_until l) t then running t ls else remove1 l (running t ls))"
    by (induction ls) (auto simp: running_def remove1_filter_not)
  assume "leases_ok q t ls"
  then show ?thesis
    unfolding leases_ok_def r by (auto simp: distinct_map intro: inj_on_subset dest: notin_set_remove1)
qed

lemma leases_ok_filter: "leases_ok q t ls \<Longrightarrow> leases_ok q t (filter P ls)"
proof -
  have "running t (filter P ls) = filter P (running t ls)" by (simp add: running_def conj_commute)
  then show "leases_ok q t ls \<Longrightarrow> leases_ok q t (filter P ls)" by (auto simp: leases_ok_def distinct_map_filter)
qed

lemma leases_ok_release_timely:
  assumes ok: "leases_ok q t ls" and l: "(v, i, u) \<in> set ls" and u: "\<not> expired u t" and r: "releases v i q q'"
  shows "leases_ok q' t (remove1 (v, i, u) ls)"
proof -
  have v: "valid q" using ok by (simp add: leases_ok_def)
  have m: "(v, i, u) \<in> set (running t ls)" using l u by (simp add: running_def)
  have "running t (remove1 (v, i, u) ls) = remove1 (v, i, u) (running t ls)"
    using u by (induction ls) (auto simp: running_def)
  moreover have "lease_job l \<noteq> i" if "l \<in> set (remove1 (v, i, u) (running t ls))" for l
  proof -
    have d: "distinct (map lease_job (running t ls))" using ok by (simp add: leases_ok_def)
    from m obtain as bs where s: "running t ls = as @ (v, i, u) # bs" "(v, i, u) \<notin> set as" by (metis split_list_first)
    with that have "l \<in> set (as @ bs)" by (simp add: remove1_append)
    with d s(1) show ?thesis by force
  qed
  moreover have "leases_ok q t (remove1 (v, i, u) ls)" using ok by (rule leases_ok_drop)
  ultimately show ?thesis
    using release_other [OF v r] release_valid [OF v r] by (auto simp: leases_ok_def)
qed

end

locale guarded_queue = lease_queue +
  assumes release_guard: "valid q \<Longrightarrow> releases v i q q' \<Longrightarrow> holder q i = Some (v', u') \<Longrightarrow> v' \<noteq> v \<Longrightarrow> holder q' i = Some (v', u')"
begin

text \<open>A late release does no harm, unless the same worker holds the job again.\<close>

lemma leases_ok_release_late:
  assumes ok: "leases_ok q t ls" and r: "releases v i q q'"
    and alone: "\<And>u'. (v, i, u') \<in> set (running t ls) \<Longrightarrow> False"
  shows "leases_ok q' t ls"
proof -
  have v: "valid q" using ok by (simp add: leases_ok_def)
  have "holder q' (lease_job l) = Some (lease_worker l, lease_until l)" if l: "l \<in> set (running t ls)" for l
  proof (cases "lease_job l = i")
    case True
    have h: "holder q i = Some (lease_worker l, lease_until l)" using ok l True by (auto simp: leases_ok_def)
    have "lease_worker l \<noteq> v" using alone [of "lease_until l"] l True by (metis prod.collapse)
    from release_guard [OF v r h this] True show ?thesis by simp
  next
    case False
    with ok l release_other [OF v r] show ?thesis by (auto simp: leases_ok_def)
  qed
  with ok release_valid [OF v r] show ?thesis by (auto simp: leases_ok_def)
qed

end

end
