(* ===== verification/Relay.thy ===== *)
theory Relay
  imports Queue Rules Config
begin

text \<open>
  The outbound relay worker, \<^verbatim>\<open>internal/outbound/relay.go\<close>: the claim of a job, its delivery to the relay host, the
  classification of the answer, and the bookkeeping of success, retry and failure.  The SMTP connection is the parameter
  \<open>peer\<close>, the answer to each step of the conversation; metrics are left out.  A row holds its recipients as a list: the JSON of
  the column is what the submission wrote, and the error of \<open>claim\<close> for a column that is not JSON has no case here.
\<close>

section \<open>The conversation\<close>

text \<open>An error of a step is a reply of the server, with its code, its text and the text of the error, or any other error.\<close>

datatype send_error = SMTPError int string string | OtherError string

datatype smtp_step = Dial | SetDeadline | Greeting | Helo string | StartTLS string | SmtpAuth string string string
  | MailFrom string | RcptTo string | DataCmd | WriteData string | CloseData | Quit

text \<open>
  What the other side does at a step, given the steps before it: \<open>pe_fails\<close> the error of a step that fails, \<open>pe_extension\<close>
  the extensions announced, \<open>pe_context\<close> the text of the error when the deadline has passed by then.
\<close>

record peer =
  pe_fails :: "smtp_step list \<Rightarrow> smtp_step \<Rightarrow> send_error option"
  pe_extension :: "smtp_step list \<Rightarrow> string \<Rightarrow> bool"
  pe_context :: "smtp_step list \<Rightarrow> smtp_step \<Rightarrow> string option"

type_synonym conversation = "smtp_step list \<Rightarrow> (send_error + unit) \<times> smtp_step list"

definition wrapCtxErr :: "peer \<Rightarrow> smtp_step list \<Rightarrow> smtp_step \<Rightarrow> send_error \<Rightarrow> send_error" where
  "wrapCtxErr p h s e = (case pe_context p h s of Some text \<Rightarrow> OtherError text | None \<Rightarrow> e)"

definition step_raw :: "peer \<Rightarrow> smtp_step \<Rightarrow> conversation" where
  "step_raw p s h = (case pe_fails p h s of Some e \<Rightarrow> (Inl e, h) | None \<Rightarrow> (Inr (), h @ [s]))"

definition step_wrapped :: "peer \<Rightarrow> smtp_step \<Rightarrow> conversation" where
  "step_wrapped p s h = (case pe_fails p h s of Some e \<Rightarrow> (Inl (wrapCtxErr p h s e), h) | None \<Rightarrow> (Inr (), h @ [s]))"

definition and_then :: "conversation \<Rightarrow> conversation \<Rightarrow> conversation" where
  "and_then c d h = (case c h of (Inl e, h') \<Rightarrow> (Inl e, h') | (Inr _, h') \<Rightarrow> d h')"

definition if_extension :: "peer \<Rightarrow> string \<Rightarrow> conversation \<Rightarrow> conversation \<Rightarrow> conversation" where
  "if_extension p ext c d h = (if pe_extension p h ext then c h else d h)"

definition skip :: conversation where "skip h = (Inr (), h)"

fun rcpt_loop :: "peer \<Rightarrow> string list \<Rightarrow> conversation" where
  "rcpt_loop p [] = skip"
| "rcpt_loop p (r # rs) = and_then (step_wrapped p (RcptTo r)) (rcpt_loop p rs)"

definition relay_host :: "relay_config \<Rightarrow> string" where
  "relay_host cfg = fst (cut (cr_addr cfg) '':'')"

definition relayAuth :: "relay_config \<Rightarrow> (string \<times> string \<times> string) option" where
  "relayAuth cfg =
     (if cr_username cfg = [] then None
      else Some (cr_username cfg, cr_password cfg, if cr_from_host cfg = [] then relay_host cfg else cr_from_host cfg))"

definition sendViaRelay :: "peer \<Rightarrow> string \<Rightarrow> relay_config \<Rightarrow> string \<Rightarrow> string list \<Rightarrow> string \<Rightarrow> conversation" where
  "sendViaRelay p hostname cfg sender recipients raw =
     and_then (step_raw p Dial)
     (and_then (step_raw p SetDeadline)
     (and_then (step_wrapped p Greeting)
     (and_then (step_wrapped p (Helo hostname))
     (and_then (if_extension p ''STARTTLS'' (step_wrapped p (StartTLS (relay_host cfg))) skip)
     (and_then (case relayAuth cfg of None \<Rightarrow> skip
         | Some (user, password, host) \<Rightarrow> if_extension p ''AUTH'' (step_wrapped p (SmtpAuth user password host))
             (\<lambda>h. (Inl (OtherError ''smtp: server doesn't support AUTH''), h)))
     (and_then (step_wrapped p (MailFrom sender))
     (and_then (rcpt_loop p recipients)
     (and_then (step_wrapped p DataCmd)
     (and_then (step_wrapped p (WriteData raw))
     (and_then (step_wrapped p CloseData)
       (\<lambda>h. (Inr (), case pe_fails p h Quit of None \<Rightarrow> h @ [Quit] | Some _ \<Rightarrow> h))))))))))))"

section \<open>Classification\<close>

record delivery_result =
  dl_code :: int
  dl_enhanced :: string
  dl_classification :: string
  dl_response :: string

definition word_char :: "char \<Rightarrow> bool" where
  "word_char c \<longleftrightarrow> is_digit c \<or> (65 \<le> code c \<and> code c \<le> 90) \<or> (97 \<le> code c \<and> code c \<le> 122) \<or> code c = 95"

text \<open>
  \<^verbatim>\<open>^[245]\.\d{1,3}\.\d{1,3}\b\<close>: a run of more than three digits matches neither group, since the group must be followed by a
  dot, or by the end of the word.
\<close>

definition enhancedStatusCode :: "string \<Rightarrow> string" where
  "enhancedStatusCode message = (case message of
     a # CHR ''.'' # s \<Rightarrow>
       let d1 = takeWhile is_digit s; s1 = drop (length d1) s in
       (case s1 of CHR ''.'' # s2 \<Rightarrow>
          let d2 = takeWhile is_digit s2; s3 = drop (length d2) s2 in
          if a \<in> {CHR ''2'', CHR ''4'', CHR ''5''} \<and> d1 \<noteq> [] \<and> length d1 \<le> 3 \<and> d2 \<noteq> [] \<and> length d2 \<le> 3
            \<and> (s3 = [] \<or> \<not> word_char (hd s3))
          then a # ''.'' @ d1 @ ''.'' @ d2 else []
        | _ \<Rightarrow> [])
   | _ \<Rightarrow> [])"

definition permanentFailure :: "int \<Rightarrow> string \<Rightarrow> string \<Rightarrow> delivery_result" where
  "permanentFailure c enhanced response =
     \<lparr>dl_code = c, dl_enhanced = enhanced, dl_classification = ''permanent'', dl_response = response\<rparr>"

definition localFailure :: "string \<Rightarrow> delivery_result" where
  "localFailure text = \<lparr>dl_code = 0, dl_enhanced = [], dl_classification = ''temporary'', dl_response = text\<rparr>"

definition classifySMTPError :: "send_error \<Rightarrow> delivery_result" where
  "classifySMTPError e = (case e of
     OtherError text \<Rightarrow> localFailure text
   | SMTPError c msg text \<Rightarrow>
       if 500 \<le> c then permanentFailure c (enhancedStatusCode msg) text
       else \<lparr>dl_code = c, dl_enhanced = enhancedStatusCode msg, dl_classification = ''temporary'', dl_response = text\<rparr>)"

definition errorMap :: "delivery_result \<Rightarrow> payload" where
  "errorMap r = [(''code'', JNum (of_int (dl_code r))), (''enhanced_status_code'', JStr (dl_enhanced r)),
     (''classification'', JStr (dl_classification r)), (''response'', JStr (dl_response r))]"

definition codePtr :: "int \<Rightarrow> int option" where
  "codePtr c = (if c = 0 then None else Some c)"

section \<open>The worker\<close>

record claimed_job =
  cj_id :: string
  cj_mailbox_id :: string
  cj_sender_domain :: string
  cj_message_id :: string
  cj_return_path :: string
  cj_recipients :: "string list"
  cj_attempts :: int

text \<open>
  The worker: \<open>rw_send\<close> is the sender with the network as it is at a time, \<open>rw_parse_address\<close> whether the address parses, with
  the text of the error, \<open>rw_notify\<close> the notification service.
\<close>

record relay_worker =
  rw_id :: string
  rw_sqlite :: bool
  rw_config :: relay_config
  rw_error_text :: "err \<Rightarrow> string"
  rw_parse_address :: "string \<Rightarrow> string option"
  rw_send :: "time \<Rightarrow> relay_config \<Rightarrow> string \<Rightarrow> string list \<Rightarrow> string \<Rightarrow> send_error option"
  rw_notify :: "(string \<Rightarrow> string \<Rightarrow> payload \<Rightarrow> unit io) option"
  rw_events :: bool

definition claimed :: "outbound_job \<Rightarrow> claimed_job" where
  "claimed j = \<lparr>cj_id = oj_id j, cj_mailbox_id = oj_mailbox_id j, cj_sender_domain = oj_sender_domain j,
     cj_message_id = oj_message_id j, cj_return_path = oj_return_path j, cj_recipients = oj_recipients j, cj_attempts = oj_attempts j\<rparr>"

definition claimable_job :: "bool \<Rightarrow> time \<Rightarrow> outbound_job \<Rightarrow> bool" where
  "claimable_job sqlite t j \<longleftrightarrow> oj_status j \<in> {''queued'', ''retry'', ''processing''}
     \<and> null_or_le sqlite (oj_next_attempt_at j) t \<and> null_or_le sqlite (oj_locked_until j) t"

definition lease_job_row :: "string \<Rightarrow> time \<Rightarrow> time \<Rightarrow> outbound_job \<Rightarrow> outbound_job" where
  "lease_job_row worker until t j = j\<lparr>oj_locked_by := Some worker, oj_locked_until := Some until,
     oj_attempts := oj_attempts j + (if oj_status j = ''processing'' then 1 else 0), oj_status := ''processing'', oj_updated_at := t\<rparr>"

definition relay_lease :: "relay_worker \<Rightarrow> time \<Rightarrow> time" where
  "relay_lease v t = t + wrap64 (Relay_Timeout (rw_config v) + 4 * minute)"

definition claim :: "relay_worker \<Rightarrow> claimed_job option io" where
  "claim v =
     bindE now (\<lambda>t.
     bindE (tryE (in_tx (claimOne T_jobs oj_id oj_created_at (claimable_job (rw_sqlite v) t) (lease_job_row (rw_id v) (relay_lease v t) t)))) (\<lambda>r.
     case r of
       Inl e \<Rightarrow> if e = ErrNoRows then ret None else fail e
     | Inr j \<Rightarrow> ret (Some (claimed j))))"

definition deliver_job :: "relay_worker \<Rightarrow> claimed_job \<Rightarrow> delivery_result io" where
  "deliver_job v job =
     bindE (tryE (selectOnly T_messages (\<lambda>m. me_id m = cj_message_id job))) (\<lambda>r.
     case r of
       Inl e \<Rightarrow> if e = NotFound then ret (permanentFailure 550 ''5.1.0'' ''message no longer exists'')
         else ret (localFailure (rw_error_text v e))
     | Inr msg \<Rightarrow>
         bindE (tryE (getBlob (me_blob_key msg))) (\<lambda>b.
         case b of
           Inl e \<Rightarrow> ret (localFailure (rw_error_text v e))
         | Inr raw \<Rightarrow>
             let sender = (if cj_return_path job = [] \<and> me_from msg \<noteq> [] then hd (me_from msg) else cj_return_path job) in
             (case rw_parse_address v sender of
               Some text \<Rightarrow> ret (permanentFailure 553 ''5.1.7'' text)
             | None \<Rightarrow>
                 if cj_recipients job = [] then ret (permanentFailure 553 ''5.1.3'' ''no recipients'') else
                 bindE now (\<lambda>t.
                 case rw_send v t (rw_config v) sender (cj_recipients job) raw of
                   None \<Rightarrow> ret \<lparr>dl_code = 250, dl_enhanced = [], dl_classification = ''success'', dl_response = ''sent''\<rparr>
                 | Some e \<Rightarrow> ret (classifySMTPError e)))))"

definition reportFailure :: "relay_worker \<Rightarrow> claimed_job \<Rightarrow> delivery_result \<Rightarrow> unit io" where
  "reportFailure v job result =
     (if cj_sender_domain job = [] then
        (case rw_notify v of None \<Rightarrow> ret ()
         | Some notify \<Rightarrow> bindE (tryE (notify (cj_mailbox_id job) (cj_message_id job) (errorMap result))) (\<lambda>_. ret ()))
      else if rw_events v then
        bindE (tryE (Emit ''message.bounced'' [] [(''event'', JStr ''message.bounced''), (''source'', JStr ''relay''),
          (''message_id'', JStr (cj_message_id job)), (''sender_domain'', JStr (cj_sender_domain job)),
          (''recipients'', JArr (map JStr (cj_recipients job))), (''error'', JObj (errorMap result))])) (\<lambda>_. ret ())
      else ret ())"

text \<open>The columns \<^verbatim>\<open>finish\<close> sets on the job's row at the time \<open>t\<close>, and whether the job has failed for good.\<close>

definition finish_row :: "retry_policy \<Rightarrow> claimed_job \<Rightarrow> delivery_result \<Rightarrow> time \<Rightarrow> outbound_job \<Rightarrow> outbound_job" where
  "finish_row policy job result t j =
     (let j1 = j\<lparr>oj_locked_by := None, oj_locked_until := None, oj_updated_at := t\<rparr> in
      if dl_classification result = ''success'' then j1\<lparr>oj_status := ''sent'', oj_next_attempt_at := None\<rparr>
      else if dl_classification result = ''temporary'' \<and> \<not> Exhausted policy (cj_attempts job + 1) then
        j1\<lparr>oj_status := ''retry'', oj_next_attempt_at := Some (t + Delay policy (cj_attempts job)),
           oj_attempts := oj_attempts j + 1, oj_last_error := errorMap result\<rparr>
      else j1\<lparr>oj_status := ''failed'', oj_attempts := oj_attempts j + 1, oj_last_error := errorMap result\<rparr>)"

definition finally_failed :: "retry_policy \<Rightarrow> claimed_job \<Rightarrow> delivery_result \<Rightarrow> bool" where
  "finally_failed policy job result \<longleftrightarrow> dl_classification result \<noteq> ''success''
     \<and> (dl_classification result = ''temporary'' \<longrightarrow> Exhausted policy (cj_attempts job + 1))"

definition finish :: "relay_worker \<Rightarrow> claimed_job \<Rightarrow> delivery_result \<Rightarrow> unit io" where
  "finish v job result =
     (let policy = Relay_RetryPolicy (rw_config v) in
      bindE now (\<lambda>t.
      bindE (updateOne T_jobs (\<lambda>j. oj_id j = cj_id job \<and> oj_locked_by j = Some (rw_id v)) (finish_row policy job result t)) (\<lambda>_.
      if finally_failed policy job result then reportFailure v job result else ret ())))"

definition new_attempt :: "claimed_job \<Rightarrow> delivery_result \<Rightarrow> string \<Rightarrow> time \<Rightarrow> outbound_attempt" where
  "new_attempt job result i t = \<lparr>oa_id = i, oa_outbound_job_id = cj_id job, oa_message_id = cj_message_id job,
     oa_smtp_code = codePtr (dl_code result), oa_enhanced_status_code = dl_enhanced result,
     oa_classification = dl_classification result, oa_response = dl_response result, oa_created_at = t\<rparr>"

definition errors_of :: "(err + 'a) list \<Rightarrow> err list" where
  "errors_of rs = concat (map (\<lambda>r. case r of Inl e \<Rightarrow> [e] | Inr _ \<Rightarrow> []) rs)"

text \<open>The pair the Go function returns: whether a job was taken, and the errors joined.\<close>

definition ProcessOne :: "relay_worker \<Rightarrow> (bool \<times> err list) io" where
  "ProcessOne v =
     bindE (tryE (claim v)) (\<lambda>c.
     case c of
       Inl e \<Rightarrow> ret (False, [e])
     | Inr None \<Rightarrow> ret (False, [])
     | Inr (Some job) \<Rightarrow>
         bindE (deliver_job v job) (\<lambda>result.
         bindE newID (\<lambda>i.
         bindE now (\<lambda>t.
         bindE (tryE (insertRow T_attempts (\<lambda>r x. oa_id r = oa_id x) (new_attempt job result i t))) (\<lambda>attempt.
         bindE (tryE (finish v job result)) (\<lambda>finished.
         ret (True, errors_of [map_sum id (\<lambda>_. ()) attempt, finished])))))))"

text \<open>The inner loop of a worker: it takes jobs until there is none, or a call fails; \<open>n\<close> bounds the turns.\<close>

fun drain :: "nat \<Rightarrow> relay_worker \<Rightarrow> nat io" where
  "drain 0 v = ret 0"
| "drain (Suc n) v = bindE (ProcessOne v) (\<lambda>(processed, errs).
     if errs \<noteq> [] \<or> \<not> processed then ret (if processed then 1 else 0) else bindE (drain n v) (\<lambda>k. ret (k + 1)))"

end
