(* ===== verification/Webhooks.thy ===== *)
theory Webhooks
  imports Relay Clock
begin

text \<open>
  The webhook worker, \<^verbatim>\<open>internal/webhooks/worker.go\<close>: the claim of an event, the signed request to its endpoint, and the
  bookkeeping of delivery, retry and failure.  JSON encoding, the HMAC and the HTTP client are parameters; metrics are left
  out.  A row holds its payload decoded; the error of \<open>claim_event\<close> for a column that is not JSON has no case here.
\<close>

datatype http_result = HttpResponse int string | HttpError string

record event_job =
  vj_id :: string
  vj_event_type :: string
  vj_trace_id :: string
  vj_payload :: payload
  vj_attempts :: int

text \<open>
  \<open>ww_http\<close> is the answer to a request at a time: the endpoint, the header fields and the body, with the timeout of the call.
\<close>

record webhook_worker =
  ww_id :: string
  ww_sqlite :: bool
  ww_config :: webhook_config
  ww_marshal :: "payload \<Rightarrow> string + string"
  ww_hmac :: "string \<Rightarrow> string \<Rightarrow> string"
  ww_http :: "time \<Rightarrow> duration \<Rightarrow> string \<Rightarrow> (string \<times> string) list \<Rightarrow> string \<Rightarrow> http_result"

definition event_job_of :: "event_log \<Rightarrow> event_job" where
  "event_job_of e = \<lparr>vj_id = ev_id e, vj_event_type = ev_event_type e, vj_trace_id = ev_trace_id e, vj_payload = ev_payload e,
     vj_attempts = ev_attempts e\<rparr>"

definition claimable_event :: "bool \<Rightarrow> time \<Rightarrow> event_log \<Rightarrow> bool" where
  "claimable_event sqlite t e \<longleftrightarrow> ev_status e \<in> {''queued'', ''retry''}
     \<and> null_or_le sqlite (ev_next_attempt_at e) t \<and> null_or_le sqlite (ev_locked_until e) t"

definition lease_event_row :: "string \<Rightarrow> time \<Rightarrow> event_log \<Rightarrow> event_log" where
  "lease_event_row worker until e = e\<lparr>ev_locked_by := Some worker, ev_locked_until := Some until, ev_status := ''processing''\<rparr>"

definition webhook_lease :: "time \<Rightarrow> time" where
  "webhook_lease t = t + 5 * minute"

definition claim_event :: "webhook_worker \<Rightarrow> event_job option io" where
  "claim_event v =
     bindE now (\<lambda>t.
     bindE (tryE (in_tx (claimOne T_events ev_id ev_created_at (claimable_event (ww_sqlite v) t) (lease_event_row (ww_id v) (webhook_lease t))))) (\<lambda>r.
     case r of
       Inl e \<Rightarrow> if e = ErrNoRows then ret None else fail e
     | Inr j \<Rightarrow> ret (Some (event_job_of j))))"

definition signature :: "webhook_worker \<Rightarrow> string \<Rightarrow> string \<Rightarrow> string \<Rightarrow> string" where
  "signature v secret timestamp body = ''sha256='' @ ww_hmac v secret (timestamp @ ''.'' @ body)"

definition webhook_timeout :: "webhook_config \<Rightarrow> duration" where
  "webhook_timeout c = (let d = wrap64 (ck_default_timeout_seconds c * second) in if d \<le> 0 then 10 * second else d)"

definition post_headers :: "webhook_worker \<Rightarrow> time \<Rightarrow> event_job \<Rightarrow> string \<Rightarrow> (string \<times> string) list" where
  "post_headers v t job body = (let timestamp = format_rfc3339 t in
     [(''Content-Type'', ''application/json''), (''X-Haitatsu-Event'', vj_event_type job), (''X-Haitatsu-Timestamp'', timestamp),
      (''X-Haitatsu-Signature'', signature v (ck_secret (ww_config v)) timestamp body), (''X-Haitatsu-Trace-ID'', vj_trace_id job),
      (''X-Haitatsu-Delivery'', vj_id job)])"

definition int_text :: "int \<Rightarrow> string" where
  "int_text n = (if n < 0 then ''-'' @ decimal (- n) else decimal n)"

text \<open>\<^verbatim>\<open>post\<close>: the text of its error, if it fails.\<close>

definition post :: "webhook_worker \<Rightarrow> time \<Rightarrow> string \<Rightarrow> event_job \<Rightarrow> string \<Rightarrow> string option" where
  "post v t endpoint job body = (case ww_http v t (webhook_timeout (ww_config v)) endpoint (post_headers v t job body) body of
     HttpError text \<Rightarrow> Some text
   | HttpResponse c data \<Rightarrow>
       if c < 200 \<or> 300 \<le> c then Some (''webhook returned '' @ int_text c @ '': '' @ take 2048 data) else None)"

definition fail_row :: "retry_policy \<Rightarrow> event_job \<Rightarrow> string \<Rightarrow> time \<Rightarrow> event_log \<Rightarrow> event_log" where
  "fail_row policy job text t e =
     (let e1 = e\<lparr>ev_locked_by := None, ev_locked_until := None, ev_attempts := ev_attempts e + 1, ev_last_error := [(''error'', JStr text)]\<rparr> in
      if Exhausted policy (vj_attempts job + 1) then e1\<lparr>ev_status := ''failed''\<rparr>
      else e1\<lparr>ev_status := ''retry'', ev_next_attempt_at := Some (t + Delay policy (vj_attempts job))\<rparr>)"

definition fail_event :: "webhook_worker \<Rightarrow> event_job \<Rightarrow> string \<Rightarrow> unit io" where
  "fail_event v job text =
     bindE now (\<lambda>t.
     bindE (updateOne T_events (\<lambda>e. ev_id e = vj_id job) (fail_row (Webhook_RetryPolicy (ww_config v)) job text t)) (\<lambda>_.
     ret ()))"

definition settle_row :: "string \<Rightarrow> event_log \<Rightarrow> event_log" where
  "settle_row status e = e\<lparr>ev_status := status, ev_locked_by := None, ev_locked_until := None\<rparr>"

text \<open>What happens to a claimed event.\<close>

definition process_event :: "webhook_worker \<Rightarrow> event_job \<Rightarrow> unit io" where
  "process_event v job =
     (case map_of (ck_endpoints (ww_config v)) (vj_event_type job) of
       Some endpoint \<Rightarrow>
         if endpoint = [] then
           bindE (updateOne T_events (\<lambda>e. ev_id e = vj_id job) (settle_row ''no_endpoint'')) (\<lambda>_. ret ())
         else
           (case ww_marshal v (vj_payload job) of
             Inl text \<Rightarrow> fail_event v job text
           | Inr body \<Rightarrow>
               bindE now (\<lambda>t.
               case post v t endpoint job body of
                 Some text \<Rightarrow> fail_event v job text
               | None \<Rightarrow> bindE (updateOne T_events (\<lambda>e. ev_id e = vj_id job)
                   (\<lambda>e. (settle_row ''delivered'' e)\<lparr>ev_next_attempt_at := None\<rparr>)) (\<lambda>_. ret ())))
     | None \<Rightarrow> bindE (updateOne T_events (\<lambda>e. ev_id e = vj_id job) (settle_row ''no_endpoint'')) (\<lambda>_. ret ()))"

definition ProcessOneEvent :: "webhook_worker \<Rightarrow> (bool \<times> err list) io" where
  "ProcessOneEvent v =
     bindE (tryE (claim_event v)) (\<lambda>c.
     case c of
       Inl e \<Rightarrow> ret (False, [e])
     | Inr None \<Rightarrow> ret (False, [])
     | Inr (Some job) \<Rightarrow> bindE (tryE (process_event v job)) (\<lambda>r. ret (True, errors_of [r])))"

text \<open>The pause of an idle loop: it doubles up to a bound, and starts over when an event was processed.\<close>

definition minPollInterval :: duration where "minPollInterval = 250 * millisecond"
definition maxPollInterval :: duration where "maxPollInterval = 30 * second"

definition next_interval :: "bool \<Rightarrow> duration \<Rightarrow> duration" where
  "next_interval busy interval = (if busy then minPollInterval else min (interval * 2) maxPollInterval)"

end
