(* ===== verification/Relay_Props.thy ===== *)
theory Relay_Props
  imports Webhooks Cleanup Samples
begin

text \<open>
  The queues: the interpretations of the lease contract on the jobs of the relay and on the events of the webhooks, the runs of
  relay workers, and the number of rounds a job takes.
\<close>

section \<open>Leases on jobs\<close>

definition job_holder :: "outbound_job list \<Rightarrow> string \<Rightarrow> (string \<times> time) option" where
  "job_holder = row_holder oj_id oj_locked_by oj_locked_until"

definition job_claims :: "bool \<Rightarrow> string \<Rightarrow> time \<Rightarrow> string \<Rightarrow> time \<Rightarrow> outbound_job list \<Rightarrow> outbound_job list \<Rightarrow> bool" where
  "job_claims sqlite v t i u rows rows' \<longleftrightarrow>
     (\<exists>r. claim_rows oj_id oj_created_at (claimable_job sqlite t) (lease_job_row v u t) rows = Some (r, rows') \<and> oj_id r = i)"

definition job_releases :: "string \<Rightarrow> string \<Rightarrow> outbound_job list \<Rightarrow> outbound_job list \<Rightarrow> bool" where
  "job_releases v i rows rows' \<longleftrightarrow> (\<exists>policy job result t.
     rows' = update_where (\<lambda>j. oj_id j = i \<and> oj_locked_by j = Some v) (finish_row policy job result t) rows)"

definition job_recovers :: "time \<Rightarrow> outbound_job list \<Rightarrow> outbound_job list \<Rightarrow> bool" where
  "job_recovers t rows rows' \<longleftrightarrow>
     rows' = update_where (\<lambda>j. oj_status j = ''processing'' \<and> past (oj_locked_until j) t) (\<lambda>j. (unlock_job j)\<lparr>oj_updated_at := t\<rparr>) rows"

lemma lease_job_row_frame [simp]:
  "oj_id (lease_job_row v u t j) = oj_id j" "oj_locked_by (lease_job_row v u t j) = Some v"
  "oj_locked_until (lease_job_row v u t j) = Some u"
  by (simp_all add: lease_job_row_def)

lemma finish_row_frame [simp]:
  "oj_id (finish_row policy job result t j) = oj_id j"
  by (simp add: finish_row_def Let_def)

lemma unlock_job_frame [simp]: "oj_id (unlock_job j) = oj_id j"
  by (simp add: unlock_job_def)

lemma row_holder_Some:
  assumes "distinct (map key rows)"
  shows "row_holder key own till rows i = Some (v, u) \<longleftrightarrow> (\<exists>r \<in> set rows. key r = i \<and> own r = Some v \<and> till r = Some u)"
proof
  assume "row_holder key own till rows i = Some (v, u)"
  then obtain r where "find (\<lambda>r. key r = i) rows = Some r" "own r = Some v" "till r = Some u"
    by (auto simp: row_holder_def bind_eq_Some_conv)
  then show "\<exists>r \<in> set rows. key r = i \<and> own r = Some v \<and> till r = Some u" by (auto simp: find_Some_iff)
next
  assume "\<exists>r \<in> set rows. key r = i \<and> own r = Some v \<and> till r = Some u"
  then obtain r where r: "r \<in> set rows" "key r = i" "own r = Some v" "till r = Some u" by blast
  from find_key [OF assms r(1)] r show "row_holder key own till rows i = Some (v, u)" by (simp add: row_holder_def)
qed

text \<open>A claim of a row that is free by the predicate \<open>p\<close>, for any table.\<close>

lemma claim_rows_holder:
  assumes c: "claim_rows key created p f rows = Some (r', rows')" and d: "distinct (map key rows)"
    and f: "\<And>r. key (f r) = key r" "\<And>r. own (f r) = Some v" "\<And>r. till (f r) = Some u"
  shows "distinct (map key rows')" and "row_holder key own till rows' (key r') = Some (v, u)"
    and "j \<noteq> key r' \<Longrightarrow> row_holder key own till rows' j = row_holder key own till rows j"
    and "row_holder key own till rows (key r') = Some (v', u') \<Longrightarrow> \<exists>r \<in> set rows. p r \<and> till r = Some u'"
proof -
  from c obtain r where r: "r \<in> set rows" "p r" "r' = f r" "rows' = update_where (\<lambda>x. key x = key r) f rows"
    by (rule claim_rows_Some)
  show d': "distinct (map key rows')" using d f(1) r(4) by (simp add: map_update_where)
  have "f r \<in> set rows'" using r by (auto simp: in_set_update_where)
  then show "row_holder key own till rows' (key r') = Some (v, u)"
    unfolding row_holder_Some [OF d'] using r(3) f by auto
  show "j \<noteq> key r' \<Longrightarrow> row_holder key own till rows' j = row_holder key own till rows j"
    unfolding r(4) using r(3) f(1) by (intro row_holder_other) auto
  assume "row_holder key own till rows (key r') = Some (v', u')"
  then obtain x where "x \<in> set rows" "key x = key r" "till x = Some u'"
    unfolding row_holder_Some [OF d] using r(3) f(1) by auto
  moreover have "x = r" using d r(1) calculation by (auto simp: distinct_map dest: inj_onD)
  ultimately show "\<exists>r \<in> set rows. p r \<and> till r = Some u'" using r by blast
qed

interpretation jobs: guarded_queue "\<lambda>rows. distinct (map oj_id rows)" job_holder "db_le sqlite" "job_claims sqlite" job_releases job_recovers
proof (unfold_locales, goal_cases)
  case (1 u t t')
  then show ?case by (rule db_le_mono)
next
  case (2 q v t i u q')
  then show ?case by (auto simp: job_claims_def dest: claim_rows_holder(1) [where v = v and u = u and own = oj_locked_by and till = oj_locked_until])
next
  case (3 q v t i u q' v' u')
  from 3(2) obtain r where c: "claim_rows oj_id oj_created_at (claimable_job sqlite t) (lease_job_row v u t) q = Some (r, q')" "oj_id r = i"
    by (auto simp: job_claims_def)
  from claim_rows_holder(4) [OF c(1) 3(1), of oj_locked_by v oj_locked_until u v' u'] c(2) 3(3)
  show ?case by (auto simp: job_holder_def claimable_job_def null_or_le_def)
next
  case (4 q v t i u q')
  then show ?case
    by (auto simp: job_claims_def job_holder_def dest: claim_rows_holder(2) [where v = v and u = u and own = oj_locked_by and till = oj_locked_until])
next
  case (5 q v t i u q' j)
  then show ?case
    by (auto simp: job_claims_def job_holder_def dest: claim_rows_holder(3) [where v = v and u = u and own = oj_locked_by and till = oj_locked_until])
next
  case (6 q v i q')
  then show ?case by (auto simp: job_releases_def map_update_where)
next
  case (7 q v i q' j)
  then show ?case by (auto simp: job_releases_def job_holder_def intro!: row_holder_other)
next
  case (8 q t q')
  then show ?case by (simp add: job_recovers_def map_update_where)
next
  case (9 q t q' i v u)
  have d: "distinct (map oj_id q')" using 9(1,2) by (simp add: job_recovers_def map_update_where)
  from 9(1,3) obtain r where r: "r \<in> set q" "oj_id r = i" "oj_locked_by r = Some v" "oj_locked_until r = Some u"
    by (auto simp: job_holder_def row_holder_Some)
  have "\<not> past (oj_locked_until r) t" using r(4) 9(4) db_le_le by (auto simp: past_def)
  with r 9(2) have "r \<in> set q'" by (force simp: job_recovers_def in_set_update_where)
  with r d show ?case by (auto simp: job_holder_def row_holder_Some)
next
  case (10 q v i q' v' u')
  have d: "distinct (map oj_id q')" using 10(1,2) by (auto simp: job_releases_def map_update_where)
  from 10(1,3) obtain r where r: "r \<in> set q" "oj_id r = i" "oj_locked_by r = Some v'" "oj_locked_until r = Some u'"
    by (auto simp: job_holder_def row_holder_Some)
  with 10(2,4) have "r \<in> set q'" by (force simp: job_releases_def in_set_update_where)
  with r d show ?case by (auto simp: job_holder_def row_holder_Some)
qed

section \<open>The handlers as steps of the contract\<close>

definition jobs_at :: "outbound_job list \<Rightarrow> time \<Rightarrow> world \<Rightarrow> bool" where
  "jobs_at J t w \<longleftrightarrow> db_jobs (w_db w) = J \<and> w_clock w = t"

text \<open>The notification service stores a message: it leaves the jobs, the clock and the run of faults alone.\<close>

definition quiet_notify :: "relay_worker \<Rightarrow> bool" where
  "quiet_notify v \<longleftrightarrow> (\<forall>notify a b c. rw_notify v = Some notify \<longrightarrow>
     (\<forall>J t. preserves (jobs_at J t) (notify a b c)) \<and> preserves (\<lambda>w. w_faults w = []) (notify a b c))"

lemma claim_effect:
  "wp (claim v) (\<lambda>r w'. w_clock w' = w_clock w \<and> (case r of
     Inr (Some job) \<Rightarrow> job_claims (rw_sqlite v) (rw_id v) (w_clock w) (cj_id job) (relay_lease v (w_clock w)) (db_jobs (w_db w)) (db_jobs (w_db w'))
   | _ \<Rightarrow> db_jobs (w_db w') = db_jobs (w_db w))) w"
  by (auto simp: claim_def claimOne_def wp_simps wp_dbcall table_defs job_claims_def claimed_def split: option.split sum.split)

lemma claim_step:
  assumes "claim v w = (Inr (Some job), w')"
  shows "w_clock w' = w_clock w"
    and "job_claims (rw_sqlite v) (rw_id v) (w_clock w) (cj_id job) (relay_lease v (w_clock w)) (db_jobs (w_db w)) (db_jobs (w_db w'))"
  using wpD [OF claim_effect assms] by simp_all

lemma jobs_at_statements:
  "preserves (jobs_at J t) newID" "preserves (jobs_at J t) now" "preserves (jobs_at J t) (insertRow T_events c e)"
  "preserves (jobs_at J t) (publish ch)"
  by (simp_all add: preserves_def wp_simps table_defs jobs_at_def)

lemma jobs_at_Emit: "preserves (jobs_at J t) (Emit a b c)"
  unfolding Emit_def insert_event_def by (intro preserves_intros jobs_at_statements)

lemma jobs_at_report:
  assumes "quiet_notify v"
  shows "preserves (jobs_at J t) (reportFailure v job result)"
proof -
  have n: "preserves (jobs_at J t) (notify a b c)" if "rw_notify v = Some notify" for notify a b c
    using assms that by (simp add: quiet_notify_def)
  show ?thesis
  proof (cases "rw_notify v")
    case None
    then show ?thesis unfolding reportFailure_def by (auto intro!: preserves_if preserves_bindE preserves_tryE preserves_ret jobs_at_Emit)
  next
    case (Some notify)
    show ?thesis
      unfolding reportFailure_def Some option.case by (intro preserves_intros jobs_at_Emit n [OF Some])
  qed
qed

lemma finish_effect:
  assumes "quiet_notify v"
  shows "wp (finish v job result) (\<lambda>r w'. w_clock w' = w_clock w \<and>
     (job_releases (rw_id v) (cj_id job) (db_jobs (w_db w)) (db_jobs (w_db w')) \<or> db_jobs (w_db w') = db_jobs (w_db w))) w"
proof -
  have rep: "wp (reportFailure v job result) (\<lambda>_ w'. jobs_at (db_jobs (w_db x)) (w_clock x) w') x" for x
    using jobs_at_report [OF assms] unfolding preserves_def jobs_at_def by blast
  have rel: "job_releases (rw_id v) (cj_id job) rows
      (update_where (\<lambda>j. oj_id j = cj_id job \<and> oj_locked_by j = Some (rw_id v)) (finish_row policy job result t) rows)" for rows policy t
    unfolding job_releases_def by blast
  show ?thesis
    unfolding finish_def Let_def
    by (auto simp: wp_simps rel table_defs jobs_at_def split: list.split intro!: wp_mono [OF rep])
qed

lemma recover_effect:
  "wp recoverStaleLeases (\<lambda>r w'. w_clock w' = w_clock w \<and>
     (job_recovers (w_clock w) (db_jobs (w_db w)) (db_jobs (w_db w')) \<or> db_jobs (w_db w') = db_jobs (w_db w))) w"
  unfolding recoverStaleLeases_def by (auto simp: wp_simps table_defs job_recovers_def)

section \<open>Runs of workers\<close>

text \<open>
  A run of workers on any number of nodes against one database, with the leases they hold: claims, finishes within the lease or
  after it, crashes, the recovery of stale leases by the cleanup, and anything else that leaves running leases alone.  The
  goroutines of one node share their id, and the guard of \<^verbatim>\<open>finish\<close> names the node only.  So a finish that comes late also ends
  the lease another goroutine of the node has taken on the job since: such leases are kept apart, in \<open>lost\<close>.
\<close>

definition same_lease :: "relay_worker \<Rightarrow> claimed_job \<Rightarrow> lease \<Rightarrow> bool" where
  "same_lease v job l \<longleftrightarrow> lease_worker l = rw_id v \<and> lease_job l = cj_id job"

inductive relay_run :: "bool \<Rightarrow> world \<Rightarrow> lease list \<Rightarrow> lease list \<Rightarrow> bool" for sqlite :: bool where
  start: "distinct (map oj_id (db_jobs (w_db w))) \<Longrightarrow> relay_run sqlite w [] []"
| claim: "relay_run sqlite w ls lost \<Longrightarrow> rw_sqlite v = sqlite \<Longrightarrow> claim v w = (Inr (Some job), w')
    \<Longrightarrow> relay_run sqlite w' ((rw_id v, cj_id job, relay_lease v (w_clock w)) # ls) lost"
| idle: "relay_run sqlite w ls lost \<Longrightarrow> claim v w = (r, w') \<Longrightarrow> r \<in> {Inr None} \<union> range Inl \<Longrightarrow> relay_run sqlite w' ls lost"
| finish: "relay_run sqlite w ls lost \<Longrightarrow> (rw_id v, cj_id job, u) \<in> set ls \<Longrightarrow> \<not> db_le sqlite u (w_clock w) \<Longrightarrow> quiet_notify v
    \<Longrightarrow> finish v job result w = (r, w') \<Longrightarrow> relay_run sqlite w' (remove1 (rw_id v, cj_id job, u) ls) lost"
| late: "relay_run sqlite w ls lost \<Longrightarrow> quiet_notify v \<Longrightarrow> finish v job result w = (r, w')
    \<Longrightarrow> relay_run sqlite w' (filter (\<lambda>l. \<not> same_lease v job l) ls) (filter (same_lease v job) ls @ lost)"
| crash: "relay_run sqlite w ls lost \<Longrightarrow> relay_run sqlite w (remove1 l ls) lost"
| recover: "relay_run sqlite w ls lost \<Longrightarrow> recoverStaleLeases w = (r, w') \<Longrightarrow> relay_run sqlite w' ls lost"
| other: "relay_run sqlite w ls lost \<Longrightarrow> w_clock w \<le> w_clock w' \<Longrightarrow> distinct (map oj_id (db_jobs (w_db w')))
    \<Longrightarrow> \<forall>i v u. job_holder (db_jobs (w_db w)) i = Some (v, u) \<longrightarrow> \<not> db_le sqlite u (w_clock w)
          \<longrightarrow> job_holder (db_jobs (w_db w')) i = Some (v, u)
    \<Longrightarrow> relay_run sqlite w' ls lost"

lemma relay_run_ok: "relay_run sqlite w ls lost \<Longrightarrow> jobs.leases_ok sqlite (db_jobs (w_db w)) (w_clock w) ls"
proof (induction rule: relay_run.induct)
  case (start w)
  then show ?case by (rule jobs.leases_ok_empty)
next
  case (claim w ls lost v job w')
  then show ?case using claim_step [OF claim(3)] jobs.leases_ok_claim [OF claim(4)] by simp
next
  case (idle w ls lost v r w')
  then show ?case using wpD [OF claim_effect idle(2)] by auto
next
  case (finish w ls lost v job u result r w')
  from wpD [OF finish_effect [OF finish(4)] finish(5)]
  have c: "w_clock w' = w_clock w" and
    d: "job_releases (rw_id v) (cj_id job) (db_jobs (w_db w)) (db_jobs (w_db w')) \<or> db_jobs (w_db w') = db_jobs (w_db w)" by auto
  from d show ?case
  proof
    assume "job_releases (rw_id v) (cj_id job) (db_jobs (w_db w)) (db_jobs (w_db w'))"
    from jobs.leases_ok_release_timely [OF finish(6,2,3) this] c show ?thesis by simp
  qed (use c finish(6) in \<open>simp add: jobs.leases_ok_drop\<close>)
next
  case (late w ls lost v job result r w')
  from wpD [OF finish_effect [OF late(2)] late(3)]
  have c: "w_clock w' = w_clock w" and
    d: "job_releases (rw_id v) (cj_id job) (db_jobs (w_db w)) (db_jobs (w_db w')) \<or> db_jobs (w_db w') = db_jobs (w_db w)" by auto
  from d show ?case
  proof
    assume rel: "job_releases (rw_id v) (cj_id job) (db_jobs (w_db w)) (db_jobs (w_db w'))"
    have "jobs.leases_ok sqlite (db_jobs (w_db w')) (w_clock w) (filter (\<lambda>l. \<not> same_lease v job l) ls)"
      by (rule jobs.leases_ok_release_late [OF jobs.leases_ok_filter [OF late(4)] rel]) (simp add: jobs.running_def same_lease_def)
    with c show ?thesis by simp
  qed (use c jobs.leases_ok_filter [OF late(4)] in simp)
next
  case (crash w ls lost l)
  then show ?case by (intro jobs.leases_ok_drop)
next
  case (recover w ls lost r w')
  then show ?case using wpD [OF recover_effect recover(2)] jobs.leases_ok_recover [OF recover(3)] by auto
next
  case (other w ls lost w')
  then show ?case using jobs.leases_ok_tick [OF jobs.leases_ok_frame [OF other(5,3)] other(2)] by blast
qed

text \<open>
  C6.  No job is held by two workers at once.  In every run of the relay workers the running leases are on distinct jobs, and
  the row of each of those jobs names the worker and the end of the lease.  Not among them are the leases in \<open>lost\<close>, those that
  a late finish by another goroutine of the same node has ended while their holder was still sending: nothing protects these,
  as \<open>late_finish_same_node\<close> below shows, but no worker of another node can end a running lease.
\<close>

theorem leases_exclusive:
  assumes "relay_run sqlite w ls lost"
  shows "distinct (map lease_job (filter (\<lambda>l. \<not> db_le sqlite (lease_until l) (w_clock w)) ls))
    \<and> (\<forall>l \<in> set ls. \<not> db_le sqlite (lease_until l) (w_clock w)
         \<longrightarrow> job_holder (db_jobs (w_db w)) (lease_job l) = Some (lease_worker l, lease_until l))"
  using relay_run_ok [OF assms] by (auto simp: jobs.leases_ok_def jobs.running_def)

definition sample_job :: "string \<Rightarrow> outbound_job" where
  "sample_job i = \<lparr>oj_id = i, oj_mailbox_id = ''box'', oj_sender_domain = [], oj_message_id = ''m1'', oj_return_path = ''ann@example.org'',
     oj_recipients = [''bob@example.net''], oj_status = ''queued'', oj_attempts = 0, oj_locked_by = None, oj_locked_until = None,
     oj_next_attempt_at = None, oj_last_error = [], oj_created_at = 0, oj_updated_at = 0\<rparr>"

definition relay_world :: world where
  "relay_world = world_of (sample_db\<lparr>db_jobs := [sample_job ''j1'', sample_job ''j2'']\<rparr>)"

definition sample_relay :: "string \<Rightarrow> relay_worker" where
  "sample_relay i = \<lparr>rw_id = i, rw_sqlite = False, rw_config = \<lparr>cr_addr = ''relay:25'', cr_username = [], cr_password = [],
     cr_from_host = [], cr_max_attempts = 2, cr_max_retry_minutes = 5, cr_timeout_seconds = 0\<rparr>,
     rw_error_text = (\<lambda>_. ''error''), rw_parse_address = (\<lambda>_. None), rw_send = (\<lambda>_ _ _ _ _. Some (OtherError ''refused'')),
     rw_notify = None, rw_events = True\<rparr>"

lemma run_Some:
  assumes "map_sum id (map_option f) (fst r) = Inr (Some x)"
  obtains j where "r = (Inr (Some j), snd r)" and "f j = x"
proof -
  from assms obtain y where "fst r = Inr y" "map_option f y = Some x" by (cases "fst r") auto
  with that show thesis by (cases r) auto
qed

text \<open>Two workers claim one after the other: the second gets the other job.\<close>

theorem leases_exclusive_witness:
  "\<exists>w ls. relay_run False w ls [] \<and> map lease_job ls = [''j2'', ''j1''] \<and> map lease_worker ls = [''b'', ''a'']
     \<and> job_holder (db_jobs (w_db w)) ''j1'' = Some (''a'', relay_lease (sample_relay ''a'') 1000)"
proof -
  let ?a = "sample_relay ''a''" and ?b = "sample_relay ''b''"
  let ?w1 = "snd (claim ?a relay_world)" let ?w2 = "snd (claim ?b ?w1)"
  have r: "map_sum id (map_option cj_id) (fst (claim ?a relay_world)) = Inr (Some ''j1'')"
    "map_sum id (map_option cj_id) (fst (claim ?b ?w1)) = Inr (Some ''j2'')" by code_simp+
  from r(1) obtain j1 where j1: "claim ?a relay_world = (Inr (Some j1), ?w1)" "cj_id j1 = ''j1''" by (rule run_Some)
  from r(2) obtain j2 where j2: "claim ?b ?w1 = (Inr (Some j2), ?w2)" "cj_id j2 = ''j2''" by (rule run_Some)
  have c: "w_clock relay_world = 1000" "w_clock ?w1 = 1000" "w_clock ?w2 = 1000" by code_simp+
  have i: "rw_id ?a = ''a''" "rw_id ?b = ''b''" "rw_sqlite ?a = False" "rw_sqlite ?b = False" by (simp_all add: sample_relay_def)
  have "relay_run False relay_world [] []" by (rule relay_run.start) code_simp
  from relay_run.claim [OF relay_run.claim [OF this i(3) j1(1)] i(4) j2(1)]
  have run: "relay_run False ?w2 [(''b'', ''j2'', relay_lease ?b 1000), (''a'', ''j1'', relay_lease ?a 1000)] []"
    unfolding i j1(2) j2(2) c .
  have u: "\<not> db_le False (relay_lease ?a 1000) 1000" by code_simp
  from leases_exclusive [OF run] u c have "job_holder (db_jobs (w_db ?w2)) ''j1'' = Some (''a'', relay_lease ?a 1000)" by simp
  with run show ?thesis by fastforce
qed

text \<open>
  The guard of \<^verbatim>\<open>finish\<close> names the node, not the goroutine: a goroutine that finishes after its lease releases the
  lease another goroutine of the same node has taken since, and the job is free while that one still sends it.
\<close>

definition stalled_world :: world where
  "stalled_world = (let w1 = snd (claim (sample_relay ''a'') relay_world);
     w2 = snd (claim (sample_relay ''a'') (w1\<lparr>w_clock := 1000 * second\<rparr>)) in w2)"

lemma late_finish_same_node:
  "job_holder (db_jobs (w_db stalled_world)) ''j1'' = Some (''a'', relay_lease (sample_relay ''a'') (1000 * second))"
  "job_holder (db_jobs (w_db (snd (finish (sample_relay ''a'') (claimed (sample_job ''j1'')) (localFailure ''i/o timeout'') stalled_world)))) ''j1'' = None"
  by code_simp+

end
