(* ===== verification/Relay_Progress.thy ===== *)
theory Relay_Progress
  imports Relay_Props
begin

text \<open>
  Progress of the relay: a turn of a worker takes an open job whenever one is due, and every turn uses up one of the attempts of
  a job, so the queue drains, whatever the relay answers.
\<close>

section \<open>A turn\<close>

definition open_job :: "outbound_job \<Rightarrow> bool" where
  "open_job j \<longleftrightarrow> oj_status j \<in> {''queued'', ''retry'', ''processing''}"

text \<open>What a turn at the time \<open>t\<close> does to the jobs.\<close>

definition turn_effect :: "relay_worker \<Rightarrow> time \<Rightarrow> outbound_job list \<Rightarrow> outbound_job list \<Rightarrow> bool" where
  "turn_effect v t J J' \<longleftrightarrow> (if list_ex (claimable_job (rw_sqlite v) t) J
     then \<exists>r result. r \<in> set J \<and> claimable_job (rw_sqlite v) t r \<and>
       J' = update_where (\<lambda>j. oj_id j = oj_id r)
         (\<lambda>j. finish_row (Relay_RetryPolicy (rw_config v)) (claimed (lease_job_row (rw_id v) (relay_lease v t) t r)) result t
           (lease_job_row (rw_id v) (relay_lease v t) t j)) J
     else J' = J)"

definition calm :: "outbound_job list \<Rightarrow> time \<Rightarrow> world \<Rightarrow> bool" where
  "calm J t w \<longleftrightarrow> jobs_at J t w \<and> w_faults w = []"

lemma wp_getBlob:
  "wp (getBlob k) Q w = (if faulty w then Q (Inl BlobError) (pop w)
     else Q (case map_of (w_blobs w) k of None \<Rightarrow> Inl BlobError | Some b \<Rightarrow> Inr b) (pop w))"
  by (simp add: wp_def getBlob_eq)

lemma calm_statements:
  "preserves (calm J t) newID" "preserves (calm J t) now" "preserves (calm J t) (insertRow T_attempts c x)"
  "preserves (calm J t) (selectOnly tb p)" "preserves (calm J t) (getBlob k)"
  by (simp_all add: preserves_def wp_simps wp_getBlob table_defs calm_def jobs_at_def)

lemma calm_deliver: "calm J t w \<Longrightarrow> wp (deliver_job v job) (\<lambda>r w'. (\<exists>result. r = Inr result) \<and> calm J t w') w"
  by (auto simp: deliver_job_def Let_def wp_simps wp_getBlob calm_def jobs_at_def split: sum.split option.split)

lemma calm_report:
  assumes "quiet_notify v"
  shows "preserves (calm J t) (reportFailure v job result)"
proof -
  have f: "preserves (\<lambda>w. w_faults w = []) (Emit a b c)" for a b c
    by (simp add: preserves_def Emit_def insert_event_def wp_simps)
  have n: "preserves (\<lambda>w. w_faults w = []) (notify a b c)" if "rw_notify v = Some notify" for notify a b c
    using assms that by (simp add: quiet_notify_def)
  have "preserves (\<lambda>w. w_faults w = []) (reportFailure v job result)"
  proof (cases "rw_notify v")
    case None
    then show ?thesis unfolding reportFailure_def by (auto intro!: preserves_if preserves_bindE preserves_tryE preserves_ret f)
  next
    case (Some notify)
    show ?thesis
      unfolding reportFailure_def Some option.case by (intro preserves_intros f n [OF Some])
  qed
  with jobs_at_report [OF assms, of J t job result] show ?thesis
    unfolding preserves_def calm_def wp_conj by blast
qed

lemma claim_run:
  assumes "w_faults w = []" and "db_jobs (w_db w) = J" and "w_clock w = t"
  shows "wp (claim v) (\<lambda>r w'. w_faults w' = [] \<and> w_clock w' = t \<and> (case r of Inl _ \<Rightarrow> False
     | Inr None \<Rightarrow> \<not> list_ex (claimable_job (rw_sqlite v) t) J \<and> db_jobs (w_db w') = J
     | Inr (Some job) \<Rightarrow> \<exists>r \<in> set J. claimable_job (rw_sqlite v) t r \<and> job = claimed (lease_job_row (rw_id v) (relay_lease v t) t r)
         \<and> db_jobs (w_db w') = update_where (\<lambda>j. oj_id j = oj_id r) (lease_job_row (rw_id v) (relay_lease v t) t) J)) w"
proof (cases "claim_rows oj_id oj_created_at (claimable_job (rw_sqlite v) t) (lease_job_row (rw_id v) (relay_lease v t) t) J")
  case None
  then have "\<not> list_ex (claimable_job (rw_sqlite v) t) J" by (simp add: claim_rows_None list_ex_iff)
  then show ?thesis
    using assms None by (simp add: claim_def claimOne_def wp_simps wp_dbcall table_defs)
next
  case (Some a)
  obtain r' J' where a: "a = (r', J')" by (cases a)
  from Some [unfolded a] obtain r where "r \<in> set J" "claimable_job (rw_sqlite v) t r" "r' = lease_job_row (rw_id v) (relay_lease v t) t r"
    "J' = update_where (\<lambda>j. oj_id j = oj_id r) (lease_job_row (rw_id v) (relay_lease v t) t) J"
    by (rule claim_rows_Some)
  then show ?thesis
    using assms Some a by (auto simp: claim_def claimOne_def wp_simps wp_dbcall table_defs ErrNoRows_def)
qed

lemma update_where_twice:
  assumes "\<And>j. p j \<Longrightarrow> q (f j)" and "\<And>j. \<not> p j \<Longrightarrow> \<not> q j"
  shows "update_where q g (update_where p f xs) = update_where p (\<lambda>j. g (f j)) xs"
  using assms by (induction xs) (auto simp: update_where_def)

lemma finish_run:
  assumes "quiet_notify v" and "w_faults w = []" and "w_clock w = t"
    and J: "db_jobs (w_db w) = update_where (\<lambda>j. oj_id j = i) (lease_job_row (rw_id v) u t) J" and i: "i \<in> oj_id ` set J" "cj_id job = i"
  shows "wp (finish v job result) (\<lambda>_. calm (update_where (\<lambda>j. oj_id j = i)
     (\<lambda>j. finish_row (Relay_RetryPolicy (rw_config v)) job result t (lease_job_row (rw_id v) u t j)) J) t) w"
proof -
  let ?q = "\<lambda>j. oj_id j = i \<and> oj_locked_by j = Some (rw_id v)" and ?f = "finish_row (Relay_RetryPolicy (rw_config v)) job result t"
  let ?J = "update_where (\<lambda>j. oj_id j = i) (\<lambda>j. ?f (lease_job_row (rw_id v) u t j)) J"
  have two: "update_where ?q ?f (db_jobs (w_db w)) = ?J"
    unfolding J
  proof (rule update_where_twice)
  qed simp_all
  have "filter ?q (db_jobs (w_db w)) \<noteq> []"
  proof -
    from i(1) obtain x where "x \<in> set J" "oj_id x = i" by auto
    then have "lease_job_row (rw_id v) u t x \<in> set (db_jobs (w_db w))" "?q (lease_job_row (rw_id v) u t x)"
      unfolding J in_set_update_where by auto
    then show ?thesis unfolding filter_empty_conv by blast
  qed
  then obtain r rs where f: "filter ?q (db_jobs (w_db w)) = r # rs" by (cases "filter ?q (db_jobs (w_db w))") auto
  have rep: "wp (reportFailure v job result) (\<lambda>_. calm ?J t) x" if "calm ?J t x" for x
    using calm_report [OF assms(1)] that unfolding preserves_def by blast
  have c: "calm ?J t (w\<lparr>w_db := (w_db w)\<lparr>db_jobs := ?J\<rparr>\<rparr>)" using assms(2,3) by (simp add: calm_def jobs_at_def)
  show ?thesis
    unfolding finish_def Let_def using assms(2,3) c rep [OF c] i(2) f two by (simp add: wp_simps table_defs)
qed

lemma turn:
  assumes "quiet_notify v" and "calm J t w"
  shows "wp (ProcessOne v) (\<lambda>_ w'. w_faults w' = [] \<and> turn_effect v t J (db_jobs (w_db w'))) w"
proof -
  have w: "w_faults w = []" "db_jobs (w_db w) = J" "w_clock w = t" using assms(2) by (simp_all add: calm_def jobs_at_def)
  show ?thesis
    unfolding ProcessOne_def wp_bindE wp_tryE sum.case
  proof (rule wp_mono [OF claim_run [OF w]])
    fix c :: "err + claimed_job option" and w1 :: world
    assume a: "w_faults w1 = [] \<and> w_clock w1 = t \<and> (case c of Inl _ \<Rightarrow> False
     | Inr None \<Rightarrow> \<not> list_ex (claimable_job (rw_sqlite v) t) J \<and> db_jobs (w_db w1) = J
     | Inr (Some job) \<Rightarrow> \<exists>r \<in> set J. claimable_job (rw_sqlite v) t r \<and> job = claimed (lease_job_row (rw_id v) (relay_lease v t) t r)
         \<and> db_jobs (w_db w1) = update_where (\<lambda>j. oj_id j = oj_id r) (lease_job_row (rw_id v) (relay_lease v t) t) J)"
    show "wp (case c of Inl e \<Rightarrow> ret (False, [e]) | Inr None \<Rightarrow> ret (False, [])
       | Inr (Some job) \<Rightarrow> bindE (deliver_job v job) (\<lambda>result. bindE newID (\<lambda>i. bindE now (\<lambda>t.
           bindE (tryE (insertRow T_attempts (\<lambda>r x. oa_id r = oa_id x) (new_attempt job result i t))) (\<lambda>attempt.
           bindE (tryE (finish v job result)) (\<lambda>finished. ret (True, errors_of [map_sum id (\<lambda>_. ()) attempt, finished])))))))
       (\<lambda>_ w'. w_faults w' = [] \<and> turn_effect v t J (db_jobs (w_db w'))) w1"
    proof (cases c)
      case (Inl e)
      with a show ?thesis by simp
    next
      case (Inr o')
      show ?thesis
      proof (cases o')
        case None
        with a Inr show ?thesis by (simp add: wp_ret turn_effect_def)
      next
        case (Some job)
        let ?u = "relay_lease v t" let ?lease = "lease_job_row (rw_id v) ?u t"
        from a Inr Some obtain r where r: "r \<in> set J" "claimable_job (rw_sqlite v) t r" "job = claimed (?lease r)"
          and J1: "db_jobs (w_db w1) = update_where (\<lambda>j. oj_id j = oj_id r) ?lease J" by auto
        let ?J1 = "update_where (\<lambda>j. oj_id j = oj_id r) ?lease J"
        have c1: "calm ?J1 t w1" using a J1 by (simp add: calm_def jobs_at_def)
        have fin: "wp (finish v job result) (\<lambda>_ w'. w_faults w' = [] \<and> turn_effect v t J (db_jobs (w_db w'))) x"
          if "calm ?J1 t x" for x result
        proof (rule wp_mono [OF finish_run [OF assms(1), of x t "oj_id r" ?u J job result]])
          fix y :: "err + unit" and x' :: world
          assume "calm (update_where (\<lambda>j. oj_id j = oj_id r)
            (\<lambda>j. finish_row (Relay_RetryPolicy (rw_config v)) job result t (?lease j)) J) t x'"
          moreover have "list_ex (claimable_job (rw_sqlite v) t) J" using r(1,2) by (auto simp: list_ex_iff)
          ultimately show "w_faults x' = [] \<and> turn_effect v t J (db_jobs (w_db x'))"
            using r unfolding turn_effect_def calm_def jobs_at_def by auto
        qed (use that r in \<open>auto simp: calm_def jobs_at_def claimed_def\<close>)
        have tail: "wp (bindE newID (\<lambda>i. bindE now (\<lambda>t.
           bindE (tryE (insertRow T_attempts (\<lambda>r x. oa_id r = oa_id x) (new_attempt job result i t))) (\<lambda>attempt.
           bindE (tryE (finish v job result)) (\<lambda>finished. ret (True, errors_of [map_sum id (\<lambda>_. ()) attempt, finished])))))) 
           (\<lambda>_ w'. w_faults w' = [] \<and> turn_effect v t J (db_jobs (w_db w'))) x" if x: "calm ?J1 t x" for x result
        proof -
          have n: "calm ?J1 t (x\<lparr>w_idc := k\<rparr>)" for k using x by (simp add: calm_def jobs_at_def)
          have i: "wp (insertRow T_attempts c y) (\<lambda>_. calm ?J1 t) x'" if "calm ?J1 t x'" for x' c y
            using calm_statements(3) that unfolding preserves_def by blast
          show ?thesis
            unfolding wp_bindE wp_newID wp_now wp_tryE wp_ret sum.case
            by (rule wp_mono [OF i [OF n]]) (rule wp_mono [OF fin])
        qed
        show ?thesis
          unfolding Inr Some sum.case option.case wp_bindE [of "deliver_job v job"]
          by (rule wp_mono [OF calm_deliver [OF c1]]) (use tail in auto)
      qed
    qed
  qed
qed

section \<open>The queue drains\<close>

definition remaining :: "retry_policy \<Rightarrow> outbound_job \<Rightarrow> nat" where
  "remaining policy j = (if open_job j then max 1 (nat (rp_max_attempts policy - oj_attempts j)) else 0)"

definition due :: "bool \<Rightarrow> time \<Rightarrow> outbound_job list \<Rightarrow> bool" where
  "due sqlite t J \<longleftrightarrow> (\<forall>j \<in> set J. open_job j \<longrightarrow> null_or_le sqlite (oj_next_attempt_at j) t \<and> null_or_le sqlite (oj_locked_until j) t)"

lemma claimable_open: "claimable_job s t j \<longleftrightarrow> open_job j \<and> null_or_le s (oj_next_attempt_at j) t \<and> null_or_le s (oj_locked_until j) t"
  by (auto simp: claimable_job_def open_job_def)

lemma null_or_le_mono: "null_or_le s x t \<Longrightarrow> t \<le> t' \<Longrightarrow> null_or_le s x t'"
  by (auto simp: null_or_le_def intro: db_le_mono split: option.splits)

lemma sum_update_less:
  fixes m :: "'a \<Rightarrow> nat"
  assumes "\<And>x. x \<in> set xs \<Longrightarrow> p x \<Longrightarrow> m (f x) < m x" and "x \<in> set xs" "p x"
  shows "sum_list (map m (update_where p f xs)) < sum_list (map m xs)"
  using assms
proof (induction xs)
  case (Cons a xs)
  have le: "sum_list (map m (update_where p f xs)) \<le> sum_list (map m xs)"
    using Cons.prems(1) by (auto simp: update_where_def comp_def less_imp_le intro!: sum_list_mono)
  show ?case
  proof (cases "p a")
    case True
    with Cons.prems(1) [of a] le show ?thesis by (simp add: update_where_def)
  next
    case False
    with Cons show ?thesis by (auto simp: update_where_def)
  qed
qed simp

text \<open>The longest pause between two attempts.\<close>

definition longest_pause :: "relay_config \<Rightarrow> duration" where
  "longest_pause c = max minute (rp_max_delay (Relay_RetryPolicy c))"

lemma delay_loop_le: "d \<le> b \<Longrightarrow> m \<le> b \<Longrightarrow> delay_loop m n d \<le> b"
  by (induction n arbitrary: d) (simp_all add: Let_def)

lemma relay_delay_le: "Delay (Relay_RetryPolicy c) n \<le> longest_pause c"
  unfolding Delay_def longest_pause_def by (intro delay_loop_le) simp_all

lemma longest_pause_pos: "0 \<le> longest_pause c"
  by (simp add: longest_pause_def max_def)

lemma finish_remaining:
  assumes "open_job r"
  shows "remaining policy (finish_row policy (claimed (lease_job_row wid u t r)) result t (lease_job_row wid u t r)) < remaining policy r"
  using assms
  by (auto simp: remaining_def finish_row_def Let_def open_job_def lease_job_row_def claimed_def Exhausted_def)

lemma finish_due:
  assumes "open_job (finish_row (Relay_RetryPolicy c) job result t j)"
  shows "oj_locked_until (finish_row (Relay_RetryPolicy c) job result t j) = None"
    and "null_or_le s (oj_next_attempt_at (finish_row (Relay_RetryPolicy c) job result t j)) (t + longest_pause c)"
  using assms relay_delay_le [of c "cj_attempts job"]
  by (auto simp: finish_row_def Let_def open_job_def null_or_le_def intro: db_le_le split: if_splits)

lemma turn_shrinks:
  assumes "turn_effect v t J J'" and "distinct (map oj_id J)" and "due (rw_sqlite v) t J"
  shows "distinct (map oj_id J')" and "due (rw_sqlite v) (t + longest_pause (rw_config v)) J'"
    and "sum_list (map (remaining (Relay_RetryPolicy (rw_config v))) J') \<le> sum_list (map (remaining (Relay_RetryPolicy (rw_config v))) J) - 1"
proof -
  let ?p = "Relay_RetryPolicy (rw_config v)"
  note d0 = longest_pause_pos [of "rw_config v"]
  have keep: "null_or_le (rw_sqlite v) (oj_next_attempt_at j) (t + longest_pause (rw_config v))" "null_or_le (rw_sqlite v) (oj_locked_until j) (t + longest_pause (rw_config v))"
    if "j \<in> set J" "open_job j" for j
    using assms(3) that d0 by (auto simp: due_def intro: null_or_le_mono)
  consider "list_ex (claimable_job (rw_sqlite v) t) J" | "\<not> list_ex (claimable_job (rw_sqlite v) t) J" by blast
  then have "distinct (map oj_id J') \<and> due (rw_sqlite v) (t + longest_pause (rw_config v)) J' \<and> sum_list (map (remaining ?p) J') \<le> sum_list (map (remaining ?p) J) - 1"
  proof cases
    case 1
    with assms(1) obtain r result where r: "r \<in> set J" "claimable_job (rw_sqlite v) t r"
      and J': "J' = update_where (\<lambda>j. oj_id j = oj_id r)
         (\<lambda>j. finish_row ?p (claimed (lease_job_row (rw_id v) (relay_lease v t) t r)) result t
           (lease_job_row (rw_id v) (relay_lease v t) t j)) J"
      by (auto simp: turn_effect_def)
    have same: "j = r" if "j \<in> set J" "oj_id j = oj_id r" for j
      using assms(2) r(1) that by (auto simp: distinct_map dest: inj_onD)
    have "sum_list (map (remaining ?p) J') < sum_list (map (remaining ?p) J)"
      unfolding J'
    proof (rule sum_update_less [OF _ r(1) refl])
      fix j
      assume "j \<in> set J" "oj_id j = oj_id r"
      then have "j = r" by (rule same)
      with r(2) show "remaining ?p (finish_row ?p (claimed (lease_job_row (rw_id v) (relay_lease v t) t r)) result t
           (lease_job_row (rw_id v) (relay_lease v t) t j)) < remaining ?p j"
        by (simp add: finish_remaining claimable_open)
    qed
    moreover have "due (rw_sqlite v) (t + longest_pause (rw_config v)) J'"
      unfolding due_def
    proof (intro ballI impI)
      fix j
      assume "j \<in> set J'" "open_job j"
      then show "null_or_le (rw_sqlite v) (oj_next_attempt_at j) (t + longest_pause (rw_config v)) \<and> null_or_le (rw_sqlite v) (oj_locked_until j) (t + longest_pause (rw_config v))"
        using keep finish_due unfolding J' in_set_update_where by (auto simp: null_or_le_def)
    qed
    moreover have "distinct (map oj_id J')" unfolding J' using assms(2) by (simp add: map_update_where)
    ultimately show ?thesis by simp
  next
    case 2
    with assms(1) have J': "J' = J" by (simp add: turn_effect_def)
    from 2 assms(3) have "\<not> open_job j" if "j \<in> set J" for j
      using that by (auto simp: list_ex_iff due_def claimable_open)
    then have z: "sum_list (map (remaining ?p) J) = 0" by (simp add: remaining_def)
    show ?thesis unfolding J' z using keep assms(2) by (simp add: due_def)
  qed
  then show "distinct (map oj_id J')" and "due (rw_sqlite v) (t + longest_pause (rw_config v)) J'"
    and "sum_list (map (remaining ?p) J') \<le> sum_list (map (remaining ?p) J) - 1" by simp_all
qed

text \<open>Turns of a worker at given times, each at least \<open>d\<close> after the one before.\<close>

fun work_at :: "relay_worker \<Rightarrow> time list \<Rightarrow> world \<Rightarrow> world" where
  "work_at v [] w = w"
| "work_at v (t # ts) w = work_at v ts (snd (ProcessOne v (w\<lparr>w_clock := t\<rparr>)))"

fun spaced :: "duration \<Rightarrow> time \<Rightarrow> time list \<Rightarrow> bool" where
  "spaced d t [] = True"
| "spaced d t (t' # ts) = (t \<le> t' \<and> spaced d (t' + d) ts)"

lemma drain_all:
  assumes "quiet_notify v" and "w_faults w = []" and "distinct (map oj_id (db_jobs (w_db w)))"
    and "due (rw_sqlite v) t (db_jobs (w_db w))" and "spaced (longest_pause (rw_config v)) t ts"
    and "sum_list (map (remaining (Relay_RetryPolicy (rw_config v))) (db_jobs (w_db w))) \<le> length ts"
  shows "\<forall>j \<in> set (db_jobs (w_db (work_at v ts w))). \<not> open_job j"
  using assms
proof (induction ts arbitrary: t w)
  case Nil
  then have "\<forall>j \<in> set (db_jobs (w_db w)). remaining (Relay_RetryPolicy (rw_config v)) j = 0" by simp
  then show ?case by (auto simp: remaining_def split: if_splits)
next
  case (Cons t' ts)
  let ?w = "snd (ProcessOne v (w\<lparr>w_clock := t'\<rparr>))" and ?J = "db_jobs (w_db w)"
  have "calm ?J t' (w\<lparr>w_clock := t'\<rparr>)" using Cons.prems(2) by (simp add: calm_def jobs_at_def)
  from turn [OF Cons.prems(1) this] have e: "w_faults ?w = []" "turn_effect v t' ?J (db_jobs (w_db ?w))"
    by (auto simp: wp_def split: prod.splits)
  have "due (rw_sqlite v) t' ?J" using Cons.prems(4,5) by (auto simp: due_def intro: null_or_le_mono)
  note s = turn_shrinks [OF e(2) Cons.prems(3) this]
  show ?case
    unfolding work_at.simps by (rule Cons.IH [OF Cons.prems(1) e(1) s(1,2)]) (use Cons.prems(5,6) s(3) in auto)
qed

text \<open>
  C7.  The relay gets done with every job while no call to the database or the object store fails.  From any table of jobs that are due, turns of a worker that are further apart than
  the longest pause between two attempts bring every job to an end, sent or failed, after as many turns as there are attempts
  left in the table, whatever the relay host answers.
\<close>

theorem queue_drains:
  assumes "quiet_notify v" and "w_faults w = []" and "distinct (map oj_id (db_jobs (w_db w)))"
    and "due (rw_sqlite v) t (db_jobs (w_db w))" and "spaced (longest_pause (rw_config v)) t ts"
    and "sum_list (map (remaining (Relay_RetryPolicy (rw_config v))) (db_jobs (w_db w))) \<le> length ts"
  shows "\<forall>j \<in> set (db_jobs (w_db (work_at v ts w))). oj_status j \<notin> {''queued'', ''retry'', ''processing''}"
  using drain_all [OF assms] by (simp add: open_job_def)

text \<open>Two jobs with two attempts each, of which the relay refuses all.\<close>

theorem queue_drains_witness:
  "list_all (\<lambda>j. oj_status j \<notin> {''queued'', ''retry'', ''processing''})
     (db_jobs (w_db (work_at (sample_relay ''a'') [1000, 1000 * minute, 2000 * minute, 3000 * minute] relay_world)))"
  unfolding list_all_iff
proof (rule queue_drains)
  show "quiet_notify (sample_relay ''a'')" by (simp add: quiet_notify_def sample_relay_def)
  show "w_faults relay_world = []" by (simp add: relay_world_def world_of_def)
  show "distinct (map oj_id (db_jobs (w_db relay_world)))" by code_simp
  show "due (rw_sqlite (sample_relay ''a'')) 1000 (db_jobs (w_db relay_world))" by code_simp
  show "spaced (longest_pause (rw_config (sample_relay ''a''))) 1000 [1000, 1000 * minute, 2000 * minute, 3000 * minute]" by code_simp
  show "sum_list (map (remaining (Relay_RetryPolicy (rw_config (sample_relay ''a'')))) (db_jobs (w_db relay_world)))
    \<le> length [1000, 1000 * minute, 2000 * minute, 3000 * minute]" by code_simp
qed

section \<open>Leases on events\<close>

text \<open>The worker of the webhooks keeps the contract, but for the guard: whoever finishes an event clears its lease.\<close>

definition event_holder :: "event_log list \<Rightarrow> string \<Rightarrow> (string \<times> time) option" where
  "event_holder = row_holder ev_id ev_locked_by ev_locked_until"

definition event_claims :: "bool \<Rightarrow> string \<Rightarrow> time \<Rightarrow> string \<Rightarrow> time \<Rightarrow> event_log list \<Rightarrow> event_log list \<Rightarrow> bool" where
  "event_claims sqlite v t i u rows rows' \<longleftrightarrow>
     (\<exists>r. claim_rows ev_id ev_created_at (claimable_event sqlite t) (lease_event_row v u) rows = Some (r, rows') \<and> ev_id r = i)"

definition event_releases :: "string \<Rightarrow> string \<Rightarrow> event_log list \<Rightarrow> event_log list \<Rightarrow> bool" where
  "event_releases v i rows rows' \<longleftrightarrow> (\<exists>f. (\<forall>e. ev_id (f e) = ev_id e) \<and> rows' = update_where (\<lambda>e. ev_id e = i) f rows)"

definition event_recovers :: "time \<Rightarrow> event_log list \<Rightarrow> event_log list \<Rightarrow> bool" where
  "event_recovers t rows rows' \<longleftrightarrow>
     rows' = update_where (\<lambda>e. ev_status e = ''processing'' \<and> past (ev_locked_until e) t) unlock_event rows"

lemma lease_event_row_frame [simp]:
  "ev_id (lease_event_row v u e) = ev_id e" "ev_locked_by (lease_event_row v u e) = Some v"
  "ev_locked_until (lease_event_row v u e) = Some u"
  by (simp_all add: lease_event_row_def)

lemma unlock_event_frame [simp]: "ev_id (unlock_event e) = ev_id e"
  by (simp add: unlock_event_def)

interpretation events: lease_queue "\<lambda>rows. distinct (map ev_id rows)" event_holder "db_le sqlite" "event_claims sqlite" event_releases event_recovers
proof (unfold_locales, goal_cases)
  case (1 u t t')
  then show ?case by (rule db_le_mono)
next
  case (2 q v t i u q')
  then show ?case by (auto simp: event_claims_def dest: claim_rows_holder(1) [where v = v and u = u and own = ev_locked_by and till = ev_locked_until])
next
  case (3 q v t i u q' v' u')
  from 3(2) obtain r where c: "claim_rows ev_id ev_created_at (claimable_event sqlite t) (lease_event_row v u) q = Some (r, q')" "ev_id r = i"
    by (auto simp: event_claims_def)
  from claim_rows_holder(4) [OF c(1) 3(1), of ev_locked_by v ev_locked_until u v' u'] c(2) 3(3)
  show ?case by (auto simp: event_holder_def claimable_event_def null_or_le_def)
next
  case (4 q v t i u q')
  then show ?case
    by (auto simp: event_claims_def event_holder_def dest: claim_rows_holder(2) [where v = v and u = u and own = ev_locked_by and till = ev_locked_until])
next
  case (5 q v t i u q' j)
  then show ?case
    by (auto simp: event_claims_def event_holder_def dest: claim_rows_holder(3) [where v = v and u = u and own = ev_locked_by and till = ev_locked_until])
next
  case (6 q v i q')
  then show ?case by (auto simp: event_releases_def map_update_where)
next
  case (7 q v i q' j)
  then show ?case by (auto simp: event_releases_def event_holder_def intro!: row_holder_other)
next
  case (8 q t q')
  then show ?case by (simp add: event_recovers_def map_update_where)
next
  case (9 q t q' i v u)
  have d: "distinct (map ev_id q')" using 9(1,2) by (simp add: event_recovers_def map_update_where)
  from 9(1,3) obtain r where r: "r \<in> set q" "ev_id r = i" "ev_locked_by r = Some v" "ev_locked_until r = Some u"
    by (auto simp: event_holder_def row_holder_Some)
  have "\<not> past (ev_locked_until r) t" using r(4) 9(4) db_le_le by (auto simp: past_def)
  with r 9(2) have "r \<in> set q'" by (force simp: event_recovers_def in_set_update_where)
  with r d show ?case by (auto simp: event_holder_def row_holder_Some)
qed

end
