(* ===== verification/Throttle.thy ===== *)
theory Throttle
  imports Io_Logic "HOL-Library.AList" Samples
begin

text \<open>
  The lockout after failed logins, \<^verbatim>\<open>internal/auth/throttle.go\<close>: entries in memory and, when a store
  is configured, rows shared by all nodes.  The functions take and return the entries; no error
  leaves them.  A log line is not modelled.
\<close>

record entry =
  te_failures :: int
  te_window_start :: time
  te_locked_until :: time

record throttle =
  th_entries :: "(string \<times> entry) list"
  th_max_failures :: int
  th_window :: duration
  th_lockout :: duration
  th_store :: bool

definition NewFailureThrottle :: "int \<Rightarrow> duration \<Rightarrow> duration \<Rightarrow> throttle" where
  "NewFailureThrottle maxFailures window lockout = \<lparr>th_entries = [], th_max_failures = maxFailures,
     th_window = window, th_lockout = lockout, th_store = False\<rparr>"

definition WithStore :: "throttle \<Rightarrow> throttle" where
  "WithStore t = t\<lparr>th_store := True\<rparr>"

text \<open>The zero time of an entry that is not locked is 0, so no time is before it.\<close>

definition blockedLocally :: "string \<Rightarrow> throttle \<Rightarrow> time \<Rightarrow> bool" where
  "blockedLocally key t n = (case map_of (th_entries t) key of None \<Rightarrow> False | Some e \<Rightarrow> n < te_locked_until e)"

definition entry_of :: "auth_lockout \<Rightarrow> entry" where
  "entry_of row = \<lparr>te_failures = al_failures row, te_window_start = al_window_start row,
     te_locked_until = (case al_locked_until row of None \<Rightarrow> 0 | Some u \<Rightarrow> u)\<rparr>"

definition setEntry :: "string \<Rightarrow> auth_lockout \<Rightarrow> throttle \<Rightarrow> throttle" where
  "setEntry key row t = t\<lparr>th_entries := AList.update key (entry_of row) (th_entries t)\<rparr>"

definition Blocked :: "string \<Rightarrow> throttle \<Rightarrow> (bool \<times> throttle) io" where
  "Blocked key t =
     bindE now (\<lambda>n.
     if blockedLocally key t n then ret (True, t)
     else if \<not> th_store t then ret (False, t)
     else bindE (tryE (selectOnly T_lockouts (\<lambda>r. al_id r = key))) (\<lambda>r.
       case r of
         Inl e \<Rightarrow> if e = NotFound then ret (False, t) else ret (True, t)
       | Inr row \<Rightarrow> (case al_locked_until row of
           None \<Rightarrow> ret (False, t)
         | Some u \<Rightarrow> if \<not> n < u then ret (False, t) else ret (True, setEntry key row t))))"

definition pruneExpired :: "time \<Rightarrow> throttle \<Rightarrow> throttle" where
  "pruneExpired n t =
     (if length (th_entries t) < 1024 then t
      else t\<lparr>th_entries := filter (\<lambda>(_, e). \<not> (th_window t < n - te_window_start e \<and> te_locked_until e < n)) (th_entries t)\<rparr>)"

text \<open>The insert with \<^verbatim>\<open>ON CONFLICT (id) DO UPDATE SET failures = failures + 1\<close>.\<close>

definition upsert_failure :: "string \<Rightarrow> time \<Rightarrow> unit io" where
  "upsert_failure key n = dbcall (\<lambda>d.
     if list_ex (\<lambda>r. al_id r = key) (db_lockouts d)
     then (Inr (), d\<lparr>db_lockouts := update_where (\<lambda>r. al_id r = key) (\<lambda>r. r\<lparr>al_failures := al_failures r + 1\<rparr>) (db_lockouts d)\<rparr>)
     else (Inr (), d\<lparr>db_lockouts := db_lockouts d @
       [\<lparr>al_id = key, al_failures = 1, al_window_start = n, al_locked_until = None\<rparr>]\<rparr>))"

definition recordFailureInStore :: "string \<Rightarrow> time \<Rightarrow> throttle \<Rightarrow> auth_lockout io" where
  "recordFailureInStore key n t =
     bindE (updateWhere T_lockouts (\<lambda>r. al_id r = key \<and> al_window_start r < n - th_window t
         \<and> (case al_locked_until r of None \<Rightarrow> True | Some u \<Rightarrow> u < n))
       (\<lambda>r. r\<lparr>al_failures := 0, al_window_start := n, al_locked_until := None\<rparr>)) (\<lambda>_.
     bindE (upsert_failure key n) (\<lambda>_.
     bindE (selectOnly T_lockouts (\<lambda>r. al_id r = key)) (\<lambda>row.
     if th_max_failures t \<le> al_failures row \<and> (case al_locked_until row of None \<Rightarrow> True | Some u \<Rightarrow> \<not> n < u)
     then updateOne T_lockouts (\<lambda>r. al_id r = key) (\<lambda>r. r\<lparr>al_locked_until := Some (n + th_lockout t)\<rparr>)
     else ret row)))"

definition record_locally :: "string \<Rightarrow> time \<Rightarrow> throttle \<Rightarrow> throttle" where
  "record_locally key n t0 =
     (let t = pruneExpired n t0;
          fresh = \<lparr>te_failures = 0, te_window_start = n, te_locked_until = 0\<rparr>;
          e0 = (case map_of (th_entries t) key of None \<Rightarrow> fresh
            | Some e \<Rightarrow> if th_window t < n - te_window_start e then fresh else e);
          e1 = e0\<lparr>te_failures := te_failures e0 + 1\<rparr>;
          e2 = (if th_max_failures t \<le> te_failures e1 then e1\<lparr>te_locked_until := n + th_lockout t\<rparr> else e1)
      in t\<lparr>th_entries := AList.update key e2 (th_entries t)\<rparr>)"

definition RecordFailure :: "string \<Rightarrow> throttle \<Rightarrow> throttle io" where
  "RecordFailure key t0 =
     bindE now (\<lambda>n.
     let t = record_locally key n t0 in
     if \<not> th_store t then ret t
     else bindE (tryE (recordFailureInStore key n t)) (\<lambda>r.
       case r of Inl _ \<Rightarrow> ret t | Inr row \<Rightarrow> ret (setEntry key row t)))"

definition RecordSuccess :: "string \<Rightarrow> throttle \<Rightarrow> throttle io" where
  "RecordSuccess key t0 =
     (let t = t0\<lparr>th_entries := AList.delete key (th_entries t0)\<rparr> in
      if \<not> th_store t then ret t
      else bindE (tryE (deleteWhere T_lockouts (\<lambda>r. al_id r = key))) (\<lambda>_. ret t))"

definition PruneStore :: "throttle \<Rightarrow> unit io" where
  "PruneStore t =
     (if \<not> th_store t then ret ()
      else bindE now (\<lambda>n. bindE (deleteWhere T_lockouts (\<lambda>r. al_window_start r < n - th_window t - th_lockout t)) (\<lambda>_. ret ())))"


section \<open>The shared counter\<close>

definition rows_of :: "db \<Rightarrow> string \<Rightarrow> auth_lockout list" where
  "rows_of d key = filter (\<lambda>r. al_id r = key) (db_lockouts d)"

text \<open>The row after one more failure at time \<open>n\<close>, for a row whose window has not expired.\<close>

definition bump_row :: "throttle \<Rightarrow> time \<Rightarrow> auth_lockout \<Rightarrow> auth_lockout" where
  "bump_row t n r = (let k = al_failures r + 1 in
     if th_max_failures t \<le> k \<and> (case al_locked_until r of None \<Rightarrow> True | Some u \<Rightarrow> \<not> n < u)
     then r\<lparr>al_failures := k, al_locked_until := Some (n + th_lockout t)\<rparr> else r\<lparr>al_failures := k\<rparr>)"

definition in_window :: "throttle \<Rightarrow> time \<Rightarrow> auth_lockout \<Rightarrow> bool" where
  "in_window t n r \<longleftrightarrow> n - th_window t \<le> al_window_start r"

lemma table_lockouts [simp]: "fst T_lockouts d = db_lockouts d"
  by (simp add: T_lockouts_def)

lemma run_store_calls:
  assumes "w_faults w = []"
  shows "updateWhere T_lockouts p f w = (Inr (length (filter p (db_lockouts (w_db w)))),
      w\<lparr>w_db := (w_db w)\<lparr>db_lockouts := update_where p f (db_lockouts (w_db w))\<rparr>\<rparr>)"
    and "updateOne T_lockouts p f w = (case filter p (db_lockouts (w_db w)) of
        [] \<Rightarrow> (Inl NotFound, w)
      | r # _ \<Rightarrow> (Inr (f r), w\<lparr>w_db := (w_db w)\<lparr>db_lockouts := update_where p f (db_lockouts (w_db w))\<rparr>\<rparr>))"
  using assms by (simp_all add: updateWhere_def updateOne_def dbcall_eq T_lockouts_def split: list.split)

lemma record_store_existing:
  assumes f: "w_faults w = []" and r: "rows_of (w_db w) key = [r]" and win: "in_window t n r"
  shows "\<exists>w'. recordFailureInStore key n t w = (Inr (bump_row t n r), w') \<and> w_faults w' = []
    \<and> rows_of (w_db w') key = [bump_row t n r]"
proof -
  let ?exp = "\<lambda>r. al_id r = key \<and> al_window_start r < n - th_window t \<and> (case al_locked_until r of None \<Rightarrow> True | Some u \<Rightarrow> u < n)"
  let ?rows = "db_lockouts (w_db w)"
  have k: "al_id r = key" "r \<in> set ?rows" using r by (auto simp: rows_of_def filter_eq_Cons_iff)
  have only_r: "x = r" if "x \<in> set ?rows" "al_id x = key" for x
  proof -
    from that have "x \<in> set (rows_of (w_db w) key)" by (simp add: rows_of_def)
    with r show ?thesis by simp
  qed
  have none: "update_where ?exp (\<lambda>r. r\<lparr>al_failures := 0, al_window_start := n, al_locked_until := None\<rparr>) ?rows = ?rows"
    using win by (intro update_where_none) (auto dest!: only_r simp: in_window_def)
  have ex: "list_ex (\<lambda>r. al_id r = key) ?rows" using k by (auto simp: list_ex_iff)
  let ?up = "update_where (\<lambda>r. al_id r = key) (\<lambda>r. r\<lparr>al_failures := al_failures r + 1\<rparr>) ?rows"
  let ?r1 = "r\<lparr>al_failures := al_failures r + 1\<rparr>"
  have f1: "filter (\<lambda>r. al_id r = key) ?up = [?r1]"
    using r k by (simp add: filter_update_where rows_of_def)
  let ?lk = "\<lambda>r. r\<lparr>al_locked_until := Some (n + th_lockout t)\<rparr>"
  have f2: "filter (\<lambda>r. al_id r = key) (update_where (\<lambda>r. al_id r = key) ?lk ?up) = [?lk ?r1]"
    using f1 k by (simp add: filter_update_where [where q = "\<lambda>r. al_id r = key" and f = ?lk])
  show ?thesis
    using f f1 f2 k
    by (auto simp: recordFailureInStore_def bindE_def run_store_calls none upsert_failure_def dbcall_eq ex
        bump_row_def rows_of_def ret_def Let_def split: option.split)
qed

lemma record_store_first:
  assumes f: "w_faults w = []" and r: "rows_of (w_db w) key = []"
  shows "\<exists>w' r. recordFailureInStore key n t w = (Inr r, w') \<and> w_faults w' = [] \<and> rows_of (w_db w') key = [r]
    \<and> r = bump_row t n \<lparr>al_id = key, al_failures = 0, al_window_start = n, al_locked_until = None\<rparr>"
proof -
  let ?rows = "db_lockouts (w_db w)"
  let ?exp = "\<lambda>r. al_id r = key \<and> al_window_start r < n - th_window t \<and> (case al_locked_until r of None \<Rightarrow> True | Some u \<Rightarrow> u < n)"
  have no: "\<forall>x \<in> set ?rows. al_id x \<noteq> key" using r by (simp add: rows_of_def filter_empty_conv)
  have none: "update_where ?exp (\<lambda>r. r\<lparr>al_failures := 0, al_window_start := n, al_locked_until := None\<rparr>) ?rows = ?rows"
    using no by (intro update_where_none) auto
  have ex: "\<not> list_ex (\<lambda>r. al_id r = key) ?rows" using no by (simp add: list_ex_iff)
  have fl: "filter (\<lambda>r. al_id r = key) ?rows = []" using no by (simp add: filter_empty_conv)
  have up: "update_where (\<lambda>r. al_id r = key) g ?rows = ?rows" for g using no by (intro update_where_none) simp
  show ?thesis
    using f
    by (auto simp: recordFailureInStore_def bindE_def run_store_calls none upsert_failure_def dbcall_eq ex fl up
        bump_row_def rows_of_def ret_def Let_def split: option.split)
qed

text \<open>Failed logins of one key at the given times.\<close>

definition fail_at :: "string \<Rightarrow> throttle \<Rightarrow> time \<Rightarrow> throttle io" where
  "fail_at key t n = (\<lambda>w. RecordFailure key t (w\<lparr>w_clock := n\<rparr>))"

lemma record_locally_params [simp]:
  "th_store (record_locally key n t) = th_store t" "th_max_failures (record_locally key n t) = th_max_failures t"
  "th_window (record_locally key n t) = th_window t" "th_lockout (record_locally key n t) = th_lockout t"
  by (simp_all add: record_locally_def pruneExpired_def Let_def)

lemma setEntry_params [simp]:
  "th_store (setEntry key r t) = th_store t" "th_max_failures (setEntry key r t) = th_max_failures t"
  "th_window (setEntry key r t) = th_window t" "th_lockout (setEntry key r t) = th_lockout t"
  by (simp_all add: setEntry_def)

lemma bump_row_params: "th_max_failures t' = th_max_failures t \<Longrightarrow> th_lockout t' = th_lockout t \<Longrightarrow> bump_row t' = bump_row t"
  by (intro ext) (simp add: bump_row_def Let_def cong: if_cong)

definition same_params :: "throttle \<Rightarrow> throttle \<Rightarrow> bool" where
  "same_params t' t \<longleftrightarrow> th_store t' = th_store t \<and> th_max_failures t' = th_max_failures t
     \<and> th_window t' = th_window t \<and> th_lockout t' = th_lockout t"

lemma fail_at_existing:
  assumes "w_faults w = []" and "rows_of (w_db w) key = [r]" and "in_window t n r" and "th_store t"
  shows "\<exists>t' w'. fail_at key t n w = (Inr t', w') \<and> same_params t' t \<and> w_faults w' = []
    \<and> rows_of (w_db w') key = [bump_row t n r]"
proof -
  let ?t = "record_locally key n t" and ?w = "w\<lparr>w_clock := n\<rparr>"
  have "in_window ?t n r" using assms(3) by (simp add: in_window_def)
  with record_store_existing [of ?w key r ?t n] assms(1,2) obtain w' where
    w': "recordFailureInStore key n ?t ?w = (Inr (bump_row ?t n r), w')" "w_faults w' = []"
      "rows_of (w_db w') key = [bump_row ?t n r]" by auto
  have "bump_row ?t = bump_row t" by (rule bump_row_params) simp_all
  with w' assms(4) show ?thesis
    by (simp add: fail_at_def RecordFailure_def bindE_def now_def tryE_def ret_def Let_def same_params_def)
qed

lemma fail_at_first:
  assumes "w_faults w = []" and "rows_of (w_db w) key = []" and "th_store t"
  shows "\<exists>t' w'. fail_at key t n w = (Inr t', w') \<and> same_params t' t \<and> w_faults w' = []
    \<and> rows_of (w_db w') key = [bump_row t n \<lparr>al_id = key, al_failures = 0, al_window_start = n, al_locked_until = None\<rparr>]"
proof -
  let ?t = "record_locally key n t" and ?w = "w\<lparr>w_clock := n\<rparr>"
  from record_store_first [of ?w key n ?t] assms(1,2) obtain w' r where
    w': "recordFailureInStore key n ?t ?w = (Inr r, w')" "w_faults w' = []" "rows_of (w_db w') key = [r]"
      "r = bump_row ?t n \<lparr>al_id = key, al_failures = 0, al_window_start = n, al_locked_until = None\<rparr>" by auto
  have "bump_row ?t = bump_row t" by (rule bump_row_params) simp_all
  with w' assms(3) show ?thesis
    by (simp add: fail_at_def RecordFailure_def bindE_def now_def tryE_def ret_def Let_def same_params_def)
qed

lemma fails_existing:
  assumes "w_faults w = []" and "rows_of (w_db w) key = [r]" and "th_store t" and "al_locked_until r = None"
    and "\<forall>n \<in> set ns. n - th_window t \<le> al_window_start r"
    and "al_failures r + int (length ns) \<le> th_max_failures t" and "al_failures r < th_max_failures t"
  shows "\<exists>t' w' r'. foldE (fail_at key) t ns w = (Inr t', w') \<and> w_faults w' = [] \<and> rows_of (w_db w') key = [r']
    \<and> al_locked_until r' = (if al_failures r + int (length ns) = th_max_failures t then Some (last ns + th_lockout t) else None)"
  using assms
proof (induction ns arbitrary: w r t)
  case Nil
  then show ?case by (simp add: ret_def)
next
  case (Cons n ns)
  from Cons.prems have "in_window t n r" by (simp add: in_window_def)
  from fail_at_existing [OF Cons.prems(1,2) this Cons.prems(3)] obtain t1 w1 where
    s: "fail_at key t n w = (Inr t1, w1)" "same_params t1 t" "w_faults w1 = []" "rows_of (w_db w1) key = [bump_row t n r]"
    by blast
  let ?r1 = "bump_row t n r"
  have r1: "al_failures ?r1 = al_failures r + 1" "al_window_start ?r1 = al_window_start r"
      "al_locked_until ?r1 = (if al_failures r + 1 = th_max_failures t then Some (n + th_lockout t) else None)"
    using Cons.prems(4,7) by (auto simp: bump_row_def Let_def)
  show ?case
  proof (cases ns)
    case Nil
    with s r1 show ?thesis by (auto simp: bindE_def ret_def)
  next
    case (Cons m ms)
    with Cons.prems(6) have lt: "al_failures ?r1 < th_max_failures t1" "al_locked_until ?r1 = None"
      using s(2) r1 by (auto simp: same_params_def)
    have "\<exists>t' w' r'. foldE (fail_at key) t1 ns w1 = (Inr t', w') \<and> w_faults w' = [] \<and> rows_of (w_db w') key = [r']
      \<and> al_locked_until r' = (if al_failures ?r1 + int (length ns) = th_max_failures t1 then Some (last ns + th_lockout t1) else None)"
      using Cons.prems(3,5,6) s(2) r1 lt by (intro Cons.IH [OF s(3,4)]) (auto simp: same_params_def)
    with s(1,2) r1 Cons show ?thesis by (auto simp: bindE_def same_params_def)
  qed
qed

section \<open>Properties\<close>

text \<open>
  C20.  The lockout fails closed: with a shared store, \<^verbatim>\<open>Blocked\<close> answers no only when the store was asked, it
  answered, and it holds no lock of the key that is still running.  A failing database never opens the door.
\<close>

theorem blocked_fails_closed:
  assumes "Blocked key t w = (Inr (False, t'), w')" and "th_store t"
  shows "\<not> faulty w \<and> w_db w' = w_db w
    \<and> (\<forall>r \<in> set (rows_of (w_db w) key). \<forall>u. al_locked_until r = Some u \<longrightarrow> u \<le> w_clock w)"
proof -
  have "wp (Blocked key t) (\<lambda>r w'. case r of Inr (False, _) \<Rightarrow> \<not> faulty w \<and> w_db w' = w_db w
      \<and> (\<forall>r \<in> set (rows_of (w_db w) key). \<forall>u. al_locked_until r = Some u \<longrightarrow> u \<le> w_clock w) | _ \<Rightarrow> True) w"
    using assms(2) unfolding Blocked_def rows_of_def
    by (cases "filter (\<lambda>r. al_id r = key) (db_lockouts (w_db w))" rule: only.cases)
       (auto simp: wp_simps split: option.split)
  from wpD [OF this assms(1)] show ?thesis by simp
qed

definition lock_world :: "time option \<Rightarrow> world" where
  "lock_world u = world_of (empty_db\<lparr>db_lockouts := [\<lparr>al_id = ''k'', al_failures = 3, al_window_start = 1, al_locked_until = u\<rparr>]\<rparr>)"

theorem blocked_fails_closed_witness:
  "map_sum id fst (fst (Blocked ''k'' (WithStore (NewFailureThrottle 3 10 20)) (lock_world (Some 500)))) = Inr False
   \<and> \<not> faulty (lock_world (Some 500))"
proof -
  let ?t = "WithStore (NewFailureThrottle 3 10 20)" and ?w = "lock_world (Some 500)"
  have b: "map_sum id fst (fst (Blocked ''k'' ?t ?w)) = Inr False" by code_simp
  then obtain t' where "Blocked ''k'' ?t ?w = (Inr (False, t'), snd (Blocked ''k'' ?t ?w))"
    by (cases "Blocked ''k'' ?t ?w"; cases "fst (Blocked ''k'' ?t ?w)") auto
  moreover have "th_store ?t" by code_simp
  ultimately have "\<not> faulty ?w" using blocked_fails_closed by blast
  with b show ?thesis by simp
qed

text \<open>
  C21.  The lockout works across nodes: after \<^verbatim>\<open>maxFailures\<close> failed logins of a key without an earlier row, all within
  the window of the first, every node (whatever its own entries are), at any time before the end of the lockout that started
  with the last failure, answers that the key is blocked, also when its database calls fail.
\<close>

theorem lockout_after_max_failures:
  assumes "w_faults w = []" and "rows_of (w_db w) key = []" and "th_store t"
    and "ns = n0 # ns'" and "int (length ns) = th_max_failures t" and "\<forall>n \<in> set ns. n - th_window t \<le> n0"
  shows "\<exists>t' w'. foldE (fail_at key) t ns w = (Inr t', w')
    \<and> (\<forall>t2 now fs. th_store t2 \<longrightarrow> now < last ns + th_lockout t \<longrightarrow>
         (\<exists>t3 w3. Blocked key t2 (w'\<lparr>w_clock := now, w_faults := fs\<rparr>) = (Inr (True, t3), w3)))"
proof -
  let ?r0 = "\<lparr>al_id = key, al_failures = 0, al_window_start = n0, al_locked_until = None\<rparr>"
  let ?r1 = "bump_row t n0 ?r0"
  from fail_at_first [OF assms(1-3)] obtain t1 w1 where
    s: "fail_at key t n0 w = (Inr t1, w1)" "same_params t1 t" "w_faults w1 = []" "rows_of (w_db w1) key = [?r1]"
    by blast
  have "\<exists>t' w' r'. foldE (fail_at key) t ns w = (Inr t', w') \<and> rows_of (w_db w') key = [r']
      \<and> al_locked_until r' = Some (last ns + th_lockout t)"
  proof (cases ns')
    case Nil
    then have "al_locked_until ?r1 = Some (last ns + th_lockout t)"
      using assms(4,5) by (simp add: bump_row_def)
    with s Nil assms(4) show ?thesis by (auto simp: bindE_def ret_def)
  next
    case (Cons m ms)
    have r1: "al_failures ?r1 = 1" "al_window_start ?r1 = n0" "al_locked_until ?r1 = None"
      using Cons assms(4,5) by (simp_all add: bump_row_def Let_def)
    have "\<exists>t' w' r'. foldE (fail_at key) t1 ns' w1 = (Inr t', w') \<and> w_faults w' = [] \<and> rows_of (w_db w') key = [r']
      \<and> al_locked_until r' = (if al_failures ?r1 + int (length ns') = th_max_failures t1 then Some (last ns' + th_lockout t1) else None)"
      using assms(3-6) s(2) r1 Cons by (intro fails_existing [OF s(3,4)]) (auto simp: same_params_def)
    with s(1,2) r1 assms(4,5) Cons show ?thesis by (auto simp: bindE_def same_params_def)
  qed
  then obtain t' w' r' where run: "foldE (fail_at key) t ns w = (Inr t', w')" and row: "rows_of (w_db w') key = [r']"
      and lock: "al_locked_until r' = Some (last ns + th_lockout t)" by blast
  have "\<exists>t3 w3. Blocked key t2 (w'\<lparr>w_clock := now, w_faults := fs\<rparr>) = (Inr (True, t3), w3)"
    if "th_store t2" "now < last ns + th_lockout t" for t2 now fs
  proof -
    let ?w = "w'\<lparr>w_clock := now, w_faults := fs\<rparr>"
    have "wp (Blocked key t2) (\<lambda>r w3. \<exists>t3. r = Inr (True, t3)) ?w"
      using that row lock unfolding Blocked_def rows_of_def by (auto simp: wp_simps)
    then show ?thesis by (auto simp: wp_def split: prod.splits)
  qed
  with run show ?thesis by blast
qed

theorem lockout_after_max_failures_witness:
  "\<exists>t' w'. foldE (fail_at ''k'') (WithStore (NewFailureThrottle 3 10 20)) [100, 101, 105] (world_of empty_db) = (Inr t', w')
    \<and> (\<exists>t3 w3. Blocked ''k'' (WithStore (NewFailureThrottle 3 10 20)) (w'\<lparr>w_clock := 110, w_faults := [True]\<rparr>) = (Inr (True, t3), w3))"
proof -
  let ?t = "WithStore (NewFailureThrottle 3 10 20)"
  have h: "w_faults (world_of empty_db) = []" "rows_of (w_db (world_of empty_db)) ''k'' = []" "th_store ?t"
      "int (length [100, 101, 105 :: int]) = th_max_failures ?t" "\<forall>n \<in> set [100, 101, 105]. n - th_window ?t \<le> 100"
      "110 < last [100, 101, 105] + th_lockout ?t" by code_simp+
  from lockout_after_max_failures [OF h(1-3) refl h(4,5)] h(3,6) show ?thesis by blast
qed

end
