(* ===== verification/Password.thy ===== *)
theory Password
  imports World
begin

text \<open>
  Password hashes, \<^verbatim>\<open>internal/auth/password.go\<close>.  The key derivation \<^verbatim>\<open>argon2.IDKey\<close> is a parameter; the
  unpadded standard base64 of Go's library is written out on bit lists (the decoder skips carriage
  returns and line feeds and ignores left-over bits), and so is the parser of unsigned decimals.
\<close>

section \<open>Base64 without padding\<close>

definition bits_of :: "nat \<Rightarrow> nat \<Rightarrow> bool list" where
  "bits_of n x = rev (map (\<lambda>i. odd (x div 2 ^ i)) [0..<n])"

definition of_bits :: "bool list \<Rightarrow> nat" where
  "of_bits bs = foldl (\<lambda>a b. 2 * a + (if b then 1 else 0)) 0 bs"

definition sextet_char :: "nat \<Rightarrow> char" where
  "sextet_char n = (if n < 26 then char_of (65 + n) else if n < 52 then char_of (97 + (n - 26))
     else if n < 62 then char_of (48 + (n - 52)) else if n = 62 then CHR ''+'' else CHR ''/'')"

definition char_sextet :: "char \<Rightarrow> nat option" where
  "char_sextet c = (let n = code c in
     if 65 \<le> n \<and> n \<le> 90 then Some (n - 65) else if 97 \<le> n \<and> n \<le> 122 then Some (n - 97 + 26)
     else if 48 \<le> n \<and> n \<le> 57 then Some (n - 48 + 52) else if c = CHR ''+'' then Some 62
     else if c = CHR ''/'' then Some 63 else None)"

definition pad6 :: "bool list \<Rightarrow> bool list" where
  "pad6 bs = bs @ replicate (6 - length bs) False"

definition base64_encode :: "string \<Rightarrow> string" where
  "base64_encode s = map (\<lambda>bs. sextet_char (of_bits (pad6 bs))) (chunks 6 (concat (map (\<lambda>c. bits_of 8 (code c)) s)))"

definition base64_decode :: "string \<Rightarrow> string option" where
  "base64_decode s0 = (let s = filter (\<lambda>c. c \<noteq> CR \<and> c \<noteq> LF) s0 in
     if length s mod 4 = 1 \<or> list_ex (\<lambda>c. char_sextet c = None) s then None
     else (let bs = concat (map (\<lambda>c. bits_of 6 (the (char_sextet c))) s)
           in Some (map (\<lambda>b. char_of (of_bits b)) (chunks 8 (take (8 * (length bs div 8)) bs)))))"

text \<open>\<^verbatim>\<open>strconv.ParseUint(raw, 10, 32)\<close>.\<close>

definition parse_uint32 :: "string \<Rightarrow> nat option" where
  "parse_uint32 s = (if s = [] \<or> \<not> list_all is_digit s then None
     else (let n = foldl (\<lambda>a c. 10 * a + (code c - 48)) 0 s in if n < 2 ^ 32 then Some n else None))"

section \<open>Hashes\<close>

type_synonym key_derivation = "string \<Rightarrow> string \<Rightarrow> nat \<Rightarrow> nat \<Rightarrow> nat \<Rightarrow> nat \<Rightarrow> string"

record hashParams =
  hp_memory :: nat
  hp_time :: nat
  hp_threads :: nat

text \<open>The threads are a \<^verbatim>\<open>uint8\<close>: the number is cut to 8 bits.\<close>

fun parse_params_list :: "hashParams \<Rightarrow> string list \<Rightarrow> err + hashParams" where
  "parse_params_list ps [] = Inr ps"
| "parse_params_list ps (part # parts) = (case cut part ''='' of (name, raw, ok) \<Rightarrow>
     if \<not> ok then Inl (ErrText ''invalid password hash params'') else
     (case parse_uint32 raw of None \<Rightarrow> Inl (ErrText ''ParseUint'')
      | Some n \<Rightarrow>
         if name = ''m'' then parse_params_list (ps\<lparr>hp_memory := n\<rparr>) parts
         else if name = ''t'' then parse_params_list (ps\<lparr>hp_time := n\<rparr>) parts
         else if name = ''p'' then parse_params_list (ps\<lparr>hp_threads := n mod 256\<rparr>) parts
         else Inl (ErrText ''unknown password hash param'')))"

definition parseParams :: "string \<Rightarrow> err + hashParams" where
  "parseParams value = (case parse_params_list \<lparr>hp_memory = 0, hp_time = 0, hp_threads = 0\<rparr> (split_on (CHR '','') value) of
     Inl e \<Rightarrow> Inl e
   | Inr ps \<Rightarrow> if hp_memory ps = 0 \<or> hp_time ps = 0 \<or> hp_threads ps = 0
       then Inl (ErrText ''incomplete password hash params'') else Inr ps)"

definition parseHash :: "string \<Rightarrow> err + hashParams \<times> string \<times> string" where
  "parseHash encoded = (let parts = split_on (CHR ''$'') encoded in
     if length parts \<noteq> 5 \<or> parts ! 0 \<noteq> ''argon2id'' \<or> parts ! 1 \<noteq> ''v=19'' then Inl (ErrText ''invalid password hash'')
     else (case parseParams (parts ! 2) of Inl e \<Rightarrow> Inl e
       | Inr ps \<Rightarrow> (case base64_decode (parts ! 3) of None \<Rightarrow> Inl (ErrText ''illegal base64 data'')
         | Some salt \<Rightarrow> (case base64_decode (parts ! 4) of None \<Rightarrow> Inl (ErrText ''illegal base64 data'')
           | Some key \<Rightarrow> Inr (ps, salt, key)))))"

definition argonTime :: nat where "argonTime = 1"
definition argonMemory :: nat where "argonMemory = 65536"
definition argonThreads :: nat where "argonThreads = 4"
definition argonKeyLen :: nat where "argonKeyLen = 32"

definition HashPassword :: "key_derivation \<Rightarrow> string \<Rightarrow> string \<Rightarrow> err + string" where
  "HashPassword idKey salt password =
     (if password = [] then Inl (ErrText ''password is required'') else
      let key = idKey password salt argonTime argonMemory argonThreads argonKeyLen in
      Inr (''argon2id$v=19$m=65536,t=1,p=4$'' @ base64_encode salt @ ''$'' @ base64_encode key))"

definition VerifyPassword :: "key_derivation \<Rightarrow> string \<Rightarrow> string \<Rightarrow> err + bool" where
  "VerifyPassword idKey password encoded = (case parseHash encoded of
     Inl e \<Rightarrow> Inl e
   | Inr (ps, salt, key) \<Rightarrow> Inr (idKey password salt (hp_time ps) (hp_memory ps) (hp_threads ps) (length key mod 2 ^ 32) = key))"

fun HasScope :: "string list \<Rightarrow> string \<Rightarrow> bool" where
  "HasScope [] expected = False"
| "HasScope (scope # scopes) expected = (if scope = expected then True else HasScope scopes expected)"

section \<open>Round trips\<close>

lemma length_bits_of [simp]: "length (bits_of n x) = n"
  by (simp add: bits_of_def)

lemma of_bits_append: "of_bits (a @ [b]) = 2 * of_bits a + (if b then 1 else 0)"
  by (simp add: of_bits_def)

lemma bits_of_Suc: "bits_of (Suc n) x = bits_of n (x div 2) @ [odd x]"
proof -
  have "[0..<Suc n] = 0 # map Suc [0..<n]" by (simp add: map_Suc_upt upt_conv_Cons del: upt_Suc)
  then show ?thesis by (simp add: bits_of_def div_mult2_eq o_def)
qed

lemma of_bits_bits_of: "x < 2 ^ n \<Longrightarrow> of_bits (bits_of n x) = x"
proof (induction n arbitrary: x)
  case (Suc n)
  then have "of_bits (bits_of n (x div 2)) = x div 2" by simp
  then show ?case by (simp add: bits_of_Suc of_bits_append)
qed (simp add: bits_of_def of_bits_def)

lemma bits_of_of_bits: "bits_of (length bs) (of_bits bs) = bs"
  by (induction bs rule: rev_induct) (simp_all add: bits_of_Suc of_bits_append, simp add: bits_of_def)

lemma of_bits_less: "of_bits bs < 2 ^ length bs"
  by (induction bs rule: rev_induct) (auto simp: of_bits_append, simp add: of_bits_def)

lemma code_specials: "code CHR ''+'' = 43" "code CHR ''/'' = 47" "code CHR ''$'' = 36" "code CR = 13" "code LF = 10"
  by code_simp+

lemma char_sextet_char:
  assumes "n < 64" shows "char_sextet (sextet_char n) = Some n"
proof -
  consider "n < 26" | "26 \<le> n" "n < 52" | "52 \<le> n" "n < 62" | "n = 62" | "n = 63" using assms by linarith
  then show ?thesis
  proof cases
    case 3
    then have "48 + (n - 52) < 58" by linarith
    with 3 show ?thesis by (auto simp: char_sextet_def sextet_char_def Let_def)
  qed (simp_all add: char_sextet_def sextet_char_def Let_def code_specials)
qed

lemma code_sextet: "n < 64 \<Longrightarrow> code (sextet_char n) \<in> {43, 47} \<union> {48..57} \<union> {65..90} \<union> {97..122}"
  by (auto simp: sextet_char_def code_specials)

lemma sextet_char_plain:
  assumes "n < 64" shows "sextet_char n \<noteq> CR" "sextet_char n \<noteq> LF" "sextet_char n \<noteq> CHR ''$''"
  using code_sextet [OF assms] by (auto simp: code_specials simp flip: code_inject)

lemma concat_map_bits:
  "\<forall>bs \<in> set bss. length bs = n \<Longrightarrow> concat (map (\<lambda>x. bits_of n x) (map of_bits bss)) = concat bss"
  by (induction bss) (auto simp: bits_of_of_bits)

text \<open>The sextets of a bit list are its bits, filled up with zeros.\<close>

lemma concat_pad6:
  "\<exists>z. concat (map pad6 (chunks 6 bs)) = bs @ replicate z False \<and> z < 6
    \<and> length (concat (map pad6 (chunks 6 bs))) = 6 * length (chunks 6 bs)"
proof (induction "length bs" arbitrary: bs rule: less_induct)
  case less
  show ?case
  proof (cases "length bs \<le> 6")
    case True
    show ?thesis
    proof (cases "bs = []")
      case False
      with True have "chunks 6 bs = [bs]" by (simp add: chunks_rec)
      with True False show ?thesis
        by (intro exI [of _ "6 - length bs"]) (cases bs; simp add: pad6_def)
    qed (intro exI [of _ 0], simp)
  next
    case False
    then have rec: "chunks 6 bs = take 6 bs # chunks 6 (drop 6 bs)" by (intro chunks_rec) auto
    have p: "pad6 (take 6 bs) = take 6 bs" using False by (simp add: pad6_def)
    have "length (drop 6 bs) < length bs" using False by auto
    from less.hyps [OF this] obtain z where "concat (map pad6 (chunks 6 (drop 6 bs))) = drop 6 bs @ replicate z False"
        "z < 6" "length (concat (map pad6 (chunks 6 (drop 6 bs)))) = 6 * length (chunks 6 (drop 6 bs))" by blast
    with False show ?thesis
      by (intro exI [of _ z]) (simp only: rec list.map concat.simps p append_assoc [symmetric] append_take_drop_id
          length_append length_Cons, simp)
  qed
qed

lemma chunks_concat_const:
  assumes "0 < n" and "\<forall>xs \<in> set xss. length xs = n"
  shows "chunks n (concat xss) = xss"
  using assms(2)
proof (induction xss)
  case (Cons xs xss)
  then have "xs \<noteq> []" "take n (xs @ concat xss) = xs" "drop n (xs @ concat xss) = concat xss"
    using assms(1) by auto
  with Cons show ?case using assms(1) by (simp add: chunks_rec)
qed simp

lemma map_map_id: "(\<And>x. x \<in> set xs \<Longrightarrow> f (g x) = x) \<Longrightarrow> map f (map g xs) = xs"
  by (induction xs) auto

lemma base64_round_trip: "base64_decode (base64_encode s) = Some s"
proof -
  let ?bits = "concat (map (\<lambda>c. bits_of 8 (code c)) s)"
  let ?groups = "map pad6 (chunks 6 ?bits)"
  have enc: "base64_encode s = map (\<lambda>bs. sextet_char (of_bits bs)) ?groups"
    by (simp add: base64_encode_def)
  have len6: "length bs = 6" if "bs \<in> set ?groups" for bs
    using that length_chunk [of _ 6 ?bits] by (auto simp: pad6_def)
  then have lt: "of_bits bs < 64" if "bs \<in> set ?groups" for bs
    using of_bits_less [of bs] that by fastforce
  obtain z where z: "concat ?groups = ?bits @ replicate z False" "z < 6" "length (concat ?groups) = 6 * length ?groups"
    using concat_pad6 [of ?bits] by auto
  have lb: "length ?bits = 8 * length s" by (induction s) simp_all
  have plain: "filter (\<lambda>c. c \<noteq> CR \<and> c \<noteq> LF) (base64_encode s) = base64_encode s"
    unfolding enc using sextet_char_plain lt by (auto simp: filter_id_conv)
  have total6: "8 * length s + z = 6 * length ?groups"
    using z(1,3) lb by (metis length_append length_replicate)
  have mod4: "length (base64_encode s) mod 4 \<noteq> 1"
  proof
    assume "length (base64_encode s) mod 4 = 1"
    then have "length ?groups mod 4 = 1" by (simp add: enc)
    then obtain q where "length ?groups = 4 * q + 1" by (metis mod_mult_div_eq add.commute)
    with total6 have "8 * length s + z = 24 * q + 6" by simp
    with z(2) show False by presburger
  qed
  have ok: "\<not> list_ex (\<lambda>c. char_sextet c = None) (base64_encode s)"
    unfolding enc using char_sextet_char lt by (auto simp: list_ex_iff)
  have sext: "bits_of 6 (the (char_sextet (sextet_char (of_bits bs)))) = bs" if "bs \<in> set ?groups" for bs
    using char_sextet_char [OF lt [OF that]] len6 [OF that] bits_of_of_bits [of bs] by simp
  have "map (\<lambda>c. bits_of 6 (the (char_sextet c))) (base64_encode s) = ?groups"
    unfolding enc by (rule map_map_id) (rule sext)
  then have bs: "concat (map (\<lambda>c. bits_of 6 (the (char_sextet c))) (base64_encode s)) = ?bits @ replicate z False"
    using z(1) by simp
  have "8 * (length (?bits @ replicate z False) div 8) = 8 * length s"
    using lb z(2) by simp
  then have tk: "take (8 * (length (?bits @ replicate z False) div 8)) (?bits @ replicate z False) = ?bits"
    using lb by simp
  have "chunks 8 ?bits = map (\<lambda>c. bits_of 8 (code c)) s"
    by (rule chunks_concat_const) auto
  moreover have "char_of (of_bits (bits_of 8 (code c))) = c" for c
    using of_bits_bits_of [of "code c" 8] by (simp add: code_def)
  ultimately show ?thesis
    unfolding base64_decode_def Let_def plain bs tk using mod4 ok by (simp add: o_def)
qed

lemma base64_no_dollar: "CHR ''$'' \<notin> set (base64_encode s)"
proof -
  have "of_bits (pad6 bs) < 64" if "bs \<in> set (chunks 6 xs)" for bs xs
    using of_bits_less [of "pad6 bs"] length_chunk [OF that] by (simp add: pad6_def)
  then show ?thesis using sextet_char_plain(3) by (fastforce simp: base64_encode_def)
qed

section \<open>Properties\<close>

lemma split_hash:
  "split_on (CHR ''$'') (''argon2id$v=19$m=65536,t=1,p=4$'' @ base64_encode salt @ ''$'' @ base64_encode key)
     = [''argon2id'', ''v=19'', ''m=65536,t=1,p=4'', base64_encode salt, base64_encode key]"
proof -
  let ?ps = "[''argon2id'', ''v=19'', ''m=65536,t=1,p=4'', base64_encode salt, base64_encode key]"
  have "split_on (CHR ''$'') (join [CHR ''$''] ?ps) = ?ps"
    by (rule split_on_join) (use base64_no_dollar in auto)
  then show ?thesis by simp
qed

lemma hash_params: "parseParams ''m=65536,t=1,p=4'' = Inr \<lparr>hp_memory = 65536, hp_time = 1, hp_threads = 4\<rparr>"
proof -
  have parts: "split_on (CHR '','') ''m=65536,t=1,p=4'' = [''m=65536'', ''t=1'', ''p=4'']"
    and cuts: "cut ''m=65536'' ''='' = (''m'', ''65536'', True)" "cut ''t=1'' ''='' = (''t'', ''1'', True)"
      "cut ''p=4'' ''='' = (''p'', ''4'', True)"
    by code_simp+
  have nums: "parse_uint32 ''65536'' = Some 65536" "parse_uint32 ''1'' = Some 1" "parse_uint32 ''4'' = Some 4"
    by (simp_all add: parse_uint32_def is_digit_def code_def)
  show ?thesis by (simp add: parseParams_def parts cuts nums)
qed

text \<open>
  C22.  A stored hash verifies exactly the passwords that derive the same key: for a key derivation
  that returns keys of the requested length, a hash made by \<^verbatim>\<open>HashPassword\<close> is parsed back without error, with its salt and parameters, and
  \<^verbatim>\<open>VerifyPassword\<close> accepts the password it was made from and every other password with the same derived key, and no other.
\<close>

theorem password_round_trip:
  assumes "\<And>p s t m th k. length (idKey p s t m th k) = k"
    and "HashPassword idKey salt password = Inr encoded"
  shows "VerifyPassword idKey attempt encoded
    = Inr (idKey attempt salt argonTime argonMemory argonThreads argonKeyLen = idKey password salt argonTime argonMemory argonThreads argonKeyLen)"
proof -
  let ?key = "idKey password salt argonTime argonMemory argonThreads argonKeyLen"
  from assms(2) have e: "encoded = ''argon2id$v=19$m=65536,t=1,p=4$'' @ base64_encode salt @ ''$'' @ base64_encode ?key"
    unfolding HashPassword_def Let_def
    by (cases "password = []") (simp_all only: if_True if_False sum.inject sum.distinct refl)
  have "parseHash encoded = Inr (\<lparr>hp_memory = 65536, hp_time = 1, hp_threads = 4\<rparr>, salt, ?key)"
    unfolding parseHash_def Let_def e split_hash
    by (simp add: hash_params base64_round_trip)
  then show ?thesis
    using assms(1) by (simp add: VerifyPassword_def argonTime_def argonMemory_def argonThreads_def argonKeyLen_def)
qed

definition toy_key :: key_derivation where
  "toy_key p s t m th k = take k (p @ s @ replicate k (CHR ''0''))"

theorem password_round_trip_witness:
  "VerifyPassword toy_key ''secret'' (case HashPassword toy_key ''salt'' ''secret'' of Inr h \<Rightarrow> h | Inl _ \<Rightarrow> []) = Inr True
   \<and> VerifyPassword toy_key ''guess'' (case HashPassword toy_key ''salt'' ''secret'' of Inr h \<Rightarrow> h | Inl _ \<Rightarrow> []) = Inr False"
proof -
  obtain h where h: "HashPassword toy_key ''salt'' ''secret'' = Inr h"
    by (simp add: HashPassword_def Let_def)
  have len: "length (toy_key p s t m th k) = k" for p s t m th k by (simp add: toy_key_def)
  have "toy_key ''guess'' ''salt'' argonTime argonMemory argonThreads argonKeyLen
      \<noteq> toy_key ''secret'' ''salt'' argonTime argonMemory argonThreads argonKeyLen"
    by (simp add: toy_key_def argonKeyLen_def)
  with password_round_trip [OF len h] h show ?thesis by simp
qed

end
