(* ===== verification/Submission_Server.thy ===== *)
theory Submission_Server
  imports Inbound Submission Throttle Password
begin

text \<open>
  The submission server, \<^verbatim>\<open>internal/smtp/submission\<close>: the LOGIN exchange (\<^verbatim>\<open>login.go\<close>), the login against app passwords
  and SMTP credentials under the shared throttle, and the session that submits for a mailbox or for the domains of a credential
  (\<^verbatim>\<open>server.go\<close>).  The PLAIN exchange is the SASL library's, which calls \<^verbatim>\<open>authenticate\<close> with what it decoded; the throttle is
  shared by all sessions, so each handler that uses it takes and returns it.
\<close>

section \<open>State\<close>

record submission_backend =
  sb_service :: submission
  sb_key :: key_derivation

record submission_session =
  ss_remote_ip :: string
  ss_mailbox :: "mailbox option"
  ss_credential :: "smtp_credential option"
  ss_mail_from :: string
  ss_recipients :: "string list"
  ss_released :: bool

text \<open>Replies: the errors the protocol library defines, those of this server, any other Go error, and a recovered panic.\<close>

datatype session_error =
    ErrAuthFailed | ErrAuthRequired | ErrAuthUnknownMechanism | Reply smtp_error | GoError err | Panicked

definition remoteIP :: "net_lib \<Rightarrow> string option \<Rightarrow> string" where
  "remoteIP lib conn = (case conn of None \<Rightarrow> [] | Some addr \<Rightarrow>
     (case nl_split lib addr of None \<Rightarrow> addr | Some (host, _) \<Rightarrow> host))"

definition too_many_connections :: smtp_error where
  "too_many_connections = reply 421 (4, 7, 0) ''too many connections from your address''"

definition submission_NewSession :: "string \<Rightarrow> gate \<Rightarrow> (smtp_error + submission_session) \<times> gate" where
  "submission_NewSession ip g = (case Acquire ip g of
     (False, g') \<Rightarrow> (Inl too_many_connections, g')
   | (True, g') \<Rightarrow> (Inr \<lparr>ss_remote_ip = ip, ss_mailbox = None, ss_credential = None, ss_mail_from = [], ss_recipients = [],
        ss_released = False\<rparr>, g'))"

definition authenticated :: "submission_session \<Rightarrow> bool" where
  "authenticated s \<longleftrightarrow> ss_mailbox s \<noteq> None \<or> ss_credential s \<noteq> None"

section \<open>Logging in\<close>

type_synonym login_result = "session_error option \<times> submission_session"

text \<open>The loop over the app passwords: the first that verifies and has the scope logs the session in.\<close>

fun try_passwords :: "key_derivation \<Rightarrow> mailbox \<Rightarrow> string \<Rightarrow> app_password list \<Rightarrow> submission_session \<Rightarrow> login_result io" where
  "try_passwords idKey mbox password [] s = ret (Some ErrAuthFailed, s)"
| "try_passwords idKey mbox password (item # items) s =
     (case VerifyPassword idKey password (ap_hash item) of
        Inl e \<Rightarrow> ret (Some (GoError e), s)
      | Inr valid \<Rightarrow>
          if valid \<and> HasScope (ap_scopes item) ''smtp'' then
            bindE now (\<lambda>t.
            bindE (tryE (updateOne T_app_passwords (\<lambda>p. ap_id p = ap_id item) (\<lambda>p. p\<lparr>ap_last_used_at := Some t\<rparr>))) (\<lambda>_.
            ret (None, s\<lparr>ss_mailbox := Some mbox\<rparr>)))
          else try_passwords idKey mbox password items s)"

definition verifyMailboxPassword :: "submission_backend \<Rightarrow> string \<Rightarrow> string \<Rightarrow> submission_session \<Rightarrow> login_result io" where
  "verifyMailboxPassword b username password s =
     bindE (tryE (selectOnly T_mailboxes (\<lambda>m. equal_fold (mb_primary_address m) username \<and> mb_status m = ''active'' \<and> mb_deleted_at m = None))) (\<lambda>r.
     case r of
       Inl _ \<Rightarrow> ret (Some ErrAuthFailed, s)
     | Inr mbox \<Rightarrow>
         bindE (tryE (selectAll T_app_passwords (\<lambda>p. ap_mailbox_id p = mb_id mbox \<and> ap_revoked_at p = None \<and> ap_deleted_at p = None))) (\<lambda>q.
         case q of
           Inl e \<Rightarrow> ret (Some (GoError e), s)
         | Inr passwords \<Rightarrow> try_passwords (sb_key b) mbox password passwords s))"

definition verifySMTPCredential :: "submission_backend \<Rightarrow> string \<Rightarrow> string \<Rightarrow> submission_session \<Rightarrow> login_result io" where
  "verifySMTPCredential b username password s =
     bindE (tryE (selectOnly T_smtp_credentials (\<lambda>c. equal_fold (sc_username c) username \<and> sc_revoked_at c = None))) (\<lambda>r.
     case r of
       Inl e \<Rightarrow> ret (Some (if e = NotFound then ErrAuthFailed else GoError e), s)
     | Inr item \<Rightarrow>
         (case VerifyPassword (sb_key b) password (sc_hash item) of
            Inl e \<Rightarrow> ret (Some (GoError e), s)
          | Inr False \<Rightarrow> ret (Some ErrAuthFailed, s)
          | Inr True \<Rightarrow>
              bindE now (\<lambda>t.
              bindE (tryE (updateOne T_smtp_credentials (\<lambda>c. sc_id c = sc_id item) (\<lambda>c. c\<lparr>sc_last_used_at := Some t\<rparr>))) (\<lambda>_.
              ret (None, s\<lparr>ss_credential := Some item\<rparr>)))))"

definition verifyCredentials :: "submission_backend \<Rightarrow> string \<Rightarrow> string \<Rightarrow> string \<Rightarrow> submission_session \<Rightarrow> login_result io" where
  "verifyCredentials b identity username password s =
     (if identity \<noteq> [] \<and> identity \<noteq> username then ret (Some ErrAuthFailed, s)
      else if contains username ''@'' then verifyMailboxPassword b username password s
      else verifySMTPCredential b username password s)"

definition authenticate_session :: "submission_backend \<Rightarrow> string \<Rightarrow> string \<Rightarrow> string \<Rightarrow> throttle \<Rightarrow> submission_session
    \<Rightarrow> (session_error option \<times> throttle \<times> submission_session) io" where
  "authenticate_session b identity username password th s =
     bindE (Blocked (ss_remote_ip s) th) (\<lambda>(blocked, th1).
     if blocked then ret (Some ErrAuthFailed, th1, s) else
     bindE (verifyCredentials b identity username password s) (\<lambda>(e, s').
     if e \<noteq> None then bindE (RecordFailure (ss_remote_ip s) th1) (\<lambda>th2. ret (e, th2, s'))
     else bindE (RecordSuccess (ss_remote_ip s) th1) (\<lambda>th2. ret (None, th2, s'))))"

text \<open>
  The LOGIN exchange: \<open>login_Next\<close> answers a response (\<open>None\<close> is a missing one) with a challenge, with the end of the exchange
  in an error, or with the user name and password to authenticate.
\<close>

record login_server =
  lg_username :: string
  lg_step :: nat

datatype login_answer = Challenge string | LoginError string | Authenticate string string

definition newLoginServer :: login_server where
  "newLoginServer = \<lparr>lg_username = [], lg_step = 0\<rparr>"

definition bytes_of :: "string option \<Rightarrow> string" where
  "bytes_of response = (case response of None \<Rightarrow> [] | Some s \<Rightarrow> s)"

definition login_Next :: "string option \<Rightarrow> login_server \<Rightarrow> login_answer \<times> login_server" where
  "login_Next response s =
     (if lg_step s = 0 then
        (if response = None then (Challenge ''Username:'', s\<lparr>lg_step := 1\<rparr>)
         else (Challenge ''Password:'', s\<lparr>lg_username := bytes_of response, lg_step := 2\<rparr>))
      else if lg_step s = 1 then (Challenge ''Password:'', s\<lparr>lg_username := bytes_of response, lg_step := 2\<rparr>)
      else if lg_step s = 2 then
        (if lg_username s = [] then LoginError ''username required'' else Authenticate (lg_username s) (bytes_of response), s\<lparr>lg_step := 3\<rparr>)
      else (LoginError ''unexpected LOGIN response'', s))"

datatype mechanism = Plain | Login login_server

definition Auth :: "string \<Rightarrow> session_error + mechanism" where
  "Auth mech = (if mech = ''PLAIN'' then Inr Plain else if mech = ''LOGIN'' then Inr (Login newLoginServer) else Inl ErrAuthUnknownMechanism)"

section \<open>Submitting\<close>

definition temporary_error :: smtp_error where
  "temporary_error = reply 451 (4, 3, 0) ''temporary local problem''"

definition submissionError :: "err \<Rightarrow> smtp_error" where
  "submissionError e =
     (if e = ErrSenderNotAllowed then reply 553 (5, 7, 1) ''sender not allowed''
      else if e = ErrInvalidHeader then reply 554 (5, 6, 0) ''invalid header field name''
      else if e = ErrDKIMKeyNotFound then reply 550 (5, 7, 0) ''dkim key not configured for sender domain''
      else if e = ErrRateLimited then reply 450 (4, 7, 1) ''outbound rate limit exceeded''
      else if e = ErrTooManyRecipients then reply 452 (4, 5, 3) ''too many recipients''
      else if e = ErrOverQuota then reply 552 (5, 2, 2) ''mailbox over quota''
      else temporary_error)"

definition senderDomain :: "string \<Rightarrow> string" where
  "senderDomain address = (case cut (to_lower address) ''@'' of (_, domain, _) \<Rightarrow> domain)"

text \<open>Without a login there is no mailbox to ask about; the callers have checked that there is one.\<close>

definition senderAllowed :: "submission_session \<Rightarrow> string \<Rightarrow> bool io" where
  "senderAllowed s address =
     (case ss_credential s of
        Some c \<Rightarrow> ret (senderDomain address \<in> set (sc_domains c))
      | None \<Rightarrow> (case ss_mailbox s of Some m \<Rightarrow> SenderAllowed m address | None \<Rightarrow> fail slice_panic))"

definition submission_Mail :: "submission_backend \<Rightarrow> string \<Rightarrow> submission_session \<Rightarrow> login_result io" where
  "submission_Mail b sender s =
     (if \<not> authenticated s then ret (Some ErrAuthRequired, s) else
      case sv_parse (sb_service b) sender of
        Inl _ \<Rightarrow> ret (Some (Reply (reply 553 (5, 1, 7) ''invalid sender'')), s)
      | Inr address \<Rightarrow>
          bindE (tryE (senderAllowed s address)) (\<lambda>r.
          case r of
            Inl _ \<Rightarrow> ret (Some (Reply temporary_error), s)
          | Inr False \<Rightarrow> ret (Some (Reply (reply 553 (5, 7, 1) ''sender not allowed'')), s)
          | Inr True \<Rightarrow> ret (None, s\<lparr>ss_mail_from := address, ss_recipients := []\<rparr>)))"

definition submission_Rcpt :: "submission_backend \<Rightarrow> string \<Rightarrow> submission_session \<Rightarrow> login_result" where
  "submission_Rcpt b to s =
     (if \<not> authenticated s then (Some ErrAuthRequired, s) else
      case sv_parse (sb_service b) to of
        Inl _ \<Rightarrow> (Some (Reply (reply 553 (5, 1, 3) ''invalid recipient'')), s)
      | Inr _ \<Rightarrow> (None, s\<lparr>ss_recipients := ss_recipients s @ [to]\<rparr>))"

definition submit_session :: "submission_backend \<Rightarrow> string \<Rightarrow> submission_session \<Rightarrow> message io" where
  "submit_session b raw s =
     (case ss_credential s of
        Some _ \<Rightarrow> SubmitForDomain (sb_service b) (senderDomain (ss_mail_from s)) (ss_mail_from s) raw (ss_recipients s)
      | None \<Rightarrow> (case ss_mailbox s of
           Some m \<Rightarrow> Submit (sb_service b) (mb_id m) (ss_mail_from s) raw (ss_recipients s)
         | None \<Rightarrow> fail slice_panic))"

definition submission_Data :: "submission_backend \<Rightarrow> string option \<Rightarrow> submission_session \<Rightarrow> session_error option io" where
  "submission_Data b read s =
     (if \<not> authenticated s then ret (Some ErrAuthRequired)
      else if ss_mail_from s = [] \<or> ss_recipients s = [] then ret (Some (Reply (reply 554 (5, 5, 1) ''sender and recipients required'')))
      else case read of
        None \<Rightarrow> ret (Some (Reply temporary_error))
      | Some raw \<Rightarrow>
          bindE (tryE (submit_session b raw s)) (\<lambda>r.
          case r of
            Inl e \<Rightarrow> ret (Some (if e = slice_panic then Panicked else Reply (submissionError e)))
          | Inr _ \<Rightarrow> ret None))"

definition submission_Reset :: "submission_session \<Rightarrow> submission_session" where
  "submission_Reset s = s\<lparr>ss_mail_from := [], ss_recipients := []\<rparr>"

definition submission_Logout :: "submission_session \<Rightarrow> gate \<Rightarrow> submission_session \<times> gate" where
  "submission_Logout s g = (if ss_released s then (s, g) else (s\<lparr>ss_released := True\<rparr>, Release (ss_remote_ip s) g))"

end
