(* ===== verification/Submission_Login.thy ===== *)
theory Submission_Login
  imports Submission_Server Submission_Auth
begin

text \<open>
  The submission session as a whole: what is submitted was authenticated, and is from addresses of the mailbox or the domains
  of the credential that logged in.
\<close>

section \<open>What a login proves\<close>

record login =
  lo_world :: world
  lo_username :: string
  lo_password :: string

text \<open>The password given belongs to a live app password of the live mailbox, or to a live credential.\<close>

definition proves_mailbox :: "submission_backend \<Rightarrow> login \<Rightarrow> mailbox \<Rightarrow> bool" where
  "proves_mailbox b l m \<longleftrightarrow> m \<in> set (db_mailboxes (w_db (lo_world l))) \<and> equal_fold (mb_primary_address m) (lo_username l)
     \<and> mb_status m = ''active'' \<and> mb_deleted_at m = None
     \<and> (\<exists>a \<in> set (db_app_passwords (w_db (lo_world l))). ap_mailbox_id a = mb_id m \<and> ap_revoked_at a = None \<and> ap_deleted_at a = None
          \<and> ''smtp'' \<in> set (ap_scopes a) \<and> VerifyPassword (sb_key b) (lo_password l) (ap_hash a) = Inr True)"

definition proves_credential :: "submission_backend \<Rightarrow> login \<Rightarrow> smtp_credential \<Rightarrow> bool" where
  "proves_credential b l c \<longleftrightarrow> c \<in> set (db_smtp_credentials (w_db (lo_world l))) \<and> equal_fold (sc_username c) (lo_username l)
     \<and> sc_revoked_at c = None \<and> VerifyPassword (sb_key b) (lo_password l) (sc_hash c) = Inr True"

lemma HasScope_set: "HasScope scopes x \<longleftrightarrow> x \<in> set scopes"
  by (induction scopes) auto

text \<open>The two outcomes of a verification: nothing changed, or the session has what was proved.\<close>

definition logged_in :: "submission_backend \<Rightarrow> login \<Rightarrow> submission_session \<Rightarrow> session_error option \<Rightarrow> submission_session \<Rightarrow> bool" where
  "logged_in b l s e s' \<longleftrightarrow> (if e = None then (\<exists>m. proves_mailbox b l m \<and> s' = s\<lparr>ss_mailbox := Some m\<rparr>)
       \<or> (\<exists>c. proves_credential b l c \<and> s' = s\<lparr>ss_credential := Some c\<rparr>) else s' = s)"

definition tried :: "key_derivation \<Rightarrow> mailbox \<Rightarrow> string \<Rightarrow> app_password list \<Rightarrow> submission_session \<Rightarrow> session_error option \<Rightarrow> submission_session \<Rightarrow> bool" where
  "tried idKey m password items s e s' \<longleftrightarrow> (if e = None then s' = s\<lparr>ss_mailbox := Some m\<rparr>
     \<and> (\<exists>a \<in> set items. VerifyPassword idKey password (ap_hash a) = Inr True \<and> ''smtp'' \<in> set (ap_scopes a)) else s' = s)"

lemma wp_try_passwords:
  "wp (try_passwords idKey m password items s) (\<lambda>r w'. \<exists>e s'. r = Inr (e, s') \<and> tried idKey m password items s e s') w"
proof (induction items)
  case Nil
  show ?case by (simp add: wp_ret tried_def)
next
  case (Cons item items)
  have more: "tried idKey m password items s e s' \<Longrightarrow> tried idKey m password (item # items) s e s'" for e s'
    by (auto simp: tried_def split: if_splits)
  show ?case
  proof (cases "VerifyPassword idKey password (ap_hash item)")
    case (Inl e)
    then show ?thesis by (simp add: wp_ret tried_def)
  next
    case (Inr valid)
    show ?thesis
    proof (cases "valid \<and> HasScope (ap_scopes item) ''smtp''")
      case True
      with Inr show ?thesis by (auto simp: wp_simps HasScope_set tried_def split: list.split)
    next
      case False
      show ?thesis
        unfolding try_passwords.simps Inr sum.case if_not_P [OF False] by (rule wp_mono [OF Cons.IH]) (use more in blast)
    qed
  qed
qed

definition attempt :: "world \<Rightarrow> string \<Rightarrow> string \<Rightarrow> login" where
  "attempt w username password = \<lparr>lo_world = w, lo_username = username, lo_password = password\<rparr>"

lemma wp_mailbox_password:
  "wp (verifyMailboxPassword b username password s) (\<lambda>r w'. \<exists>e s'. r = Inr (e, s') \<and> logged_in b (attempt w username password) s e s') w"
proof -
  let ?p = "\<lambda>m. equal_fold (mb_primary_address m) username \<and> mb_status m = ''active'' \<and> mb_deleted_at m = None"
  let ?ap = "\<lambda>m p. ap_mailbox_id p = mb_id m \<and> ap_revoked_at p = None \<and> ap_deleted_at p = None"
  have fail: "logged_in b l s (Some e) s" for l e by (simp add: logged_in_def)
  have inner: "wp (try_passwords (sb_key b) m password (filter (?ap m) (db_app_passwords (w_db w))) s)
      (\<lambda>r w'. \<exists>e s'. r = Inr (e, s') \<and> logged_in b (attempt w username password) s e s') w2"
    if "only (filter ?p (db_mailboxes (w_db w))) = Inr m" for m w2
  proof (rule wp_mono [OF wp_try_passwords])
    fix r :: "err + session_error option \<times> submission_session" and w3 :: world
    have m: "m \<in> set (db_mailboxes (w_db w)) \<and> ?p m" using only_filter [OF that] .
    assume "\<exists>e s'. r = Inr (e, s') \<and> tried (sb_key b) m password (filter (?ap m) (db_app_passwords (w_db w))) s e s'"
    then obtain e s' where r: "r = Inr (e, s')" and t: "tried (sb_key b) m password (filter (?ap m) (db_app_passwords (w_db w))) s e s'" by blast
    have "logged_in b (attempt w username password) s e s'"
    proof (cases "e = None")
      case True
      with t m have "proves_mailbox b (attempt w username password) m" by (auto simp: proves_mailbox_def attempt_def tried_def)
      with True t show ?thesis by (auto simp: logged_in_def tried_def)
    next
      case False
      with t show ?thesis by (auto simp: logged_in_def tried_def)
    qed
    with r show "\<exists>e s'. r = Inr (e, s') \<and> logged_in b (attempt w username password) s e s'" by blast
  qed
  show ?thesis
  proof (cases "faulty w")
    case True
    with fail show ?thesis by (simp add: verifyMailboxPassword_def wp_bindE wp_tryE wp_selectOnly wp_ret)
  next
    case False
    show ?thesis
    proof (cases "only (filter ?p (db_mailboxes (w_db w)))")
      case (Inl e)
      with False fail show ?thesis by (simp add: verifyMailboxPassword_def wp_bindE wp_tryE wp_selectOnly wp_ret table_defs)
    next
      case (Inr m)
      have q: "wp (bindE (tryE (selectAll T_app_passwords (?ap m))) (\<lambda>q. case q of Inl e \<Rightarrow> ret (Some (GoError e), s)
          | Inr passwords \<Rightarrow> try_passwords (sb_key b) m password passwords s))
        (\<lambda>r w'. \<exists>e s'. r = Inr (e, s') \<and> logged_in b (attempt w username password) s e s') (pop w)"
        using inner [OF Inr] fail by (simp add: wp_bindE wp_tryE wp_selectAll wp_ret table_defs)
      have sel: "fst T_mailboxes (w_db w) = db_mailboxes (w_db w)" by (simp add: table_defs)
      from q show ?thesis
        unfolding verifyMailboxPassword_def wp_bindE [of "tryE (selectOnly _ _)"] wp_tryE [of "selectOnly _ _"] wp_selectOnly sel Inr if_not_P [OF False] sum.case .
    qed
  qed
qed

lemma wp_credential:
  "wp (verifySMTPCredential b username password s) (\<lambda>r w'. \<exists>e s'. r = Inr (e, s') \<and> logged_in b (attempt w username password) s e s') w"
  by (auto simp: verifySMTPCredential_def wp_simps table_defs logged_in_def proves_credential_def attempt_def dest!: only_filter
      split: sum.splits bool.splits list.splits)

lemma wp_verify:
  "wp (verifyCredentials b identity username password s) (\<lambda>r w'. \<exists>e s'. r = Inr (e, s') \<and> logged_in b (attempt w username password) s e s') w"
proof (cases "identity \<noteq> [] \<and> identity \<noteq> username")
  case True
  then show ?thesis by (simp add: verifyCredentials_def wp_ret logged_in_def)
next
  case False
  show ?thesis
    unfolding verifyCredentials_def if_not_P [OF False] wp_if using wp_mailbox_password wp_credential by simp
qed

text \<open>A login through the throttle: a blocked client proves nothing.\<close>

lemma authenticate_run:
  assumes "authenticate_session b identity username password th s w = (Inr (e, th', s'), w')"
  shows "s' = s \<and> e \<noteq> None \<or> (\<exists>w1 th1. Blocked (ss_remote_ip s) th w = (Inr (False, th1), w1) \<and> logged_in b (attempt w1 username password) s e s')"
proof -
  from assms [unfolded authenticate_session_def] obtain x w1 where x: "Blocked (ss_remote_ip s) th w = (Inr x, w1)"
    and rest: "(case x of (blocked, th1) \<Rightarrow> if blocked then ret (Some ErrAuthFailed, th1, s) else
      bindE (verifyCredentials b identity username password s) (\<lambda>(e, s'). if e \<noteq> None then bindE (RecordFailure (ss_remote_ip s) th1) (\<lambda>th2. ret (e, th2, s'))
        else bindE (RecordSuccess (ss_remote_ip s) th1) (\<lambda>th2. ret (None, th2, s')))) w1 = (Inr (e, th', s'), w')"
    by (rule bindE_ok)
  obtain blocked th1 where x': "x = (blocked, th1)" by (cases x)
  show ?thesis
  proof (cases blocked)
    case True
    with rest x' show ?thesis by (auto simp: ret_def)
  next
    case False
    from rest [unfolded x' prod.case if_not_P [OF False]] obtain v w2 where v: "verifyCredentials b identity username password s w1 = (Inr v, w2)"
      and last: "(case v of (e, s') \<Rightarrow> if e \<noteq> None then bindE (RecordFailure (ss_remote_ip s) th1) (\<lambda>th2. ret (e, th2, s'))
        else bindE (RecordSuccess (ss_remote_ip s) th1) (\<lambda>th2. ret (None, th2, s'))) w2 = (Inr (e, th', s'), w')"
      by (rule bindE_ok)
    obtain e1 s1 where v': "v = (e1, s1)" by (cases v)
    from last v' have "e1 = e" "s1 = s'" by (auto simp: ret_def elim!: bindE_ok split: if_splits)
    with wpD [OF wp_verify v] v' have "logged_in b (attempt w1 username password) s e s'" by simp
    with x x' False show ?thesis by auto
  qed
qed

section \<open>Sessions\<close>

text \<open>
  The life of one session, in tables that change between its commands; \<open>ls\<close> are its attempts to log in.  The protocol library
  refuses AUTH once a login has succeeded.
\<close>

inductive submission_run :: "submission_backend \<Rightarrow> login list \<Rightarrow> submission_session \<Rightarrow> bool" for b :: submission_backend where
  start: "submission_NewSession ip g = (Inr s, g') \<Longrightarrow> submission_run b [] s"
| auth: "submission_run b ls s \<Longrightarrow> \<not> authenticated s \<Longrightarrow> authenticate_session b identity username password th s w = (Inr (e, th', s'), w')
    \<Longrightarrow> submission_run b (attempt (snd (Blocked (ss_remote_ip s) th w)) username password # ls) s'"
| mail: "submission_run b ls s \<Longrightarrow> submission_Mail b sender s w = (Inr (e, s'), w') \<Longrightarrow> submission_run b ls s'"
| rcpt: "submission_run b ls s \<Longrightarrow> submission_Rcpt b to s = (e, s') \<Longrightarrow> submission_run b ls s'"
| reset: "submission_run b ls s \<Longrightarrow> submission_run b ls (submission_Reset s)"
| logout: "submission_run b ls s \<Longrightarrow> submission_Logout s g = (s', g') \<Longrightarrow> submission_run b ls s'"

definition proved :: "submission_backend \<Rightarrow> login list \<Rightarrow> submission_session \<Rightarrow> bool" where
  "proved b ls s \<longleftrightarrow> (\<forall>m. ss_mailbox s = Some m \<longrightarrow> ss_credential s = None \<and> (\<exists>l \<in> set ls. proves_mailbox b l m))
     \<and> (\<forall>c. ss_credential s = Some c \<longrightarrow> (\<exists>l \<in> set ls. proves_credential b l c)
          \<and> (ss_mail_from s \<noteq> [] \<longrightarrow> senderDomain (ss_mail_from s) \<in> set (sc_domains c)))
     \<and> (\<not> authenticated s \<longrightarrow> ss_mail_from s = [])"

lemma proved_same:
  "proved b ls s \<Longrightarrow> ss_mailbox s' = ss_mailbox s \<Longrightarrow> ss_credential s' = ss_credential s \<Longrightarrow> ss_mail_from s' \<in> {ss_mail_from s, []}
    \<Longrightarrow> proved b ls s'"
  by (auto simp: proved_def authenticated_def)

lemma proved_auth:
  assumes "proved b ls s" and "\<not> authenticated s" and "logged_in b l s e s'"
  shows "proved b (l # ls) s'"
proof -
  have none: "ss_mailbox s = None" "ss_credential s = None" "ss_mail_from s = []"
    using assms(1,2) by (auto simp: proved_def authenticated_def)
  show ?thesis
  proof (cases "e = None")
    case True
    with assms(3) none show ?thesis by (auto simp: logged_in_def proved_def authenticated_def)
  next
    case False
    with assms(3) none show ?thesis by (auto simp: logged_in_def proved_def authenticated_def)
  qed
qed

lemma Mail_run:
  assumes "submission_Mail b sender s w = (Inr (e, s'), w')"
  shows "s' = s \<or> authenticated s \<and> (\<exists>a. s' = s\<lparr>ss_mail_from := a, ss_recipients := []\<rparr>
     \<and> (\<forall>c. ss_credential s = Some c \<longrightarrow> senderDomain a \<in> set (sc_domains c)))"
proof (cases "authenticated s")
  case False
  with assms show ?thesis by (auto simp: submission_Mail_def ret_def)
next
  case True
  note auth = True
  show ?thesis
  proof (cases "sv_parse (sb_service b) sender")
    case (Inl x)
    with True assms show ?thesis by (auto simp: submission_Mail_def ret_def)
  next
    case (Inr a)
    obtain r w1 where r: "senderAllowed s a w = (r, w1)" by (cases "senderAllowed s a w")
    from assms auth Inr r have m: "(case r of Inl _ \<Rightarrow> ret (Some (Reply temporary_error), s)
        | Inr False \<Rightarrow> ret (Some (Reply (reply 553 (5, 7, 1) ''sender not allowed'')), s)
        | Inr True \<Rightarrow> ret (None, s\<lparr>ss_mail_from := a, ss_recipients := []\<rparr>)) w1 = (Inr (e, s'), w')"
      by (simp add: submission_Mail_def bindE_def tryE_def)
    show ?thesis
    proof (cases "r = Inr True")
      case True
      with r have "\<forall>c. ss_credential s = Some c \<longrightarrow> senderDomain a \<in> set (sc_domains c)" by (auto simp: senderAllowed_def ret_def)
      with m True auth show ?thesis by (auto simp: ret_def)
    next
      case False
      with m show ?thesis by (auto simp: ret_def split: sum.splits bool.splits)
    qed
  qed
qed

lemma run_proved: "submission_run b ls s \<Longrightarrow> proved b ls s"
proof (induction rule: submission_run.induct)
  case (start ip g s g')
  then show ?case by (auto simp: submission_NewSession_def proved_def authenticated_def split: prod.splits bool.splits)
next
  case (auth ls s identity username password th w e th' s' w')
  from authenticate_run [OF auth.hyps(3)] show ?case
  proof (elim disjE exE conjE)
    assume "s' = s"
    with auth.IH auth.hyps(2) show ?case by (auto simp: proved_def authenticated_def)
  next
    fix w1 th1
    assume "Blocked (ss_remote_ip s) th w = (Inr (False, th1), w1)" "logged_in b (attempt w1 username password) s e s'"
    with proved_auth [OF auth.IH auth.hyps(2)] show ?case by simp
  qed
next
  case (mail ls s sender w e s' w')
  from Mail_run [OF mail.hyps(2)] mail.IH show ?case by (auto simp: proved_def authenticated_def)
next
  case (rcpt ls s to e s')
  then show ?case by (intro proved_same [OF rcpt.IH]) (auto simp: submission_Rcpt_def split: if_splits sum.splits)
next
  case (reset ls s)
  show ?case by (rule proved_same [OF reset.IH]) (simp_all add: submission_Reset_def)
next
  case (logout ls s g s' g')
  then show ?case by (intro proved_same [OF logout.IH]) (auto simp: submission_Logout_def split: if_splits)
qed

text \<open>What a submission for a mailbox, or for the domains of a credential, has stored.\<close>

definition sent_for_mailbox :: "submission_backend \<Rightarrow> string \<Rightarrow> mailbox \<Rightarrow> string \<Rightarrow> world \<Rightarrow> world \<Rightarrow> bool" where
  "sent_for_mailbox b sender m raw w w' \<longleftrightarrow> (\<exists>m' address p. \<exists>msg :: message. m' \<in> set (db_mailboxes (w_db w)) \<and> mb_id m' = mb_id m \<and> mb_status m' = ''active''
     \<and> mb_deleted_at m' = None \<and> sv_parse (sb_service b) sender = Inr address \<and> owns (db_routes (w_db w)) m' address
     \<and> prepared_ok (sb_service b) (owns (db_routes (w_db w)) m') raw address p \<and> map_of (w_blobs w') (me_blob_key msg) = Some (pm_signed p))"

definition sent_for_domain :: "submission_backend \<Rightarrow> string \<Rightarrow> string \<Rightarrow> string \<Rightarrow> world \<Rightarrow> bool" where
  "sent_for_domain b sender domain raw w' \<longleftrightarrow> (\<exists>address p. \<exists>msg :: message. sv_parse (sb_service b) sender = Inr address \<and> inDomain address (to_lower (trim_space domain))
     \<and> prepared_ok (sb_service b) (\<lambda>a. inDomain a (to_lower (trim_space domain))) raw address p
     \<and> map_of (w_blobs w') (me_blob_key msg) = Some (pm_signed p))"

text \<open>
  C4.  Nothing is sent without a login, and nobody sends as somebody else.  When a session answers DATA with success, an earlier
  attempt of the session to log in, made while its client was not locked out, gave the password of a live app password with the
  scope \<^verbatim>\<open>smtp\<close> of a live mailbox, or of a live credential.  The stored and signed message then has only senders, in the
  envelope and in its From field, that belong to this mailbox, or that are in one of the domains of this credential.
\<close>

theorem submission_needs_login:
  assumes "submission_run b ls s" and "submission_Data b read s w = (Inr None, w')"
  shows "(\<exists>raw m. read = Some raw \<and> ss_mailbox s = Some m \<and> (\<exists>l \<in> set ls. proves_mailbox b l m) \<and> sent_for_mailbox b (ss_mail_from s) m raw w w')
    \<or> (\<exists>raw c domain. read = Some raw \<and> ss_credential s = Some c \<and> (\<exists>l \<in> set ls. proves_credential b l c) \<and> domain \<in> set (sc_domains c)
         \<and> sent_for_domain b (ss_mail_from s) domain raw w')"
proof -
  note p = run_proved [OF assms(1)]
  from assms(2) obtain raw where raw: "read = Some raw" and from0: "ss_mail_from s \<noteq> []" and auth: "authenticated s"
    by (auto simp: submission_Data_def ret_def split: if_splits option.splits)
  obtain r w1 where r: "submit_session b raw s w = (r, w1)" by (cases "submit_session b raw s w")
  with assms(2) raw obtain msg where ok: "submit_session b raw s w = (Inr msg, w')"
    by (cases r) (auto simp: submission_Data_def bindE_def tryE_def ret_def split: if_splits)
  show ?thesis
  proof (cases "ss_credential s")
    case (Some c)
    with ok have "SubmitForDomain (sb_service b) (senderDomain (ss_mail_from s)) (ss_mail_from s) raw (ss_recipients s) w = (Inr msg, w')"
      by (simp add: submit_session_def)
    from submit_domain_run [OF this] have "sent_for_domain b (ss_mail_from s) (senderDomain (ss_mail_from s)) raw w'"
      unfolding sent_for_domain_def by blast
    with p Some raw from0 show ?thesis by (auto simp: proved_def)
  next
    case None
    with auth obtain m where m: "ss_mailbox s = Some m" by (auto simp: authenticated_def)
    with None ok have "Submit (sb_service b) (mb_id m) (ss_mail_from s) raw (ss_recipients s) w = (Inr msg, w')"
      by (simp add: submit_session_def)
    from submit_run [OF this] have "sent_for_mailbox b (ss_mail_from s) m raw w w'" unfolding sent_for_mailbox_def by blast
    with p m raw show ?thesis by (auto simp: proved_def)
  qed
qed

definition sample_login_backend :: submission_backend where
  "sample_login_backend = \<lparr>sb_service = sample_submission, sb_key = toy_key\<rparr>"

definition sample_hash :: string where
  "sample_hash = ''argon2id$v=19$m=65536,t=1,p=4$'' @ base64_encode ''salt'' @ ''$'' @ base64_encode ''k''"

lemma sample_hash: "VerifyPassword toy_key ''k'' sample_hash = Inr True"
proof -
  have "parseHash sample_hash = Inr (\<lparr>hp_memory = 65536, hp_time = 1, hp_threads = 4\<rparr>, ''salt'', ''k'')"
    unfolding parseHash_def Let_def sample_hash_def split_hash by (simp add: hash_params base64_round_trip)
  then show ?thesis by (simp add: VerifyPassword_def toy_key_def)
qed

definition login_world :: world where
  "login_world = world_of (sample_db\<lparr>db_app_passwords := [\<lparr>ap_id = ''p'', ap_mailbox_id = ''box'', ap_hash = sample_hash,
     ap_scopes = [''smtp''], ap_last_used_at = None, ap_revoked_at = None, ap_deleted_at = None\<rparr>]\<rparr>)"

definition fresh_session :: submission_session where
  "fresh_session = \<lparr>ss_remote_ip = ''k'', ss_mailbox = None, ss_credential = None, ss_mail_from = [], ss_recipients = [], ss_released = False\<rparr>"

lemma sample_authenticated:
  "case fst (authenticate_session sample_login_backend [] ''Ann@example.org'' ''k'' (NewFailureThrottle 10 600 900) fresh_session login_world) of
     Inr (None, _, s) \<Rightarrow> ss_credential s = None \<and> map_option (\<lambda>m. (mb_id m, mb_primary_address m)) (ss_mailbox s) = Some (''box'', ''ann@example.org'')
   | _ \<Rightarrow> False"
proof -
  have n: "contains ''Ann@example.org'' ''@''" "equal_fold ''ann@example.org'' ''Ann@example.org''" by code_simp+
  have k: "sb_key sample_login_backend = toy_key" by (simp add: sample_login_backend_def)
  show ?thesis
    by (simp add: authenticate_session_def Blocked_def blockedLocally_def NewFailureThrottle_def bindE_def tryE_def now_def ret_def
        verifyCredentials_def verifyMailboxPassword_def n k sample_hash RecordSuccess_def fresh_session_def login_world_def world_of_def sample_db_def
        empty_db_def sample_mailbox_def table_defs Let_def updateOne_def dbcall_eq faulty_def pop_def)
qed

theorem submission_needs_login_witness:
  "\<exists>s ls m. submission_run sample_login_backend ls s \<and> (\<exists>l \<in> set ls. proves_mailbox sample_login_backend l m)
     \<and> sent_for_mailbox sample_login_backend ''ann@example.org'' m ([LF] @ ''hi'') submission_world submitted_world"
proof -
  let ?b = sample_login_backend and ?th = "NewFailureThrottle 10 600 900"
  let ?auth = "authenticate_session ?b [] ''Ann@example.org'' ''k'' ?th fresh_session login_world"
  obtain th1 s1 m where a: "fst ?auth = Inr (None, th1, s1)" and s1: "ss_mailbox s1 = Some m" "ss_credential s1 = None"
    and m: "mb_id m = ''box''" "mb_primary_address m = ''ann@example.org''"
    using sample_authenticated by (auto split: sum.splits prod.splits option.splits)
  have "submission_NewSession ''k'' (NewConcurrencyGate 0) = (Inr fresh_session, NewConcurrencyGate 0)"
    by (simp add: submission_NewSession_def Acquire_def NewConcurrencyGate_def fresh_session_def)
  note r0 = submission_run.start [OF this, of ?b]
  have "\<not> authenticated fresh_session" by (simp add: authenticated_def fresh_session_def)
  note r1 = submission_run.auth [OF r0 this prod.collapse [of ?auth, unfolded a, symmetric]]
  let ?s2 = "s1\<lparr>ss_mail_from := ''ann@example.org'', ss_recipients := []\<rparr>" and ?s3 = "s1\<lparr>ss_mail_from := ''ann@example.org'', ss_recipients := [''bob@example.net'']\<rparr>"
  have v: "sv_parse sample_submission = Inr" "sb_service ?b = sample_submission" by (simp_all add: sample_login_backend_def sample_submission_def)
  have own: "equal_fold (to_lower (trim_space ''ann@example.org'')) ''ann@example.org''" by code_simp
  have "submission_Mail ?b ''ann@example.org'' s1 submission_world = (Inr (None, ?s2), submission_world)"
    using s1 m own by (simp add: submission_Mail_def authenticated_def v senderAllowed_def SenderAllowed_def Let_def bindE_def tryE_def ret_def)
  note r2 = submission_run.mail [OF r1 this]
  have "submission_Rcpt ?b ''bob@example.net'' ?s2 = (None, ?s3)" using s1 by (simp add: submission_Rcpt_def authenticated_def v)
  note r3 = submission_run.rcpt [OF r2 this]
  from submitted_run obtain msg where msg: "sample_submit submission_world = (Inr msg, submitted_world)"
    by (auto simp: submitted_world_def split: prod.splits)
  have d: "submission_Data ?b (Some ([LF] @ ''hi'')) ?s3 submission_world = (Inr None, submitted_world)"
    using s1 m msg by (simp add: submission_Data_def authenticated_def submit_session_def v bindE_def tryE_def ret_def)
  from submission_needs_login [OF r3 d] s1 have "\<exists>l \<in> set [attempt (snd (Blocked (ss_remote_ip fresh_session) ?th login_world)) ''Ann@example.org'' ''k''].
      proves_mailbox ?b l m" "sent_for_mailbox ?b ''ann@example.org'' m ([LF] @ ''hi'') submission_world submitted_world" by auto
  with r3 show ?thesis by blast
qed

section \<open>The LOGIN exchange\<close>

text \<open>However the client answers, an exchange authenticates at most once, with a user name that is not empty, and is over after three responses.\<close>

fun login_exchange :: "string option list \<Rightarrow> login_server \<Rightarrow> login_answer list" where
  "login_exchange [] s = []"
| "login_exchange (r # rs) s = (case login_Next r s of (a, s') \<Rightarrow> a # login_exchange rs s')"

definition is_challenge :: "login_answer \<Rightarrow> bool" where
  "is_challenge a \<longleftrightarrow> (case a of Challenge _ \<Rightarrow> True | _ \<Rightarrow> False)"

lemma login_ends: "3 \<le> length rs \<Longrightarrow> \<exists>a \<in> set (take 3 (login_exchange rs newLoginServer)). \<not> is_challenge a"
  by (cases rs; cases "tl rs"; cases "tl (tl rs)") (auto simp: login_Next_def newLoginServer_def is_challenge_def)

end
