(* ===== verification/Spec2Isabelle.thy ===== *)
theory Spec2Isabelle
  imports Cleanup_Props Inbound_Props Mailstore_Props Relay_Progress Submission_Login
begin

text \<open>
  A verification development for the haitatsu mail server.  Names of files are relative to \<^verbatim>\<open>src/internal\<close>; a definition has
  the name of the Go function it models, with a suffix or a prefix where HOL already has the name.

  \<^bold>\<open>The program.\<close>  A message comes in over one of two SMTP servers.  The inbound server (\<^verbatim>\<open>smtp/inbound\<close>) resolves each recipient
  to mailboxes (\<^verbatim>\<open>routing\<close>) or to a message this server sent (\<^verbatim>\<open>bounce\<close>), assesses the message (\<^verbatim>\<open>spam\<close>) and delivers it
  (\<^verbatim>\<open>messages\<close>): the object goes to the object store, one row per mailbox to the mail store (\<^verbatim>\<open>mailstore\<close>), and the routing
  rules (\<^verbatim>\<open>rules\<close>) run on the new rows.  The submission server (\<^verbatim>\<open>smtp/submission\<close>) logs a client in (\<^verbatim>\<open>auth\<close>), normalises and
  signs its message, files it in Sent and queues an outbound job (\<^verbatim>\<open>outbound/submission.go\<close>).  Workers on any number of nodes
  take jobs and events by leases: the relay (\<^verbatim>\<open>outbound/relay.go\<close>), the webhooks (\<^verbatim>\<open>webhooks\<close>) and the cleanup (\<^verbatim>\<open>cleanup\<close>),
  which deletes what nothing refers to any more.  The mail store publishes every change to the sessions that watch a folder.

  \<^bold>\<open>State and effects.\<close>  \<^theory_text>\<open>World\<close> has one record per table of \<^verbatim>\<open>database/ent/schema\<close>, the database as a record of tables and
  the world: database, objects, clock, supply of identifiers, notifier, and the list of faults that decides which calls to the
  database or the object store fail.  A handler is a function \<open>world \<Rightarrow> (err + 'a) \<times> world\<close>, so a theorem about a handler speaks
  of every choice of failing calls; \<open>in_tx\<close> puts the tables back on an error, also of the commit.  State of one
  process that is not in the database (limiters, gates, login throttle, sessions) is a record that the handlers take and return.
  Runs of several operations are inductive relations over these handlers.  There is one clock: the time of the database and of
  the nodes is the same, it stands still within a handler and advances between the steps of a run.

  \<^bold>\<open>Shared theories.\<close>  \<^theory_text>\<open>Prelude\<close>: strings, bytes, slices and the collections of rules.  \<^theory_text>\<open>Clock\<close>: the date layouts.
  \<^theory_text>\<open>World\<close>, \<^theory_text>\<open>Io_Logic\<close>: the state, the weakest preconditions \<open>wp\<close> and the invariant rules \<open>preserves\<close>.  \<^theory_text>\<open>Queue\<close>: the
  locales \<open>lease_queue\<close> and \<open>guarded_queue\<close>.  \<^theory_text>\<open>Samples\<close>: the concrete states of the witnesses.

  \<^bold>\<open>Components and what is shown.\<close>
  \<^item> Mail store: \<^theory_text>\<open>Flags\<close> (\<^verbatim>\<open>mailstore/flags.go\<close>), \<^theory_text>\<open>Notify\<close> (\<^verbatim>\<open>notify.go\<close>), \<^theory_text>\<open>Mailstore\<close> (\<^verbatim>\<open>store.go\<close>).  \<^theory_text>\<open>Mailstore_Spec\<close> gives
    each transaction its effect on the tables and the contract \<open>uid_allocator\<close>; \<^theory_text>\<open>Mailstore_Inv\<close> has the contract
    \<open>uid_container\<close>, interpreted for folders and labels, and the two invariants; \<^theory_text>\<open>Mailstore_Run\<close> the runs of all operations,
    purges, backfill, cleanup and recomputation among them, with a ledger of what moves from a stale copy of a row and failed
    purges leave wrong in the accounts; \<^theory_text>\<open>Mailstore_Props\<close>: unique UIDs, accounts exact up to the ledger, quota, atomicity,
    equivalence of the batched and the single deletion, repair, purge.
  \<^item> Recipients: \<^theory_text>\<open>Routing\<close> (\<^verbatim>\<open>routing/routing.go\<close>, \<^verbatim>\<open>mailaddr/reserved.go\<close>): soundness (an answer stands for the recipient and
    names what its source says), and refinement of the first hit of six lookups; the locale \<open>lookup\<close> is what the stages have in common.
  \<^item> Limits and logins: \<^theory_text>\<open>Ratelimit\<close> (\<^verbatim>\<open>ratelimit/ratelimit.go\<close>, locale \<open>slots\<close>), \<^theory_text>\<open>Throttle\<close> (\<^verbatim>\<open>auth/throttle.go\<close>),
    \<^theory_text>\<open>Password\<close> (\<^verbatim>\<open>auth/password.go\<close>).
  \<^item> Message text: \<^theory_text>\<open>Rfc822\<close>, \<^theory_text>\<open>Rfc822_Props\<close>, \<^theory_text>\<open>Headers\<close> (\<^verbatim>\<open>mailparse/rfc822.go\<close>, \<^verbatim>\<open>compose.go\<close>), \<^theory_text>\<open>Mime\<close>
    (\<^verbatim>\<open>mailparse.go\<close>, \<^verbatim>\<open>limits.go\<close>): where the header ends, by a rule on positions and lines of its own; normal line ends;
    field removal; folding; the bounded walk over the parts and the metadata as a function of them.
  \<^item> Assessment: \<^theory_text>\<open>Spf\<close>, \<^theory_text>\<open>Spam\<close>, \<^theory_text>\<open>Spam_Props\<close> (\<^verbatim>\<open>spam/*.go\<close>): the lookup budget and soundness of SPF, DMARC, sender rules, the
    placement per mailbox.
  \<^item> Configuration: \<^theory_text>\<open>Config\<close> (\<^verbatim>\<open>config/config.go\<close>): the rules a loaded configuration meets, the retry delays, what a reload
    needs a restart for.
  \<^item> Delivery: \<^theory_text>\<open>Delivery\<close>, \<^theory_text>\<open>Delivery_Props\<close> (\<^verbatim>\<open>messages/delivery.go\<close>), \<^theory_text>\<open>Rules\<close> (\<^verbatim>\<open>events/events.go\<close>, \<^verbatim>\<open>rules/rules.go\<close>):
    all mailboxes or none.
  \<^item> Submission: \<^theory_text>\<open>Submission\<close>, \<^theory_text>\<open>Submission_Props\<close>, \<^theory_text>\<open>Submission_Auth\<close> (\<^verbatim>\<open>outbound/submission.go\<close>): the hourly limits over whole
    runs, and whose addresses a signed message can carry.
  \<^item> Workers: \<^theory_text>\<open>Relay\<close>, \<^theory_text>\<open>Webhooks\<close>, \<^theory_text>\<open>Relay_Props\<close>, \<^theory_text>\<open>Relay_Progress\<close> (\<^verbatim>\<open>outbound/relay.go\<close>, \<^verbatim>\<open>webhooks/worker.go\<close>): the
    interpretations of the lease contracts on both tables, exclusive leases but for late finishes on the same node, progress;
    \<^theory_text>\<open>Cleanup\<close>, \<^theory_text>\<open>Cleanup_Rows\<close>, \<^theory_text>\<open>Cleanup_Props\<close> (\<^verbatim>\<open>cleanup/worker.go\<close>): relative to the tables at the start no row, job,
    mailbox or message that is needed is lost.
  \<^item> Bounces: \<^theory_text>\<open>Bounce\<close>, \<^theory_text>\<open>Bounce_Props\<close> (\<^verbatim>\<open>bounce/bounce.go\<close>): the return path of a submission names its message again, and a
    notification is recorded as a whole.
  \<^item> SMTP servers: \<^theory_text>\<open>Inbound\<close>, \<^theory_text>\<open>Inbound_Props\<close> (\<^verbatim>\<open>smtp/inbound\<close>): bounds on connections and, in any period of a run, on
    recipients, where the recipients of a session come from, and the truth of the reply to DATA, on top of delivery, assessment and bounces; \<^theory_text>\<open>Submission_Server\<close>, \<^theory_text>\<open>Submission_Login\<close>
    (\<^verbatim>\<open>smtp/submission\<close>): nothing is sent without a proved login, on top of the password check and \<^theory_text>\<open>Submission_Auth\<close>.

  \<^bold>\<open>Loops.\<close>  Loops over data are recursive functions with a measure.  Three loops of the source go on as long as a table or a peer
  keeps them busy: the search for orphaned messages has the fuel \<open>orphan_fuel\<close>, one page for each message and one more, which
  \<open>orphan_pages_enough\<close> shows to be enough; the SPF evaluation recurses within its budget of lookups, which \<open>spf_bounded\<close>
  bounds; a worker's turn is one step, and the number of turns a queue takes is the subject of \<open>queue_drains\<close>.

  \<^bold>\<open>Parameters.\<close>  Code that is not in the repository is an argument: \<^verbatim>\<open>mail.ParseAddress\<close>, go-message, the multipart reader,
  \<^verbatim>\<open>mime.ParseMediaType\<close>, \<^verbatim>\<open>ulid.Parse\<close>, the parsers of network addresses, DNS, DKIM signing and verification, Argon2id,
  SHA-256, HMAC, the SMTP peer, the HTTP client, the reader of the configuration.  What a theorem needs of one is a hypothesis of
  the theorem.  Of the SMTP library the runs assume what it documents: recipients only inside a transaction, a reset after DATA,
  no second login.

  \<^bold>\<open>Simplifications.\<close>  A Go \<^verbatim>\<open>int\<close> is an integer, wrapped where the code multiplies or counts in 32 bits; \<^verbatim>\<open>float64\<close> is an
  exact rational.  Case folding and white space are those of ASCII.  JSON columns hold well-formed values.  Counters, log lines,
  time-outs and tickers are left out.

  \<^bold>\<open>Not modelled.\<close>  The IMAP server, the HTTP API, import and export, certificates, the S3 client, the database drivers, the
  generated client, the prompt of the remote evaluator, the rendering of failure reports and the start-up code: they wrap
  third-party libraries and services, or call one modelled operation and encode its result.
\<close>

end
